(* ===== verification/Prelude.thy ===== *)
theory Prelude
  imports Main "HOL-Library.Word" "HOL-Library.Monad_Syntax" "HOL-Library.Multiset"
begin

unbundle bit_operations_syntax

text \<open>
  Shared ground of the development: the machine integer types of the C sources, the
  collections of rewrite rules that the component theories extend, and the generic facts on
  lists, options and words that more than one component uses.

  Conventions. A failing \<open>ASSERT\<close> or another abort of the C code is the value \<open>None\<close>; a
  call of \<open>fail\<close> (which never returns) is an \<open>Inl\<close>. C's \<open>int\<close> is \<open>int\<close> where the code
  cannot overflow it, the fixed-width unsigned types are words.
\<close>

type_synonym u8 = "8 word"
type_synonym u16 = "16 word"
type_synonym u32 = "32 word"
type_synonym u64 = "64 word"

named_theorems bpf_simps
  \<open>how one instruction of the classic BPF machine changes the registers\<close>
named_theorems codegen_simps
  \<open>unfolding rules of the code generator's small helpers\<close>
named_theorems wf_intros
  \<open>preservation of the components' well-formedness invariants\<close>

section \<open>Options\<close>

lemma bind_SomeE [elim]:
  assumes "Option.bind x f = Some y"
  obtains a where "x = Some a" and "f a = Some y"
  using assms by (cases x) auto

lemma if_None_SomeD:
  "(if b then x else None) = Some y \<Longrightarrow> b \<and> x = Some y"
  by (simp split: if_splits)

section \<open>Lists\<close>

lemma rev_take_Suc_snoc [simp]:
  "n = length xs \<Longrightarrow> rev (take (Suc n) (xs @ [x])) = x # rev xs"
  by simp

lemma drop_rev_eq: "n \<le> length xs \<Longrightarrow> drop n (rev xs) = rev (take (length xs - n) xs)"
  by (simp add: rev_take)

lemma take_prefix_append: "n \<le> length xs \<Longrightarrow> take n (xs @ ys) = take n xs"
  by simp

lemma nth_append_less [simp]: "i < length xs \<Longrightarrow> (xs @ ys) ! i = xs ! i"
  by (simp add: nth_append)

lemma half_less: "1 < (n :: nat) \<Longrightarrow> n - n div 2 < n"
  by simp

section \<open>Arrays\<close>

text \<open>Access to an array; outside of it the behaviour of C is undefined.\<close>

definition read_at :: "'a list \<Rightarrow> nat \<Rightarrow> 'a option" where
  "read_at xs i = (if i < length xs then Some (xs ! i) else None)"

definition write_at :: "'a list \<Rightarrow> nat \<Rightarrow> 'a \<Rightarrow> 'a list option" where
  "write_at xs i x = (if i < length xs then Some (xs[i := x]) else None)"

lemma read_at_Some: "read_at xs i = Some x \<longleftrightarrow> i < length xs \<and> x = xs ! i"
  by (auto simp: read_at_def)

lemma read_at_less: "i < length xs \<Longrightarrow> read_at xs i = Some (xs ! i)"
  by (simp add: read_at_def)

lemma write_at_less: "i < length xs \<Longrightarrow> write_at xs i x = Some (xs[i := x])"
  by (simp add: write_at_def)

lemma write_at_Some: "write_at xs i x = Some ys \<longleftrightarrow> i < length xs \<and> ys = xs[i := x]"
  by (auto simp: write_at_def)

section \<open>The C library's \<open>qsort\<close>\<close>

text \<open>
  \<open>qsort\<close> leaves the elements in an order in which no element compares greater than a later
  one. Under a comparison that never answers 0 for two different positions there is one such
  order, whatever algorithm the library uses; insertion sort computes it.
\<close>

fun insert_by :: "('a \<Rightarrow> 'a \<Rightarrow> int) \<Rightarrow> 'a \<Rightarrow> 'a list \<Rightarrow> 'a list" where
  "insert_by cmp x [] = [x]"
| "insert_by cmp x (y # ys) = (if cmp x y \<le> 0 then x # y # ys else y # insert_by cmp x ys)"

definition qsort :: "('a \<Rightarrow> 'a \<Rightarrow> int) \<Rightarrow> 'a list \<Rightarrow> 'a list" where
  "qsort cmp xs = foldr (insert_by cmp) xs []"

lemma mset_insert_by [simp]: "mset (insert_by cmp x xs) = add_mset x (mset xs)"
  by (induction xs) auto

lemma mset_qsort [simp]: "mset (qsort cmp xs) = mset xs"
  by (induction xs) (auto simp: qsort_def)

lemma set_qsort [simp]: "set (qsort cmp xs) = set xs"
  by (metis mset_qsort set_mset_mset)

lemma length_qsort [simp]: "length (qsort cmp xs) = length xs"
  by (metis mset_qsort size_mset)

section \<open>Words: the two halves of a 64-bit value\<close>

definition lo32 :: "u64 \<Rightarrow> u32" where
  "lo32 x = ucast x"

definition hi32 :: "u64 \<Rightarrow> u32" where
  "hi32 x = ucast (drop_bit 32 x)"

lemma unat_lo32: "unat (lo32 x) = unat x mod 2 ^ 32"
  by (simp add: lo32_def unsigned_ucast_eq take_bit_eq_mod)

lemma unat_hi32: "unat (hi32 x) = unat x div 2 ^ 32"
proof -
  have "unat x < 2 ^ 64"
    using unsigned_less [of x] by simp
  then have "unat x div 2 ^ 32 < 2 ^ 32"
    by (simp add: less_mult_imp_div_less)
  moreover have "unat (hi32 x) = take_bit 32 (drop_bit 32 (unat x))"
    unfolding hi32_def by (simp only: unsigned_ucast_eq unat_drop_bit_eq) simp
  ultimately show ?thesis
    by (simp add: take_bit_eq_mod drop_bit_eq_div)
qed

lemma unat_split32: "unat x = unat (hi32 x) * 2 ^ 32 + unat (lo32 x)"
  by (simp add: unat_lo32 unat_hi32)

lemma eq_split32: "x = y \<longleftrightarrow> hi32 x = hi32 y \<and> lo32 x = lo32 y"
proof
  assume "hi32 x = hi32 y \<and> lo32 x = lo32 y"
  then have "unat x = unat y"
    using unat_split32 [of x] unat_split32 [of y] by simp
  then show "x = y" by (simp add: word_unat_eq_iff)
qed simp

lemma lt_split32: "x < y \<longleftrightarrow> hi32 x < hi32 y \<or> hi32 x = hi32 y \<and> lo32 x < lo32 y"
proof -
  have "unat (lo32 x) < 2 ^ 32" and "unat (lo32 y) < 2 ^ 32"
    by (simp_all add: unat_lo32)
  then show ?thesis
    using unat_split32 [of x] unat_split32 [of y]
    unfolding word_less_nat_alt word_unat_eq_iff by auto
qed

lemma le_split32: "x \<le> y \<longleftrightarrow> hi32 x < hi32 y \<or> hi32 x = hi32 y \<and> lo32 x \<le> lo32 y"
  using lt_split32 [of x y] eq_split32 [of x y] by (auto simp: order_le_less)

lemma lo32_and [simp]: "lo32 (x AND y) = lo32 x AND lo32 y"
  by (simp add: lo32_def unsigned_and_eq)

lemma hi32_and [simp]: "hi32 (x AND y) = hi32 x AND hi32 y"
  by (simp add: hi32_def unsigned_and_eq drop_bit_and)

lemma hi32_zero_iff: "hi32 x = 0 \<longleftrightarrow> unat x < 2 ^ 32"
  by (simp add: word_unat_eq_iff unat_hi32 div_eq_0_iff)

lemma lo32_small: "hi32 x = 0 \<Longrightarrow> unat (lo32 x) = unat x"
  by (simp add: hi32_zero_iff unat_lo32)

lemma unat_ucast_32_64: "unat (ucast (w :: u32) :: u64) = unat w"
proof -
  have "unat w < 2 ^ 32" using unsigned_less [of w] by simp
  then show ?thesis by (simp add: unsigned_ucast_eq take_bit_nat_eq_self)
qed

lemma lo32_ucast [simp]: "lo32 (ucast (w :: u32)) = w"
proof -
  have "unat w < 2 ^ 32" using unsigned_less [of w] by simp
  then have "unat (lo32 (ucast w)) = unat w" by (simp add: unat_lo32 unat_ucast_32_64)
  then show ?thesis by (simp add: word_unat_eq_iff)
qed

lemma hi32_ucast [simp]: "hi32 (ucast (w :: u32)) = 0"
  using unsigned_less [of w] by (simp add: hi32_zero_iff unat_ucast_32_64)

lemma unat_succ_word: "(y :: u32) < x \<Longrightarrow> unat (y + 1) = Suc (unat y)"
proof -
  assume "y < x"
  then have "unat y + 1 < 2 ^ 32"
    using unsigned_less [of x, where 'a=nat] by (simp add: word_less_nat_alt)
  then show ?thesis by (simp add: unat_word_ariths)
qed

lemma unat_succ_max: "(y :: u32) \<noteq> - 1 \<Longrightarrow> unat (y + 1) = Suc (unat y)"
  by (rule unat_succ_word [of _ "- 1"]) (simp add: order_less_le)

lemma le_max32 [simp]: "(n :: u32) \<le> 0xffffffff"
proof -
  have "unat n < 2 ^ LENGTH(32)" by (rule unsigned_less)
  then show ?thesis by (simp add: word_le_nat_alt)
qed

end
