(* ===== verification/Kafel_Bpf.thy ===== *)
theory Kafel_Bpf
  imports Prelude
begin

unbundle bit_operations_syntax

text \<open>
  The target of the Kafel compiler: classic BPF instructions (\<open>struct sock_filter\<close>), the
  \<open>struct seccomp_data\<close> a filter inspects, and the contract of the machine that runs the
  filter. The machine itself is the kernel's; the compiler's proofs rest only on the laws of
  the locale \<open>bpf_machine\<close>, one per instruction the compiler emits, with the meaning the
  disassembler \<open>tools/dump_policy_bpf/disasm.c\<close> prints for it. The executable machine
  \<open>bpf_exec\<close> satisfies the contract.
\<close>

section \<open>Instructions\<close>

record sock_filter =
  code :: u16
  jt :: u8
  jf :: u8
  k :: u32

text \<open>Opcode constants of \<open>linux/filter.h\<close> and \<open>linux/bpf_common.h\<close>.\<close>

abbreviation (input) "BPF_LD \<equiv> (0x00 :: u16)"
abbreviation (input) "BPF_ALU \<equiv> (0x04 :: u16)"
abbreviation (input) "BPF_JMP \<equiv> (0x05 :: u16)"
abbreviation (input) "BPF_RET \<equiv> (0x06 :: u16)"
abbreviation (input) "BPF_MISC \<equiv> (0x07 :: u16)"
abbreviation (input) "BPF_W \<equiv> (0x00 :: u16)"
abbreviation (input) "BPF_IMM \<equiv> (0x00 :: u16)"
abbreviation (input) "BPF_ABS \<equiv> (0x20 :: u16)"
abbreviation (input) "BPF_AND \<equiv> (0x50 :: u16)"
abbreviation (input) "BPF_JA \<equiv> (0x00 :: u16)"
abbreviation (input) "BPF_JEQ \<equiv> (0x10 :: u16)"
abbreviation (input) "BPF_JGT \<equiv> (0x20 :: u16)"
abbreviation (input) "BPF_JGE \<equiv> (0x30 :: u16)"
abbreviation (input) "BPF_JSET \<equiv> (0x40 :: u16)"
abbreviation (input) "BPF_K \<equiv> (0x00 :: u16)"
abbreviation (input) "BPF_X \<equiv> (0x08 :: u16)"
abbreviation (input) "BPF_TAX \<equiv> (0x00 :: u16)"

definition BPF_STMT :: "u16 \<Rightarrow> u32 \<Rightarrow> sock_filter" where
  "BPF_STMT c v = \<lparr>code = c, jt = 0, jf = 0, k = v\<rparr>"

definition BPF_JUMP :: "u16 \<Rightarrow> u32 \<Rightarrow> u8 \<Rightarrow> u8 \<Rightarrow> sock_filter" where
  "BPF_JUMP c v t f = \<lparr>code = c, jt = t, jf = f, k = v\<rparr>"

section \<open>The data a filter reads\<close>

record seccomp_data =
  nr :: u32
  arch :: u32
  instruction_pointer :: u64
  args :: "nat \<Rightarrow> u64"

text \<open>
  The word at a byte offset of \<open>struct seccomp_data\<close> on a little-endian machine: \<open>nr\<close> at 0,
  \<open>arch\<close> at 4, the instruction pointer at 8, six arguments from 16 on. A load that is
  misaligned or outside the structure is refused.
\<close>

definition seccomp_load :: "seccomp_data \<Rightarrow> u32 \<Rightarrow> u32 option" where
  "seccomp_load d off =
     (let n = unat off in
      if n mod 4 \<noteq> 0 \<or> n \<ge> 64 then None
      else if n = 0 then Some (nr d)
      else if n = 4 then Some (arch d)
      else if n = 8 then Some (lo32 (instruction_pointer d))
      else if n = 12 then Some (hi32 (instruction_pointer d))
      else let v = args d ((n - 16) div 8) in
        Some (if n mod 8 = 0 then lo32 v else hi32 v))"

definition bpf_jump_taken :: "u16 \<Rightarrow> u32 \<Rightarrow> u32 \<Rightarrow> bool" where
  "bpf_jump_taken op a b =
     (if op = BPF_JEQ then a = b
      else if op = BPF_JGT then a > b
      else if op = BPF_JGE then a \<ge> b
      else a AND b \<noteq> 0)"

section \<open>The machine's contract\<close>

text \<open>
  \<open>exec d is A X\<close> is the value the filter returns when the instructions still ahead are \<open>is\<close>
  and the accumulator and index registers hold \<open>A\<close> and \<open>X\<close>. Jumps only go forward, so the
  instructions ahead are all that matters. An instruction list that ends without a return
  has no value.
\<close>

locale bpf_machine =
  fixes exec :: "seccomp_data \<Rightarrow> sock_filter list \<Rightarrow> u32 \<Rightarrow> u32 \<Rightarrow> u32 option"
  assumes exec_ld_abs: "seccomp_load d off = Some v \<Longrightarrow>
      exec d (BPF_STMT (BPF_LD OR BPF_W OR BPF_ABS) off # is) A X = exec d is v X"
    and exec_and_k:
      "exec d (BPF_STMT (BPF_ALU OR BPF_AND OR BPF_K) v # is) A X = exec d is (A AND v) X"
    and exec_and_x:
      "exec d (BPF_STMT (BPF_ALU OR BPF_AND OR BPF_X) v # is) A X = exec d is (A AND X) X"
    and exec_tax: "exec d (BPF_STMT (BPF_MISC OR BPF_TAX) v # is) A X = exec d is A A"
    and exec_ret: "exec d (BPF_STMT (BPF_RET OR BPF_K) v # is) A X = Some v"
    and exec_ja: "unat v < length is \<Longrightarrow>
      exec d (BPF_STMT (BPF_JMP OR BPF_JA) v # is) A X = exec d (drop (unat v) is) A X"
    and exec_jmp_k: "op \<in> {BPF_JEQ, BPF_JGT, BPF_JGE, BPF_JSET} \<Longrightarrow>
      unat t < length is \<Longrightarrow> unat f < length is \<Longrightarrow>
      exec d (BPF_JUMP (BPF_JMP OR (op OR BPF_K)) v t f # is) A X =
        exec d (drop (unat (if bpf_jump_taken op A v then t else f)) is) A X"
    and exec_jmp_x: "op \<in> {BPF_JEQ, BPF_JGT, BPF_JGE, BPF_JSET} \<Longrightarrow>
      unat t < length is \<Longrightarrow> unat f < length is \<Longrightarrow>
      exec d (BPF_JUMP (BPF_JMP OR (op OR BPF_X)) v t f # is) A X =
        exec d (drop (unat (if bpf_jump_taken op A X then t else f)) is) A X"

section \<open>An executable machine\<close>

function bpf_exec :: "seccomp_data \<Rightarrow> sock_filter list \<Rightarrow> u32 \<Rightarrow> u32 \<Rightarrow> u32 option" where
  "bpf_exec d [] A X = None"
| "bpf_exec d (i # is) A X =
     (let c = code i; cls = c AND 7 in
      if c = BPF_LD OR BPF_W OR BPF_ABS then
        (case seccomp_load d (k i) of None \<Rightarrow> None | Some v \<Rightarrow> bpf_exec d is v X)
      else if c = BPF_LD OR BPF_IMM then bpf_exec d is (k i) X
      else if c = BPF_ALU OR BPF_AND OR BPF_K then bpf_exec d is (A AND k i) X
      else if c = BPF_ALU OR BPF_AND OR BPF_X then bpf_exec d is (A AND X) X
      else if c = BPF_MISC OR BPF_TAX then bpf_exec d is A A
      else if c = BPF_RET OR BPF_K then Some (k i)
      else if c = BPF_JMP OR BPF_JA then bpf_exec d (drop (unat (k i)) is) A X
      else if cls = BPF_JMP \<and> c AND 0xf0 \<in> {BPF_JEQ, BPF_JGT, BPF_JGE, BPF_JSET} then
        let taken = bpf_jump_taken (c AND 0xf0) A (if c AND 8 = BPF_X then X else k i)
        in bpf_exec d (drop (unat (if taken then jt i else jf i)) is) A X
      else None)"
  by pat_completeness auto
termination
  by (relation "measure (\<lambda>(d, is, A, X). length is)") auto

declare bpf_exec.simps(2) [simp del]

lemma bpf_exec_stmt [bpf_simps]:
  "bpf_exec d (BPF_STMT (BPF_LD OR BPF_W OR BPF_ABS) off # is) A X =
     (case seccomp_load d off of None \<Rightarrow> None | Some v \<Rightarrow> bpf_exec d is v X)"
  "bpf_exec d (BPF_STMT (BPF_ALU OR BPF_AND OR BPF_K) v # is) A X = bpf_exec d is (A AND v) X"
  "bpf_exec d (BPF_STMT (BPF_ALU OR BPF_AND OR BPF_X) v # is) A X = bpf_exec d is (A AND X) X"
  "bpf_exec d (BPF_STMT (BPF_MISC OR BPF_TAX) v # is) A X = bpf_exec d is A A"
  "bpf_exec d (BPF_STMT (BPF_RET OR BPF_K) v # is) A X = Some v"
  "bpf_exec d (BPF_STMT (BPF_JMP OR BPF_JA) v # is) A X = bpf_exec d (drop (unat v) is) A X"
  by (simp_all add: bpf_exec.simps(2) BPF_STMT_def)

lemma bpf_exec_jump_k:
  assumes "op = BPF_JEQ \<or> op = BPF_JGT \<or> op = BPF_JGE \<or> op = BPF_JSET"
  shows "bpf_exec d (BPF_JUMP (BPF_JMP OR (op OR BPF_K)) v t f # is) A X =
     bpf_exec d (drop (unat (if bpf_jump_taken op A v then t else f)) is) A X"
  using assms by (elim disjE) (simp_all add: bpf_exec.simps(2) BPF_JUMP_def)

lemma bpf_exec_jump_x:
  assumes "op = BPF_JEQ \<or> op = BPF_JGT \<or> op = BPF_JGE \<or> op = BPF_JSET"
  shows "bpf_exec d (BPF_JUMP (BPF_JMP OR (op OR BPF_X)) v t f # is) A X =
     bpf_exec d (drop (unat (if bpf_jump_taken op A X then t else f)) is) A X"
  using assms by (elim disjE) (simp_all add: bpf_exec.simps(2) BPF_JUMP_def)

interpretation bpf: bpf_machine bpf_exec
proof (unfold_locales, goal_cases)
  case (1 d off v "is" A X)
  then show ?case by (simp only: bpf_exec_stmt option.case)
next
  case (7 op t "is" f d v A X)
  then show ?case by (intro bpf_exec_jump_k) simp
next
  case (8 op t "is" f d v A X)
  then show ?case by (intro bpf_exec_jump_x) simp
qed (simp_all only: bpf_exec_stmt)

text \<open>A filter starts at its first instruction with both registers cleared.\<close>

definition bpf_run :: "seccomp_data \<Rightarrow> sock_filter list \<Rightarrow> u32 option" where
  "bpf_run d prog = bpf_exec d prog 0 0"

end
