(* ===== verification/Kafel_Expr.thy ===== *)
theory Kafel_Expr
  imports Kafel_Bpf
begin

unbundle bit_operations_syntax

text \<open>
  Boolean expressions over system call arguments (\<open>kafel/src/expression.c\<close>): the tree the
  parser builds, the three passes of \<open>expr_simplify\<close> (negation elimination, operand sorting,
  constant folding), their meaning over a \<open>seccomp_data\<close>, and the proof that simplification
  keeps the meaning. The passes update the tree in place; here each returns the new tree.
\<close>

section \<open>The tree\<close>

datatype expr_op = EXPR_AND | EXPR_OR | EXPR_GT | EXPR_LT | EXPR_GE | EXPR_LE
  | EXPR_EQ | EXPR_NEQ | EXPR_BIT_AND

datatype expr_tree =
    EXPR_NUMBER u64
  | EXPR_VAR nat int
  | EXPR_TRUE
  | EXPR_FALSE
  | EXPR_NOT expr_tree
  | EXPR_BINARY expr_op expr_tree expr_tree

text \<open>The numeric node kinds, in the order of the source's enumeration.\<close>

fun expr_op_code :: "expr_op \<Rightarrow> nat" where
  "expr_op_code EXPR_AND = 5"
| "expr_op_code EXPR_OR = 6"
| "expr_op_code EXPR_GT = 7"
| "expr_op_code EXPR_LT = 8"
| "expr_op_code EXPR_GE = 9"
| "expr_op_code EXPR_LE = 10"
| "expr_op_code EXPR_EQ = 11"
| "expr_op_code EXPR_NEQ = 12"
| "expr_op_code EXPR_BIT_AND = 13"

fun expr_type :: "expr_tree \<Rightarrow> nat" where
  "expr_type (EXPR_NUMBER _) = 0"
| "expr_type (EXPR_VAR _ _) = 1"
| "expr_type EXPR_TRUE = 2"
| "expr_type EXPR_FALSE = 3"
| "expr_type (EXPR_NOT _) = 4"
| "expr_type (EXPR_BINARY bop _ _) = expr_op_code bop"

text \<open>Two-byte arguments are widened to four bytes; any other size aborts.\<close>

definition expr_create_var :: "nat \<Rightarrow> int \<Rightarrow> expr_tree option" where
  "expr_create_var v s =
     (let s' = (if s = 2 then 4 else s) in
      if s' = 4 \<or> s' = 8 then Some (EXPR_VAR v s') else None)"

section \<open>Negation elimination\<close>

fun negations :: "expr_op \<Rightarrow> expr_op option" where
  "negations EXPR_AND = Some EXPR_OR"
| "negations EXPR_OR = Some EXPR_AND"
| "negations EXPR_GE = Some EXPR_LT"
| "negations EXPR_GT = Some EXPR_LE"
| "negations EXPR_LE = Some EXPR_GT"
| "negations EXPR_LT = Some EXPR_GE"
| "negations EXPR_EQ = Some EXPR_NEQ"
| "negations EXPR_NEQ = Some EXPR_EQ"
| "negations EXPR_BIT_AND = None"

definition negate_op :: "bool \<Rightarrow> expr_op \<Rightarrow> expr_op" where
  "negate_op neg bop =
     (if neg then (case negations bop of Some o' \<Rightarrow> o' | None \<Rightarrow> bop) else bop)"

fun expr_eliminate_negation :: "expr_tree \<Rightarrow> bool \<Rightarrow> expr_tree" where
  "expr_eliminate_negation (EXPR_NOT child) neg = expr_eliminate_negation child (\<not> neg)"
| "expr_eliminate_negation (EXPR_BINARY bop left right) neg =
     (if bop = EXPR_AND \<or> bop = EXPR_OR
      then EXPR_BINARY (negate_op neg bop)
             (expr_eliminate_negation left neg) (expr_eliminate_negation right neg)
      else EXPR_BINARY (negate_op neg bop) left right)"
| "expr_eliminate_negation EXPR_TRUE neg = (if neg then EXPR_FALSE else EXPR_TRUE)"
| "expr_eliminate_negation EXPR_FALSE neg = (if neg then EXPR_TRUE else EXPR_FALSE)"
| "expr_eliminate_negation (EXPR_NUMBER n) neg = EXPR_NUMBER n"
| "expr_eliminate_negation (EXPR_VAR v s) neg = EXPR_VAR v s"

section \<open>Operand sorting\<close>

fun swapped :: "expr_op \<Rightarrow> expr_op" where
  "swapped EXPR_GE = EXPR_LE"
| "swapped EXPR_GT = EXPR_LT"
| "swapped EXPR_LE = EXPR_GE"
| "swapped EXPR_LT = EXPR_GT"
| "swapped bop = bop"

fun expr_sort_operands :: "expr_tree \<Rightarrow> expr_tree" where
  "expr_sort_operands (EXPR_BINARY bop left right) =
     (if bop \<noteq> EXPR_AND \<and> bop \<noteq> EXPR_OR \<and> expr_type left < expr_type right
      then EXPR_BINARY (swapped bop) (expr_sort_operands right) (expr_sort_operands left)
      else EXPR_BINARY bop (expr_sort_operands left) (expr_sort_operands right))"
| "expr_sort_operands e = e"

section \<open>Constant folding\<close>

definition expr_boolean :: "bool \<Rightarrow> expr_tree" where
  "expr_boolean b = (if b then EXPR_TRUE else EXPR_FALSE)"

text \<open>The operands arrive as \<open>uint32_t\<close>: the caller's 64-bit numbers are truncated.\<close>

fun expr_eval :: "expr_op \<Rightarrow> u32 \<Rightarrow> u32 \<Rightarrow> expr_tree option" where
  "expr_eval EXPR_EQ left right = Some (expr_boolean (left = right))"
| "expr_eval EXPR_NEQ left right = Some (expr_boolean (left \<noteq> right))"
| "expr_eval EXPR_GE left right = Some (expr_boolean (left \<ge> right))"
| "expr_eval EXPR_LE left right = Some (expr_boolean (left \<le> right))"
| "expr_eval EXPR_GT left right = Some (expr_boolean (left > right))"
| "expr_eval EXPR_LT left right = Some (expr_boolean (left < right))"
| "expr_eval _ left right = None"

definition eliminate_connective ::
  "expr_op \<Rightarrow> expr_tree \<Rightarrow> expr_tree \<Rightarrow> expr_tree \<Rightarrow> expr_tree \<Rightarrow> expr_tree" where
  "eliminate_connective bop dominant recessive left right =
     (if left = dominant \<or> right = dominant then dominant
      else if left = recessive then right
      else if right = recessive then left
      else EXPR_BINARY bop left right)"

definition eliminate_eq_vars ::
  "expr_op \<Rightarrow> expr_tree \<Rightarrow> expr_tree \<Rightarrow> expr_tree \<Rightarrow> expr_tree" where
  "eliminate_eq_vars bop eq_vars_result left right =
     (case (left, right) of
        (EXPR_VAR v s, EXPR_VAR v' s') \<Rightarrow>
          if v = v' then eq_vars_result else EXPR_BINARY bop left right
      | _ \<Rightarrow> EXPR_BINARY bop left right)"

text \<open>The \<open>switch\<close> at the end of the folding of one binary node.\<close>

fun eliminate_node :: "expr_op \<Rightarrow> expr_tree \<Rightarrow> expr_tree \<Rightarrow> expr_tree" where
  "eliminate_node EXPR_AND left right =
     eliminate_connective EXPR_AND EXPR_FALSE EXPR_TRUE left right"
| "eliminate_node EXPR_OR left right =
     eliminate_connective EXPR_OR EXPR_TRUE EXPR_FALSE left right"
| "eliminate_node EXPR_BIT_AND left right =
     (case right of
        EXPR_NUMBER n \<Rightarrow>
          if n = 0 then EXPR_NUMBER 0
          else if n = - 1 then left
          else EXPR_BINARY EXPR_BIT_AND left right
      | _ \<Rightarrow> EXPR_BINARY EXPR_BIT_AND left right)"
| "eliminate_node bop left right =
     eliminate_eq_vars bop
       (expr_boolean (bop = EXPR_GE \<or> bop = EXPR_LE \<or> bop = EXPR_EQ)) left right"

definition precompute_node :: "expr_op \<Rightarrow> expr_tree \<Rightarrow> expr_tree \<Rightarrow> expr_tree option" where
  "precompute_node bop left right =
     (case (left, right) of
        (EXPR_NUMBER a, EXPR_NUMBER b) \<Rightarrow>
          if bop = EXPR_BIT_AND then Some (EXPR_NUMBER (a AND b))
          else expr_eval bop (ucast a) (ucast b)
      | _ \<Rightarrow> Some (eliminate_node bop left right))"

fun expr_precompute_eliminate :: "expr_tree \<Rightarrow> expr_tree option" where
  "expr_precompute_eliminate (EXPR_NOT child) =
     map_option EXPR_NOT (expr_precompute_eliminate child)"
| "expr_precompute_eliminate (EXPR_BINARY bop left right) =
     do { l \<leftarrow> expr_precompute_eliminate left;
          r \<leftarrow> expr_precompute_eliminate right;
          precompute_node bop l r }"
| "expr_precompute_eliminate e = Some e"

definition expr_simplify :: "expr_tree \<Rightarrow> expr_tree option" where
  "expr_simplify e =
     expr_precompute_eliminate (expr_sort_operands (expr_eliminate_negation e False))"

section \<open>Meaning\<close>

text \<open>
  An argument of eight bytes is the whole register; of a shorter argument only the low half
  of the register counts.
\<close>

definition arg_value :: "seccomp_data \<Rightarrow> nat \<Rightarrow> int \<Rightarrow> u64" where
  "arg_value d v s = (if s = 8 then args d v else ucast (lo32 (args d v)))"

fun expr_value :: "seccomp_data \<Rightarrow> expr_tree \<Rightarrow> u64" where
  "expr_value d (EXPR_NUMBER n) = n"
| "expr_value d (EXPR_VAR v s) = arg_value d v s"
| "expr_value d (EXPR_BINARY EXPR_BIT_AND l r) = expr_value d l AND expr_value d r"
| "expr_value d _ = 0"

fun compare_values :: "expr_op \<Rightarrow> u64 \<Rightarrow> u64 \<Rightarrow> bool" where
  "compare_values EXPR_GT a b = (a > b)"
| "compare_values EXPR_LT a b = (a < b)"
| "compare_values EXPR_GE a b = (a \<ge> b)"
| "compare_values EXPR_LE a b = (a \<le> b)"
| "compare_values EXPR_EQ a b = (a = b)"
| "compare_values EXPR_NEQ a b = (a \<noteq> b)"
| "compare_values _ a b = False"

fun expr_holds :: "seccomp_data \<Rightarrow> expr_tree \<Rightarrow> bool" where
  "expr_holds d EXPR_TRUE = True"
| "expr_holds d EXPR_FALSE = False"
| "expr_holds d (EXPR_NOT e) = (\<not> expr_holds d e)"
| "expr_holds d (EXPR_BINARY EXPR_AND l r) = (expr_holds d l \<and> expr_holds d r)"
| "expr_holds d (EXPR_BINARY EXPR_OR l r) = (expr_holds d l \<or> expr_holds d r)"
| "expr_holds d (EXPR_BINARY bop l r) = compare_values bop (expr_value d l) (expr_value d r)"
| "expr_holds d _ = False"

section \<open>The shapes the grammar builds and the shapes simplification leaves\<close>

text \<open>
  The sizes of the system call's arguments, as registered when its rule was parsed, are the
  parameter \<open>sz\<close>; every variable node carries the size registered for its argument.
\<close>

fun is_operand :: "(nat \<Rightarrow> int) \<Rightarrow> expr_tree \<Rightarrow> bool" where
  "is_operand sz (EXPR_NUMBER n) = True"
| "is_operand sz (EXPR_VAR v s) = (v < 6 \<and> s = sz v \<and> (s = 4 \<or> s = 8))"
| "is_operand sz _ = False"

fun is_masked :: "(nat \<Rightarrow> int) \<Rightarrow> expr_tree \<Rightarrow> bool" where
  "is_masked sz (EXPR_BINARY bop l r) = (bop = EXPR_BIT_AND \<and> is_operand sz l \<and> is_operand sz r)"
| "is_masked sz e = is_operand sz e"

fun is_bool_expr :: "(nat \<Rightarrow> int) \<Rightarrow> expr_tree \<Rightarrow> bool" where
  "is_bool_expr sz (EXPR_NOT e) = is_bool_expr sz e"
| "is_bool_expr sz (EXPR_BINARY bop l r) =
     (if bop = EXPR_AND \<or> bop = EXPR_OR then is_bool_expr sz l \<and> is_bool_expr sz r
      else bop \<noteq> EXPR_BIT_AND \<and> is_masked sz l \<and> is_masked sz r)"
| "is_bool_expr sz _ = False"

text \<open>The value of an operand that does not depend on any argument.\<close>

fun const_value :: "expr_tree \<Rightarrow> u64 option" where
  "const_value (EXPR_NUMBER n) = Some n"
| "const_value (EXPR_BINARY EXPR_BIT_AND l r) =
     (case (const_value l, const_value r) of
        (Some a, Some b) \<Rightarrow> Some (a AND b)
      | (Some a, None) \<Rightarrow> if a = 0 then Some 0 else None
      | (None, Some b) \<Rightarrow> if b = 0 then Some 0 else None
      | (None, None) \<Rightarrow> None)"
| "const_value _ = None"

text \<open>Comparisons between two constants involve 32-bit values only.\<close>

fun consts_fit :: "expr_tree \<Rightarrow> bool" where
  "consts_fit (EXPR_NOT e) = consts_fit e"
| "consts_fit (EXPR_BINARY bop l r) =
     (if bop = EXPR_AND \<or> bop = EXPR_OR then consts_fit l \<and> consts_fit r
      else (case (const_value l, const_value r) of
              (Some a, Some b) \<Rightarrow> hi32 a = 0 \<and> hi32 b = 0
            | _ \<Rightarrow> True))"
| "consts_fit _ = True"

text \<open>What the code generator is given.\<close>

fun cg_masked :: "(nat \<Rightarrow> int) \<Rightarrow> expr_tree \<Rightarrow> bool" where
  "cg_masked sz (EXPR_BINARY EXPR_BIT_AND (EXPR_VAR v s) r) =
     (is_operand sz (EXPR_VAR v s) \<and> is_operand sz r \<and> r \<noteq> EXPR_NUMBER 0)"
| "cg_masked sz e = is_operand sz e"

fun cg_expr :: "(nat \<Rightarrow> int) \<Rightarrow> expr_tree \<Rightarrow> bool" where
  "cg_expr sz (EXPR_BINARY bop l r) =
     (if bop = EXPR_AND \<or> bop = EXPR_OR then cg_expr sz l \<and> cg_expr sz r
      else bop \<noteq> EXPR_BIT_AND \<and> cg_masked sz l \<and> cg_masked sz r)"
| "cg_expr sz _ = False"

section \<open>Simplification keeps the meaning\<close>

fun nnf :: "(nat \<Rightarrow> int) \<Rightarrow> expr_tree \<Rightarrow> bool" where
  "nnf sz (EXPR_BINARY bop l r) =
     (if bop = EXPR_AND \<or> bop = EXPR_OR then nnf sz l \<and> nnf sz r
      else bop \<noteq> EXPR_BIT_AND \<and> is_masked sz l \<and> is_masked sz r)"
| "nnf sz _ = False"

lemma arg_value_4 [simp]: "lo32 (arg_value d v s) = lo32 (args d v)"
  by (simp add: arg_value_def)

lemma expr_eval_total:
  "bop \<notin> {EXPR_AND, EXPR_OR, EXPR_BIT_AND} \<Longrightarrow>
   \<exists>b. expr_eval bop x y = Some (expr_boolean b)"
  by (cases bop) auto

lemma expr_holds_boolean [simp]: "expr_holds d (expr_boolean b) = b"
  by (simp add: expr_boolean_def)

lemma compare_negated:
  "bop \<notin> {EXPR_AND, EXPR_OR, EXPR_BIT_AND} \<Longrightarrow>
   compare_values (negate_op neg bop) a b = (compare_values bop a b \<noteq> neg)"
  by (cases bop) (auto simp: negate_op_def)

lemma compare_swapped:
  "compare_values (swapped bop) a b = compare_values bop b a"
  by (cases bop) auto

lemma expr_holds_compare:
  "bop \<notin> {EXPR_AND, EXPR_OR} \<Longrightarrow>
   expr_holds d (EXPR_BINARY bop l r) = compare_values bop (expr_value d l) (expr_value d r)"
  by (cases bop) auto

lemma negate_op_connective:
  "negate_op neg bop = EXPR_AND \<or> negate_op neg bop = EXPR_OR \<longleftrightarrow>
   bop = EXPR_AND \<or> bop = EXPR_OR"
  "negate_op neg bop = EXPR_BIT_AND \<longleftrightarrow> bop = EXPR_BIT_AND"
  by (cases bop; simp add: negate_op_def)+

lemma eliminate_negation_nnf:
  "is_bool_expr sz e \<Longrightarrow> nnf sz (expr_eliminate_negation e neg)"
  by (induction e neg rule: expr_eliminate_negation.induct)
    (auto simp: negate_op_connective split: if_splits)

lemma eliminate_negation_holds:
  "is_bool_expr sz e \<Longrightarrow>
   expr_holds d (expr_eliminate_negation e neg) = (expr_holds d e \<noteq> neg)"
proof (induction e neg rule: expr_eliminate_negation.induct)
  case (2 bop left right neg)
  show ?case
  proof (cases "bop = EXPR_AND \<or> bop = EXPR_OR")
    case True
    with 2 show ?thesis by (auto simp: negate_op_def)
  next
    case False
    with 2 have "bop \<notin> {EXPR_AND, EXPR_OR, EXPR_BIT_AND}" by simp
    moreover from this have "negate_op neg bop \<notin> {EXPR_AND, EXPR_OR}"
      using negate_op_connective(1) [of neg bop] by auto
    ultimately show ?thesis
      using False by (simp add: expr_holds_compare compare_negated)
  qed
qed auto

lemma eliminate_negation_consts_fit:
  "is_bool_expr sz e \<Longrightarrow> consts_fit (expr_eliminate_negation e neg) = consts_fit e"
  by (induction e neg rule: expr_eliminate_negation.induct)
    (auto simp: negate_op_connective split: option.splits)

text \<open>One operand of a comparison: what sorting and folding make of it.\<close>

definition masked_ok :: "(nat \<Rightarrow> int) \<Rightarrow> expr_tree \<Rightarrow> expr_tree \<Rightarrow> bool" where
  "masked_ok sz e m \<longleftrightarrow> cg_masked sz m \<and> (\<forall>d. expr_value d m = expr_value d e) \<and>
     (\<forall>n. m = EXPR_NUMBER n \<longrightarrow> const_value e = Some n)"

lemma operand_cases:
  assumes "is_operand sz e"
  obtains (num) n where "e = EXPR_NUMBER n"
    | (var) v s where "e = EXPR_VAR v s" "v < 6" "s = sz v" "s = 4 \<or> s = 8"
  using assms by (cases e) auto

lemma masked_cases:
  assumes "is_masked sz e"
  obtains (op) "is_operand sz e" | (mask) l r where "e = EXPR_BINARY EXPR_BIT_AND l r"
    "is_operand sz l" "is_operand sz r"
  using assms by (cases e) auto

lemma masked_precompute:
  assumes "is_masked sz e"
  shows "\<exists>m. expr_precompute_eliminate (expr_sort_operands e) = Some m \<and> masked_ok sz e m"
  using assms
proof (cases rule: masked_cases)
  case op
  then show ?thesis by (cases rule: operand_cases) (auto simp: masked_ok_def)
next
  case (mask l r)
  from mask(2) show ?thesis
  proof (cases rule: operand_cases)
    case (num n)
    from mask(3) show ?thesis
      by (cases rule: operand_cases)
        (auto simp: mask num precompute_node_def masked_ok_def and.commute)
  next
    case (var v s)
    from mask(3) show ?thesis
      by (cases rule: operand_cases)
        (use var in \<open>auto simp: mask precompute_node_def masked_ok_def\<close>)
  qed
qed

lemma fold_compare:
  assumes "bop \<notin> {EXPR_AND, EXPR_OR, EXPR_BIT_AND}" and "hi32 a = 0" and "hi32 b = 0"
  shows "expr_eval bop (ucast a) (ucast b) = Some (expr_boolean (compare_values bop a b))"
  using assms
  by (cases bop)
    (auto simp: eq_split32 [of a b] lt_split32 [of a b] lt_split32 [of b a]
      le_split32 [of a b] le_split32 [of b a] simp flip: lo32_def)

text \<open>A folded expression is a decided truth value or a tree for the code generator.\<close>

definition simplified :: "(nat \<Rightarrow> int) \<Rightarrow> expr_tree \<Rightarrow> bool" where
  "simplified sz e \<longleftrightarrow> e = EXPR_TRUE \<or> e = EXPR_FALSE \<or> cg_expr sz e"

abbreviation (input) "comparison bop \<equiv> bop \<notin> {EXPR_AND, EXPR_OR, EXPR_BIT_AND}"

lemma cg_expr_compare:
  "comparison bop \<Longrightarrow> cg_expr sz (EXPR_BINARY bop l r) = (cg_masked sz l \<and> cg_masked sz r)"
  by simp

lemma compare_values_refl:
  "comparison bop \<Longrightarrow>
   compare_values bop a a = (bop = EXPR_GE \<or> bop = EXPR_LE \<or> bop = EXPR_EQ)"
  by (cases bop) auto

lemma eliminate_node_compare:
  "comparison bop \<Longrightarrow> eliminate_node bop l r =
     eliminate_eq_vars bop (expr_boolean (bop = EXPR_GE \<or> bop = EXPR_LE \<or> bop = EXPR_EQ)) l r"
  by (cases bop) auto

lemma cg_masked_var: "cg_masked sz (EXPR_VAR v s) \<Longrightarrow> s = sz v"
  by simp

lemma eliminate_compare_ok:
  assumes c: "comparison bop" and "cg_masked sz l" and "cg_masked sz r"
  shows "simplified sz (eliminate_node bop l r) \<and>
    expr_holds d (eliminate_node bop l r) =
      compare_values bop (expr_value d l) (expr_value d r)"
proof (cases "\<exists>v s s'. l = EXPR_VAR v s \<and> r = EXPR_VAR v s'")
  case True
  then obtain v s s' where "l = EXPR_VAR v s" "r = EXPR_VAR v s'" by blast
  moreover from this assms have "s = s'" by simp
  ultimately show ?thesis
    using c by (simp add: eliminate_node_compare eliminate_eq_vars_def simplified_def
        expr_boolean_def compare_values_refl)
next
  case False
  then have "eliminate_node bop l r = EXPR_BINARY bop l r"
    using c by (auto simp: eliminate_node_compare eliminate_eq_vars_def split: expr_tree.splits)
  with assms show ?thesis
    by (simp add: simplified_def cg_expr_compare expr_holds_compare)
qed

lemma precompute_compare_ok:
  assumes c: "comparison bop" and l: "masked_ok sz l0 l" and r: "masked_ok sz r0 r"
    and fit: "\<And>a b. const_value l0 = Some a \<Longrightarrow> const_value r0 = Some b \<Longrightarrow> hi32 a = 0 \<and> hi32 b = 0"
  shows "\<exists>e. precompute_node bop l r = Some e \<and> simplified sz e \<and>
    (\<forall>d. expr_holds d e = compare_values bop (expr_value d l0) (expr_value d r0))"
proof (cases "\<exists>a b. l = EXPR_NUMBER a \<and> r = EXPR_NUMBER b")
  case True
  then obtain a b where ab: "l = EXPR_NUMBER a" "r = EXPR_NUMBER b" by blast
  with l r have "const_value l0 = Some a" "const_value r0 = Some b"
    by (simp_all add: masked_ok_def)
  then have "hi32 a = 0 \<and> hi32 b = 0" by (rule fit)
  then have "precompute_node bop l r = Some (expr_boolean (compare_values bop a b))"
    using c ab by (simp add: precompute_node_def fold_compare)
  moreover have "\<forall>d. expr_value d l0 = a \<and> expr_value d r0 = b"
    using l r ab by (simp add: masked_ok_def)
  ultimately show ?thesis
    by (simp add: simplified_def expr_boolean_def)
next
  case False
  then have "precompute_node bop l r = Some (eliminate_node bop l r)"
    by (auto simp: precompute_node_def split: expr_tree.splits)
  moreover have "simplified sz (eliminate_node bop l r)"
    "expr_holds d (eliminate_node bop l r) =
      compare_values bop (expr_value d l0) (expr_value d r0)" for d
    using l r eliminate_compare_ok [OF c, of sz l r d] by (auto simp: masked_ok_def)
  ultimately show ?thesis by blast
qed

lemma sorted_compare_ok:
  assumes c: "comparison bop" and l: "is_masked sz l" and r: "is_masked sz r"
    and fit: "consts_fit (EXPR_BINARY bop l r)"
  shows "\<exists>e. expr_precompute_eliminate (expr_sort_operands (EXPR_BINARY bop l r)) = Some e \<and>
    simplified sz e \<and> (\<forall>d. expr_holds d e = expr_holds d (EXPR_BINARY bop l r))"
proof -
  from masked_precompute [OF l] obtain ml where
    ml: "expr_precompute_eliminate (expr_sort_operands l) = Some ml" "masked_ok sz l ml" by blast
  from masked_precompute [OF r] obtain mr where
    mr: "expr_precompute_eliminate (expr_sort_operands r) = Some mr" "masked_ok sz r mr" by blast
  have fit': "hi32 a = 0 \<and> hi32 b = 0"
    if "const_value l = Some a" "const_value r = Some b" for a b
    using fit c that by simp
  have swap: "comparison (swapped bop)" using c by (cases bop) auto
  show ?thesis
  proof (cases "expr_type l < expr_type r")
    case True
    with c precompute_compare_ok [OF swap mr(2) ml(2)] fit' show ?thesis
      by (auto simp: ml mr expr_holds_compare compare_swapped)
  next
    case False
    with c precompute_compare_ok [OF c ml(2) mr(2)] fit' show ?thesis
      by (auto simp: ml mr expr_holds_compare)
  qed
qed

lemma connective_ok:
  assumes "simplified sz l" and "simplified sz r" and "bop = EXPR_AND \<or> bop = EXPR_OR"
  shows "\<exists>e. precompute_node bop l r = Some e \<and> simplified sz e \<and>
    (\<forall>d. expr_holds d e = expr_holds d (EXPR_BINARY bop l r))"
proof -
  have "\<not> (\<exists>a b. l = EXPR_NUMBER a \<and> r = EXPR_NUMBER b)"
    using assms by (auto simp: simplified_def)
  then have "precompute_node bop l r = Some (eliminate_node bop l r)"
    by (auto simp: precompute_node_def split: expr_tree.splits)
  moreover have "simplified sz (eliminate_node bop l r) \<and>
      (\<forall>d. expr_holds d (eliminate_node bop l r) = expr_holds d (EXPR_BINARY bop l r))"
    using assms by (auto simp: simplified_def eliminate_connective_def split: if_splits)
  ultimately show ?thesis by blast
qed

lemma sort_precompute_ok:
  assumes "nnf sz e" and "consts_fit e"
  shows "\<exists>e'. expr_precompute_eliminate (expr_sort_operands e) = Some e' \<and>
    simplified sz e' \<and> (\<forall>d. expr_holds d e' = expr_holds d e)"
  using assms
proof (induction e)
  case (EXPR_BINARY bop l r)
  show ?case
  proof (cases "bop = EXPR_AND \<or> bop = EXPR_OR")
    case True
    with EXPR_BINARY obtain l' r' where
      l': "expr_precompute_eliminate (expr_sort_operands l) = Some l'" "simplified sz l'"
        "\<forall>d. expr_holds d l' = expr_holds d l" and
      r': "expr_precompute_eliminate (expr_sort_operands r) = Some r'" "simplified sz r'"
        "\<forall>d. expr_holds d r' = expr_holds d r"
      by auto
    from connective_ok [OF l'(2) r'(2) True] l' r' True show ?thesis by auto
  next
    case False
    with EXPR_BINARY.prems show ?thesis by (intro sorted_compare_ok) (auto split: if_splits)
  qed
qed simp_all

text \<open>
  The interface a filter relies on: simplification answers, leaves one of the shapes the
  later stages handle and keeps the truth value for every system call.
\<close>

lemma expr_simplify_ok:
  assumes "is_bool_expr sz e" and "consts_fit e"
  shows "\<exists>e'. expr_simplify e = Some e' \<and> simplified sz e' \<and>
    (\<forall>d. expr_holds d e' = expr_holds d e)"
proof -
  let ?n = "expr_eliminate_negation e False"
  have "nnf sz ?n" and "consts_fit ?n"
    using assms eliminate_negation_nnf eliminate_negation_consts_fit by auto
  from sort_precompute_ok [OF this] show ?thesis
    using eliminate_negation_holds [OF assms(1)] by (simp add: expr_simplify_def)
qed

text \<open>C4: Simplification of a filter expression (negation elimination, operand sorting and constant
  folding) always answers on an expression the grammar builds whose constant comparisons stay
  within 32 bits; the result is TRUE, FALSE or a tree the code generator accepts, and it holds
  for exactly the same system calls.\<close>

theorem expr_simplify_correct:
  assumes "is_bool_expr sz e" and "consts_fit e"
  shows "\<exists>e'. expr_simplify e = Some e' \<and> simplified sz e' \<and>
    (\<forall>d. expr_holds d e' = expr_holds d e)"
  using assms by (rule expr_simplify_ok)

theorem expr_simplify_correct_witness:
  "let e = EXPR_NOT (EXPR_BINARY EXPR_OR
       (EXPR_BINARY EXPR_EQ (EXPR_BINARY EXPR_BIT_AND (EXPR_NUMBER 3) (EXPR_VAR 1 4)) (EXPR_NUMBER 2))
       (EXPR_BINARY EXPR_GT (EXPR_NUMBER 5) (EXPR_NUMBER 7)));
     sz = (\<lambda>_. 4)
   in is_bool_expr sz e \<and> consts_fit e \<and>
      (\<exists>e'. expr_simplify e = Some e' \<and> simplified sz e' \<and>
         (\<forall>d. expr_holds d e' = expr_holds d e))"
  unfolding Let_def
  by (intro conjI expr_simplify_correct) (simp_all add: hi32_def)

end
