(* ===== verification/Kafel_Policy.thy ===== *)
theory Kafel_Policy
  imports Kafel_Expr
begin

text \<open>
  Policies (\<open>kafel/src/policy.c\<close>, \<open>policy.h\<close>): filters on one system call, action blocks,
  uses of earlier policies, and what a policy decides. The intrusive lists of the source are
  lists here; creation of a filter simplifies its expression.
\<close>

section \<open>Actions\<close>

abbreviation (input) "ACTION_KILL \<equiv> (1 :: int)"
abbreviation (input) "ACTION_ALLOW \<equiv> (2 :: int)"
abbreviation (input) "ACTION_LOG \<equiv> (3 :: int)"
abbreviation (input) "ACTION_KILL_PROCESS \<equiv> (4 :: int)"
abbreviation (input) "ACTION_USER_NOTIF \<equiv> (5 :: int)"
abbreviation (input) "ACTION_BASIC_MAX \<equiv> (5 :: int)"
abbreviation (input) "ACTION_TRAP \<equiv> (0x10000 :: int)"
abbreviation (input) "ACTION_ERRNO \<equiv> (0x20000 :: int)"
abbreviation (input) "ACTION_TRACE \<equiv> (0x40000 :: int)"

text \<open>The action numbers the grammar produces.\<close>

definition valid_action :: "int \<Rightarrow> bool" where
  "valid_action a \<longleftrightarrow> a \<in> {1..5} \<or> a \<in> {0x10000..0x1ffff} \<or> a \<in> {0x20000..0x2ffff} \<or>
     a \<in> {0x40000..0x4ffff}"

section \<open>Policies\<close>

record syscall_filter =
  syscall_nr :: u32
  filter_expr :: "expr_tree option"

datatype policy = Policy string "policy_entry list"
  and policy_entry = POLICY_USE policy | POLICY_ACTION int "syscall_filter list"

definition policy_create :: "string \<Rightarrow> policy_entry list option \<Rightarrow> policy" where
  "policy_create name entries =
     Policy name (case entries of None \<Rightarrow> [] | Some es \<Rightarrow> es)"

definition policy_action_create :: "int \<Rightarrow> syscall_filter list option \<Rightarrow> policy_entry" where
  "policy_action_create action filters =
     POLICY_ACTION action (case filters of None \<Rightarrow> [] | Some fs \<Rightarrow> fs)"

definition policy_use_create :: "policy \<Rightarrow> policy_entry" where
  "policy_use_create used = POLICY_USE used"

definition syscall_filter_create :: "u32 \<Rightarrow> expr_tree option \<Rightarrow> syscall_filter option" where
  "syscall_filter_create n expr =
     (case expr of
        None \<Rightarrow> Some \<lparr>syscall_nr = n, filter_expr = None\<rparr>
      | Some e \<Rightarrow> map_option (\<lambda>e'. \<lparr>syscall_nr = n, filter_expr = Some e'\<rparr>) (expr_simplify e))"

section \<open>What a policy decides\<close>

text \<open>
  The rules of a policy in the order they are written, a used policy's rules in place of its
  use. The target of the first rule that matches is the decision, the default action if
  there is none.
\<close>

fun policy_rules :: "policy \<Rightarrow> (int \<times> syscall_filter) list"
  and entries_rules :: "policy_entry list \<Rightarrow> (int \<times> syscall_filter) list" where
  "policy_rules (Policy name es) = entries_rules es"
| "entries_rules [] = []"
| "entries_rules (POLICY_USE p # es) = policy_rules p @ entries_rules es"
| "entries_rules (POLICY_ACTION a fs # es) = map (Pair a) fs @ entries_rules es"

definition filter_matches :: "seccomp_data \<Rightarrow> syscall_filter \<Rightarrow> bool" where
  "filter_matches d f \<longleftrightarrow> syscall_nr f = nr d \<and>
     (case filter_expr f of None \<Rightarrow> True | Some e \<Rightarrow> expr_holds d e)"

definition policy_decision :: "policy \<Rightarrow> int \<Rightarrow> seccomp_data \<Rightarrow> int" where
  "policy_decision p default_action d =
     (case find (\<lambda>(a, f). filter_matches d f) (policy_rules p) of
        Some (a, f) \<Rightarrow> a
      | None \<Rightarrow> default_action)"

lemma use_is_paste:
  "policy_rules (Policy n (es @ POLICY_USE (Policy m us) # es')) =
   policy_rules (Policy n (es @ us @ es'))"
proof -
  have app: "entries_rules (xs @ ys) = entries_rules xs @ entries_rules ys" for xs ys
  proof (induction xs)
    case (Cons x xs)
    then show ?case by (cases x) auto
  qed simp
  show ?thesis by (simp add: app)
qed

end
