(* ===== verification/Kafel_Ranges.thy ===== *)
theory Kafel_Ranges
  imports Kafel_Policy
begin

text \<open>
  From a policy to a table of rules over ranges of system call numbers
  (\<open>kafel/src/range_rules.c\<close>). \<open>add_policy_rules\<close> collects one rule per filter,
  \<open>normalize_rules\<close> sorts them, merges neighbours and fills the gaps with the default action,
  so that the table covers every system call number.

  The array of the source is a list. While \<open>normalize_rules_count_missing\<close> compacts the array
  in place, the model keeps the two live parts: the finished slots \<open>data[0..j)\<close> and the rules
  still to read \<open>data[i..len)\<close>; the dead slots between them matter only by their number
  \<open>i - j\<close>. Memory management and the repair of moved list heads have no counterpart.
\<close>

section \<open>Rules\<close>

abbreviation (input) "ACTION_CONDITIONAL \<equiv> (- 2147483648 :: int)"
abbreviation (input) "MAX_SYSCALL_NR \<equiv> (0xffffffff :: u32)"

record syscall_range_rule =
  first_nr :: u32
  last_nr :: u32
  action :: int
  priority :: int
  expr_list :: "(expr_tree option \<times> int) list"

definition rule_add_expr ::
  "syscall_range_rule \<Rightarrow> expr_tree option \<Rightarrow> int \<Rightarrow> syscall_range_rule" where
  "rule_add_expr rule expr act =
     rule\<lparr>action := ACTION_CONDITIONAL, expr_list := expr_list rule @ [(expr, act)]\<rparr>"

definition add_range_rule ::
  "syscall_range_rule list \<Rightarrow> syscall_range_rule \<Rightarrow> syscall_range_rule list" where
  "add_range_rule rules rule = rules @ [rule\<lparr>priority := int (length rules) + 1\<rparr>]"

section \<open>Collecting the rules of a policy\<close>

definition add_filter_rule ::
  "int \<Rightarrow> syscall_filter \<Rightarrow> syscall_range_rule list \<Rightarrow> syscall_range_rule list" where
  "add_filter_rule act f rules =
     (let rule = \<lparr>first_nr = syscall_nr f, last_nr = syscall_nr f, action = 0, priority = 0,
                  expr_list = []\<rparr> in
      case filter_expr f of
        None \<Rightarrow> add_range_rule rules (rule\<lparr>action := act\<rparr>)
      | Some e \<Rightarrow>
          if e = EXPR_TRUE then add_range_rule rules (rule\<lparr>action := act\<rparr>)
          else if e = EXPR_FALSE then rules
          else add_range_rule rules (rule_add_expr rule (Some e) act))"

fun add_policy_rules :: "syscall_range_rule list \<Rightarrow> policy \<Rightarrow> syscall_range_rule list"
  and add_entries_rules ::
    "syscall_range_rule list \<Rightarrow> policy_entry list \<Rightarrow> syscall_range_rule list" where
  "add_policy_rules rules (Policy name entries) = add_entries_rules rules entries"
| "add_entries_rules rules [] = rules"
| "add_entries_rules rules (POLICY_USE used # entries) =
     add_entries_rules (add_policy_rules rules used) entries"
| "add_entries_rules rules (POLICY_ACTION act filters # entries) =
     add_entries_rules (fold (add_filter_rule act) filters rules) entries"

section \<open>Sorting\<close>

definition by_syscall_and_priority :: "syscall_range_rule \<Rightarrow> syscall_range_rule \<Rightarrow> int" where
  "by_syscall_and_priority a b =
     (if first_nr a < first_nr b then - 1
      else if first_nr a = first_nr b then
        if priority a < priority b then - 1
        else if priority a = priority b then 0
        else 1
      else 1)"

definition sort_range_rules :: "syscall_range_rule list \<Rightarrow> syscall_range_rule list" where
  "sort_range_rules rules = qsort by_syscall_and_priority rules"

section \<open>Normalisation\<close>

definition normalize_expr_list :: "syscall_range_rule \<Rightarrow> int \<Rightarrow> syscall_range_rule" where
  "normalize_expr_list rule default_action =
     (if expr_list rule \<noteq> [] \<and> fst (last (expr_list rule)) \<noteq> None
      then rule_add_expr rule None default_action else rule)"

text \<open>The priority of a filler rule is never read: sorting is over by then.\<close>

definition filler_rule :: "u32 \<Rightarrow> u32 \<Rightarrow> int \<Rightarrow> syscall_range_rule" where
  "filler_rule lo hi default_action =
     \<lparr>first_nr = lo, last_nr = hi, action = default_action, priority = 0, expr_list = []\<rparr>"

text \<open>A further rule for the system call of the previous one.\<close>

definition merge_same_syscall ::
  "syscall_range_rule \<Rightarrow> syscall_range_rule \<Rightarrow> syscall_range_rule" where
  "merge_same_syscall prev cur =
     (if action prev = ACTION_CONDITIONAL then
        if action cur = ACTION_CONDITIONAL then
          (let last_expr = fst (last (expr_list prev)) in
           if last_expr \<noteq> None \<and> last_expr \<noteq> Some EXPR_TRUE
           then prev\<lparr>expr_list := expr_list prev @ expr_list cur\<rparr> else prev)
        else rule_add_expr prev None (action cur)
      else prev)"

text \<open>
  One turn of the loop: \<open>out\<close> is \<open>data[0..j)\<close> and never empty, \<open>slack\<close> is \<open>i - j\<close>.
\<close>

definition count_missing_step ::
  "int \<Rightarrow> syscall_range_rule list \<times> nat \<times> nat \<Rightarrow> syscall_range_rule \<Rightarrow>
   (syscall_range_rule list \<times> nat \<times> nat) option" where
  "count_missing_step default_action st cur =
     (let (out, slack, to_add) = st; prev = last out in
      if first_nr cur \<noteq> last_nr cur then None
      else if first_nr cur = last_nr prev then
        Some (butlast out @ [merge_same_syscall prev cur], Suc slack, to_add)
      else if first_nr cur = last_nr prev + 1 then
        if action prev \<noteq> ACTION_CONDITIONAL \<and> action prev = action cur then
          Some (butlast out @ [prev\<lparr>last_nr := last_nr cur\<rparr>], Suc slack, to_add)
        else Some (out @ [normalize_expr_list cur default_action], slack, to_add)
      else if action prev = default_action then
        Some (butlast out @ [prev\<lparr>last_nr := first_nr cur - 1\<rparr>,
          normalize_expr_list cur default_action], slack, to_add)
      else if action cur = default_action then
        Some (out @ [normalize_expr_list (cur\<lparr>first_nr := last_nr prev + 1\<rparr>) default_action],
          slack, to_add)
      else if 0 < slack then
        Some (out @ [filler_rule (last_nr prev + 1) (first_nr cur - 1) default_action,
          normalize_expr_list cur default_action], slack - 1, to_add)
      else Some (out @ [normalize_expr_list cur default_action], slack, Suc to_add))"

fun count_missing_loop ::
  "int \<Rightarrow> syscall_range_rule list \<times> nat \<times> nat \<Rightarrow> syscall_range_rule list \<Rightarrow>
   (syscall_range_rule list \<times> nat \<times> nat) option" where
  "count_missing_loop default_action st [] = Some st"
| "count_missing_loop default_action st (cur # rest) =
     do { st' \<leftarrow> count_missing_step default_action st cur;
          count_missing_loop default_action st' rest }"

definition close_first :: "int \<Rightarrow> syscall_range_rule list \<Rightarrow> syscall_range_rule list \<times> nat" where
  "close_first default_action rules =
     (let first_rule = normalize_expr_list (hd rules) default_action in
      if first_nr first_rule \<noteq> 0 then
        if action first_rule = default_action
        then (first_rule\<lparr>first_nr := 0\<rparr> # tl rules, 0)
        else (first_rule # tl rules, 1)
      else (first_rule # tl rules, 0))"

definition close_last :: "int \<Rightarrow> syscall_range_rule list \<Rightarrow> syscall_range_rule list \<times> nat" where
  "close_last default_action rules =
     (let last_rule = last rules in
      if last_nr last_rule \<noteq> MAX_SYSCALL_NR then
        if action last_rule = default_action
        then (butlast rules @ [last_rule\<lparr>last_nr := MAX_SYSCALL_NR\<rparr>], 0)
        else (rules, 1)
      else (rules, 0))"

definition normalize_rules_count_missing ::
  "syscall_range_rule list \<Rightarrow> int \<Rightarrow> (syscall_range_rule list \<times> nat) option" where
  "normalize_rules_count_missing rules default_action =
     (case rules of
        [] \<Rightarrow> None
      | r # rest \<Rightarrow>
          do { (out, slack, to_add) \<leftarrow> count_missing_loop default_action ([r], 0, 0) rest;
               let (out1, n1) = close_first default_action out;
               let (out2, n2) = close_last default_action out1;
               Some (out2, to_add + n1 + n2) })"

text \<open>
  \<open>add_missing_rules\<close> walks the old rules from the last to the first and moves each to its
  final place \<open>to_add\<close> slots up. With \<open>to_add = 1\<close> the slot of a filler is the one \<open>prev\<close>
  still points to, and its \<open>first\<close> is overwritten before it is read.
\<close>

fun add_missing_loop ::
  "int \<Rightarrow> nat \<Rightarrow> syscall_range_rule option \<Rightarrow> syscall_range_rule list \<Rightarrow>
   syscall_range_rule list \<Rightarrow> (nat \<times> syscall_range_rule list) option" where
  "add_missing_loop default_action to_add prev [] acc = Some (to_add, acc)"
| "add_missing_loop default_action to_add prev (cur # rest) acc =
     (case prev of
        Some p \<Rightarrow>
          if first_nr p \<noteq> last_nr cur + 1 then
            if to_add = 0 then None
            else let hi = (if to_add = 1 then last_nr cur else first_nr p - 1) in
              add_missing_loop default_action (to_add - 1) (Some cur) rest
                (cur # filler_rule (last_nr cur + 1) hi default_action # acc)
          else add_missing_loop default_action to_add (Some cur) rest (cur # acc)
      | None \<Rightarrow> add_missing_loop default_action to_add (Some cur) rest (cur # acc))"

definition add_missing_rules ::
  "syscall_range_rule list \<Rightarrow> nat \<Rightarrow> int \<Rightarrow> syscall_range_rule list option" where
  "add_missing_rules rules to_add default_action =
     do { (n, tail) \<leftarrow>
            (if last_nr (last rules) \<noteq> MAX_SYSCALL_NR then
               if action (last rules) = default_action \<or> to_add = 0 then None
               else Some (to_add - 1,
                 [filler_rule (last_nr (last rules) + 1) MAX_SYSCALL_NR default_action])
             else Some (to_add, []));
          (m, out) \<leftarrow> add_missing_loop default_action n None (rev rules) tail;
          if m = 1 then
            if 0 < first_nr (hd out)
            then Some (filler_rule 0 (first_nr (hd out) - 1) default_action # out) else None
          else if m = 0 then Some out else None }"

definition normalize_rules ::
  "syscall_range_rule list \<Rightarrow> int \<Rightarrow> syscall_range_rule list option" where
  "normalize_rules rules default_action =
     (if default_action = ACTION_CONDITIONAL then None
      else if rules = [] then
        Some (add_range_rule [] (filler_rule 0 MAX_SYSCALL_NR default_action))
      else do { (out, to_add) \<leftarrow>
                  normalize_rules_count_missing (sort_range_rules rules) default_action;
                add_missing_rules out to_add default_action })"

end
