(* ===== verification/Kafel_Syscall.thy ===== *)
theory Kafel_Syscall
  imports Prelude
begin

text \<open>
  Descriptions of system calls (\<open>kafel/src/syscall.h\<close>, \<open>syscall.c\<close>) and the database they are
  looked up in (\<open>syscalldb.h\<close>, \<open>syscalldb.inl\<close>). A description has a number and up to six
  arguments with a name and a size in bytes.

  The database is a file that the build generates: \<open>syscalldb_generator\<close> (theory
  \<open>Syscalldb_Generator\<close>) writes arrays and a list of keywords, from which gperf makes a perfect
  hash function. What the lookups read is the record \<open>syscalldb\<close>. Its flat arrays are lists, a
  pointer into them is an index, and an access outside of them is \<open>None\<close>. The functions on it
  return an \<open>option\<close> around their result for that reason; where the source returns a null
  pointer there is a second \<open>option\<close> inside.
\<close>

abbreviation (input) "SYSCALL_MAX_ARGS \<equiv> (6 :: nat)"

record syscall_arg =
  arg_name :: string
  arg_size :: int

record syscall_descriptor =
  desc_name :: "string option"
  desc_nr :: u32
  is_custom :: bool
  desc_args :: "syscall_arg option list"

text \<open>
  The way the tables of system calls are written: the arguments not mentioned are zero, which
  leaves their name a null pointer.
\<close>

definition SYSCALL :: "string \<Rightarrow> u32 \<Rightarrow> (string \<times> int) list \<Rightarrow> syscall_descriptor" where
  "SYSCALL name n as =
     \<lparr>desc_name = Some name, desc_nr = n, is_custom = False,
      desc_args = map (\<lambda>(a, s). Some \<lparr>arg_name = a, arg_size = s\<rparr>) as
        @ replicate (SYSCALL_MAX_ARGS - length as) None\<rparr>"

definition syscall_custom :: "u32 \<Rightarrow> syscall_descriptor" where
  "syscall_custom n =
     \<lparr>desc_name = None, desc_nr = n, is_custom = False,
      desc_args = replicate SYSCALL_MAX_ARGS None\<rparr>"

section \<open>The layout of the database\<close>

text \<open>The compiler's bit counting builtins; \<open>__builtin_ctz (0)\<close> is undefined.\<close>

definition popcount :: "u32 \<Rightarrow> nat" where
  "popcount w = length (filter (bit w) [0..<32])"

definition ctz :: "u32 \<Rightarrow> nat option" where
  "ctz w = find (bit w) [0..<32]"

abbreviation (input) "SYSCALLDB_ARCH_ARM_FLAG \<equiv> (0x01 :: u32)"
abbreviation (input) "SYSCALLDB_ARCH_AARCH64_FLAG \<equiv> (0x02 :: u32)"
abbreviation (input) "SYSCALLDB_ARCH_X86_64_FLAG \<equiv> (0x04 :: u32)"
abbreviation (input) "SYSCALLDB_ARCH_MIPS_FLAG \<equiv> (0x08 :: u32)"
abbreviation (input) "SYSCALLDB_ARCH_MIPS64_FLAG \<equiv> (0x10 :: u32)"
abbreviation (input) "SYSCALLDB_ARCH_I386_FLAG \<equiv> (0x20 :: u32)"

abbreviation (input) "SYSCALLDB_MAX_ARGTYPE \<equiv> (8 :: int)"
abbreviation (input) "SYSCALLDB_MAX_ARGNAME \<equiv> (0xffff :: nat)"
abbreviation (input) "INT32_MAX \<equiv> (0x7fffffff :: u32)"

definition SYSCALLDB_ARGNO :: "nat \<Rightarrow> u32" where
  "SYSCALLDB_ARGNO no = push_bit 24 (of_nat no)"

definition SYSCALLDB_ARGTYPE :: "int \<Rightarrow> u32" where
  "SYSCALLDB_ARGTYPE type = push_bit 16 (word_of_int type)"

definition SYSCALLDB_ARGNAME :: "nat \<Rightarrow> u32" where
  "SYSCALLDB_ARGNAME name = of_nat name"

definition SYSCALLDB_GET_ARGNO :: "u32 \<Rightarrow> nat" where
  "SYSCALLDB_GET_ARGNO x = unat (drop_bit 24 (x AND 0xff000000))"

definition SYSCALLDB_GET_ARGTYPE :: "u32 \<Rightarrow> int" where
  "SYSCALLDB_GET_ARGTYPE x = uint (drop_bit 16 (x AND 0x00ff0000))"

definition SYSCALLDB_GET_ARGNAME :: "u32 \<Rightarrow> nat" where
  "SYSCALLDB_GET_ARGNAME x = unat (x AND 0x0000ffff)"

text \<open>
  The arrays of the generated file. \<open>lookup_internal\<close> and \<open>db_entries\<close> are gperf's lookup
  function and its table: an entry is the name its \<open>name\<close> field points to and its
  \<open>definition_offset\<close>.
\<close>

record syscalldb =
  db_definitions :: "u32 list"
  db_arg_name_pool :: string
  db_pointer_size :: "int list"
  lookup_internal :: "string \<Rightarrow> u16 option"
  db_entries :: "(string \<times> u16) list"

text \<open>The null-terminated string that starts at an offset of a pool of strings.\<close>

definition c_string :: "string \<Rightarrow> nat \<Rightarrow> string option" where
  "c_string pool off =
     (let s = drop off pool in
      if CHR 0x00 \<in> set s then Some (takeWhile (\<lambda>c. c \<noteq> CHR 0x00) s) else None)"

definition SYSCALLDB_DEFINITION_NR :: "nat \<Rightarrow> u32 \<Rightarrow> nat" where
  "SYSCALLDB_DEFINITION_NR d n_arg_info =
     d + 2 + unat (if n_arg_info > INT32_MAX then 2 * (- n_arg_info) else n_arg_info)"

definition SYSCALLDB_DEFINITION_NEXT :: "nat \<Rightarrow> u32 \<Rightarrow> u32 \<Rightarrow> nat" where
  "SYSCALLDB_DEFINITION_NEXT d arch_mask n_arg_info =
     SYSCALLDB_DEFINITION_NR d n_arg_info + popcount arch_mask"

section \<open>Lookup\<close>

definition syscalldb_lookup :: "syscalldb \<Rightarrow> string \<Rightarrow> nat option" where
  "syscalldb_lookup db name = map_option unat (lookup_internal db name)"

definition get_nr :: "syscalldb \<Rightarrow> nat \<Rightarrow> u32 \<Rightarrow> u32 option" where
  "get_nr db def msk =
     do { arch_mask \<leftarrow> read_at (db_definitions db) def;
          n_arg_info \<leftarrow> read_at (db_definitions db) (def + 1);
          let match = msk AND arch_mask;
          read_at (db_definitions db) (SYSCALLDB_DEFINITION_NR def n_arg_info
            + popcount (arch_mask AND (match XOR (match - 1))) - 1) }"

definition unpack_arg ::
  "syscalldb \<Rightarrow> u32 \<Rightarrow> syscall_arg option list \<Rightarrow> syscall_arg option list option" where
  "unpack_arg db info as =
     do { name \<leftarrow> c_string (db_arg_name_pool db) (SYSCALLDB_GET_ARGNAME info);
          if SYSCALLDB_GET_ARGNO info < length as
          then Some (as[SYSCALLDB_GET_ARGNO info :=
            Some \<lparr>arg_name = name, arg_size = SYSCALLDB_GET_ARGTYPE info\<rparr>])
          else None }"

text \<open>The two loops of \<open>syscalldb_unpack\<close> count down to the first entry.\<close>

fun unpack_args ::
  "syscalldb \<Rightarrow> nat \<Rightarrow> nat \<Rightarrow> syscall_arg option list \<Rightarrow> syscall_arg option list option" where
  "unpack_args db def 0 as = Some as"
| "unpack_args db def (Suc i) as =
     do { info \<leftarrow> read_at (db_definitions db) (def + 2 + i);
          as' \<leftarrow> unpack_arg db info as;
          unpack_args db def i as' }"

fun unpack_ext_args ::
  "syscalldb \<Rightarrow> nat \<Rightarrow> u32 \<Rightarrow> nat \<Rightarrow> syscall_arg option list \<Rightarrow> syscall_arg option list option"
  where
  "unpack_ext_args db def msk 0 as = Some as"
| "unpack_ext_args db def msk (Suc i) as =
     do { arch_mask \<leftarrow> read_at (db_definitions db) (def + 2 + 2 * i);
          as' \<leftarrow> (if msk AND arch_mask \<noteq> 0
                  then do { info \<leftarrow> read_at (db_definitions db) (def + 2 + 2 * i + 1);
                            unpack_arg db info as }
                  else Some as);
          unpack_ext_args db def msk i as' }"

definition fill_pointer_size ::
  "syscalldb \<Rightarrow> u32 \<Rightarrow> syscall_arg option \<Rightarrow> syscall_arg option option" where
  "fill_pointer_size db match arg =
     (case arg of
        None \<Rightarrow> Some None
      | Some a \<Rightarrow>
          if arg_size a = 0 then
            do { i \<leftarrow> ctz match;
                 sz \<leftarrow> read_at (db_pointer_size db) i;
                 Some (Some (a\<lparr>arg_size := sz\<rparr>)) }
          else Some (Some a))"

definition syscalldb_unpack ::
  "syscalldb \<Rightarrow> nat \<Rightarrow> u32 \<Rightarrow> syscall_descriptor option" where
  "syscalldb_unpack db def msk =
     do { arch_mask \<leftarrow> read_at (db_definitions db) def;
          n_arg_info \<leftarrow> read_at (db_definitions db) (def + 1);
          n \<leftarrow> get_nr db def msk;
          let unnamed = replicate SYSCALL_MAX_ARGS None;
          as \<leftarrow> (if n_arg_info \<le> INT32_MAX
                 then unpack_args db def (unat n_arg_info) unnamed
                 else unpack_ext_args db def msk (unat (- n_arg_info)) unnamed);
          sized \<leftarrow> those (map (fill_pointer_size db (msk AND arch_mask)) as);
          Some \<lparr>desc_name = None, desc_nr = n, is_custom = False, desc_args = sized\<rparr> }"

definition syscall_lookup ::
  "syscalldb \<Rightarrow> u32 \<Rightarrow> string \<Rightarrow> syscall_descriptor option option" where
  "syscall_lookup db msk name =
     (case syscalldb_lookup db name of
        None \<Rightarrow> Some None
      | Some def \<Rightarrow>
          do { arch_mask \<leftarrow> read_at (db_definitions db) def;
               if msk AND arch_mask \<noteq> 0
               then map_option Some (syscalldb_unpack db def msk)
               else Some None })"

text \<open>
  From a number back to a name: a walk over the definitions, which lie back to back and end
  with a zero word, and then over the table for the entry that points to the definition found.
\<close>

function reverse_lookup_loop ::
  "syscalldb \<Rightarrow> u32 \<Rightarrow> u32 \<Rightarrow> nat \<Rightarrow> string option option" where
  "reverse_lookup_loop db msk n def =
     (case read_at (db_definitions db) def of
        None \<Rightarrow> None
      | Some arch_mask \<Rightarrow>
          if arch_mask = 0 then Some None
          else do { n_arg_info \<leftarrow> read_at (db_definitions db) (def + 1);
                    found \<leftarrow> (if msk AND arch_mask \<noteq> 0
                              then map_option (\<lambda>x. x = n) (get_nr db def msk)
                              else Some False);
                    if found
                    then map_option (\<lambda>e. Some (fst e))
                           (find (\<lambda>e. unat (snd e) = def) (db_entries db))
                    else reverse_lookup_loop db msk n
                           (SYSCALLDB_DEFINITION_NEXT def arch_mask n_arg_info) })"
  by pat_completeness auto
termination
  by (relation "measure (\<lambda>(db, msk, n, def). length (db_definitions db) - def)")
     (auto simp: read_at_def SYSCALLDB_DEFINITION_NEXT_def SYSCALLDB_DEFINITION_NR_def
        split: if_splits)

definition syscalldb_reverse_lookup ::
  "syscalldb \<Rightarrow> u32 \<Rightarrow> u32 \<Rightarrow> string option option" where
  "syscalldb_reverse_lookup db msk n = reverse_lookup_loop db msk n 0"

section \<open>Architectures\<close>

text \<open>The audit architecture identifiers of the system headers.\<close>

abbreviation (input) "AUDIT_ARCH_ARM \<equiv> (0x40000028 :: u32)"
abbreviation (input) "AUDIT_ARCH_AARCH64 \<equiv> (0xc00000b7 :: u32)"
abbreviation (input) "AUDIT_ARCH_X86_64 \<equiv> (0xc000003e :: u32)"
abbreviation (input) "AUDIT_ARCH_MIPS \<equiv> (0x00000008 :: u32)"
abbreviation (input) "AUDIT_ARCH_MIPS64 \<equiv> (0x80000008 :: u32)"
abbreviation (input) "AUDIT_ARCH_I386 \<equiv> (0x40000003 :: u32)"

definition syscall_get_arch_mask :: "u32 \<Rightarrow> u32" where
  "syscall_get_arch_mask arch =
     (if arch = AUDIT_ARCH_ARM then SYSCALLDB_ARCH_ARM_FLAG
      else if arch = AUDIT_ARCH_AARCH64 then SYSCALLDB_ARCH_AARCH64_FLAG
      else if arch = AUDIT_ARCH_X86_64 then SYSCALLDB_ARCH_X86_64_FLAG
      else if arch = AUDIT_ARCH_MIPS then SYSCALLDB_ARCH_MIPS_FLAG
      else if arch = AUDIT_ARCH_MIPS64 then SYSCALLDB_ARCH_MIPS64_FLAG
      else if arch = AUDIT_ARCH_I386 then SYSCALLDB_ARCH_I386_FLAG
      else 0)"

end
