(* ===== verification/Kafel_Context.thy ===== *)
theory Kafel_Context
  imports Kafel_Policy Kafel_Syscall
begin

text \<open>
  The compilation context (\<open>kafel/src/context.c\<close>, \<open>context.h\<close>) with the tables the parser
  fills: the arguments of the rule being parsed, the named policies, the constants, the
  implicit main policy and the default action. The tables are tail queues searched from the
  front; they are lists here.
\<close>

record kafel_ctxt =
  syscall_args :: "syscall_arg list"
  policies :: "policy list"
  main_policy :: "policy option"
  default_action :: int
  target_arch :: u32
  target_arch_mask :: u32
  lexical_error :: bool
  errors :: "string list"
  constants :: "(string \<times> u64) list"

definition kafel_ctxt_create :: "u32 \<Rightarrow> kafel_ctxt" where
  "kafel_ctxt_create default_arch =
     \<lparr>syscall_args = [], policies = [], main_policy = None, default_action = 0,
      target_arch = default_arch, target_arch_mask = 0, lexical_error = False,
      errors = [], constants = []\<rparr>"

definition clean_args :: "kafel_ctxt \<Rightarrow> kafel_ctxt" where
  "clean_args ctxt = ctxt\<lparr>syscall_args := []\<rparr>"

definition kafel_ctxt_reset :: "kafel_ctxt \<Rightarrow> kafel_ctxt" where
  "kafel_ctxt_reset ctxt =
     (clean_args ctxt)\<lparr>policies := [], constants := [], errors := [], main_policy := None,
       default_action := 0, lexical_error := False\<rparr>"

definition register_policy :: "kafel_ctxt \<Rightarrow> policy \<Rightarrow> kafel_ctxt" where
  "register_policy ctxt p = ctxt\<lparr>policies := policies ctxt @ [p]\<rparr>"

text \<open>Registration fails (\<open>-1\<close> in the source) when six arguments are registered already.\<close>

definition register_arg :: "kafel_ctxt \<Rightarrow> string \<Rightarrow> int \<Rightarrow> kafel_ctxt option" where
  "register_arg ctxt name sz =
     (if length (syscall_args ctxt) \<ge> SYSCALL_MAX_ARGS then None
      else Some (ctxt\<lparr>syscall_args :=
        syscall_args ctxt @ [\<lparr>arg_name = name, arg_size = sz\<rparr>]\<rparr>))"

definition register_first_arg :: "kafel_ctxt \<Rightarrow> string \<Rightarrow> int \<Rightarrow> kafel_ctxt" where
  "register_first_arg ctxt name sz =
     (case register_arg (clean_args ctxt) name sz of
        Some ctxt' \<Rightarrow> ctxt' | None \<Rightarrow> clean_args ctxt)"

definition register_ftrace_args :: "kafel_ctxt \<Rightarrow> syscall_descriptor \<Rightarrow> kafel_ctxt" where
  "register_ftrace_args ctxt desc =
     fold (\<lambda>a c. case a of
         None \<Rightarrow> c
       | Some arg \<Rightarrow> (case register_arg c (arg_name arg) (arg_size arg) of
                        Some c' \<Rightarrow> c' | None \<Rightarrow> c))
       (take SYSCALL_MAX_ARGS (desc_args desc)) (clean_args ctxt)"

text \<open>The first registered argument of that name, by its position.\<close>

fun find_arg :: "string \<Rightarrow> syscall_arg list \<Rightarrow> nat option" where
  "find_arg name [] = None"
| "find_arg name (a # as) =
     (if arg_name a = name then Some 0 else map_option Suc (find_arg name as))"

definition lookup_var :: "kafel_ctxt \<Rightarrow> string \<Rightarrow> nat option" where
  "lookup_var ctxt name = find_arg name (syscall_args ctxt)"

fun policy_name :: "policy \<Rightarrow> string" where
  "policy_name (Policy name es) = name"

definition lookup_policy :: "kafel_ctxt \<Rightarrow> string \<Rightarrow> policy option" where
  "lookup_policy ctxt name = find (\<lambda>p. policy_name p = name) (policies ctxt)"

definition register_const :: "kafel_ctxt \<Rightarrow> string \<Rightarrow> u64 \<Rightarrow> kafel_ctxt" where
  "register_const ctxt name v = ctxt\<lparr>constants := constants ctxt @ [(name, v)]\<rparr>"

definition lookup_const :: "kafel_ctxt \<Rightarrow> string \<Rightarrow> u64 option" where
  "lookup_const ctxt name = map_of (constants ctxt) name"

end
