(* ===== verification/Kafel_Codegen.thy ===== *)
theory Kafel_Codegen
  imports Kafel_Ranges Kafel_Context
begin

unbundle bit_operations_syntax

text \<open>
  The code generator (\<open>kafel/src/codegen.c\<close>). Instructions are emitted last first: the buffer
  is the program in reverse, and a location is an index into it. A negative location \<open>-a\<close>
  stands for a return of action \<open>a\<close>. An assertion that fails is \<open>None\<close>; the growth of the
  buffer's allocation has no counterpart.
\<close>

section \<open>Context and emission\<close>

abbreviation (input) "INVALID_LOCATION \<equiv> (- 2147483648 :: int)"
abbreviation (input) "MAX_JUMP \<equiv> (255 :: int)"

abbreviation (input) "SECCOMP_RET_KILL \<equiv> (0x00000000 :: u32)"
abbreviation (input) "SECCOMP_RET_KILL_PROCESS \<equiv> (0x80000000 :: u32)"
abbreviation (input) "SECCOMP_RET_TRAP \<equiv> (0x00030000 :: u32)"
abbreviation (input) "SECCOMP_RET_ERRNO \<equiv> (0x00050000 :: u32)"
abbreviation (input) "SECCOMP_RET_USER_NOTIF \<equiv> (0x7fc00000 :: u32)"
abbreviation (input) "SECCOMP_RET_TRACE \<equiv> (0x7ff00000 :: u32)"
abbreviation (input) "SECCOMP_RET_LOG \<equiv> (0x7ffc0000 :: u32)"
abbreviation (input) "SECCOMP_RET_ALLOW \<equiv> (0x7fff0000 :: u32)"

definition ACTION_TO_BPF :: "int \<Rightarrow> u32 option" where
  "ACTION_TO_BPF act =
     (if act = ACTION_KILL then Some SECCOMP_RET_KILL
      else if act = ACTION_KILL_PROCESS then Some SECCOMP_RET_KILL_PROCESS
      else if act = ACTION_ALLOW then Some SECCOMP_RET_ALLOW
      else if act = ACTION_LOG then Some SECCOMP_RET_LOG
      else if act = ACTION_USER_NOTIF then Some SECCOMP_RET_USER_NOTIF
      else let masked_action = act AND 0xfff0000; v = word_of_int (act AND 0xffff) in
        if masked_action = ACTION_TRAP then Some (SECCOMP_RET_TRAP OR v)
        else if masked_action = ACTION_ERRNO then Some (SECCOMP_RET_ERRNO OR v)
        else if masked_action = ACTION_TRACE then Some (SECCOMP_RET_TRACE OR v)
        else None)"

record codegen_ctxt =
  buffer :: "sock_filter list"
  basic_actions :: "int list"
  cache :: "(int \<times> int) list"

definition context_create :: codegen_ctxt where
  "context_create =
     \<lparr>buffer = [], basic_actions = replicate 6 INVALID_LOCATION, cache = []\<rparr>"

definition CURRENT_LOC :: "codegen_ctxt \<Rightarrow> int" where
  "CURRENT_LOC ctxt = int (length (buffer ctxt)) - 1"

definition LOC_TO_JUMP :: "codegen_ctxt \<Rightarrow> int \<Rightarrow> int" where
  "LOC_TO_JUMP ctxt loc = CURRENT_LOC ctxt - loc"

definition add_instruction :: "codegen_ctxt \<Rightarrow> sock_filter \<Rightarrow> codegen_ctxt \<times> int" where
  "add_instruction ctxt inst =
     (let ctxt' = ctxt\<lparr>buffer := buffer ctxt @ [inst]\<rparr> in (ctxt', CURRENT_LOC ctxt'))"

definition purge_location_cache :: "codegen_ctxt \<Rightarrow> codegen_ctxt" where
  "purge_location_cache ctxt =
     ctxt\<lparr>cache := filter (\<lambda>(act, loc). LOC_TO_JUMP ctxt loc < MAX_JUMP) (cache ctxt)\<rparr>"

section \<open>Resolving locations to jump offsets\<close>

fun cache_find :: "int \<Rightarrow> (int \<times> int) list \<Rightarrow> nat option" where
  "cache_find act [] = None"
| "cache_find act (e # es) =
     (if fst e = act then Some 0 else map_option Suc (cache_find act es))"

definition jump_offset :: "codegen_ctxt \<Rightarrow> int \<Rightarrow> u8" where
  "jump_offset ctxt loc = word_of_int (LOC_TO_JUMP ctxt loc)"

definition resolve_basic :: "codegen_ctxt \<Rightarrow> int \<Rightarrow> sock_filter \<Rightarrow> codegen_ctxt \<times> u8" where
  "resolve_basic ctxt act action_inst =
     (let loc = basic_actions ctxt ! nat act in
      if loc = INVALID_LOCATION \<or> LOC_TO_JUMP ctxt loc > MAX_JUMP then
        let (ctxt1, loc1) = add_instruction ctxt action_inst;
            ctxt2 = ctxt1\<lparr>basic_actions := (basic_actions ctxt1)[nat act := loc1]\<rparr>
        in (ctxt2, jump_offset ctxt2 loc1)
      else (ctxt, jump_offset ctxt loc))"

definition resolve_cached ::
  "codegen_ctxt \<Rightarrow> int \<Rightarrow> sock_filter \<Rightarrow> (codegen_ctxt \<times> u8) option" where
  "resolve_cached ctxt act action_inst =
     (case cache_find act (cache ctxt) of
        Some i \<Rightarrow>
          let loc = snd (cache ctxt ! i) in
          if LOC_TO_JUMP ctxt loc > MAX_JUMP then
            let (ctxt1, loc1) = add_instruction ctxt action_inst;
                ctxt2 = ctxt1\<lparr>cache := (cache ctxt1)[i := (act, loc1)]\<rparr>
            in Some (ctxt2, jump_offset ctxt2 loc1)
          else Some (ctxt, jump_offset ctxt loc)
      | None \<Rightarrow>
          let ctxt0 = purge_location_cache ctxt in
          if length (cache ctxt0) < 255 then
            let (ctxt1, loc1) = add_instruction ctxt0 action_inst;
                ctxt2 = ctxt1\<lparr>cache := cache ctxt1 @ [(act, loc1)]\<rparr>
            in Some (ctxt2, jump_offset ctxt2 loc1)
          else None)"

definition resolve_action :: "codegen_ctxt \<Rightarrow> int \<Rightarrow> (codegen_ctxt \<times> u8) option" where
  "resolve_action ctxt act =
     do { v \<leftarrow> ACTION_TO_BPF act;
          let action_inst = BPF_STMT (BPF_RET OR BPF_K) v;
          if act \<le> ACTION_BASIC_MAX then Some (resolve_basic ctxt act action_inst)
          else resolve_cached ctxt act action_inst }"

definition resolve_location :: "codegen_ctxt \<Rightarrow> int \<Rightarrow> (codegen_ctxt \<times> u8) option" where
  "resolve_location ctxt loc =
     (if loc < 0 then resolve_action ctxt (- loc)
      else let pos = LOC_TO_JUMP ctxt loc;
               (ctxt', pos') =
                 (if pos > MAX_JUMP then
                    let (ctxt1, loc1) =
                      add_instruction ctxt (BPF_STMT (BPF_JMP OR BPF_JA) (word_of_int pos))
                    in (ctxt1, LOC_TO_JUMP ctxt1 loc1)
                  else (ctxt, pos))
           in if 0 \<le> pos' \<and> pos' \<le> MAX_JUMP then Some (ctxt', word_of_int pos') else None)"

section \<open>Jumps\<close>

definition add_jump ::
  "codegen_ctxt \<Rightarrow> u16 \<Rightarrow> u32 \<Rightarrow> int \<Rightarrow> int \<Rightarrow> (codegen_ctxt \<times> int) option" where
  "add_jump ctxt type kv tloc floc =
     (if tloc = floc then Some (ctxt, tloc)
      else do { (ctxt1, tpos1) \<leftarrow> resolve_location ctxt tloc;
                (ctxt2, fpos) \<leftarrow> resolve_location ctxt1 floc;
                (ctxt3, tpos) \<leftarrow> resolve_location ctxt2 tloc;
                Some (add_instruction ctxt3 (BPF_JUMP (BPF_JMP OR type) kv tpos fpos)) })"

definition add_jump_ge ::
  "codegen_ctxt \<Rightarrow> u32 \<Rightarrow> int \<Rightarrow> int \<Rightarrow> (codegen_ctxt \<times> int) option" where
  "add_jump_ge ctxt than tloc floc =
     (if than = 0 then Some (ctxt, tloc)
      else add_jump ctxt (BPF_JGE OR BPF_K) than tloc floc)"

definition add_jump_gt ::
  "codegen_ctxt \<Rightarrow> u32 \<Rightarrow> int \<Rightarrow> int \<Rightarrow> (codegen_ctxt \<times> int) option" where
  "add_jump_gt ctxt than tloc floc =
     (if than = 0xffffffff then Some (ctxt, floc)
      else add_jump ctxt (BPF_JGT OR BPF_K) than tloc floc)"

definition add_jump_set ::
  "codegen_ctxt \<Rightarrow> u32 \<Rightarrow> int \<Rightarrow> int \<Rightarrow> (codegen_ctxt \<times> int) option" where
  "add_jump_set ctxt what tloc floc =
     (if what = 0 then Some (ctxt, floc)
      else add_jump ctxt (BPF_JSET OR BPF_K) what tloc floc)"

definition ADD_JUMP_K ::
  "codegen_ctxt \<Rightarrow> u16 \<Rightarrow> u32 \<Rightarrow> int \<Rightarrow> int \<Rightarrow> (codegen_ctxt \<times> int) option" where
  "ADD_JUMP_K ctxt type kv tloc floc =
     (if type = BPF_JGT then add_jump_gt ctxt kv tloc floc
      else if type = BPF_JGE then add_jump_ge ctxt kv tloc floc
      else if type = BPF_JSET then add_jump_set ctxt kv tloc floc
      else add_jump ctxt (type OR BPF_K) kv tloc floc)"

definition ADD_JUMP_X ::
  "codegen_ctxt \<Rightarrow> u16 \<Rightarrow> int \<Rightarrow> int \<Rightarrow> (codegen_ctxt \<times> int) option" where
  "ADD_JUMP_X ctxt type tloc floc = add_jump ctxt (type OR BPF_X) 0 tloc floc"

section \<open>Operands\<close>

datatype word_sel = HIGH_WORD | LOW_WORD

definition ARG_WORD :: "nat \<Rightarrow> word_sel \<Rightarrow> u32" where
  "ARG_WORD arg w = of_nat (16 + 8 * arg) + (if w = HIGH_WORD then 4 else 0)"

definition NUM_WORD :: "u64 \<Rightarrow> word_sel \<Rightarrow> u32" where
  "NUM_WORD num w = (if w = HIGH_WORD then hi32 num else lo32 num)"

fun is_const_value :: "expr_tree \<Rightarrow> word_sel \<Rightarrow> bool option"
  and value_of :: "expr_tree \<Rightarrow> word_sel \<Rightarrow> u32 option" where
  "is_const_value (EXPR_NUMBER n) w = Some True"
| "is_const_value (EXPR_VAR v s) w = Some False"
| "is_const_value (EXPR_BINARY EXPR_BIT_AND left right) w =
     do { rc \<leftarrow> is_const_value right w;
          rz \<leftarrow> (if rc then map_option (\<lambda>x. x = 0) (value_of right w) else Some False);
          if rz then Some True
          else do { lc \<leftarrow> is_const_value left w;
                    if lc then map_option (\<lambda>x. x = 0) (value_of left w) else Some False } }"
| "is_const_value _ w = None"
| "value_of (EXPR_NUMBER n) w = Some (NUM_WORD n w)"
| "value_of (EXPR_BINARY EXPR_BIT_AND left right) w =
     do { rc \<leftarrow> is_const_value right w;
          rz \<leftarrow> (if rc then map_option (\<lambda>x. x = 0) (value_of right w) else Some False);
          if rz then Some 0
          else do { lc \<leftarrow> is_const_value left w;
                    lz \<leftarrow> (if lc then map_option (\<lambda>x. x = 0) (value_of left w) else Some False);
                    if lz then Some 0 else None } }"
| "value_of _ w = None"

fun generate_load ::
  "codegen_ctxt \<Rightarrow> expr_tree \<Rightarrow> word_sel \<Rightarrow> (codegen_ctxt \<times> int) option" where
  "generate_load ctxt expr w =
     do { const \<leftarrow> is_const_value expr w;
          if const then None
          else (case expr of
             EXPR_VAR v s \<Rightarrow>
               Some (add_instruction ctxt (BPF_STMT (BPF_LD OR BPF_W OR BPF_ABS) (ARG_WORD v w)))
           | EXPR_BINARY EXPR_BIT_AND left right \<Rightarrow>
               do { rc \<leftarrow> is_const_value right w;
                    if rc then
                      do { v \<leftarrow> value_of right w;
                           let (ctxt1, _) =
                             add_instruction ctxt (BPF_STMT (BPF_ALU OR BPF_AND OR BPF_K) v);
                           generate_load ctxt1 left w }
                    else
                      do { let (ctxt1, _) =
                             add_instruction ctxt (BPF_STMT (BPF_ALU OR BPF_AND OR BPF_X) 0);
                           (ctxt2, _) \<leftarrow> generate_load ctxt1 left w;
                           let (ctxt3, _) =
                             add_instruction ctxt2 (BPF_STMT (BPF_MISC OR BPF_TAX) 0);
                           generate_load ctxt3 right w } }
           | _ \<Rightarrow> None) }"

declare generate_load.simps [simp del]

fun is_64bit :: "expr_tree \<Rightarrow> bool option" where
  "is_64bit (EXPR_BINARY bop left right) =
     do { l \<leftarrow> is_64bit left; if l then Some True else is_64bit right }"
| "is_64bit (EXPR_NUMBER n) = Some (n > 0xffffffff)"
| "is_64bit (EXPR_VAR v s) = Some (s = 8)"
| "is_64bit _ = None"

section \<open>Comparisons\<close>

datatype load_mode = NEVER | NORMAL | ALWAYS

definition evaluate_jump :: "u16 \<Rightarrow> u32 \<Rightarrow> u32 \<Rightarrow> bool option" where
  "evaluate_jump type left right =
     (if type = BPF_JEQ then Some (left = right)
      else if type = BPF_JGE then Some (left \<ge> right)
      else if type = BPF_JGT then Some (left > right)
      else if type = BPF_JSET then Some (left AND right \<noteq> 0)
      else None)"

text \<open>
  A comparison as \<open>generate_cmp32\<close> carries it through its rewritings: jump type, operands and
  the two destinations.
\<close>

record cmp32 =
  ctype :: u16
  cleft :: expr_tree
  cright :: expr_tree
  ctloc :: int
  cfloc :: int

text \<open>A constant on the left is moved to the right; strictness and destinations flip.\<close>

definition cmp32_swap :: "cmp32 \<Rightarrow> cmp32" where
  "cmp32_swap q =
     (let q1 = q\<lparr>cleft := cright q, cright := cleft q\<rparr> in
      if ctype q = BPF_JGT then q1\<lparr>ctype := BPF_JGE, ctloc := cfloc q, cfloc := ctloc q\<rparr>
      else if ctype q = BPF_JGE then q1\<lparr>ctype := BPF_JGT, ctloc := cfloc q, cfloc := ctloc q\<rparr>
      else q1)"

text \<open>A test of \<open>left & mask\<close> against zero becomes a bit test.\<close>

definition cmp32_jset :: "cmp32 \<Rightarrow> word_sel \<Rightarrow> cmp32 option" where
  "cmp32_jset q w =
     (case cleft q of
        EXPR_BINARY EXPR_BIT_AND l r \<Rightarrow>
          do { rc \<leftarrow> is_const_value (cright q) w;
               zero \<leftarrow> (if rc then map_option (\<lambda>x. x = 0) (value_of (cright q) w) else Some False);
               if (ctype q = BPF_JEQ \<or> ctype q = BPF_JGT) \<and> zero then
                 do { lc \<leftarrow> is_const_value l w;
                      let q1 = (if lc then q\<lparr>cleft := r, cright := l\<rparr>
                                else q\<lparr>cleft := l, cright := r\<rparr>);
                      let q2 = (if ctype q = BPF_JEQ
                                then q1\<lparr>ctloc := cfloc q, cfloc := ctloc q\<rparr> else q1);
                      Some (q2\<lparr>ctype := BPF_JSET\<rparr>) }
               else Some q }
      | _ \<Rightarrow> Some q)"

definition cmp32_emit ::
  "codegen_ctxt \<Rightarrow> int \<Rightarrow> cmp32 \<Rightarrow> word_sel \<Rightarrow> load_mode \<Rightarrow> (codegen_ctxt \<times> int) option" where
  "cmp32_emit ctxt begin q w load =
     do { rc \<leftarrow> is_const_value (cright q) w;
          if rc then
            do { v \<leftarrow> value_of (cright q) w;
                 (ctxt1, next) \<leftarrow> ADD_JUMP_K ctxt (ctype q) v (ctloc q) (cfloc q);
                 if load = ALWAYS \<or> load \<noteq> NEVER \<and> next > begin
                 then generate_load ctxt1 (cleft q) w
                 else Some (ctxt1, next) }
          else
            do { (ctxt1, next) \<leftarrow> ADD_JUMP_X ctxt (ctype q) (ctloc q) (cfloc q);
                 if load = ALWAYS \<or> load \<noteq> NEVER \<and> next > begin then
                   do { (ctxt2, _) \<leftarrow> generate_load ctxt1 (cleft q) w;
                        let (ctxt3, _) = add_instruction ctxt2 (BPF_STMT (BPF_MISC OR BPF_TAX) 0);
                        generate_load ctxt3 (cright q) w }
                 else Some (ctxt1, next) } }"

definition generate_cmp32 ::
  "codegen_ctxt \<Rightarrow> u16 \<Rightarrow> expr_tree \<Rightarrow> expr_tree \<Rightarrow> int \<Rightarrow> int \<Rightarrow> word_sel \<Rightarrow> load_mode \<Rightarrow>
   (codegen_ctxt \<times> int) option" where
  "generate_cmp32 ctxt type left right tloc floc w load =
     do { let begin = CURRENT_LOC ctxt;
          let q = \<lparr>ctype = type, cleft = left, cright = right, ctloc = tloc, cfloc = floc\<rparr>;
          lc \<leftarrow> is_const_value left w;
          rc \<leftarrow> (if lc then is_const_value right w else Some False);
          if lc \<and> rc then
            do { a \<leftarrow> value_of left w;
                 b \<leftarrow> value_of right w;
                 t \<leftarrow> evaluate_jump type a b;
                 Some (ctxt, if t then tloc else floc) }
          else
            do { q' \<leftarrow> cmp32_jset (if lc then cmp32_swap q else q) w;
                 cmp32_emit ctxt begin q' w load } }"

definition generate_inequality ::
  "codegen_ctxt \<Rightarrow> u16 \<Rightarrow> expr_tree \<Rightarrow> expr_tree \<Rightarrow> int \<Rightarrow> int \<Rightarrow> (codegen_ctxt \<times> int) option" where
  "generate_inequality ctxt type left right tloc floc =
     do { (ctxt1, next1) \<leftarrow> generate_cmp32 ctxt type left right tloc floc LOW_WORD NORMAL;
          let begin = CURRENT_LOC ctxt1;
          wide_l \<leftarrow> is_64bit left;
          wide \<leftarrow> (if wide_l then Some True else is_64bit right);
          if wide then
            do { (ctxt2, next2) \<leftarrow>
                   generate_cmp32 ctxt1 BPF_JGE left right next1 floc HIGH_WORD NEVER;
                 generate_cmp32 ctxt2 BPF_JGT left right tloc next2 HIGH_WORD
                   (if next2 > begin then ALWAYS else NORMAL) }
          else Some (ctxt1, next1) }"

definition generate_equality ::
  "codegen_ctxt \<Rightarrow> expr_tree \<Rightarrow> expr_tree \<Rightarrow> int \<Rightarrow> int \<Rightarrow> (codegen_ctxt \<times> int) option" where
  "generate_equality ctxt left right tloc floc =
     do { (ctxt1, next1) \<leftarrow> generate_cmp32 ctxt BPF_JEQ left right tloc floc LOW_WORD NORMAL;
          wide_l \<leftarrow> is_64bit left;
          wide \<leftarrow> (if wide_l then Some True else is_64bit right);
          if wide then generate_cmp32 ctxt1 BPF_JEQ left right next1 floc HIGH_WORD NORMAL
          else Some (ctxt1, next1) }"

section \<open>Expressions, actions and the table\<close>

fun generate_expr ::
  "codegen_ctxt \<Rightarrow> expr_tree \<Rightarrow> int \<Rightarrow> int \<Rightarrow> (codegen_ctxt \<times> int) option" where
  "generate_expr ctxt (EXPR_BINARY EXPR_AND left right) tloc floc =
     do { (ctxt1, tloc1) \<leftarrow> generate_expr ctxt right tloc floc;
          generate_expr ctxt1 left tloc1 floc }"
| "generate_expr ctxt (EXPR_BINARY EXPR_OR left right) tloc floc =
     do { (ctxt1, floc1) \<leftarrow> generate_expr ctxt right tloc floc;
          generate_expr ctxt1 left tloc floc1 }"
| "generate_expr ctxt (EXPR_BINARY EXPR_LE left right) tloc floc =
     generate_inequality ctxt BPF_JGT left right floc tloc"
| "generate_expr ctxt (EXPR_BINARY EXPR_GT left right) tloc floc =
     generate_inequality ctxt BPF_JGT left right tloc floc"
| "generate_expr ctxt (EXPR_BINARY EXPR_LT left right) tloc floc =
     generate_inequality ctxt BPF_JGE left right floc tloc"
| "generate_expr ctxt (EXPR_BINARY EXPR_GE left right) tloc floc =
     generate_inequality ctxt BPF_JGE left right tloc floc"
| "generate_expr ctxt (EXPR_BINARY EXPR_NEQ left right) tloc floc =
     generate_equality ctxt left right floc tloc"
| "generate_expr ctxt (EXPR_BINARY EXPR_EQ left right) tloc floc =
     generate_equality ctxt left right tloc floc"
| "generate_expr ctxt _ tloc floc = None"

text \<open>The mappings of a rule from the last to the first; the last one must not have a condition.\<close>

fun generate_mappings ::
  "codegen_ctxt \<Rightarrow> (expr_tree option \<times> int) list \<Rightarrow> int \<Rightarrow> (codegen_ctxt \<times> int) option" where
  "generate_mappings ctxt [] last_loc = Some (ctxt, last_loc)"
| "generate_mappings ctxt ((e, act) # rest) last_loc =
     (if last_loc = INVALID_LOCATION then
        if e = None \<or> e = Some EXPR_TRUE then generate_mappings ctxt rest (- act) else None
      else (case e of
          None \<Rightarrow> None
        | Some ex \<Rightarrow>
            do { (ctxt1, loc1) \<leftarrow> generate_expr ctxt ex (- act) last_loc;
                 generate_mappings ctxt1 rest loc1 }))"

definition generate_action ::
  "codegen_ctxt \<Rightarrow> syscall_range_rule \<Rightarrow> (codegen_ctxt \<times> int) option" where
  "generate_action ctxt rule =
     (if action rule \<noteq> ACTION_CONDITIONAL then Some (ctxt, - action rule)
      else do { (ctxt1, last_loc) \<leftarrow>
                  generate_mappings ctxt (rev (expr_list rule)) INVALID_LOCATION;
                if last_loc \<noteq> INVALID_LOCATION then Some (ctxt1, last_loc) else None })"

function generate_rules ::
  "codegen_ctxt \<Rightarrow> syscall_range_rule list \<Rightarrow> (codegen_ctxt \<times> int) option" where
  "generate_rules ctxt rules =
     (let len = length rules in
      if len = 0 then None
      else if len = 1 then generate_action ctxt (hd rules)
      else let mid = drop (len div 2) rules in
        do { (ctxt1, lower) \<leftarrow> generate_rules ctxt (take (len div 2) rules);
             (ctxt2, upper) \<leftarrow> generate_rules ctxt1 mid;
             add_jump ctxt2 BPF_JGE (first_nr (hd mid)) upper lower })"
  by pat_completeness auto
termination
  by (relation "measure (\<lambda>(ctxt, rules). length rules)") (auto intro!: half_less simp: Suc_lessI)

declare generate_rules.simps [simp del]

section \<open>The compiler\<close>

text \<open>
  \<open>struct sock_fprog\<close>: the instruction buffer, and the length in the sixteen bits the
  structure has for it.
\<close>

record sock_fprog =
  len :: u16
  filter_code :: "sock_filter list"

definition compile_policy :: "kafel_ctxt \<Rightarrow> sock_fprog option" where
  "compile_policy kctxt =
     do { let main = (case main_policy kctxt of
                        None \<Rightarrow> policy_create ''@main'' None | Some p \<Rightarrow> p);
          let dflt = (if default_action kctxt = 0 then ACTION_KILL else default_action kctxt);
          let ctxt = context_create;
          rules \<leftarrow> normalize_rules (add_policy_rules [] main) dflt;
          let begin = CURRENT_LOC ctxt;
          (ctxt1, next1) \<leftarrow> generate_rules ctxt rules;
          let (ctxt2, begin2, next2) =
            (if next1 > begin then
               let (c, l) =
                 add_instruction ctxt1 (BPF_STMT (BPF_LD OR BPF_W OR BPF_ABS) 0)
               in (c, l, l)
             else (ctxt1, begin, - dflt));
          (ctxt3, next3) \<leftarrow> add_jump ctxt2 BPF_JEQ (target_arch kctxt) next2 (- ACTION_KILL);
          let (ctxt4, next4) =
            (if next3 > begin2 then
               add_instruction ctxt3 (BPF_STMT (BPF_LD OR BPF_W OR BPF_ABS) 4)
             else (ctxt3, next3));
          ctxt5 \<leftarrow> (if next4 < 0 then map_option fst (resolve_location ctxt4 next4)
                   else Some ctxt4);
          Some \<lparr>len = of_nat (length (buffer ctxt5)), filter_code = rev (buffer ctxt5)\<rparr> }"

end
