(* ===== verification/Kafel_Emit.thy ===== *)
theory Kafel_Emit
  imports Kafel_Codegen
begin

unbundle bit_operations_syntax

text \<open>
  What the emission layer of the code generator promises: the buffer only grows, recorded
  action locations hold the return they stand for, a resolved location is reached by the
  offset that was returned, and a jump decides between its two destinations. The machine
  enters through the laws of \<open>bpf_machine\<close> alone.
\<close>

section \<open>The generator's invariant\<close>

definition extends :: "codegen_ctxt \<Rightarrow> codegen_ctxt \<Rightarrow> bool" where
  "extends c c' \<longleftrightarrow> (\<exists>ext. buffer c' = buffer c @ ext)"

definition loc_ok :: "codegen_ctxt \<Rightarrow> int \<Rightarrow> bool" where
  "loc_ok c loc \<longleftrightarrow> loc < int (length (buffer c))"

text \<open>A location that holds the return instruction of an action.\<close>

definition returns_at :: "codegen_ctxt \<Rightarrow> int \<Rightarrow> int \<Rightarrow> bool" where
  "returns_at c act loc \<longleftrightarrow> 0 \<le> loc \<and> loc_ok c loc \<and>
     (\<exists>v. ACTION_TO_BPF act = Some v \<and> buffer c ! nat loc = BPF_STMT (BPF_RET OR BPF_K) v)"

definition ctxt_ok :: "codegen_ctxt \<Rightarrow> bool" where
  "ctxt_ok c \<longleftrightarrow> length (basic_actions c) = 6 \<and>
     (\<forall>i < 6. basic_actions c ! i \<noteq> INVALID_LOCATION \<longrightarrow>
        returns_at c (int i) (basic_actions c ! i)) \<and>
     (\<forall>(act, loc) \<in> set (cache c). returns_at c act loc)"

lemma extends_refl [simp]: "extends c c"
  by (simp add: extends_def)

lemma extends_trans [trans]: "extends a b \<Longrightarrow> extends b c \<Longrightarrow> extends a c"
  by (auto simp: extends_def)

lemma extends_length: "extends c c' \<Longrightarrow> length (buffer c) \<le> length (buffer c')"
  by (auto simp: extends_def)

lemma extends_take:
  "extends c c' \<Longrightarrow> n \<le> length (buffer c) \<Longrightarrow> take n (buffer c') = take n (buffer c)"
  by (auto simp: extends_def)

lemma loc_ok_extends: "extends c c' \<Longrightarrow> loc_ok c loc \<Longrightarrow> loc_ok c' loc"
  using extends_length by (fastforce simp: loc_ok_def)

lemma loc_ok_neg [simp]: "loc < 0 \<Longrightarrow> loc_ok c loc"
  by (simp add: loc_ok_def)

lemma loc_ok_nonempty: "loc_ok c loc \<Longrightarrow> 0 \<le> loc \<Longrightarrow> 0 < length (buffer c)"
  unfolding loc_ok_def by linarith

lemma returns_at_extends: "extends c c' \<Longrightarrow> returns_at c act loc \<Longrightarrow> returns_at c' act loc"
  unfolding returns_at_def extends_def loc_ok_def by (auto simp: nth_append)

lemma context_create_ok: "ctxt_ok context_create"
  by (simp add: ctxt_ok_def context_create_def)

lemma ctxt_ok_buffer:
  assumes "ctxt_ok c" and "extends c c'" and "basic_actions c' = basic_actions c"
    and "set (cache c') \<subseteq> set (cache c)"
  shows "ctxt_ok c'"
proof -
  have "returns_at c' act loc" if "(act, loc) \<in> set (cache c')" for act loc
    using that assms(1,4) returns_at_extends [OF assms(2)] unfolding ctxt_ok_def by fastforce
  moreover have "returns_at c' (int i) (basic_actions c' ! i)"
    if "i < 6" "basic_actions c' ! i \<noteq> INVALID_LOCATION" for i
    using that assms(1,3) returns_at_extends [OF assms(2)] unfolding ctxt_ok_def by simp
  ultimately show ?thesis
    using assms(1,3) unfolding ctxt_ok_def by auto
qed

lemma add_instruction_simps [simp]:
  "buffer (fst (add_instruction c i)) = buffer c @ [i]"
  "basic_actions (fst (add_instruction c i)) = basic_actions c"
  "cache (fst (add_instruction c i)) = cache c"
  "snd (add_instruction c i) = int (length (buffer c))"
  by (simp_all add: add_instruction_def CURRENT_LOC_def)

lemma add_instruction_extends [simp]: "extends c (fst (add_instruction c i))"
  by (simp add: extends_def)

lemma add_instruction_ok [wf_intros]: "ctxt_ok c \<Longrightarrow> ctxt_ok (fst (add_instruction c i))"
  by (rule ctxt_ok_buffer) auto

lemma add_instructionD:
  "add_instruction c i = (c', loc) \<Longrightarrow> buffer c' = buffer c @ [i] \<and>
     basic_actions c' = basic_actions c \<and> cache c' = cache c \<and> loc = int (length (buffer c))"
  by (metis add_instruction_simps fst_conv snd_conv)

section \<open>Resolving\<close>

text \<open>The location an offset reaches from the next instruction to be emitted.\<close>

definition reaches :: "codegen_ctxt \<Rightarrow> u8 \<Rightarrow> int \<Rightarrow> bool" where
  "reaches c pos loc \<longleftrightarrow> 0 \<le> loc \<and> int (unat pos) = LOC_TO_JUMP c loc"

lemma unat_u8: "0 \<le> i \<Longrightarrow> i \<le> 255 \<Longrightarrow> int (unat (word_of_int i :: u8)) = i"
  by (simp add: unsigned_of_int take_bit_eq_mod)

lemma unat_u32: "0 \<le> i \<Longrightarrow> i < 2 ^ 32 \<Longrightarrow> unat (word_of_int i :: u32) = nat i"
  by (simp add: unsigned_of_int take_bit_eq_mod)

lemma jump_offset_reaches:
  "0 \<le> loc \<Longrightarrow> loc_ok c loc \<Longrightarrow> LOC_TO_JUMP c loc \<le> 255 \<Longrightarrow> reaches c (jump_offset c loc) loc"
  unfolding reaches_def jump_offset_def
  by (subst unat_u8) (auto simp: LOC_TO_JUMP_def CURRENT_LOC_def loc_ok_def)

lemma cache_find_Some:
  "cache_find act es = Some i \<Longrightarrow> i < length es \<and> fst (es ! i) = act"
  by (induction es arbitrary: i) (auto split: if_splits)

lemma cache_find_None: "cache_find act es = None \<longleftrightarrow> act \<notin> fst ` set es"
  by (induction es) auto

lemma returns_at_new:
  "ACTION_TO_BPF act = Some v \<Longrightarrow> buffer c' = buffer c @ [BPF_STMT (BPF_RET OR BPF_K) v] \<Longrightarrow>
     returns_at c' act (int (length (buffer c)))"
  by (simp add: returns_at_def loc_ok_def)

lemma reaches_new:
  "buffer c' = buffer c @ [i] \<Longrightarrow> reaches c' (jump_offset c' (int (length (buffer c)))) (int (length (buffer c)))"
  by (rule jump_offset_reaches) (auto simp: loc_ok_def LOC_TO_JUMP_def CURRENT_LOC_def)

lemma ctxt_ok_set_basic:
  assumes "ctxt_ok c" and "i < 6" and "returns_at c (int i) loc"
  shows "ctxt_ok (c\<lparr>basic_actions := (basic_actions c)[i := loc]\<rparr>)"
  using assms unfolding ctxt_ok_def returns_at_def loc_ok_def by (auto simp: nth_list_update)

lemma ctxt_ok_set_cache:
  assumes "ctxt_ok c" and "\<And>act loc. (act, loc) \<in> set es \<Longrightarrow> returns_at c act loc"
  shows "ctxt_ok (c\<lparr>cache := es\<rparr>)"
  using assms unfolding ctxt_ok_def returns_at_def loc_ok_def by auto

lemma ctxt_ok_cacheD: "ctxt_ok c \<Longrightarrow> (act, loc) \<in> set (cache c) \<Longrightarrow> returns_at c act loc"
  unfolding ctxt_ok_def by auto

lemma ctxt_ok_basicD:
  "ctxt_ok c \<Longrightarrow> i < 6 \<Longrightarrow> basic_actions c ! i \<noteq> INVALID_LOCATION \<Longrightarrow>
     returns_at c (int i) (basic_actions c ! i)"
  unfolding ctxt_ok_def by auto

text \<open>What resolving an action leaves behind: a reachable return of that action.\<close>

definition resolved :: "codegen_ctxt \<Rightarrow> int \<Rightarrow> codegen_ctxt \<Rightarrow> u8 \<Rightarrow> bool" where
  "resolved c act c' pos \<longleftrightarrow> ctxt_ok c' \<and> extends c c' \<and>
     (\<exists>l. reaches c' pos l \<and> returns_at c' act l)"

lemma resolved_same:
  "ctxt_ok c \<Longrightarrow> returns_at c act l \<Longrightarrow> LOC_TO_JUMP c l \<le> 255 \<Longrightarrow> resolved c act c (jump_offset c l)"
  unfolding resolved_def using jump_offset_reaches by (auto simp: returns_at_def)

lemma resolve_basic_ok:
  assumes ok: "ctxt_ok c" and act: "0 < act" "act \<le> ACTION_BASIC_MAX"
    and v: "ACTION_TO_BPF act = Some v"
    and r: "resolve_basic c act (BPF_STMT (BPF_RET OR BPF_K) v) = (c', pos)"
  shows "resolved c act c' pos"
proof (cases "basic_actions c ! nat act = INVALID_LOCATION
    \<or> LOC_TO_JUMP c (basic_actions c ! nat act) > MAX_JUMP")
  case True
  define i where "i = BPF_STMT (BPF_RET OR BPF_K) v"
  obtain c1 l1 where add: "add_instruction c i = (c1, l1)"
    by (cases "add_instruction c i")
  note d = add_instructionD [OF add]
  have c': "c' = c1\<lparr>basic_actions := (basic_actions c1)[nat act := l1]\<rparr>" "pos = jump_offset c' l1"
    using r True add unfolding resolve_basic_def i_def by (auto simp: Let_def)
  have ok1: "ctxt_ok c1" using add_instruction_ok [OF ok] add by (metis fst_conv)
  have ret: "returns_at c1 act l1"
    using returns_at_new [OF v, of c1 c] d i_def by simp
  have "ctxt_ok c'"
    unfolding c'(1) by (rule ctxt_ok_set_basic [OF ok1]) (use act ret in auto)
  moreover have "buffer c' = buffer c @ [i]" using d c' by simp
  ultimately show ?thesis
    using ret d c' reaches_new [of c' c i]
    unfolding resolved_def extends_def returns_at_def loc_ok_def by auto
next
  case False
  then have "returns_at c act (basic_actions c ! nat act)"
    using ctxt_ok_basicD [OF ok, of "nat act"] act by simp
  then show ?thesis
    using False r resolved_same [OF ok] unfolding resolve_basic_def by (auto simp: Let_def)
qed

lemma resolve_cached_ok:
  assumes ok: "ctxt_ok c" and v: "ACTION_TO_BPF act = Some v"
    and r: "resolve_cached c act (BPF_STMT (BPF_RET OR BPF_K) v) = Some (c', pos)"
  shows "resolved c act c' pos"
proof -
  define i where "i = BPF_STMT (BPF_RET OR BPF_K) v"
  have fresh: "resolved c act c' pos"
    if c0: "ctxt_ok c0" "buffer c0 = buffer c" and add: "add_instruction c0 i = (c1, l1)"
      and c': "c' = c1\<lparr>cache := es\<rparr>" "pos = jump_offset c' l1"
      and es: "set es \<subseteq> insert (act, l1) (set (cache c0))" for c0 c1 l1 es
  proof -
    note d = add_instructionD [OF add]
    have ok1: "ctxt_ok c1" using add_instruction_ok [OF c0(1)] add by (metis fst_conv)
    have ret: "returns_at c1 act l1"
      using returns_at_new [OF v, of c1 c0] d i_def by simp
    have "ctxt_ok c'"
      unfolding c'(1) using es ret d ctxt_ok_cacheD [OF ok1]
      by (intro ctxt_ok_set_cache [OF ok1]) fastforce
    moreover have "buffer c' = buffer c @ [i]" using d c' c0 by simp
    ultimately show ?thesis
      using ret d c' c0 reaches_new [of c' c i]
      unfolding resolved_def extends_def returns_at_def loc_ok_def by auto
  qed
  show ?thesis
  proof (cases "cache_find act (cache c)")
    case None
    have "ctxt_ok (purge_location_cache c)"
      unfolding purge_location_cache_def using ok
      by (intro ctxt_ok_set_cache) (auto dest: ctxt_ok_cacheD)
    then show ?thesis
      using r None fresh [of "purge_location_cache c"]
      unfolding resolve_cached_def i_def
      by (auto simp: Let_def purge_location_cache_def split: if_splits prod.splits
          dest: add_instructionD)
  next
    case (Some j)
    note j = cache_find_Some [OF Some]
    have mem: "(act, snd (cache c ! j)) \<in> set (cache c)"
      using j by (metis nth_mem prod.collapse)
    show ?thesis
    proof (cases "LOC_TO_JUMP c (snd (cache c ! j)) > MAX_JUMP")
      case True
      then show ?thesis
        using r Some fresh [OF ok] set_update_subset_insert [of "cache c" j]
        unfolding resolve_cached_def i_def
        by (auto simp: Let_def split: prod.splits dest!: add_instructionD)
    next
      case False
      then show ?thesis
        using r Some resolved_same [OF ok ctxt_ok_cacheD [OF ok mem]]
        unfolding resolve_cached_def by (auto simp: Let_def)
    qed
  qed
qed

lemma resolve_action_ok:
  assumes "ctxt_ok c" and "0 < act" and "resolve_action c act = Some (c', pos)"
  shows "resolved c act c' pos"
  using assms resolve_basic_ok resolve_cached_ok unfolding resolve_action_def
  by (auto simp: Let_def split: if_splits)

text \<open>
  Resolving any location: the offset leads to the location itself, to a return of the action
  it stands for, or to an unconditional jump just emitted.
\<close>

definition lands :: "codegen_ctxt \<Rightarrow> codegen_ctxt \<Rightarrow> int \<Rightarrow> int \<Rightarrow> bool" where
  "lands c c' loc l \<longleftrightarrow>
     (if loc < 0 then returns_at c' (- loc) l
      else l = loc \<or> buffer c' = buffer c @ [BPF_STMT (BPF_JMP OR BPF_JA) (word_of_int (LOC_TO_JUMP c loc))]
        \<and> l = int (length (buffer c)))"

lemma resolve_location_ok:
  assumes "ctxt_ok c" and "loc_ok c loc" and "resolve_location c loc = Some (c', pos)"
  shows "ctxt_ok c' \<and> extends c c' \<and> (\<exists>l. reaches c' pos l \<and> loc_ok c' l \<and> lands c c' loc l)"
proof (cases "loc < 0")
  case True
  then have "resolved c (- loc) c' pos"
    using assms by (intro resolve_action_ok) (auto simp: resolve_location_def)
  then show ?thesis
    using True by (auto simp: resolved_def lands_def returns_at_def)
next
  case nonneg: False
  show ?thesis
  proof (cases "LOC_TO_JUMP c loc > MAX_JUMP")
    case True
    obtain c1 l1 where add: "add_instruction c
        (BPF_STMT (BPF_JMP OR BPF_JA) (word_of_int (LOC_TO_JUMP c loc))) = (c1, l1)"
      by fastforce
    note d = add_instructionD [OF add]
    have "c' = c1" "pos = jump_offset c1 l1"
      using assms(3) nonneg True add
      by (auto simp: resolve_location_def Let_def jump_offset_def split: if_splits)
    then show ?thesis
      using d nonneg add_instruction_ok [OF assms(1)] add reaches_new [of c1 c]
      by (auto simp: extends_def lands_def loc_ok_def) (metis fst_conv)
  next
    case False
    then have "c' = c" "pos = jump_offset c loc"
      using assms(3) nonneg by (auto simp: resolve_location_def Let_def jump_offset_def split: if_splits)
    then show ?thesis
      using assms(1,2) False nonneg jump_offset_reaches [of loc c] by (auto simp: lands_def)
  qed
qed

section \<open>Short programs need no second copy\<close>

text \<open>A location whose action, if it is one, already has a recorded return.\<close>

definition present :: "codegen_ctxt \<Rightarrow> int \<Rightarrow> bool" where
  "present c loc \<longleftrightarrow> 0 \<le> loc \<or>
     (if - loc \<le> ACTION_BASIC_MAX then basic_actions c ! nat (- loc) \<noteq> INVALID_LOCATION
      else - loc \<in> fst ` set (cache c))"

lemma LOC_TO_JUMP_bound: "0 \<le> loc \<Longrightarrow> length (buffer c) \<le> n \<Longrightarrow> LOC_TO_JUMP c loc < int n"
  by (simp add: LOC_TO_JUMP_def CURRENT_LOC_def)

lemma resolve_present_same:
  assumes ok: "ctxt_ok c" and pr: "present c loc" and len: "length (buffer c) \<le> 256"
    and r: "resolve_location c loc = Some (c', pos)"
  shows "c' = c"
proof (cases "loc < 0")
  case True
  then obtain v where v: "ACTION_TO_BPF (- loc) = Some v"
    using r by (auto simp: resolve_location_def resolve_action_def)
  show ?thesis
  proof (cases "- loc \<le> ACTION_BASIC_MAX")
    case basic: True
    then have "returns_at c (- loc) (basic_actions c ! nat (- loc))"
      using ctxt_ok_basicD [OF ok, of "nat (- loc)"] pr True by (auto simp: present_def)
    then have "\<not> LOC_TO_JUMP c (basic_actions c ! nat (- loc)) > MAX_JUMP"
      using LOC_TO_JUMP_bound [OF _ len] by (fastforce simp: returns_at_def)
    then show ?thesis
      using r True basic v pr
      by (auto simp: resolve_location_def resolve_action_def resolve_basic_def Let_def present_def)
  next
    case False
    then have "- loc \<in> fst ` set (cache c)" using pr True by (auto simp: present_def)
    then obtain j where j: "cache_find (- loc) (cache c) = Some j"
      using cache_find_None by blast
    then have "returns_at c (- loc) (snd (cache c ! j))"
      using cache_find_Some [OF j] ctxt_ok_cacheD [OF ok] by (metis nth_mem prod.collapse)
    then have "\<not> LOC_TO_JUMP c (snd (cache c ! j)) > MAX_JUMP"
      using LOC_TO_JUMP_bound [OF _ len] by (fastforce simp: returns_at_def)
    then show ?thesis
      using r True False v j
      by (auto simp: resolve_location_def resolve_action_def resolve_cached_def Let_def)
  qed
next
  case False
  then show ?thesis
    using r LOC_TO_JUMP_bound [OF _ len, of loc]
    by (auto simp: resolve_location_def Let_def split: if_splits)
qed

lemma resolve_cached_present:
  assumes ok: "ctxt_ok c" and len: "length (buffer c) \<le> 255"
    and r: "resolve_cached c act i = Some (c', pos)"
  shows "basic_actions c' = basic_actions c \<and> fst ` set (cache c') = insert act (fst ` set (cache c))"
proof (cases "cache_find act (cache c)")
  case None
  have "filter (\<lambda>(act, loc). LOC_TO_JUMP c loc < MAX_JUMP) (cache c) = cache c"
    using ctxt_ok_cacheD [OF ok] LOC_TO_JUMP_bound [OF _ len]
    by (fastforce simp: filter_id_conv returns_at_def)
  then show ?thesis
    using r None
    by (auto simp: resolve_cached_def purge_location_cache_def Let_def
        split: if_splits prod.splits dest!: add_instructionD)
next
  case (Some j)
  note j = cache_find_Some [OF Some]
  have "snd (cache c ! j) \<ge> 0"
    using j ctxt_ok_cacheD [OF ok] by (metis nth_mem prod.collapse returns_at_def)
  then have "c' = c"
    using r Some LOC_TO_JUMP_bound [OF _ len] by (fastforce simp: resolve_cached_def Let_def split: if_splits)
  then show ?thesis
    using j by (metis image_eqI insert_absorb nth_mem)
qed

lemma resolve_basic_present:
  assumes "length (basic_actions c) = 6" and "0 < act" and "act \<le> ACTION_BASIC_MAX"
    and "resolve_basic c act i = (c', pos)"
  shows "cache c' = cache c" and "basic_actions c' ! nat act \<noteq> INVALID_LOCATION"
    and "basic_actions c ! n \<noteq> INVALID_LOCATION \<Longrightarrow> basic_actions c' ! n \<noteq> INVALID_LOCATION"
proof -
  obtain c1 l1 where add: "add_instruction c i = (c1, l1)" by fastforce
  note d = add_instructionD [OF add]
  have cases: "c' = c \<and> basic_actions c ! nat act \<noteq> INVALID_LOCATION \<or>
      c' = c1\<lparr>basic_actions := (basic_actions c)[nat act := l1]\<rparr>"
    using assms(4) add d by (auto simp: resolve_basic_def Let_def split: if_splits)
  show "cache c' = cache c" using cases d by auto
  have "l1 \<noteq> INVALID_LOCATION" using d by simp
  with cases show "basic_actions c' ! nat act \<noteq> INVALID_LOCATION"
    using assms(1-3) by auto
  show "basic_actions c' ! n \<noteq> INVALID_LOCATION" if "basic_actions c ! n \<noteq> INVALID_LOCATION"
    using cases that \<open>l1 \<noteq> INVALID_LOCATION\<close> assms(1-3)
    by (cases "n = nat act") auto
qed

lemma resolve_location_present:
  assumes ok: "ctxt_ok c" and len: "length (buffer c) \<le> 255" and neg: "x < 0"
    and r: "resolve_location c x = Some (c', pos)"
  shows "present c' x" and "present c y \<Longrightarrow> present c' y"
proof -
  obtain v where v: "ACTION_TO_BPF (- x) = Some v"
    using r neg by (auto simp: resolve_location_def resolve_action_def)
  have six: "length (basic_actions c) = 6" using ok by (simp add: ctxt_ok_def)
  consider (basic) "- x \<le> ACTION_BASIC_MAX"
      "resolve_basic c (- x) (BPF_STMT (BPF_RET OR BPF_K) v) = (c', pos)"
    | (cached) "\<not> - x \<le> ACTION_BASIC_MAX"
      "resolve_cached c (- x) (BPF_STMT (BPF_RET OR BPF_K) v) = Some (c', pos)"
    using r neg v by (auto simp: resolve_location_def resolve_action_def Let_def split: if_splits)
  then have "present c' x \<and> (present c y \<longrightarrow> present c' y)"
  proof cases
    case basic
    note b = resolve_basic_present [OF six _ basic(1,2)]
    show ?thesis using neg basic(1) b(1,2) b(3) [of "nat (- y)"] by (auto simp: present_def)
  next
    case cached
    note b = resolve_cached_present [OF ok len cached(2)]
    show ?thesis using neg cached(1) b by (auto simp: present_def)
  qed
  then show "present c' x" "present c y \<Longrightarrow> present c' y" by auto
qed

text \<open>
  \<open>add_jump\<close> resolves the true destination twice and the false one once, in between. Its
  offsets are right when the last resolution emits nothing.
\<close>

definition jump_settled :: "codegen_ctxt \<Rightarrow> int \<Rightarrow> int \<Rightarrow> bool" where
  "jump_settled c tloc floc \<longleftrightarrow> tloc = floc \<or>
     (case do { (c1, _) \<leftarrow> resolve_location c tloc; (c2, _) \<leftarrow> resolve_location c1 floc;
                (c3, _) \<leftarrow> resolve_location c2 tloc; Some (c2, c3) } of
        None \<Rightarrow> True | Some (c2, c3) \<Rightarrow> buffer c3 = buffer c2)"

lemma add_jumpE:
  assumes "add_jump c ty v tloc floc = Some (c', next)"
  obtains (same) "tloc = floc" "c' = c" "next = tloc"
  | (jump) c1 p1 c2 p2 c3 p3 where "tloc \<noteq> floc"
      "resolve_location c tloc = Some (c1, p1)" "resolve_location c1 floc = Some (c2, p2)"
      "resolve_location c2 tloc = Some (c3, p3)"
      "add_instruction c3 (BPF_JUMP (BPF_JMP OR ty) v p3 p2) = (c', next)"
proof (cases "tloc = floc")
  case True
  with assms show thesis by (intro same) (simp_all add: add_jump_def)
next
  case False
  then have j: "do { (c1, p1) \<leftarrow> resolve_location c tloc; (c2, p2) \<leftarrow> resolve_location c1 floc;
      (c3, p3) \<leftarrow> resolve_location c2 tloc;
      Some (add_instruction c3 (BPF_JUMP (BPF_JMP OR ty) v p3 p2)) } = Some (c', next)"
    using assms by (simp only: add_jump_def if_False)
  obtain c1 p1 where 1: "resolve_location c tloc = Some (c1, p1)"
    using j by (cases "resolve_location c tloc") auto
  obtain c2 p2 where 2: "resolve_location c1 floc = Some (c2, p2)"
    using j 1 by (cases "resolve_location c1 floc") auto
  obtain c3 p3 where 3: "resolve_location c2 tloc = Some (c3, p3)"
    using j 1 2 by (cases "resolve_location c2 tloc") auto
  have "add_instruction c3 (BPF_JUMP (BPF_JMP OR ty) v p3 p2) = (c', next)"
    using j 1 2 3 by simp
  then show thesis using jump False 1 2 3 by blast
qed

text \<open>The three resolutions in a row.\<close>

lemma resolve_thrice:
  assumes "ctxt_ok c" and "loc_ok c tloc" and "loc_ok c floc"
    and "resolve_location c tloc = Some (c1, p1)" and "resolve_location c1 floc = Some (c2, p2)"
    and "resolve_location c2 tloc = Some (c3, p3)"
  shows "ctxt_ok c1" "ctxt_ok c2" "ctxt_ok c3" "extends c c1" "extends c1 c2" "extends c2 c3"
    "loc_ok c1 floc" "loc_ok c2 tloc"
proof -
  show 1: "ctxt_ok c1" "extends c c1" using resolve_location_ok [OF assms(1,2,4)] by auto
  show f: "loc_ok c1 floc" using loc_ok_extends [OF 1(2) assms(3)] .
  show 2: "ctxt_ok c2" "extends c1 c2" using resolve_location_ok [OF 1(1) f assms(5)] by auto
  show t: "loc_ok c2 tloc"
    using loc_ok_extends [OF 2(2) loc_ok_extends [OF 1(2) assms(2)]] .
  show "ctxt_ok c3" "extends c2 c3" using resolve_location_ok [OF 2(1) t assms(6)] by auto
qed

lemma add_jump_grows:
  assumes "ctxt_ok c" and "loc_ok c tloc" and "loc_ok c floc"
    and "add_jump c ty v tloc floc = Some (c', next)"
  shows "ctxt_ok c' \<and> extends c c' \<and> loc_ok c' next \<and>
     (c' = c \<and> (next = tloc \<or> next = floc) \<or>
      length (buffer c) < length (buffer c') \<and> next = CURRENT_LOC c')"
  using assms(4)
proof (cases rule: add_jumpE)
  case same
  then show ?thesis using assms by simp
next
  case (jump c1 p1 c2 p2 c3 p3)
  note r = resolve_thrice [OF assms(1-3) jump(2-4)]
  note d = add_instructionD [OF jump(5)]
  have e: "extends c3 c'" using d by (simp add: extends_def)
  have "extends c c3" using r(4-6) extends_trans by blast
  then show ?thesis
    using ctxt_ok_buffer [OF r(3) e] d e extends_trans extends_length
    by (fastforce simp: loc_ok_def CURRENT_LOC_def)
qed

lemma add_jump_same:
  assumes "ctxt_ok c" and "loc_ok c tloc" and "loc_ok c floc"
    and "add_jump c ty v tloc floc = Some (c, next)"
  shows "tloc = floc" and "next = tloc"
proof -
  have "tloc = floc \<and> next = tloc"
    using assms(4)
  proof (cases rule: add_jumpE)
    case (jump c1 p1 c2 p2 c3 p3)
    note r = resolve_thrice [OF assms(1-3) jump(2-4)]
    show ?thesis
      using add_instructionD [OF jump(5)] extends_length [OF r(4)] extends_length [OF r(5)]
        extends_length [OF r(6)] by simp
  qed simp
  then show "tloc = floc" "next = tloc" by auto
qed

lemma short_jump_settled:
  assumes "ctxt_ok c" and "loc_ok c tloc" and "loc_ok c floc"
    and "add_jump c ty v tloc floc = Some (c', next)" and "length (buffer c') \<le> 256"
  shows "jump_settled c tloc floc"
  using assms(4)
proof (cases rule: add_jumpE)
  case same
  then show ?thesis by (simp add: jump_settled_def)
next
  case (jump c1 p1 c2 p2 c3 p3)
  note r = resolve_thrice [OF assms(1-3) jump(2-4)]
  have "length (buffer c3) \<le> 255"
    using add_instructionD [OF jump(5)] assms(5) by simp
  then have len: "length (buffer c) \<le> 255" "length (buffer c1) \<le> 255" "length (buffer c2) \<le> 255"
    using extends_length [OF r(4)] extends_length [OF r(5)] extends_length [OF r(6)] by linarith+
  have "present c1 tloc"
    using resolve_location_present(1) [OF assms(1) len(1) _ jump(2)]
    by (cases "tloc < 0") (auto simp: present_def)
  moreover have "c2 = c1" if "0 \<le> floc"
    using resolve_present_same [OF r(1) _ _ jump(3)] that len by (simp add: present_def)
  ultimately have "present c2 tloc"
    using resolve_location_present(2) [OF r(1) len(2) _ jump(3)] by fastforce
  then have "c3 = c2"
    using resolve_present_same [OF r(2) _ _ jump(4)] len by simp
  then show ?thesis
    using jump by (simp add: jump_settled_def)
qed

section \<open>What an emitted jump does\<close>

lemma reaches_drop:
  assumes "reaches c pos l" and "loc_ok c l"
  shows "drop (unat pos) (rev (buffer c)) = rev (take (Suc (nat l)) (buffer c))"
    and "unat pos < length (buffer c)"
proof -
  have "int (unat pos) = int (length (buffer c)) - 1 - l" "0 \<le> l" "l < int (length (buffer c))"
    using assms by (simp_all add: reaches_def loc_ok_def LOC_TO_JUMP_def CURRENT_LOC_def del: of_nat_unat)
  then have "length (buffer c) - unat pos = Suc (nat l)" and le: "unat pos < length (buffer c)"
    by linarith+
  then show "drop (unat pos) (rev (buffer c)) = rev (take (Suc (nat l)) (buffer c))"
    by (simp add: drop_rev)
  show "unat pos < length (buffer c)" by (rule le)
qed

context bpf_machine
begin

lemmas exec_stmt = exec_and_k [simplified] exec_and_x [simplified] exec_tax [simplified]
  exec_ret [simplified] exec_ja [simplified]

text \<open>What the machine returns when it continues at a location.\<close>

definition tgt :: "seccomp_data \<Rightarrow> codegen_ctxt \<Rightarrow> int \<Rightarrow> u32 \<Rightarrow> u32 \<Rightarrow> u32 option" where
  "tgt d c loc A X =
     (if loc < 0 then ACTION_TO_BPF (- loc) else exec d (rev (take (Suc (nat loc)) (buffer c))) A X)"

lemma tgt_extends: "extends c c' \<Longrightarrow> loc_ok c loc \<Longrightarrow> tgt d c' loc A X = tgt d c loc A X"
  unfolding tgt_def using extends_take [of c c' "Suc (nat loc)"] by (auto simp: loc_ok_def)

lemma tgt_current: "buffer c \<noteq> [] \<Longrightarrow> tgt d c (CURRENT_LOC c) A X = exec d (rev (buffer c)) A X"
  by (cases "buffer c") (auto simp: tgt_def CURRENT_LOC_def)

lemma exec_returns_at:
  "returns_at c act l \<Longrightarrow> exec d (rev (take (Suc (nat l)) (buffer c))) A X = ACTION_TO_BPF act"
  unfolding returns_at_def loc_ok_def
  by (auto simp: take_Suc_conv_app_nth exec_stmt simp del: take_Suc)

lemma resolve_location_exec:
  assumes "ctxt_ok c" and "loc_ok c loc" and "resolve_location c loc = Some (c', pos)"
    and "length (buffer c) \<le> 2 ^ 32"
  shows "unat pos < length (buffer c')"
    and "exec d (drop (unat pos) (rev (buffer c'))) A X = tgt d c loc A X"
proof -
  obtain l where l: "reaches c' pos l" "loc_ok c' l" "lands c c' loc l" and e: "extends c c'"
    using resolve_location_ok [OF assms(1-3)] by auto
  note drop = reaches_drop [OF l(1,2)]
  show "unat pos < length (buffer c')" by (rule drop)
  show "exec d (drop (unat pos) (rev (buffer c'))) A X = tgt d c loc A X"
  proof (cases "loc < 0 \<or> l = loc")
    case True
    then show ?thesis
      using l drop exec_returns_at [of c' "- loc" l] tgt_extends [OF e assms(2), of d A X]
      by (auto simp: lands_def tgt_def)
  next
    case False
    then have b: "buffer c' = buffer c @ [BPF_STMT (BPF_JMP OR BPF_JA) (word_of_int (LOC_TO_JUMP c loc))]"
      and l': "l = int (length (buffer c))"
      using l by (auto simp: lands_def)
    have j: "unat (word_of_int (LOC_TO_JUMP c loc) :: u32) = length (buffer c) - Suc (nat loc)"
    proof -
      have "0 \<le> LOC_TO_JUMP c loc" "LOC_TO_JUMP c loc < 2 ^ 32"
        "nat (LOC_TO_JUMP c loc) = length (buffer c) - Suc (nat loc)"
        using assms(2,4) False by (auto simp: LOC_TO_JUMP_def CURRENT_LOC_def loc_ok_def)
      then show ?thesis using unat_u32 by simp
    qed
    have "rev (take (Suc (nat l)) (buffer c'))
        = BPF_STMT (BPF_JMP OR BPF_JA) (word_of_int (LOC_TO_JUMP c loc)) # rev (buffer c)"
      unfolding l' b by simp
    then have "exec d (drop (unat pos) (rev (buffer c'))) A X
        = exec d (drop (length (buffer c) - Suc (nat loc)) (rev (buffer c))) A X"
      using assms(2) False loc_ok_nonempty [OF assms(2)] exec_ja [of "word_of_int (LOC_TO_JUMP c loc)" "rev (buffer c)" d A X]
      unfolding drop(1) j by (simp add: loc_ok_def)
    moreover have "drop (length (buffer c) - Suc (nat loc)) (rev (buffer c)) = rev (take (Suc (nat loc)) (buffer c))"
      using assms(2) False by (simp add: drop_rev loc_ok_def nat_less_iff Suc_leI)
    ultimately show ?thesis
      using False by (simp add: tgt_def)
  qed
qed

lemma add_jump_exec:
  assumes ok: "ctxt_ok c" "loc_ok c tloc" "loc_ok c floc"
    and j: "add_jump c (op OR src) v tloc floc = Some (c', next)"
    and st: "jump_settled c tloc floc" and len: "length (buffer c') \<le> 2 ^ 32"
    and op: "op \<in> {BPF_JEQ, BPF_JGT, BPF_JGE, BPF_JSET}" and src: "src = BPF_K \<or> src = BPF_X"
  shows "tgt d c' next A X =
     tgt d c (if bpf_jump_taken op A (if src = BPF_X then X else v) then tloc else floc) A X"
  using j
proof (cases rule: add_jumpE)
  case same
  then show ?thesis by simp
next
  case (jump c1 p1 c2 p2 c3 p3)
  note r = resolve_thrice [OF ok jump(2-4)]
  note d = add_instructionD [OF jump(5)]
  have len3: "length (buffer c) \<le> 2 ^ 32" "length (buffer c1) \<le> 2 ^ 32" "length (buffer c2) \<le> 2 ^ 32"
    using d len extends_length [OF r(4)] extends_length [OF r(5)] extends_length [OF r(6)] by simp_all
  have b: "buffer c3 = buffer c2" using st jump by (auto simp: jump_settled_def)
  have t: "unat p3 < length (buffer c3)"
    "exec d (drop (unat p3) (rev (buffer c3))) A X = tgt d c2 tloc A X" for A X
    using resolve_location_exec [OF r(2,8) jump(4) len3(3)] by auto
  have f: "unat p2 < length (buffer c3)"
    "exec d (drop (unat p2) (rev (buffer c3))) A X = tgt d c1 floc A X" for A X
    using resolve_location_exec [OF r(1,7) jump(3) len3(2)] by (auto simp: b)
  have same: "tgt d c2 tloc A X = tgt d c tloc A X" "tgt d c1 floc A X = tgt d c floc A X"
    using tgt_extends [OF extends_trans [OF r(4,5)] ok(2)] tgt_extends [OF r(4) ok(3)] by auto
  have "tgt d c' next A X = exec d (BPF_JUMP (BPF_JMP OR (op OR src)) v p3 p2 # rev (buffer c3)) A X"
    using d tgt_current [of c' d A X] by (simp add: CURRENT_LOC_def)
  also have "\<dots> = exec d (drop (unat (if bpf_jump_taken op A (if src = BPF_X then X else v) then p3 else p2))
      (rev (buffer c3))) A X"
    using src exec_jmp_k [OF op, of p3 "rev (buffer c3)" p2] exec_jmp_x [OF op, of p3 "rev (buffer c3)" p2]
      t(1) f(1) by auto
  finally show ?thesis using t(2) f(2) same by simp
qed

end

end
