(* ===== verification/Kafel_Cmp.thy ===== *)
theory Kafel_Cmp
  imports Kafel_Emit
begin

unbundle bit_operations_syntax

text \<open>
  Comparisons and boolean expressions: the code emitted for a filter expression continues at
  the true destination exactly for the system calls the expression holds for.
\<close>

section \<open>Operand words\<close>

fun wval :: "seccomp_data \<Rightarrow> word_sel \<Rightarrow> expr_tree \<Rightarrow> u32" where
  "wval d w (EXPR_NUMBER n) = NUM_WORD n w"
| "wval d w (EXPR_VAR v s) = NUM_WORD (args d v) w"
| "wval d w (EXPR_BINARY EXPR_BIT_AND l r) = wval d w l AND wval d w r"
| "wval d w _ = 0"

lemma cg_maskedE:
  assumes "cg_masked sz e"
  obtains (number) n where "e = EXPR_NUMBER n"
  | (var) v s where "e = EXPR_VAR v s" "v < 6"
  | (mask_num) v s n where "e = EXPR_BINARY EXPR_BIT_AND (EXPR_VAR v s) (EXPR_NUMBER n)" "v < 6"
  | (mask_var) v s u t where "e = EXPR_BINARY EXPR_BIT_AND (EXPR_VAR v s) (EXPR_VAR u t)" "v < 6" "u < 6"
proof (cases "\<exists>v s r. e = EXPR_BINARY EXPR_BIT_AND (EXPR_VAR v s) r")
  case True
  then obtain v s r where "e = EXPR_BINARY EXPR_BIT_AND (EXPR_VAR v s) r" by blast
  then show thesis using assms that(3,4) by (cases r) simp_all
next
  case False
  then have "cg_masked sz e = is_operand sz e"
    by (cases "(sz, e)" rule: cg_masked.cases) simp_all
  then show thesis using assms that(1,2) by (cases e) simp_all
qed

lemma const_word_cases:
  assumes "cg_masked sz e"
  obtains (const) v where "is_const_value e w = Some True" "value_of e w = Some v" "\<And>d. wval d w e = v"
  | (load) "is_const_value e w = Some False"
  using assms
proof (cases rule: cg_maskedE)
  case (mask_num v s n)
  then show thesis using that by (cases "NUM_WORD n w = 0") auto
qed (use that in auto)

text \<open>The index register after an operand was loaded: a mask by a second argument uses it.\<close>

fun load_x :: "seccomp_data \<Rightarrow> word_sel \<Rightarrow> expr_tree \<Rightarrow> u32 \<Rightarrow> u32" where
  "load_x d w (EXPR_BINARY EXPR_BIT_AND (EXPR_VAR v s) (EXPR_VAR u t)) X = NUM_WORD (args d u) w"
| "load_x d w _ X = X"

fun clobbers_x :: "expr_tree \<Rightarrow> bool" where
  "clobbers_x (EXPR_BINARY EXPR_BIT_AND (EXPR_VAR v s) (EXPR_VAR u t)) = True"
| "clobbers_x _ = False"

lemma load_x_id: "\<not> clobbers_x e \<Longrightarrow> load_x d w e X = X"
  by (induction d w e X rule: load_x.induct) auto

lemma seccomp_load_arg:
  assumes "v < 6"
  shows "seccomp_load d (ARG_WORD v w) = Some (NUM_WORD (args d v) w)"
proof -
  have "v = 0 \<or> v = 1 \<or> v = 2 \<or> v = 3 \<or> v = 4 \<or> v = 5" using assms by linarith
  then show ?thesis
    by (elim disjE; cases w) (simp_all add: ARG_WORD_def NUM_WORD_def seccomp_load_def)
qed

text \<open>Straight code put in front: what it leaves unchanged in the generator's state.\<close>

definition prefixed :: "codegen_ctxt \<Rightarrow> codegen_ctxt \<Rightarrow> int \<Rightarrow> bool" where
  "prefixed c c' next \<longleftrightarrow> extends c c' \<and> length (buffer c) < length (buffer c') \<and>
     basic_actions c' = basic_actions c \<and> cache c' = cache c \<and> next = CURRENT_LOC c'"

lemma prefixed_ok: "prefixed c c' next \<Longrightarrow> ctxt_ok c \<Longrightarrow> ctxt_ok c'"
  unfolding prefixed_def by (auto intro: ctxt_ok_buffer)

lemma prefixed_add: "add_instruction c i = (c', next) \<Longrightarrow> prefixed c c' next"
  by (drule add_instructionD) (simp add: prefixed_def extends_def CURRENT_LOC_def)

lemma prefixed_trans: "prefixed a b n \<Longrightarrow> prefixed b c m \<Longrightarrow> prefixed a c m"
  unfolding prefixed_def using extends_trans by auto

context bpf_machine
begin

lemmas exec_word = exec_stmt exec_ld_abs [OF seccomp_load_arg, simplified]

lemma load_exec:
  assumes "cg_masked sz e" and "is_const_value e w = Some False"
  shows "\<exists>c' next. generate_load c e w = Some (c', next) \<and> prefixed c c' next \<and>
    (\<forall>A X. exec d (rev (buffer c')) A X = exec d (rev (buffer c)) (wval d w e) (load_x d w e X))"
  using assms(1)
proof (cases rule: cg_maskedE)
  case (number n)
  then show ?thesis using assms(2) by simp
next
  case (var v s)
  then show ?thesis
    by (auto simp: generate_load.simps exec_word add_instruction_def Let_def prefixed_def extends_def
        CURRENT_LOC_def)
next
  case (mask_num v s n)
  have "NUM_WORD n w \<noteq> 0" using assms(2) mask_num by (auto split: if_splits)
  then show ?thesis using mask_num
    by (auto simp: generate_load.simps exec_word add_instruction_def Let_def prefixed_def extends_def
        CURRENT_LOC_def)
next
  case (mask_var v s u t)
  then show ?thesis
    by (auto simp: generate_load.simps exec_word add_instruction_def Let_def prefixed_def extends_def
        CURRENT_LOC_def)
qed

end

section \<open>One comparison of words\<close>

text \<open>The two halves of \<open>cmp32_emit\<close>: the jump, then the loads in front of it.\<close>

definition cmp32_jump :: "codegen_ctxt \<Rightarrow> cmp32 \<Rightarrow> word_sel \<Rightarrow> (codegen_ctxt \<times> int) option" where
  "cmp32_jump c q w =
     do { rc \<leftarrow> is_const_value (cright q) w;
          if rc then do { v \<leftarrow> value_of (cright q) w; ADD_JUMP_K c (ctype q) v (ctloc q) (cfloc q) }
          else ADD_JUMP_X c (ctype q) (ctloc q) (cfloc q) }"

definition cmp32_load :: "codegen_ctxt \<Rightarrow> cmp32 \<Rightarrow> word_sel \<Rightarrow> (codegen_ctxt \<times> int) option" where
  "cmp32_load c q w =
     do { rc \<leftarrow> is_const_value (cright q) w;
          if rc then generate_load c (cleft q) w
          else do { (c1, _) \<leftarrow> generate_load c (cleft q) w;
                    let (c2, _) = add_instruction c1 (BPF_STMT (BPF_MISC OR BPF_TAX) 0);
                    generate_load c2 (cright q) w } }"

lemma cmp32_emit_eq:
  "cmp32_emit c begin q w load =
     do { (c1, next) \<leftarrow> cmp32_jump c q w;
          if load = ALWAYS \<or> load \<noteq> NEVER \<and> next > begin then cmp32_load c1 q w
          else Some (c1, next) }"
proof (cases "is_const_value (cright q) w")
  case (Some rc)
  then show ?thesis
    unfolding cmp32_emit_def cmp32_jump_def cmp32_load_def
    by (cases rc; cases "value_of (cright q) w") (simp_all cong: if_cong)
qed (simp add: cmp32_emit_def cmp32_jump_def)

text \<open>A step that may emit: the new location is one of the destinations or the new top.\<close>

definition emitted :: "codegen_ctxt \<Rightarrow> codegen_ctxt \<Rightarrow> int \<Rightarrow> int \<Rightarrow> int \<Rightarrow> bool" where
  "emitted c c' next tloc floc \<longleftrightarrow> ctxt_ok c' \<and> extends c c' \<and> loc_ok c' next \<and>
     (c' = c \<and> (next = tloc \<or> next = floc) \<or>
      length (buffer c) < length (buffer c') \<and> next = CURRENT_LOC c')"

lemma emitted_same [simp]:
  "ctxt_ok c \<Longrightarrow> loc_ok c tloc \<Longrightarrow> emitted c c tloc tloc floc"
  "ctxt_ok c \<Longrightarrow> loc_ok c floc \<Longrightarrow> emitted c c floc tloc floc"
  by (simp_all add: emitted_def)

lemma emitted_prefixed:
  "emitted c c' n tloc floc \<Longrightarrow> prefixed c' c'' next \<Longrightarrow> emitted c c'' next tloc floc"
  unfolding emitted_def using prefixed_ok
  by (fastforce simp: prefixed_def loc_ok_def CURRENT_LOC_def intro: extends_trans)

abbreviation (input) "jump_op op \<equiv> op \<in> {BPF_JEQ, BPF_JGT, BPF_JGE, BPF_JSET}"

lemma ADD_JUMP_X_emitted:
  assumes "ctxt_ok c" "loc_ok c tloc" "loc_ok c floc" "ADD_JUMP_X c op tloc floc = Some (c', next)"
  shows "emitted c c' next tloc floc"
  using add_jump_grows [OF assms(1-3) assms(4) [unfolded ADD_JUMP_X_def]] by (simp add: emitted_def)

lemma ADD_JUMP_K_cases:
  assumes "ADD_JUMP_K c op v tloc floc = Some (c', next)"
  obtains (ge) "op = BPF_JGE" "v = 0" "c' = c" "next = tloc"
  | (gt) "op = BPF_JGT" "v = 0xffffffff" "c' = c" "next = floc"
  | (set) "op = BPF_JSET" "v = 0" "c' = c" "next = floc"
  | (jump) "add_jump c (op OR BPF_K) v tloc floc = Some (c', next)"
proof -
  have "op = BPF_JGE \<and> v = 0 \<and> c' = c \<and> next = tloc \<or>
      op = BPF_JGT \<and> v = 0xffffffff \<and> c' = c \<and> next = floc \<or>
      op = BPF_JSET \<and> v = 0 \<and> c' = c \<and> next = floc \<or>
      add_jump c (op OR BPF_K) v tloc floc = Some (c', next)"
    using assms unfolding ADD_JUMP_K_def add_jump_gt_def add_jump_ge_def add_jump_set_def
    by (simp split: if_splits)
  with that show thesis by blast
qed

lemma ADD_JUMP_K_emitted:
  assumes "ctxt_ok c" "loc_ok c tloc" "loc_ok c floc" "ADD_JUMP_K c op v tloc floc = Some (c', next)"
  shows "emitted c c' next tloc floc"
  using assms(4)
proof (cases rule: ADD_JUMP_K_cases)
  case jump
  show ?thesis using add_jump_grows [OF assms(1-3) jump] by (simp add: emitted_def)
qed (use assms in auto)

text \<open>The jump's outcome for given registers, and what it should be.\<close>

definition cmp_outcome :: "seccomp_data \<Rightarrow> word_sel \<Rightarrow> cmp32 \<Rightarrow> u32 \<Rightarrow> u32 \<Rightarrow> bool" where
  "cmp_outcome d w q A X = bpf_jump_taken (ctype q) A
     (if is_const_value (cright q) w = Some True then wval d w (cright q) else X)"

definition cmp_taken :: "seccomp_data \<Rightarrow> word_sel \<Rightarrow> cmp32 \<Rightarrow> bool" where
  "cmp_taken d w q = bpf_jump_taken (ctype q) (wval d w (cleft q)) (wval d w (cright q))"

lemma cmp_outcome_taken: "cmp_outcome d w q (wval d w (cleft q)) (wval d w (cright q)) = cmp_taken d w q"
  by (simp add: cmp_outcome_def cmp_taken_def)

lemma cmp32_jump_emitted:
  assumes "ctxt_ok c" "loc_ok c (ctloc q)" "loc_ok c (cfloc q)" "cmp32_jump c q w = Some (c', next)"
  shows "emitted c c' next (ctloc q) (cfloc q)"
  using assms(4) ADD_JUMP_K_emitted [OF assms(1-3)] ADD_JUMP_X_emitted [OF assms(1-3)]
  unfolding cmp32_jump_def by (auto elim!: bind_SomeE split: if_splits)

text \<open>A jump that is not emitted has an outcome that does not depend on the registers.\<close>

lemma not_gt_max: "\<not> (0xffffffff :: u32) < A"
  by (simp add: not_less)

lemma cmp32_jump_elided:
  assumes "ctxt_ok c" "loc_ok c (ctloc q)" "loc_ok c (cfloc q)" "cg_masked sz (cright q)"
    and "cmp32_jump c q w = Some (c', next)" "c' = c" "ctloc q \<noteq> cfloc q"
  shows "ctype q = BPF_JGE \<and> next = ctloc q \<and> (\<forall>d A X. cmp_outcome d w q A X) \<or>
    (ctype q = BPF_JGT \<or> ctype q = BPF_JSET) \<and> next = cfloc q \<and> (\<forall>d A X. \<not> cmp_outcome d w q A X)"
proof -
  have no: "add_jump c ty v (ctloc q) (cfloc q) \<noteq> Some (c, next)" for ty v
    using add_jump_same [OF assms(1-3)] assms(7) by blast
  from assms(4) show ?thesis
  proof (cases rule: const_word_cases [where w = w])
    case (const v)
    then have K: "ADD_JUMP_K c (ctype q) v (ctloc q) (cfloc q) = Some (c, next)"
      using assms(5,6) by (simp add: cmp32_jump_def)
    show ?thesis
      using K
    proof (cases rule: ADD_JUMP_K_cases)
      case jump
      then show ?thesis using no by blast
    qed (use const in \<open>auto simp: cmp_outcome_def bpf_jump_taken_def not_gt_max\<close>)
  next
    case load
    then show ?thesis using assms(5,6) no by (simp add: cmp32_jump_def ADD_JUMP_X_def)
  qed
qed

text \<open>A comparison ready to be emitted: only its right operand may be constant.\<close>

definition cmp_ready :: "(nat \<Rightarrow> int) \<Rightarrow> word_sel \<Rightarrow> cmp32 \<Rightarrow> bool" where
  "cmp_ready sz w q \<longleftrightarrow> jump_op (ctype q) \<and> cg_masked sz (cleft q) \<and> cg_masked sz (cright q) \<and>
     is_const_value (cleft q) w = Some False \<and>
     (is_const_value (cright q) w = Some False \<longrightarrow> \<not> clobbers_x (cleft q))"

context bpf_machine
begin

lemma cmp32_load_exec:
  assumes "cmp_ready sz w q"
  shows "\<exists>c' next. cmp32_load c q w = Some (c', next) \<and> prefixed c c' next \<and>
    (\<forall>A X. exec d (rev (buffer c')) A X = exec d (rev (buffer c)) (wval d w (cleft q))
       (if is_const_value (cright q) w = Some True then load_x d w (cleft q) X else wval d w (cright q)))"
proof -
  have masked: "cg_masked sz (cright q)"
    and left: "cg_masked sz (cleft q)" "is_const_value (cleft q) w = Some False"
    using assms by (auto simp: cmp_ready_def)
  from masked show ?thesis
  proof (cases rule: const_word_cases [where w = w])
    case (const v)
    then show ?thesis using load_exec [OF left] by (simp add: cmp32_load_def)
  next
    case load
    then have nc: "\<not> clobbers_x (cleft q)" using assms by (auto simp: cmp_ready_def)
    obtain c1 n1 where 1: "generate_load c (cleft q) w = Some (c1, n1)" "prefixed c c1 n1"
      "\<And>A X. exec d (rev (buffer c1)) A X = exec d (rev (buffer c)) (wval d w (cleft q)) X"
      using load_exec [OF left, of c d] load_x_id [OF nc] by auto
    obtain c2 n2 where 2: "add_instruction c1 (BPF_STMT (BPF_MISC OR BPF_TAX) 0) = (c2, n2)"
      by fastforce
    obtain c3 n3 where 3: "generate_load c2 (cright q) w = Some (c3, n3)" "prefixed c2 c3 n3"
      "\<And>A X. exec d (rev (buffer c3)) A X =
         exec d (rev (buffer c2)) (wval d w (cright q)) (load_x d w (cright q) X)"
      using load_exec [OF masked load, of c2 d] by auto
    have "exec d (rev (buffer c2)) A X = exec d (rev (buffer c1)) A A" for A X
      using add_instructionD [OF 2] by (simp add: exec_stmt)
    then show ?thesis
      using load 1 2 3 prefixed_trans [OF prefixed_trans [OF 1(2) prefixed_add [OF 2]] 3(2)]
      by (simp add: cmp32_load_def)
  qed
qed

lemma short_jump_exec:
  assumes "ctxt_ok c" "loc_ok c tloc" "loc_ok c floc"
    and "add_jump c (op OR src) v tloc floc = Some (c', next)" and "length (buffer c') \<le> 256"
    and "jump_op op" and "src = BPF_K \<or> src = BPF_X"
  shows "tgt d c' next A X =
     tgt d c (if bpf_jump_taken op A (if src = BPF_X then X else v) then tloc else floc) A X"
  by (rule add_jump_exec [OF assms(1-4) short_jump_settled [OF assms(1-5)] _ assms(6,7)])
    (use assms(5) in simp)

lemma cmp32_jump_exec:
  assumes ok: "ctxt_ok c" "loc_ok c (ctloc q)" "loc_ok c (cfloc q)" and rd: "cmp_ready sz w q"
    and j: "cmp32_jump c q w = Some (c', next)" and len: "length (buffer c') \<le> 256"
  shows "tgt d c' next A X = tgt d c (if cmp_outcome d w q A X then ctloc q else cfloc q) A X"
proof -
  have op: "jump_op (ctype q)" and masked: "cg_masked sz (cright q)"
    using rd by (auto simp: cmp_ready_def)
  from masked show ?thesis
  proof (cases rule: const_word_cases [where w = w])
    case (const v)
    then have K: "ADD_JUMP_K c (ctype q) v (ctloc q) (cfloc q) = Some (c', next)"
      using j by (simp add: cmp32_jump_def)
    show ?thesis
      using K
    proof (cases rule: ADD_JUMP_K_cases)
      case jump
      show ?thesis
        using short_jump_exec [OF ok jump len op] const by (simp add: cmp_outcome_def)
    qed (use const in \<open>auto simp: cmp_outcome_def bpf_jump_taken_def not_gt_max\<close>)
  next
    case load
    then have "add_jump c (ctype q OR BPF_X) 0 (ctloc q) (cfloc q) = Some (c', next)"
      using j by (simp add: cmp32_jump_def ADD_JUMP_X_def)
    from short_jump_exec [OF ok this len op] show ?thesis
      using load by (simp add: cmp_outcome_def)
  qed
qed

end

section \<open>Rewriting a comparison keeps its decision\<close>

definition cmp_dest :: "seccomp_data \<Rightarrow> word_sel \<Rightarrow> cmp32 \<Rightarrow> int" where
  "cmp_dest d w q = (if cmp_taken d w q then ctloc q else cfloc q)"

abbreviation (input) "cmp_op op \<equiv> op \<in> {BPF_JEQ, BPF_JGT, BPF_JGE}"

text \<open>A mask by a second argument may only be compared with a number.\<close>

definition mask_alone :: "expr_tree \<Rightarrow> expr_tree \<Rightarrow> bool" where
  "mask_alone l r \<longleftrightarrow> (clobbers_x l \<longrightarrow> (\<exists>n. r = EXPR_NUMBER n))"

lemma swap_dest: "cmp_op (ctype q) \<Longrightarrow> cmp_dest d w (cmp32_swap q) = cmp_dest d w q"
  by (auto simp: cmp_dest_def cmp_taken_def cmp32_swap_def bpf_jump_taken_def Let_def)

lemma swap_fields:
  "cleft (cmp32_swap q) = cright q" "cright (cmp32_swap q) = cleft q"
  "cmp_op (ctype q) \<Longrightarrow> cmp_op (ctype (cmp32_swap q))"
  "ctloc (cmp32_swap q) = ctloc q \<and> cfloc (cmp32_swap q) = cfloc q \<or>
   ctloc (cmp32_swap q) = cfloc q \<and> cfloc (cmp32_swap q) = ctloc q"
  by (auto simp: cmp32_swap_def Let_def)

lemma jset_cases:
  assumes "cg_masked sz (cleft q)" and "cg_masked sz (cright q)" and "cmp_op (ctype q)"
    and "cmp32_jset q w = Some q'"
  obtains (same) "q' = q"
  | (bits) v s r where "cleft q = EXPR_BINARY EXPR_BIT_AND (EXPR_VAR v s) r"
      "cg_masked sz (EXPR_VAR v s)" "cg_masked sz r" "\<And>d. wval d w (cright q) = 0"
      "is_const_value (cright q) w = Some True" "value_of (cright q) w = Some 0"
      "ctype q = BPF_JEQ \<or> ctype q = BPF_JGT"
      "q' = q\<lparr>ctype := BPF_JSET, cleft := EXPR_VAR v s, cright := r,
         ctloc := (if ctype q = BPF_JEQ then cfloc q else ctloc q),
         cfloc := (if ctype q = BPF_JEQ then ctloc q else cfloc q)\<rparr>"
proof (cases "\<exists>v s r. cleft q = EXPR_BINARY EXPR_BIT_AND (EXPR_VAR v s) r")
  case False
  have "q' = q"
    using assms(1)
  proof (cases rule: cg_maskedE)
    case (number n)
    then show ?thesis using assms(4) by (simp add: cmp32_jset_def)
  next
    case (var v s)
    then show ?thesis using assms(4) by (simp add: cmp32_jset_def)
  qed (use False in auto)
  then show thesis by (rule same)
next
  case True
  then obtain v s r where l: "cleft q = EXPR_BINARY EXPR_BIT_AND (EXPR_VAR v s) r" by blast
  have sub: "cg_masked sz (EXPR_VAR v s)" "cg_masked sz r"
    using assms(1) l by (auto elim: is_operand.elims)
  from assms(2) show thesis
  proof (cases rule: const_word_cases [where w = w])
    case (const x)
    show thesis
    proof (cases "(ctype q = BPF_JEQ \<or> ctype q = BPF_JGT) \<and> x = 0")
      case True
      then show thesis
        using assms(4) l const by (intro bits [OF l sub]) (auto simp: cmp32_jset_def)
    next
      case False
      then have "q' = q" using assms(4) l const by (auto simp: cmp32_jset_def)
      then show thesis by (rule same)
    qed
  next
    case load
    then have "q' = q" using assms(4) l by (auto simp: cmp32_jset_def)
    then show thesis by (rule same)
  qed
qed

lemma jset_ge:
  assumes "cg_masked sz (cleft q)" and "cg_masked sz (cright q)" and "ctype q = BPF_JGE"
    and "cmp32_jset q w = Some q'"
  shows "q' = q"
  by (rule jset_cases [OF assms(1,2) _ assms(4)]) (use assms(3) in auto)

lemma jset_dest:
  assumes "cg_masked sz (cleft q)" and "cg_masked sz (cright q)" and "cmp_op (ctype q)"
    and "cmp32_jset q w = Some q'"
  shows "cmp_dest d w q' = cmp_dest d w q"
  using assms
proof (cases rule: jset_cases)
  case (bits v s r)
  then show ?thesis by (auto simp: cmp_dest_def cmp_taken_def bpf_jump_taken_def word_neq_0_conv)
qed simp

lemma jset_ready:
  assumes "cg_masked sz (cleft q)" and "cg_masked sz (cright q)" and "cmp_op (ctype q)"
    and "cmp32_jset q w = Some q'" and "is_const_value (cleft q) w = Some False"
    and "is_const_value (cright q) w = Some False \<longrightarrow> \<not> clobbers_x (cleft q)"
  shows "cmp_ready sz w q'"
  using assms(1-4)
proof (cases rule: jset_cases)
  case same
  then show ?thesis using assms by (auto simp: cmp_ready_def)
next
  case (bits v s r)
  then show ?thesis using assms(3) by (auto simp: cmp_ready_def)
qed

lemma jset_locs:
  assumes "cg_masked sz (cleft q)" and "cg_masked sz (cright q)" and "cmp_op (ctype q)"
    and "cmp32_jset q w = Some q'"
  shows "ctloc q' = ctloc q \<and> cfloc q' = cfloc q \<or> ctloc q' = cfloc q \<and> cfloc q' = ctloc q"
  using assms by (cases rule: jset_cases) auto

text \<open>The comparison that \<open>generate_cmp32\<close> emits when one operand has to be loaded.\<close>

definition cmp_prepared :: "cmp32 \<Rightarrow> word_sel \<Rightarrow> cmp32 option" where
  "cmp_prepared q w = cmp32_jset (if is_const_value (cleft q) w = Some True then cmp32_swap q else q) w"

lemma cmp_prepared_ok:
  assumes op: "cmp_op (ctype q)" and m: "cg_masked sz (cleft q)" "cg_masked sz (cright q)"
    and nc: "is_const_value (cleft q) w = Some False \<or> is_const_value (cright q) w = Some False"
    and alone: "mask_alone (cleft q) (cright q)" and pq: "cmp_prepared q w = Some q'"
  shows "cmp_ready sz w q'" and "cmp_dest d w q' = cmp_dest d w q"
    and "ctloc q' = ctloc q \<and> cfloc q' = cfloc q \<or> ctloc q' = cfloc q \<and> cfloc q' = ctloc q"
proof -
  let ?p = "if is_const_value (cleft q) w = Some True then cmp32_swap q else q"
  have j: "cmp32_jset ?p w = Some q'" using pq by (simp add: cmp_prepared_def)
  have p: "cg_masked sz (cleft ?p)" "cg_masked sz (cright ?p)" "cmp_op (ctype ?p)"
    using m op swap_fields [of q] by auto
  have left: "is_const_value (cleft ?p) w = Some False"
    using m(1) nc by (cases rule: const_word_cases [where w = w]) (auto simp: swap_fields)
  have "is_const_value (cright ?p) w = Some False \<longrightarrow> \<not> clobbers_x (cleft ?p)"
    using alone by (auto simp: swap_fields mask_alone_def)
  from jset_ready [OF p j left this] show "cmp_ready sz w q'" .
  show "cmp_dest d w q' = cmp_dest d w q"
    using jset_dest [OF p j, of d] swap_dest [OF op, of d w] by simp
  show "ctloc q' = ctloc q \<and> cfloc q' = cfloc q \<or> ctloc q' = cfloc q \<and> cfloc q' = ctloc q"
    using jset_locs [OF p j] swap_fields(4) [of q] by (auto split: if_splits)
qed

abbreviation (input) "the_cmp ty l r t f \<equiv> \<lparr>ctype = ty, cleft = l, cright = r, ctloc = t, cfloc = f\<rparr>"

lemma evaluate_jump_taken: "cmp_op ty \<Longrightarrow> evaluate_jump ty a b = Some (bpf_jump_taken ty a b)"
  by (auto simp: evaluate_jump_def bpf_jump_taken_def)

lemma generate_cmp32_cases:
  assumes op: "cmp_op ty" and m: "cg_masked sz l" "cg_masked sz r"
    and g: "generate_cmp32 c ty l r t f w load = Some (c', next)"
  obtains (const) "c' = c" "\<And>d. next = cmp_dest d w (the_cmp ty l r t f)"
      "is_const_value l w = Some True" "is_const_value r w = Some True"
  | (emit) q' where "is_const_value l w = Some False \<or> is_const_value r w = Some False"
      "cmp_prepared (the_cmp ty l r t f) w = Some q'"
      "cmp32_emit c (CURRENT_LOC c) q' w load = Some (c', next)"
  using m(1)
proof (cases rule: const_word_cases [where w = w])
  case lconst: (const a)
  from m(2) show thesis
  proof (cases rule: const_word_cases [where w = w])
    case (const b)
    then show thesis
      using g lconst evaluate_jump_taken [OF op]
      by (intro that(1)) (auto simp: generate_cmp32_def cmp_dest_def cmp_taken_def)
  next
    case load
    then obtain q' where "cmp_prepared (the_cmp ty l r t f) w = Some q'"
      "cmp32_emit c (CURRENT_LOC c) q' w load = Some (c', next)"
      using g lconst by (auto simp: generate_cmp32_def cmp_prepared_def elim!: bind_SomeE)
    then show thesis using load by (intro that(2)) auto
  qed
next
  case load
  then obtain q' where "cmp_prepared (the_cmp ty l r t f) w = Some q'"
    "cmp32_emit c (CURRENT_LOC c) q' w load = Some (c', next)"
    using g by (auto simp: generate_cmp32_def cmp_prepared_def elim!: bind_SomeE)
  then show thesis using load by (intro that(2)) auto
qed

context bpf_machine
begin

text \<open>A location whose result does not depend on the registers.\<close>

definition closed :: "seccomp_data \<Rightarrow> codegen_ctxt \<Rightarrow> int \<Rightarrow> u32 option \<Rightarrow> bool" where
  "closed d c loc r \<longleftrightarrow> loc_ok c loc \<and> (\<forall>A X. tgt d c loc A X = r)"

lemma closed_extends: "extends c c' \<Longrightarrow> closed d c loc r \<Longrightarrow> closed d c' loc r"
  unfolding closed_def using tgt_extends loc_ok_extends by metis

lemma tgt_prefixed:
  "prefixed c c' next \<Longrightarrow> tgt d c' next A X = exec d (rev (buffer c')) A X"
  unfolding prefixed_def using tgt_current [of c' d A X] by (cases "buffer c' = []") auto

text \<open>The jump after its operands were loaded.\<close>

lemma cmp32_jump_loaded:
  assumes "ctxt_ok c" "loc_ok c (ctloc q)" "loc_ok c (cfloc q)" "cmp_ready sz w q"
    and "cmp32_jump c q w = Some (c', next)" "length (buffer c') \<le> 256"
    and "is_const_value (cright q) w = Some True \<or> X = wval d w (cright q)"
  shows "tgt d c' next (wval d w (cleft q)) X = tgt d c (cmp_dest d w q) (wval d w (cleft q)) X"
proof -
  have "cmp_outcome d w q (wval d w (cleft q)) X = cmp_taken d w q"
    using assms(7) by (auto simp: cmp_outcome_def cmp_taken_def)
  then show ?thesis
    using cmp32_jump_exec [OF assms(1-6), of d "wval d w (cleft q)" X] by (simp add: cmp_dest_def)
qed

lemma cmp32_emit_normal:
  assumes ok: "ctxt_ok c" "loc_ok c (ctloc q)" "loc_ok c (cfloc q)" and rd: "cmp_ready sz w q"
    and e: "cmp32_emit c (CURRENT_LOC c) q w NORMAL = Some (c', next)" and len: "length (buffer c') \<le> 256"
    and closed: "closed d c (ctloc q) rt" "closed d c (cfloc q) rf"
  shows "emitted c c' next (ctloc q) (cfloc q)"
    and "closed d c' next (if cmp_taken d w q then rt else rf)"
proof -
  obtain c1 n1 where j: "cmp32_jump c q w = Some (c1, n1)"
    and rest: "(if CURRENT_LOC c < n1 then cmp32_load c1 q w else Some (c1, n1)) = Some (c', next)"
    using e unfolding cmp32_emit_eq by (auto elim!: bind_SomeE)
  note em = cmp32_jump_emitted [OF ok j]
  have dest: "tgt d c (cmp_dest d w q) A X = (if cmp_taken d w q then rt else rf)" for A X
    using closed by (simp add: closed_def cmp_dest_def)
  have "emitted c c' next (ctloc q) (cfloc q) \<and> closed d c' next (if cmp_taken d w q then rt else rf)"
  proof (cases "CURRENT_LOC c < n1")
    case True
    define X' where "X' X = (if is_const_value (cright q) w = Some True then load_x d w (cleft q) X
        else wval d w (cright q))" for X
    have p: "prefixed c1 c' next" and x: "\<And>A X. exec d (rev (buffer c')) A X
        = exec d (rev (buffer c1)) (wval d w (cleft q)) (X' X)"
      using cmp32_load_exec [OF rd, of c1 d] rest True unfolding X'_def by auto
    have "n1 \<noteq> ctloc q" "n1 \<noteq> cfloc q"
      using True ok by (auto simp: loc_ok_def CURRENT_LOC_def)
    then have n1: "n1 = CURRENT_LOC c1" "buffer c1 \<noteq> []" using em by (auto simp: emitted_def)
    have len1: "length (buffer c1) \<le> 256"
      using p len extends_length [of c1 c'] by (simp add: prefixed_def)
    have "tgt d c' next A X = (if cmp_taken d w q then rt else rf)" for A X
    proof -
      have "tgt d c' next A X = tgt d c1 n1 (wval d w (cleft q)) (X' X)"
        using x tgt_prefixed [OF p] tgt_current [OF n1(2)] n1(1) by simp
      also have "\<dots> = tgt d c (cmp_dest d w q) (wval d w (cleft q)) (X' X)"
        by (rule cmp32_jump_loaded [OF ok rd j len1]) (simp add: X'_def)
      finally show ?thesis using dest by simp
    qed
    then show ?thesis
      using emitted_prefixed [OF em p] by (simp add: closed_def emitted_def)
  next
    case False
    then have eq: "c' = c1" "next = n1" using rest by auto
    have "c1 = c" "n1 = ctloc q \<or> n1 = cfloc q"
      using em False by (auto simp: emitted_def CURRENT_LOC_def)
    moreover have "tgt d c1 n1 (wval d w (cleft q)) (wval d w (cright q))
        = (if cmp_taken d w q then rt else rf)"
      using cmp32_jump_loaded [OF ok rd j] len eq dest by simp
    ultimately show ?thesis
      using em eq closed by (auto simp: closed_def)
  qed
  then show "emitted c c' next (ctloc q) (cfloc q)"
    "closed d c' next (if cmp_taken d w q then rt else rf)" by auto
qed

end

text \<open>
  The pair of jumps on the high words. When the first one was emitted, the operands loaded for
  the second serve both.
\<close>

lemma high_registers:
  assumes m: "cg_masked sz l" "cg_masked sz r"
    and nc: "is_const_value l w = Some False \<or> is_const_value r w = Some False"
    and q1: "cmp_prepared (the_cmp BPF_JGE l r n f) w = Some q1"
    and q2: "cmp_prepared (the_cmp BPF_JGT l r t n2) w = Some q2"
    and j: "cmp32_jump c q1 w = Some (c', next)" and grown: "c' \<noteq> c"
  shows "cmp_outcome d w q1 (wval d w (cleft q2))
    (if is_const_value (cright q2) w = Some True then load_x d w (cleft q2) X else wval d w (cright q2))
    = cmp_taken d w q1"
  using m(1)
proof (cases rule: const_word_cases [where w = w])
  case (const a)
  define p where "p = the_cmp BPF_JGT r l f n"
  have p: "cg_masked sz (cleft p)" "cg_masked sz (cright p)" "cmp_op (ctype p)" using m by (auto simp: p_def)
  have j1: "cmp32_jset p w = Some q1"
    using q1 const by (simp add: cmp_prepared_def cmp32_swap_def p_def)
  have "cmp32_jset (the_cmp BPF_JGE r l n2 t) w = Some q2"
    using q2 const by (simp add: cmp_prepared_def cmp32_swap_def)
  then have q2': "q2 = the_cmp BPF_JGE r l n2 t"
    by (intro jset_ge [of sz]) (use m in auto)
  from p j1 show ?thesis
  proof (cases rule: jset_cases)
    case same
    then show ?thesis using const q2' by (simp add: cmp_outcome_def cmp_taken_def p_def)
  next
    case (bits v s x)
    have x: "is_const_value x w = Some True \<or> (\<exists>u z. x = EXPR_VAR u z)"
      using m(2) bits(1) by (cases x) (auto simp: p_def)
    have "(a' AND b) AND b = a' AND b" for a' b :: u32 by (simp add: and.assoc)
    then show ?thesis
      using x bits q2' const by (auto simp: cmp_outcome_def cmp_taken_def p_def bpf_jump_taken_def)
  qed
next
  case load
  have "cmp32_jset (the_cmp BPF_JGE l r n f) w = Some q1" using q1 load by (simp add: cmp_prepared_def)
  then have q1': "q1 = the_cmp BPF_JGE l r n f"
    by (intro jset_ge [of sz]) (use m in auto)
  define p where "p = the_cmp BPF_JGT l r t n2"
  have p: "cg_masked sz (cleft p)" "cg_masked sz (cright p)" "cmp_op (ctype p)" using m by (auto simp: p_def)
  have "cmp32_jset p w = Some q2" using q2 load by (simp add: cmp_prepared_def p_def)
  with p show ?thesis
  proof (cases rule: jset_cases)
    case same
    then show ?thesis by (simp add: cmp_outcome_def cmp_taken_def q1' p_def)
  next
    case (bits v s x)
    then have "cmp32_jump c q1 w = Some (c, n)"
      by (simp add: cmp32_jump_def q1' p_def ADD_JUMP_K_def add_jump_ge_def)
    then show ?thesis using j grown by simp
  qed
qed

lemma prepared_gt:
  assumes m: "cg_masked sz l" "cg_masked sz r" and q2: "cmp_prepared (the_cmp BPF_JGT l r t f) w = Some q2"
  shows "ctype q2 = BPF_JGE \<and> ctloc q2 = f \<and> cfloc q2 = t \<or>
    (ctype q2 = BPF_JGT \<or> ctype q2 = BPF_JSET) \<and> ctloc q2 = t \<and> cfloc q2 = f"
  using m(1)
proof (cases rule: const_word_cases [where w = w])
  case (const a)
  then have "cmp32_jset (the_cmp BPF_JGE r l f t) w = Some q2"
    using q2 by (simp add: cmp_prepared_def cmp32_swap_def)
  then have "q2 = the_cmp BPF_JGE r l f t"
    by (intro jset_ge [of sz]) (use m in auto)
  then show ?thesis by simp
next
  case load
  then have j: "cmp32_jset (the_cmp BPF_JGT l r t f) w = Some q2"
    using q2 by (simp add: cmp_prepared_def)
  show ?thesis
    by (rule jset_cases [OF _ _ _ j, of sz]) (use m in auto)
qed

context bpf_machine
begin

lemma closed_unique: "closed d c loc r \<Longrightarrow> closed d c loc r' \<Longrightarrow> r = r'"
  by (auto simp: closed_def)

lemma generate_cmp32_normal:
  assumes ok: "ctxt_ok c" and cl: "closed d c t rt" "closed d c f rf"
    and op: "cmp_op ty" and m: "cg_masked sz l" "cg_masked sz r" and alone: "mask_alone l r"
    and g: "generate_cmp32 c ty l r t f w NORMAL = Some (c', next)" and len: "length (buffer c') \<le> 256"
  shows "emitted c c' next t f"
    and "closed d c' next (if bpf_jump_taken ty (wval d w l) (wval d w r) then rt else rf)"
proof -
  let ?q = "the_cmp ty l r t f"
  have locs: "loc_ok c t" "loc_ok c f" using cl by (auto simp: closed_def)
  have taken: "cmp_taken d w ?q = bpf_jump_taken ty (wval d w l) (wval d w r)"
    by (simp add: cmp_taken_def)
  have "emitted c c' next t f \<and> closed d c' next (if cmp_taken d w ?q then rt else rf)"
    using op m g
  proof (cases rule: generate_cmp32_cases)
    case const
    then show ?thesis
      using ok locs cl const(2) [of d] by (auto simp: cmp_dest_def)
  next
    case (emit q')
    note pr = cmp_prepared_ok [of ?q sz w q', simplified, OF op [simplified] m emit(1) alone emit(2)]
    define rt' rf' where "rt' = (if ctloc q' = t then rt else rf)" and "rf' = (if cfloc q' = t then rt else rf)"
    have cl': "closed d c (ctloc q') rt'" "closed d c (cfloc q') rf'"
      using pr(3) cl by (auto simp: rt'_def rf'_def)
    have ok': "loc_ok c (ctloc q')" "loc_ok c (cfloc q')" using cl' by (auto simp: closed_def)
    note e = cmp32_emit_normal [OF ok ok' pr(1) emit(3) len cl']
    have "closed d c (cmp_dest d w q') (if cmp_taken d w q' then rt' else rf')"
      "closed d c (cmp_dest d w ?q) (if cmp_taken d w ?q then rt else rf)"
      using cl cl' by (auto simp: cmp_dest_def)
    then have "(if cmp_taken d w q' then rt' else rf') = (if cmp_taken d w ?q then rt else rf)"
      using closed_unique pr(2) [of d] by metis
    moreover have "emitted c c' next t f"
      using e(1) pr(3) by (auto simp: emitted_def)
    ultimately show ?thesis using e(2) by simp
  qed
  then show "emitted c c' next t f"
    "closed d c' next (if bpf_jump_taken ty (wval d w l) (wval d w r) then rt else rf)"
    by (simp_all only: taken)
qed

end

section \<open>Comparisons of 64-bit values\<close>

context bpf_machine
begin

text \<open>The jump that is emitted without loads of its own.\<close>

lemma generate_cmp32_never:
  assumes ok: "ctxt_ok c" and cl: "closed d c t rt" "closed d c f rf"
    and op: "cmp_op ty" and m: "cg_masked sz l" "cg_masked sz r" and alone: "mask_alone l r"
    and g: "generate_cmp32 c ty l r t f w NEVER = Some (c', next)" and len: "length (buffer c') \<le> 256"
    and r: "res = (if bpf_jump_taken ty (wval d w l) (wval d w r) then rt else rf)"
  obtains (same) "c' = c" "next \<le> CURRENT_LOC c" "closed d c next res"
  | (jump) q' where "emitted c c' next t f" "length (buffer c) < length (buffer c')"
      "next = CURRENT_LOC c'"
      "is_const_value l w = Some False \<or> is_const_value r w = Some False"
      "cmp_prepared (the_cmp ty l r t f) w = Some q'" "cmp32_jump c q' w = Some (c', next)"
      "\<And>A X. cmp_outcome d w q' A X = cmp_taken d w q' \<Longrightarrow> tgt d c' next A X = res"
  using op m g
proof (cases rule: generate_cmp32_cases)
  case const
  then show thesis
    using cl const(2) [of d] r by (intro same) (auto simp: cmp_dest_def cmp_taken_def closed_def loc_ok_def CURRENT_LOC_def)
next
  case (emit q')
  let ?q = "the_cmp ty l r t f"
  note pr = cmp_prepared_ok [of ?q sz w q', simplified, OF op [simplified] m emit(1) alone emit(2)]
  have ok': "loc_ok c (ctloc q')" "loc_ok c (cfloc q')" "loc_ok c t" "loc_ok c f"
    using pr(3) cl by (auto simp: closed_def)
  have j: "cmp32_jump c q' w = Some (c', next)"
    using emit(3) unfolding cmp32_emit_eq by (auto elim!: bind_SomeE)
  have em: "emitted c c' next t f"
    using cmp32_jump_emitted [OF ok ok'(1,2) j] pr(3) by (auto simp: emitted_def)
  have dest: "tgt d c (cmp_dest d w q') A X = res" for A X
    using pr(2) [of d] cl r by (auto simp: closed_def cmp_dest_def cmp_taken_def)
  have out: "tgt d c' next A X = res" if "cmp_outcome d w q' A X = cmp_taken d w q'" for A X
    using cmp32_jump_exec [OF ok ok'(1,2) pr(1) j len, of d A X] that dest [of A X]
    by (simp add: cmp_dest_def)
  show thesis
  proof (cases "c' = c")
    case True
    then have n: "next = t \<or> next = f" using em by (auto simp: emitted_def)
    then have "closed d c next res"
      using out [OF cmp_outcome_taken] cl True by (auto simp: closed_def)
    then show thesis using n True ok'(3,4) by (intro same) (auto simp: loc_ok_def CURRENT_LOC_def)
  next
    case False
    then show thesis using em out emit(1,2) j by (intro jump) (auto simp: emitted_def)
  qed
qed

lemma high_words_always:
  assumes em: "emitted c c2 n2 n f" and grown: "length (buffer c) < length (buffer c2)"
    and top: "n2 = CURRENT_LOC c2" and cl: "closed d c t rt"
    and m: "cg_masked sz l" "cg_masked sz r" and alone: "mask_alone l r"
    and nc: "is_const_value l w = Some False \<or> is_const_value r w = Some False"
    and q1: "cmp_prepared (the_cmp BPF_JGE l r n f) w = Some q1" "cmp32_jump c q1 w = Some (c2, n2)"
    and out: "\<And>A X. cmp_outcome d w q1 A X = cmp_taken d w q1 \<Longrightarrow> tgt d c2 n2 A X = res"
    and g: "generate_cmp32 c2 BPF_JGT l r t n2 w ALWAYS = Some (c3, n3)"
    and len: "length (buffer c3) \<le> 256"
  shows "ctxt_ok c3 \<and> extends c c3 \<and> closed d c3 n3 (if wval d w l > wval d w r then rt else res)"
proof -
  let ?q = "the_cmp BPF_JGT l r t n2"
  have ok2: "ctxt_ok c2" "extends c c2" "loc_ok c2 n2" using em by (auto simp: emitted_def)
  have t2: "closed d c2 t rt" using closed_extends [OF ok2(2) cl] .
  have tn: "t \<noteq> n2" using cl grown top by (auto simp: closed_def loc_ok_def CURRENT_LOC_def)
  obtain q2 where q2: "cmp_prepared ?q w = Some q2"
    and e: "cmp32_emit c2 (CURRENT_LOC c2) q2 w ALWAYS = Some (c3, n3)"
    by (rule generate_cmp32_cases [OF _ m g]) (use nc in auto)
  obtain c' n' where j: "cmp32_jump c2 q2 w = Some (c', n')" and ld: "cmp32_load c' q2 w = Some (c3, n3)"
    using e unfolding cmp32_emit_eq by (auto elim!: bind_SomeE)
  note pr = cmp_prepared_ok [of ?q sz w q2, simplified, OF m nc alone q2]
  have ok': "loc_ok c2 (ctloc q2)" "loc_ok c2 (cfloc q2)"
    using pr(3) ok2(3) t2 by (auto simp: closed_def)
  define A' where "A' = wval d w (cleft q2)"
  define X' where "X' X = (if is_const_value (cright q2) w = Some True then load_x d w (cleft q2) X
      else wval d w (cright q2))" for X
  have p: "prefixed c' c3 n3"
    and x: "\<And>A X. exec d (rev (buffer c3)) A X = exec d (rev (buffer c')) A' (X' X)"
    using cmp32_load_exec [OF pr(1), of c' d] ld unfolding X'_def A'_def by auto
  have em': "emitted c2 c' n' (ctloc q2) (cfloc q2)" by (rule cmp32_jump_emitted [OF ok2(1) ok' j])
  have len': "length (buffer c') \<le> 256" using p len by (auto simp: prefixed_def)
  have regs: "tgt d c2 n2 A' (X' X) = res" for X
    unfolding A'_def X'_def
    by (rule out) (rule high_registers [OF m nc q1(1) q2 q1(2)], use grown in auto)
  have dest: "tgt d c2 (cmp_dest d w q2) A' (X' X) = (if wval d w l > wval d w r then rt else res)" for X
    using pr(2) [of d] regs t2 by (simp add: cmp_dest_def cmp_taken_def bpf_jump_taken_def closed_def)
  have "tgt d c3 n3 A X = (if wval d w l > wval d w r then rt else res)" for A X
  proof (cases "c' = c2")
    case True
    from cmp32_jump_elided [OF ok2(1) ok' _ j True] prepared_gt [OF m q2] pr(1) tn
    have "cmp_dest d w q2 = n2"
      using cmp_outcome_taken [of d w q2] by (auto simp: cmp_dest_def cmp_ready_def)
    moreover have "tgt d c3 n3 A X = tgt d c2 n2 A' (X' X)"
      using tgt_prefixed [OF p] x True tgt_current [of c2 d] grown top by (cases "buffer c2 = []") auto
    ultimately show ?thesis using dest by simp
  next
    case False
    then have n': "n' = CURRENT_LOC c'" "buffer c' \<noteq> []" using em' by (auto simp: emitted_def)
    have "tgt d c3 n3 A X = tgt d c' n' A' (X' X)"
      using tgt_prefixed [OF p] x tgt_current [OF n'(2)] n'(1) by simp
    also have "\<dots> = tgt d c2 (cmp_dest d w q2) A' (X' X)"
      unfolding A'_def by (rule cmp32_jump_loaded [OF ok2(1) ok' pr(1) j len']) (simp add: X'_def)
    finally show ?thesis using dest by simp
  qed
  then show ?thesis
    using emitted_prefixed [OF em' p] extends_trans [OF ok2(2)] by (auto simp: emitted_def closed_def)
qed

lemma high_words:
  assumes ok: "ctxt_ok c" and cl: "closed d c n r1" "closed d c t rt" "closed d c f rf"
    and m: "cg_masked sz l" "cg_masked sz r" and alone: "mask_alone l r"
    and g: "generate_cmp32 c BPF_JGE l r n f w NEVER = Some (c2, n2)"
      "generate_cmp32 c2 BPF_JGT l r t n2 w (if n2 > CURRENT_LOC c then ALWAYS else NORMAL) = Some (c3, n3)"
    and len: "length (buffer c2) \<le> 256" "length (buffer c3) \<le> 256"
  shows "ctxt_ok c3 \<and> extends c c3 \<and> closed d c3 n3
    (if wval d w l > wval d w r then rt else if wval d w l \<ge> wval d w r then r1 else rf)"
proof -
  have op: "cmp_op BPF_JGE" by simp
  show ?thesis
  proof (rule generate_cmp32_never [OF ok cl(1,3) op m alone g(1) len(1) refl])
    assume s: "c2 = c" "n2 \<le> CURRENT_LOC c"
      "closed d c n2 (if bpf_jump_taken BPF_JGE (wval d w l) (wval d w r) then r1 else rf)"
    then have g2: "generate_cmp32 c BPF_JGT l r t n2 w NORMAL = Some (c3, n3)" using g(2) by simp
    from generate_cmp32_normal [OF ok cl(2) s(3) _ m alone g2 len(2)] show ?thesis
      by (simp add: emitted_def bpf_jump_taken_def cong: if_cong)
  next
    fix q1
    assume q: "emitted c c2 n2 n f" "length (buffer c) < length (buffer c2)" "n2 = CURRENT_LOC c2"
      "is_const_value l w = Some False \<or> is_const_value r w = Some False"
      "cmp_prepared (the_cmp BPF_JGE l r n f) w = Some q1" "cmp32_jump c q1 w = Some (c2, n2)"
      "\<And>A X. cmp_outcome d w q1 A X = cmp_taken d w q1 \<Longrightarrow>
         tgt d c2 n2 A X = (if bpf_jump_taken BPF_JGE (wval d w l) (wval d w r) then r1 else rf)"
    then have g2: "generate_cmp32 c2 BPF_JGT l r t n2 w ALWAYS = Some (c3, n3)"
      using g(2) by (simp add: CURRENT_LOC_def)
    from high_words_always [OF q(1-3) cl(2) m alone q(4-7) g2 len(2)] show ?thesis
      by (simp add: bpf_jump_taken_def cong: if_cong)
  qed
qed

end

end
