(* ===== verification/Kafel_Sound.thy ===== *)
theory Kafel_Sound
  imports Kafel_Cmp
begin

unbundle bit_operations_syntax

text \<open>
  Soundness of the code generator: expressions, rules and the whole program. Growth of the
  buffer is shown first and without conditions, then what the emitted code decides.
\<close>

section \<open>Every stage only adds instructions\<close>

text \<open>The resulting location is one of those passed in or a new one.\<close>

definition grown :: "codegen_ctxt \<Rightarrow> codegen_ctxt \<Rightarrow> int \<Rightarrow> int set \<Rightarrow> bool" where
  "grown c c' next L \<longleftrightarrow> ctxt_ok c' \<and> extends c c' \<and> loc_ok c' next \<and>
     (next \<in> L \<or> int (length (buffer c)) \<le> next)"

lemma grown_refl: "ctxt_ok c \<Longrightarrow> loc_ok c loc \<Longrightarrow> loc \<in> L \<Longrightarrow> grown c c loc L"
  by (simp add: grown_def)

lemma grown_trans: "grown a b n L \<Longrightarrow> grown b c m (insert n L) \<Longrightarrow> grown a c m L"
proof -
  assume g: "grown a b n L" and h: "grown b c m (insert n L)"
  have "extends a c" using g h extends_trans [of a b c] by (simp add: grown_def)
  moreover have "length (buffer a) \<le> length (buffer b)" using g by (simp add: grown_def extends_length)
  ultimately show ?thesis using g h by (auto simp: grown_def)
qed

lemma grown_mono: "grown a b n L \<Longrightarrow> L \<subseteq> L' \<Longrightarrow> grown a b n L'"
  unfolding grown_def by blast

lemma grown_loc_ok: "grown c c' n L \<Longrightarrow> loc_ok c loc \<Longrightarrow> loc_ok c' loc"
  unfolding grown_def using loc_ok_extends by blast

lemma grown_length: "grown c c' n L \<Longrightarrow> length (buffer c) \<le> length (buffer c')"
  unfolding grown_def using extends_length by blast

lemma grown_prefixed: "prefixed c c' n \<Longrightarrow> ctxt_ok c \<Longrightarrow> grown c c' n L"
  unfolding grown_def using prefixed_ok by (auto simp: prefixed_def loc_ok_def CURRENT_LOC_def)

lemma emitted_grown: "emitted c c' n t f \<Longrightarrow> grown c c' n {t, f}"
  unfolding emitted_def grown_def by (auto simp: CURRENT_LOC_def)

lemma generate_load_prefixed: "generate_load c e w = Some (c', n) \<Longrightarrow> prefixed c c' n"
proof (induction c e w arbitrary: c' n rule: generate_load.induct)
  case (1 c e w)
  note ih = 1
  obtain b where const: "is_const_value e w = Some b" "\<not> b"
    using 1(4) by (subst (asm) generate_load.simps) (auto elim!: bind_SomeE split: if_splits)
  show ?case
  proof (cases e)
    case (EXPR_VAR v s)
    then show ?thesis
      using 1(4) by (subst (asm) generate_load.simps) (auto intro: prefixed_add)
  next
    case (EXPR_BINARY bop l r)
    have bop: "bop = EXPR_BIT_AND"
      using 1(4) EXPR_BINARY by (cases bop; subst (asm) generate_load.simps) (auto elim!: bind_SomeE split: if_splits)
    obtain rc where rc: "is_const_value r w = Some rc"
      using const EXPR_BINARY bop by (cases "is_const_value r w") auto
    show ?thesis
    proof (cases rc)
      case True
      then obtain v where v: "value_of r w = Some v"
        using 1(4) const EXPR_BINARY bop rc
        by (subst (asm) generate_load.simps) (auto elim!: bind_SomeE)
      obtain c1 n1 where add: "add_instruction c (BPF_STMT (BPF_ALU OR BPF_AND OR BPF_K) v) = (c1, n1)"
        by fastforce
      then have "generate_load c1 l w = Some (c', n)"
        using 1(4) const EXPR_BINARY bop rc True v by (subst (asm) generate_load.simps) auto
      from ih(1) [OF const EXPR_BINARY bop rc True v refl add [symmetric] this] show ?thesis
        using prefixed_trans [OF prefixed_add [OF add]] by blast
    next
      case False
      obtain c1 n1 where add: "add_instruction c (BPF_STMT (BPF_ALU OR BPF_AND OR BPF_X) 0) = (c1, n1)"
        by fastforce
      obtain c2 n2 where l: "generate_load c1 l w = Some (c2, n2)"
        using 1(4) const EXPR_BINARY bop rc False add
        by (subst (asm) generate_load.simps) (auto elim!: bind_SomeE)
      obtain c3 n3 where tax: "add_instruction c2 (BPF_STMT (BPF_MISC OR BPF_TAX) 0) = (c3, n3)"
        by fastforce
      have "generate_load c3 r w = Some (c', n)"
        using 1(4) const EXPR_BINARY bop rc False add l tax by (subst (asm) generate_load.simps) auto
      then show ?thesis
        using ih(2,3) [OF const EXPR_BINARY bop rc False] add l tax
          prefixed_trans [OF prefixed_add [OF add]] prefixed_trans [OF prefixed_add [OF tax]] prefixed_trans
        by (metis (no_types, lifting))
    qed
  qed (use 1(4) const in \<open>auto simp: generate_load.simps\<close>)
qed

lemma cmp32_load_prefixed: "cmp32_load c q w = Some (c', n) \<Longrightarrow> prefixed c c' n"
  unfolding cmp32_load_def
  by (auto elim!: bind_SomeE split: if_splits prod.splits
      dest!: generate_load_prefixed prefixed_add) (blast intro: prefixed_trans)

lemma cmp32_emit_grown:
  assumes "ctxt_ok c" "loc_ok c (ctloc q)" "loc_ok c (cfloc q)"
    and "cmp32_emit c b q w load = Some (c', n)"
  shows "grown c c' n {ctloc q, cfloc q}"
proof -
  obtain c1 n1 where j: "cmp32_jump c q w = Some (c1, n1)"
    and r: "(if load = ALWAYS \<or> load \<noteq> NEVER \<and> n1 > b then cmp32_load c1 q w else Some (c1, n1)) = Some (c', n)"
    using assms(4) unfolding cmp32_emit_eq by (auto elim!: bind_SomeE)
  note em = cmp32_jump_emitted [OF assms(1-3) j]
  show ?thesis
  proof (cases "load = ALWAYS \<or> load \<noteq> NEVER \<and> n1 > b")
    case True
    then have "prefixed c1 c' n" using r cmp32_load_prefixed by simp
    then show ?thesis using em emitted_prefixed emitted_grown by blast
  next
    case False
    then show ?thesis using r em emitted_grown by auto
  qed
qed

lemma jset_loc_ok:
  "cmp32_jset q w = Some q' \<Longrightarrow>
   {ctloc q', cfloc q'} = {ctloc q, cfloc q}"
  unfolding cmp32_jset_def
  by (auto elim!: bind_SomeE simp: Let_def split: expr_tree.splits expr_op.splits if_splits)

lemma generate_cmp32_grown:
  assumes "ctxt_ok c" "loc_ok c t" "loc_ok c f"
    and "generate_cmp32 c ty l r t f w load = Some (c', n)"
  shows "grown c c' n {t, f}"
proof -
  let ?q = "the_cmp ty l r t f"
  obtain lc rc where lc: "is_const_value l w = Some lc" "(if lc then is_const_value r w else Some False) = Some rc"
    using assms(4) unfolding generate_cmp32_def by (auto simp: Let_def elim!: bind_SomeE)
  show ?thesis
  proof (cases "lc \<and> rc")
    case True
    then have "c' = c \<and> (n = t \<or> n = f)"
      using assms(4) lc unfolding generate_cmp32_def by (auto elim!: bind_SomeE)
    then show ?thesis using assms by (auto intro: grown_refl)
  next
    case False
    then obtain q' where q': "cmp32_jset (if lc then cmp32_swap ?q else ?q) w = Some q'"
      "cmp32_emit c (CURRENT_LOC c) q' w load = Some (c', n)"
      using assms(4) lc unfolding generate_cmp32_def by (auto simp: Let_def elim!: bind_SomeE)
    have "{ctloc q', cfloc q'} \<subseteq> {t, f}"
      using jset_loc_ok [OF q'(1)] swap_fields(4) [of ?q] by (auto split: if_splits)
    moreover have "loc_ok c (ctloc q')" "loc_ok c (cfloc q')" using calculation assms(2,3) by auto
    ultimately show ?thesis
      using grown_mono [OF cmp32_emit_grown [OF assms(1) _ _ q'(2)]] by simp
  qed
qed

lemma generate_inequality_steps:
  assumes "generate_inequality c ty l r t f = Some (c', n)"
  obtains c1 n1 wl wr where "generate_cmp32 c ty l r t f LOW_WORD NORMAL = Some (c1, n1)"
    "is_64bit l = Some wl" "\<not> wl \<Longrightarrow> is_64bit r = Some wr" "\<not> wl \<Longrightarrow> \<not> wr \<Longrightarrow> (c', n) = (c1, n1)"
    "wl \<or> wr \<Longrightarrow> \<exists>c2 n2. generate_cmp32 c1 BPF_JGE l r n1 f HIGH_WORD NEVER = Some (c2, n2) \<and>
       generate_cmp32 c2 BPF_JGT l r t n2 HIGH_WORD (if n2 > CURRENT_LOC c1 then ALWAYS else NORMAL)
       = Some (c', n)"
proof -
  obtain c1 n1 wl where 1: "generate_cmp32 c ty l r t f LOW_WORD NORMAL = Some (c1, n1)" "is_64bit l = Some wl"
    using assms unfolding generate_inequality_def by (auto simp: Let_def elim!: bind_SomeE)
  obtain wide where 2: "(if wl then Some True else is_64bit r) = Some wide"
    using assms 1 unfolding generate_inequality_def by (auto simp: Let_def elim!: bind_SomeE)
  show thesis
  proof (rule that [OF 1, of wide])
    show "is_64bit r = Some wide" if "\<not> wl" using 2 that by simp
    show "(c', n) = (c1, n1)" if "\<not> wl" "\<not> wide"
      using assms 1 2 that unfolding generate_inequality_def by simp
    show "\<exists>c2 n2. generate_cmp32 c1 BPF_JGE l r n1 f HIGH_WORD NEVER = Some (c2, n2) \<and>
       generate_cmp32 c2 BPF_JGT l r t n2 HIGH_WORD (if n2 > CURRENT_LOC c1 then ALWAYS else NORMAL)
       = Some (c', n)" if "wl \<or> wide"
    proof -
      have "wide" using 2 that by (cases wl) auto
      then obtain c2 n2 where "generate_cmp32 c1 BPF_JGE l r n1 f HIGH_WORD NEVER = Some (c2, n2)"
        "generate_cmp32 c2 BPF_JGT l r t n2 HIGH_WORD (if n2 > CURRENT_LOC c1 then ALWAYS else NORMAL)
         = Some (c', n)"
        using assms 1 2 unfolding generate_inequality_def by (auto simp: Let_def elim!: bind_SomeE)
      then show ?thesis by blast
    qed
  qed
qed

lemma generate_inequality_grown:
  assumes "ctxt_ok c" "loc_ok c t" "loc_ok c f" "generate_inequality c ty l r t f = Some (c', n)"
  shows "grown c c' n {t, f}"
  using assms(4)
proof (cases rule: generate_inequality_steps)
  case (1 c1 n1 wl wr)
  note g1 = generate_cmp32_grown [OF assms(1-3) 1(1)]
  show ?thesis
  proof (cases "wl \<or> wr")
    case True
    then obtain c2 n2 ld where 2: "generate_cmp32 c1 BPF_JGE l r n1 f HIGH_WORD NEVER = Some (c2, n2)"
      "generate_cmp32 c2 BPF_JGT l r t n2 HIGH_WORD ld = Some (c', n)"
      using 1(5) by blast
    have g2: "grown c1 c2 n2 {n1, f}"
      using generate_cmp32_grown [OF _ _ _ 2(1)] g1 grown_loc_ok [OF g1 assms(3)] by (simp add: grown_def)
    have g3: "grown c2 c' n {t, n2}"
      using generate_cmp32_grown [OF _ _ _ 2(2)] g2 grown_loc_ok [OF g2 grown_loc_ok [OF g1 assms(2)]]
      by (simp add: grown_def)
    have "grown c1 c' n {n1, t, f}"
      by (rule grown_trans [OF grown_mono [OF g2] grown_mono [OF g3]]) auto
    then show ?thesis using grown_trans [OF g1] grown_mono by blast
  next
    case False
    then show ?thesis using 1(4) g1 by simp
  qed
qed

lemma generate_equality_steps:
  assumes "generate_equality c l r t f = Some (c', n)"
  obtains c1 n1 wl wr where "generate_cmp32 c BPF_JEQ l r t f LOW_WORD NORMAL = Some (c1, n1)"
    "is_64bit l = Some wl" "\<not> wl \<Longrightarrow> is_64bit r = Some wr" "\<not> wl \<Longrightarrow> \<not> wr \<Longrightarrow> (c', n) = (c1, n1)"
    "wl \<or> wr \<Longrightarrow> generate_cmp32 c1 BPF_JEQ l r n1 f HIGH_WORD NORMAL = Some (c', n)"
proof -
  obtain c1 n1 wl where 1: "generate_cmp32 c BPF_JEQ l r t f LOW_WORD NORMAL = Some (c1, n1)" "is_64bit l = Some wl"
    using assms unfolding generate_equality_def by (auto elim!: bind_SomeE)
  obtain wide where 2: "(if wl then Some True else is_64bit r) = Some wide"
    using assms 1 unfolding generate_equality_def by (auto elim!: bind_SomeE)
  show thesis
    using assms 1 2 unfolding generate_equality_def by (intro that [OF 1, of wide]) (auto split: if_splits)
qed

lemma generate_equality_grown:
  assumes "ctxt_ok c" "loc_ok c t" "loc_ok c f" "generate_equality c l r t f = Some (c', n)"
  shows "grown c c' n {t, f}"
  using assms(4)
proof (cases rule: generate_equality_steps)
  case (1 c1 n1 wl wr)
  note g1 = generate_cmp32_grown [OF assms(1-3) 1(1)]
  show ?thesis
  proof (cases "wl \<or> wr")
    case True
    then have "grown c1 c' n {n1, f}"
      using generate_cmp32_grown [OF _ _ _ 1(5)] g1 grown_loc_ok [OF g1 assms(3)] by (simp add: grown_def)
    then show ?thesis using grown_trans [OF g1] grown_mono by blast
  next
    case False
    then show ?thesis using 1(4) g1 by simp
  qed
qed

lemma generate_expr_grown:
  assumes "ctxt_ok c" "loc_ok c t" "loc_ok c f" "generate_expr c e t f = Some (c', n)"
  shows "grown c c' n {t, f}"
  using assms
proof (induction e arbitrary: c t f c' n)
  case (EXPR_BINARY bop l r)
  note ih = EXPR_BINARY.IH and pre = EXPR_BINARY.prems
  have step: "grown c c' n {t, f}"
    if s: "generate_expr c r t f = Some (c1, n1)" "generate_expr c1 l t' f' = Some (c', n)"
      and tf: "t' = n1 \<and> f' = f \<or> t' = t \<and> f' = n1" for c1 n1 t' f'
  proof -
    have g: "grown c c1 n1 {t, f}" using ih(2) [OF pre(1-3) s(1)] .
    have "loc_ok c1 t'" "loc_ok c1 f'"
      using tf g grown_loc_ok [OF g pre(2)] grown_loc_ok [OF g pre(3)] by (auto simp: grown_def)
    then have "grown c1 c' n {t', f'}" using ih(1) [OF _ _ _ s(2)] g by (simp add: grown_def)
    then have "grown c1 c' n (insert n1 {t, f})" by (rule grown_mono) (use tf in auto)
    then show ?thesis by (rule grown_trans [OF g])
  qed
  have ineq: "grown c c' n {t, f}"
    if "generate_inequality c ty l r t f = Some (c', n) \<or> generate_inequality c ty l r f t = Some (c', n)" for ty
    using that generate_inequality_grown [OF pre(1)] pre(2,3) by (metis insert_commute)
  have eq: "grown c c' n {t, f}"
    if "generate_equality c l r t f = Some (c', n) \<or> generate_equality c l r f t = Some (c', n)"
    using that generate_equality_grown [OF pre(1)] pre(2,3) by (metis insert_commute)
  show ?case
  proof (cases bop)
    case EXPR_AND
    then obtain c1 n1 where "generate_expr c r t f = Some (c1, n1)" "generate_expr c1 l n1 f = Some (c', n)"
      using pre(4) by (auto elim!: bind_SomeE)
    then show ?thesis by (rule step) simp
  next
    case EXPR_OR
    then obtain c1 n1 where "generate_expr c r t f = Some (c1, n1)" "generate_expr c1 l t n1 = Some (c', n)"
      using pre(4) by (auto elim!: bind_SomeE)
    then show ?thesis by (rule step) simp
  next
    case EXPR_BIT_AND
    then show ?thesis using pre(4) by simp
  qed (use pre(4) in \<open>auto intro: ineq eq\<close>)
qed simp_all

section \<open>Words and 64-bit values\<close>

text \<open>
  The upper half of a four-byte argument is not part of its value, but a 64-bit comparison
  loads it: the emitted code is right when it is zero.
\<close>

fun vars_clean :: "seccomp_data \<Rightarrow> expr_tree \<Rightarrow> bool" where
  "vars_clean d (EXPR_VAR v s) = (s = 8 \<or> hi32 (args d v) = 0)"
| "vars_clean d (EXPR_BINARY bop l r) = (vars_clean d l \<and> vars_clean d r)"
| "vars_clean d _ = True"

definition wide_cmp :: "expr_tree \<Rightarrow> expr_tree \<Rightarrow> bool" where
  "wide_cmp l r \<longleftrightarrow> is_64bit l = Some True \<or> is_64bit r = Some True"

lemma lo_value: "cg_masked sz e \<Longrightarrow> lo32 (expr_value d e) = wval d LOW_WORD e"
  by (erule cg_maskedE) (simp_all add: NUM_WORD_def lo32_and)

lemma hi_value_wide:
  assumes "cg_masked sz e" and "vars_clean d e"
  shows "hi32 (expr_value d e) = wval d HIGH_WORD e"
proof -
  have var: "hi32 (arg_value d v s) = hi32 (args d v)" if "s = 8 \<or> hi32 (args d v) = 0" for v s
    using that by (auto simp: arg_value_def hi32_ucast)
  show ?thesis
    using assms(1)
  proof (cases rule: cg_maskedE)
  qed (use assms(2) in \<open>auto simp: NUM_WORD_def hi32_and var\<close>)
qed

lemma hi_value_narrow:
  assumes "cg_masked sz e" and "is_64bit e = Some False"
  shows "hi32 (expr_value d e) = 0"
proof -
  have var: "hi32 (arg_value d v s) = 0" if "s \<noteq> 8" for v s
    using that by (auto simp: arg_value_def hi32_ucast)
  have num: "hi32 n = 0" if "\<not> n > 0xffffffff" for n :: u64
    using that by (simp add: hi32_zero_iff word_less_nat_alt)
  show ?thesis
    using assms(1)
  proof (cases rule: cg_maskedE)
  qed (use assms(2) num var in \<open>auto simp: hi32_and split: if_splits\<close>)
qed

section \<open>Expressions\<close>

fun masks_alone :: "expr_tree \<Rightarrow> bool" where
  "masks_alone (EXPR_BINARY bop l r) =
     (if bop = EXPR_AND \<or> bop = EXPR_OR then masks_alone l \<and> masks_alone r else mask_alone l r)"
| "masks_alone _ = True"

fun args_clean :: "seccomp_data \<Rightarrow> expr_tree \<Rightarrow> bool" where
  "args_clean d (EXPR_BINARY bop l r) =
     (if bop = EXPR_AND \<or> bop = EXPR_OR then args_clean d l \<and> args_clean d r
      else (wide_cmp l r \<longrightarrow> vars_clean d l \<and> vars_clean d r))"
| "args_clean d _ = True"

context bpf_machine
begin

lemma inequality_exec:
  assumes ok: "ctxt_ok c" and cl: "closed d c t rt" "closed d c f rf"
    and m: "cg_masked sz l" "cg_masked sz r" and alone: "mask_alone l r"
    and clean: "wide_cmp l r \<longrightarrow> vars_clean d l \<and> vars_clean d r"
    and ty: "ty = BPF_JGT \<or> ty = BPF_JGE"
    and g: "generate_inequality c ty l r t f = Some (c', n)" and len: "length (buffer c') \<le> 256"
  shows "closed d c' n (if (if ty = BPF_JGT then expr_value d l > expr_value d r
    else expr_value d l \<ge> expr_value d r) then rt else rf)"
  using g
proof (cases rule: generate_inequality_steps)
  case (1 c1 n1 wl wr)
  have locs: "loc_ok c t" "loc_ok c f" using cl by (auto simp: closed_def)
  note g1 = generate_cmp32_grown [OF ok locs 1(1)]
  have ok1: "ctxt_ok c1" "extends c c1" using g1 by (auto simp: grown_def)
  have ty': "cmp_op ty" using ty by auto
  let ?low = "if bpf_jump_taken ty (wval d LOW_WORD l) (wval d LOW_WORD r) then rt else rf"
  note lo = lo_value [OF m(1), of d, symmetric] lo_value [OF m(2), of d, symmetric]
  show ?thesis
  proof (cases "wl \<or> wr")
    case False
    have eq: "c' = c1" "n = n1" using 1(4) False by auto
    have "hi32 (expr_value d l) = 0" "hi32 (expr_value d r) = 0"
      using 1(2,3) False hi_value_narrow m by auto
    then have "closed d c' n ?low"
      using generate_cmp32_normal(2) [OF ok cl ty' m alone 1(1)] len eq by simp
    then show ?thesis
      using ty \<open>hi32 (expr_value d l) = 0\<close> \<open>hi32 (expr_value d r) = 0\<close>
      by (auto simp: bpf_jump_taken_def lo lt_split32 [of "expr_value d r"] le_split32 [of "expr_value d r"])
  next
    case True
    then obtain c2 n2 where 2: "generate_cmp32 c1 BPF_JGE l r n1 f HIGH_WORD NEVER = Some (c2, n2)"
      "generate_cmp32 c2 BPF_JGT l r t n2 HIGH_WORD (if n2 > CURRENT_LOC c1 then ALWAYS else NORMAL) = Some (c', n)"
      using 1(5) by blast
    have "wide_cmp l r" using True 1(2,3) by (cases wl) (auto simp: wide_cmp_def)
    then have hi: "wval d HIGH_WORD l = hi32 (expr_value d l)" "wval d HIGH_WORD r = hi32 (expr_value d r)"
      using clean hi_value_wide m by auto
    have g2: "grown c1 c2 n2 {n1, f}"
      using generate_cmp32_grown [OF ok1(1) _ _ 2(1)] g1 grown_loc_ok [OF g1 locs(2)] by (simp add: grown_def)
    have g3: "grown c2 c' n {t, n2}"
      using generate_cmp32_grown [OF _ _ _ 2(2)] g2 grown_loc_ok [OF g2 grown_loc_ok [OF g1 locs(1)]]
      by (simp add: grown_def)
    have lens: "length (buffer c1) \<le> 256" "length (buffer c2) \<le> 256"
      using grown_length [OF g2] grown_length [OF g3] len by auto
    have low: "closed d c1 n1 ?low"
      using generate_cmp32_normal(2) [OF ok cl ty' m alone 1(1)] lens by simp
    note cl1 = closed_extends [OF ok1(2) cl(1)] closed_extends [OF ok1(2) cl(2)]
    from high_words [OF ok1(1) low cl1 m alone 2 lens(2) len] show ?thesis
      using ty unfolding hi
      by (auto simp: bpf_jump_taken_def lo lt_split32 [of "expr_value d r"] le_split32 [of "expr_value d r"]
          cong: if_cong)
  qed
qed

lemma equality_exec:
  assumes ok: "ctxt_ok c" and cl: "closed d c t rt" "closed d c f rf"
    and m: "cg_masked sz l" "cg_masked sz r" and alone: "mask_alone l r"
    and clean: "wide_cmp l r \<longrightarrow> vars_clean d l \<and> vars_clean d r"
    and g: "generate_equality c l r t f = Some (c', n)" and len: "length (buffer c') \<le> 256"
  shows "closed d c' n (if expr_value d l = expr_value d r then rt else rf)"
  using g
proof (cases rule: generate_equality_steps)
  case (1 c1 n1 wl wr)
  have locs: "loc_ok c t" "loc_ok c f" using cl by (auto simp: closed_def)
  note g1 = generate_cmp32_grown [OF ok locs 1(1)]
  have ok1: "ctxt_ok c1" "extends c c1" using g1 by (auto simp: grown_def)
  have op: "cmp_op BPF_JEQ" by simp
  let ?low = "if bpf_jump_taken BPF_JEQ (wval d LOW_WORD l) (wval d LOW_WORD r) then rt else rf"
  note lo = lo_value [OF m(1), of d, symmetric] lo_value [OF m(2), of d, symmetric]
  show ?thesis
  proof (cases "wl \<or> wr")
    case False
    have eq: "c' = c1" "n = n1" using 1(4) False by auto
    have hi: "hi32 (expr_value d l) = 0" "hi32 (expr_value d r) = 0"
      using 1(2,3) False hi_value_narrow m by auto
    have "closed d c' n ?low"
      using generate_cmp32_normal(2) [OF ok cl op m alone 1(1)] len eq by simp
    then show ?thesis
      using hi by (simp add: bpf_jump_taken_def lo eq_split32 [of "expr_value d l"])
  next
    case True
    have "wide_cmp l r" using True 1(2,3) by (cases wl) (auto simp: wide_cmp_def)
    then have hi: "wval d HIGH_WORD l = hi32 (expr_value d l)" "wval d HIGH_WORD r = hi32 (expr_value d r)"
      using clean hi_value_wide m by auto
    note g2 = 1(5) [OF True]
    have "grown c1 c' n {n1, f}"
      using generate_cmp32_grown [OF ok1(1) _ _ g2] g1 grown_loc_ok [OF g1 locs(2)] by (simp add: grown_def)
    then have "length (buffer c1) \<le> 256" using grown_length len by fastforce
    then have low: "closed d c1 n1 ?low"
      using generate_cmp32_normal(2) [OF ok cl op m alone 1(1)] by simp
    from generate_cmp32_normal(2) [OF ok1(1) low closed_extends [OF ok1(2) cl(2)] op m alone g2 len]
    show ?thesis
      unfolding hi by (auto simp: bpf_jump_taken_def lo eq_split32 [of "expr_value d l"] cong: if_cong)
  qed
qed

text \<open>
  An expression's code ends at the true or the false destination as the expression holds.
\<close>

lemma generate_expr_exec:
  assumes "cg_expr sz e" "masks_alone e" "args_clean d e" and ok: "ctxt_ok c"
    and cl: "closed d c t rt" "closed d c f rf"
    and g: "generate_expr c e t f = Some (c', n)" and len: "length (buffer c') \<le> 256"
  shows "closed d c' n (if expr_holds d e then rt else rf)"
  using assms
proof (induction e arbitrary: c t f c' n rt rf)
  case (EXPR_BINARY bop l r)
  note ih = EXPR_BINARY.IH and pre = EXPR_BINARY.prems
  have locs: "loc_ok c t" "loc_ok c f" using pre(5,6) by (auto simp: closed_def)
  show ?case
  proof (cases "bop = EXPR_AND \<or> bop = EXPR_OR")
    case True
    define t' f' where "t' n1 = (if bop = EXPR_AND then n1 else t)"
      and "f' n1 = (if bop = EXPR_AND then f else n1)" for n1
    obtain c1 n1 where s: "generate_expr c r t f = Some (c1, n1)"
      "generate_expr c1 l (t' n1) (f' n1) = Some (c', n)"
      using pre(7) True by (auto simp: t'_def f'_def elim!: bind_SomeE)
    have g1: "grown c c1 n1 {t, f}" by (rule generate_expr_grown [OF pre(4) locs s(1)])
    have e1: "extends c c1" "ctxt_ok c1" using g1 by (auto simp: grown_def)
    have "loc_ok c1 (t' n1)" "loc_ok c1 (f' n1)"
      using g1 grown_loc_ok [OF g1] locs by (auto simp: t'_def f'_def grown_def)
    then have "grown c1 c' n {t' n1, f' n1}" by (rule generate_expr_grown [OF e1(2) _ _ s(2)])
    then have len1: "length (buffer c1) \<le> 256" using grown_length pre(8) by fastforce
    have sub: "cg_expr sz l" "cg_expr sz r" "masks_alone l" "masks_alone r" "args_clean d l" "args_clean d r"
      using pre(1-3) True by auto
    have r: "closed d c1 n1 (if expr_holds d r then rt else rf)"
      by (rule ih(2) [OF sub(2,4,6) pre(4-6) s(1) len1])
    note tf = closed_extends [OF e1(1) pre(5)] closed_extends [OF e1(1) pre(6)]
    show ?thesis
    proof (cases "bop = EXPR_AND")
      case True
      from ih(1) [OF sub(1,3,5) e1(2) r tf(2)] s(2) pre(8) show ?thesis
        using True by (auto simp: t'_def f'_def split: if_splits)
    next
      case False
      from ih(1) [OF sub(1,3,5) e1(2) tf(1) r] s(2) pre(8) show ?thesis
        using False \<open>bop = EXPR_AND \<or> bop = EXPR_OR\<close> by (auto simp: t'_def f'_def split: if_splits)
    qed
  next
    case False
    have m: "cg_masked sz l" "cg_masked sz r" "mask_alone l r" "bop \<noteq> EXPR_BIT_AND"
      and clean: "wide_cmp l r \<longrightarrow> vars_clean d l \<and> vars_clean d r"
      using pre(1-3) False by auto
    note gt = inequality_exec [OF pre(4-6) m(1-3) clean _ _ pre(8), of BPF_JGT]
      and ge = inequality_exec [OF pre(4-6) m(1-3) clean _ _ pre(8), of BPF_JGE]
      and le = inequality_exec [OF pre(4,6,5) m(1-3) clean _ _ pre(8), of BPF_JGT]
      and lt = inequality_exec [OF pre(4,6,5) m(1-3) clean _ _ pre(8), of BPF_JGE]
      and eq = equality_exec [OF pre(4-6) m(1-3) clean _ pre(8)]
      and neq = equality_exec [OF pre(4,6,5) m(1-3) clean _ pre(8)]
    show ?thesis
    proof (cases bop)
      case EXPR_GT
      then show ?thesis using gt pre(7) by simp
    next
      case EXPR_LT
      then show ?thesis using lt pre(7) by (auto simp: not_le split: if_splits)
    next
      case EXPR_GE
      then show ?thesis using ge pre(7) by simp
    next
      case EXPR_LE
      then show ?thesis using le pre(7) by (auto simp: not_less split: if_splits)
    next
      case EXPR_EQ
      then show ?thesis using eq pre(7) by simp
    next
      case EXPR_NEQ
      then show ?thesis using neq pre(7) by (auto split: if_splits)
    qed (use False m in auto)
  qed
qed simp_all

end

end
