(* ===== verification/Kafel_Normal.thy ===== *)
theory Kafel_Normal
  imports Kafel_Ranges
begin

text \<open>
  Normalisation keeps the decision of a policy: what single rules and tables of rules decide,
  and the stages of \<open>normalize_rules\<close> against that.
\<close>

section \<open>Decisions of rules and tables\<close>

text \<open>The mappings of a rule in order; \<open>fb\<close> is the decision when none applies.\<close>

fun mappings_decide :: "seccomp_data \<Rightarrow> int \<Rightarrow> (expr_tree option \<times> int) list \<Rightarrow> int" where
  "mappings_decide d fb [] = fb"
| "mappings_decide d fb ((e, act) # ms) =
     (if (case e of None \<Rightarrow> True | Some x \<Rightarrow> expr_holds d x) then act else mappings_decide d fb ms)"

definition rule_decide :: "seccomp_data \<Rightarrow> int \<Rightarrow> syscall_range_rule \<Rightarrow> int" where
  "rule_decide d fb rule =
     (if action rule \<noteq> ACTION_CONDITIONAL then action rule else mappings_decide d fb (expr_list rule))"

text \<open>The rule in force for a number: the last that starts at or below it.\<close>

definition rules_lookup :: "u32 \<Rightarrow> syscall_range_rule list \<Rightarrow> syscall_range_rule" where
  "rules_lookup n rules = last (hd rules # filter (\<lambda>r. first_nr r \<le> n) rules)"

text \<open>A table with gaps decides by the range a number falls into.\<close>

definition in_range :: "u32 \<Rightarrow> syscall_range_rule \<Rightarrow> bool" where
  "in_range n r \<longleftrightarrow> first_nr r \<le> n \<and> n \<le> last_nr r"

definition table_decide :: "seccomp_data \<Rightarrow> int \<Rightarrow> syscall_range_rule list \<Rightarrow> u32 \<Rightarrow> int" where
  "table_decide d fb rules n =
     (case find (in_range n) rules of None \<Rightarrow> fb | Some r \<Rightarrow> rule_decide d fb r)"

text \<open>The rules as collected: the first one for the number whose condition holds.\<close>

fun raws_decide :: "seccomp_data \<Rightarrow> int \<Rightarrow> u32 \<Rightarrow> syscall_range_rule list \<Rightarrow> int" where
  "raws_decide d fb n [] = fb"
| "raws_decide d fb n (r # rs) =
     (if first_nr r = n then rule_decide d (raws_decide d fb n rs) r else raws_decide d fb n rs)"

lemma mappings_decide_append:
  "mappings_decide d fb (xs @ ys) = mappings_decide d (mappings_decide d fb ys) xs"
  by (induction xs) auto

lemma raws_decide_append:
  "raws_decide d fb n (xs @ ys) = raws_decide d (raws_decide d fb n ys) n xs"
  by (induction xs) auto

section \<open>Collecting keeps the decision\<close>

fun filters_decide :: "seccomp_data \<Rightarrow> int \<Rightarrow> (int \<times> syscall_filter) list \<Rightarrow> int" where
  "filters_decide d fb [] = fb"
| "filters_decide d fb ((a, f) # fs) = (if filter_matches d f then a else filters_decide d fb fs)"

lemma policy_decision_filters: "policy_decision p fb d = filters_decide d fb (policy_rules p)"
proof -
  have "(case find (\<lambda>(a, f). filter_matches d f) fs of Some (a, f) \<Rightarrow> a | None \<Rightarrow> fb)
      = filters_decide d fb fs" for fs
    by (induction fs) auto
  then show ?thesis by (simp add: policy_decision_def)
qed

text \<open>An action block's filters, one by one.\<close>

definition add_rule :: "int \<times> syscall_filter \<Rightarrow> syscall_range_rule list \<Rightarrow> syscall_range_rule list" where
  "add_rule af = add_filter_rule (fst af) (snd af)"

lemma add_policy_rules_fold:
  "add_policy_rules rules p = fold add_rule (policy_rules p) rules"
  "add_entries_rules rules es = fold add_rule (entries_rules es) rules"
proof (induction rules p and rules es rule: add_policy_rules_add_entries_rules.induct)
  case (4 rules act filters entries)
  have "fold add_rule (map (Pair act) filters) rules = fold (add_filter_rule act) filters rules" for rules
    by (induction filters arbitrary: rules) (auto simp: add_rule_def)
  then show ?case using 4 by simp
qed simp_all

lemma add_rule_append: "\<exists>new. add_rule af rules = rules @ new \<and> length new \<le> 1"
  by (cases "filter_expr (snd af)") (auto simp: add_rule_def add_filter_rule_def add_range_rule_def Let_def)

lemma add_rule_decide:
  assumes "fst af \<noteq> ACTION_CONDITIONAL"
  shows "raws_decide d fb (nr d) (add_rule af rules) =
    raws_decide d (if filter_matches d (snd af) then fst af else fb) (nr d) rules"
  using assms
  by (cases "filter_expr (snd af)")
    (auto simp: add_rule_def add_filter_rule_def add_range_rule_def Let_def raws_decide_append
      rule_decide_def rule_add_expr_def filter_matches_def)

lemma collected_decide:
  assumes "\<forall>af \<in> set fs. fst af \<noteq> ACTION_CONDITIONAL"
  shows "raws_decide d fb (nr d) (fold add_rule fs rules) =
    raws_decide d (filters_decide d fb fs) (nr d) rules"
  using assms
proof (induction fs arbitrary: rules)
  case (Cons af fs)
  then show ?case by (cases af) (simp add: add_rule_decide)
qed simp

text \<open>The rules of a policy decide like the policy.\<close>

lemma policy_raws_decide:
  assumes "\<forall>af \<in> set (policy_rules p). fst af \<noteq> ACTION_CONDITIONAL"
  shows "raws_decide d fb (nr d) (add_policy_rules [] p) = policy_decision p fb d"
  using collected_decide [OF assms, of d fb "[]"]
  by (simp add: add_policy_rules_fold policy_decision_filters)

text \<open>Where a collected rule comes from.\<close>

definition raw_of :: "(int \<times> syscall_filter) list \<Rightarrow> syscall_range_rule \<Rightarrow> bool" where
  "raw_of fs r \<longleftrightarrow> last_nr r = first_nr r \<and> (\<exists>(a, f) \<in> set fs. first_nr r = syscall_nr f \<and>
     (action r = a \<and> expr_list r = [] \<or>
      action r = ACTION_CONDITIONAL \<and> (\<exists>e. filter_expr f = Some e \<and> e \<noteq> EXPR_TRUE \<and> e \<noteq> EXPR_FALSE \<and>
        expr_list r = [(Some e, a)])))"

lemma add_rule_raw:
  "r \<in> set (add_rule af rules) \<Longrightarrow> r \<in> set rules \<or> raw_of [af] r"
  by (cases af; cases "filter_expr (snd af)")
    (auto simp: add_rule_def add_filter_rule_def add_range_rule_def Let_def rule_add_expr_def raw_of_def
      split: if_splits)

lemma raw_of_mono: "raw_of fs r \<Longrightarrow> set fs \<subseteq> set gs \<Longrightarrow> raw_of gs r"
  unfolding raw_of_def by blast

lemma collected_raw:
  "r \<in> set (fold add_rule fs rules) \<Longrightarrow> r \<in> set rules \<or> raw_of fs r"
proof (induction fs arbitrary: rules)
  case (Cons af fs)
  then have "r \<in> set (add_rule af rules) \<or> raw_of fs r" by simp
  then show ?case
    using add_rule_raw [of r af rules] raw_of_mono [of "[af]" r "af # fs"] raw_of_mono [of fs r "af # fs"]
    by auto
qed simp

lemma policy_raws: "r \<in> set (add_policy_rules [] p) \<Longrightarrow> raw_of (policy_rules p) r"
  using collected_raw [of r "policy_rules p" "[]"] by (simp add: add_policy_rules_fold)

text \<open>Priorities number the rules.\<close>

definition numbered :: "syscall_range_rule list \<Rightarrow> bool" where
  "numbered rules \<longleftrightarrow> (\<forall>i < length rules. priority (rules ! i) = int i + 1)"

lemma numbered_add_rule: "numbered rules \<Longrightarrow> numbered (add_rule af rules)"
  by (cases "filter_expr (snd af)")
    (auto simp: numbered_def add_rule_def add_filter_rule_def add_range_rule_def Let_def nth_append
      less_Suc_eq)

lemma numbered_collected: "numbered rules \<Longrightarrow> numbered (fold add_rule fs rules)"
  by (induction fs arbitrary: rules) (simp_all add: numbered_add_rule)

lemma numbered_sorted: "numbered rules \<Longrightarrow> sorted_wrt (\<lambda>a b. priority a < priority b) rules"
  by (auto simp: numbered_def sorted_wrt_iff_nth_less)

section \<open>Sorting keeps the order of the rules for one number\<close>

abbreviation (input) same_nr :: "u32 \<Rightarrow> syscall_range_rule list \<Rightarrow> syscall_range_rule list" where
  "same_nr n \<equiv> filter (\<lambda>r. first_nr r = n)"

lemma insert_group:
  assumes "\<forall>y \<in> set ys. priority x < priority y"
  shows "same_nr n (insert_by by_syscall_and_priority x ys) = same_nr n (x # ys)"
  using assms
proof (induction ys)
  case (Cons y ys)
  have "first_nr x \<noteq> first_nr y" if "\<not> by_syscall_and_priority x y \<le> 0"
    using that Cons.prems by (auto simp: by_syscall_and_priority_def split: if_splits)
  then show ?case using Cons by auto
qed simp

lemma sort_group:
  assumes "sorted_wrt (\<lambda>a b. priority a < priority b) rules"
  shows "same_nr n (sort_range_rules rules) = same_nr n rules"
  using assms
proof (induction rules)
  case (Cons x xs)
  have "set (foldr (insert_by by_syscall_and_priority) xs []) = set xs"
    using set_qsort [of by_syscall_and_priority xs] by (simp add: qsort_def)
  then show ?case
    using Cons insert_group [of "foldr (insert_by by_syscall_and_priority) xs []" x n]
    by (simp add: sort_range_rules_def qsort_def)
qed (simp add: sort_range_rules_def qsort_def)

lemma insert_sorted:
  assumes "sorted_wrt (\<lambda>a b. first_nr a \<le> first_nr b) ys"
  shows "sorted_wrt (\<lambda>a b. first_nr a \<le> first_nr b) (insert_by by_syscall_and_priority x ys)"
  using assms
proof (induction ys)
  case (Cons y ys)
  have "set (insert_by by_syscall_and_priority x ys) = insert x (set ys)"
    using mset_insert_by [of by_syscall_and_priority x ys] by (metis set_mset_add_mset_insert set_mset_mset)
  moreover have "if by_syscall_and_priority x y \<le> 0 then first_nr x \<le> first_nr y else first_nr y \<le> first_nr x"
    by (auto simp: by_syscall_and_priority_def)
  ultimately show ?case
    using Cons by (auto split: if_splits)
qed simp

lemma sort_sorted: "sorted_wrt (\<lambda>a b. first_nr a \<le> first_nr b) (sort_range_rules rules)"
  by (induction rules) (auto simp: sort_range_rules_def qsort_def insert_sorted)

lemma sort_set: "set (sort_range_rules rules) = set rules"
  by (simp add: sort_range_rules_def)

text \<open>The decision only depends on the rules for the number, in their order.\<close>

lemma raws_decide_group: "raws_decide d fb n (same_nr n rules) = raws_decide d fb n rules"
  by (induction rules) auto

lemma sort_decide:
  "numbered rules \<Longrightarrow> raws_decide d fb n (sort_range_rules rules) = raws_decide d fb n rules"
  using raws_decide_group [of d fb n] sort_group [OF numbered_sorted] by metis

section \<open>Conditions that stand alone\<close>

text \<open>
  A rule with a condition is the only one for its number, unless an unconditional rule comes
  first. The decision is then that of the first rule for the number.
\<close>

definition conditions_alone :: "syscall_range_rule list \<Rightarrow> bool" where
  "conditions_alone rules \<longleftrightarrow> (\<forall>r \<in> set rules. let g = same_nr (first_nr r) rules in
     action (hd g) = ACTION_CONDITIONAL \<longrightarrow> length g = 1)"

definition first_decide :: "seccomp_data \<Rightarrow> int \<Rightarrow> syscall_range_rule list \<Rightarrow> u32 \<Rightarrow> int" where
  "first_decide d fb rules n = (case same_nr n rules of [] \<Rightarrow> fb | r # _ \<Rightarrow> rule_decide d fb r)"

lemma conditions_aloneD:
  assumes "conditions_alone rules" "same_nr n rules = r # rs" "action r = ACTION_CONDITIONAL"
  shows "rs = []"
proof -
  have "r \<in> set (same_nr n rules)" using assms(2) by simp
  then have "r \<in> set rules" "first_nr r = n" by auto
  then show ?thesis using assms unfolding conditions_alone_def Let_def by fastforce
qed

text \<open>
  Or all rules for its number have conditions, and there is a rule for a lower number. The code
  then drops all but the first.
\<close>

definition conditions_first :: "syscall_range_rule list \<Rightarrow> bool" where
  "conditions_first rules \<longleftrightarrow> (\<forall>r \<in> set rules. let g = same_nr (first_nr r) rules in
     action (hd g) = ACTION_CONDITIONAL \<longrightarrow>
       length g = 1 \<or> (\<forall>s \<in> set g. action s = ACTION_CONDITIONAL) \<and> (\<exists>s \<in> set rules. first_nr s < first_nr r))"

lemma conditions_alone_first: "conditions_alone rules \<Longrightarrow> conditions_first rules"
  unfolding conditions_alone_def conditions_first_def Let_def by blast

lemma conditions_first_sort: "conditions_first rules \<Longrightarrow> numbered rules \<Longrightarrow> conditions_first (sort_range_rules rules)"
  unfolding conditions_first_def by (simp add: sort_set sort_group numbered_sorted)

lemma first_decide_raws:
  assumes "conditions_alone rules"
  shows "first_decide d fb rules n = raws_decide d fb n rules"
proof (cases "same_nr n rules")
  case Nil
  then show ?thesis using raws_decide_group [of d fb n rules] by (simp add: first_decide_def)
next
  case (Cons r rs)
  then have "r \<in> set (same_nr n rules)" by simp
  then have "first_nr r = n" by simp
  then show ?thesis
    using Cons conditions_aloneD [OF assms Cons] raws_decide_group [of d fb n rules]
    by (auto simp: first_decide_def rule_decide_def)
qed

lemma conditions_alone_sort:
  assumes "conditions_alone rules" "numbered rules"
  shows "conditions_alone (sort_range_rules rules)"
  using assms by (simp add: conditions_alone_def sort_set sort_group numbered_sorted)

section \<open>Merging and filling\<close>

lemma succ_le_iff: "(a :: u32) < b \<Longrightarrow> a + 1 \<le> n \<longleftrightarrow> a < n"
  using unat_succ_word [of a b] by (simp add: word_le_nat_alt word_less_nat_alt Suc_le_eq)

lemma le_pred_iff: "(a :: u32) < b \<Longrightarrow> n \<le> b - 1 \<longleftrightarrow> n < b"
proof -
  assume "a < b"
  then have "b \<noteq> 0" "0 < unat b" by (auto simp: word_less_nat_alt)
  then have "unat (b - 1) = unat b - 1" by (simp add: unat_minus_one)
  with \<open>0 < unat b\<close> show ?thesis by (auto simp: word_le_nat_alt word_less_nat_alt)
qed

text \<open>Ranges in ascending order that do not overlap, only single numbers with a condition; and the number of gaps between them.\<close>

definition spaced :: "syscall_range_rule list \<Rightarrow> bool" where
  "spaced rules \<longleftrightarrow> sorted_wrt (\<lambda>a b. last_nr a < first_nr b) rules \<and>
     (\<forall>r \<in> set rules. first_nr r \<le> last_nr r \<and> (action r = ACTION_CONDITIONAL \<longrightarrow> last_nr r = first_nr r))"

fun gaps :: "syscall_range_rule list \<Rightarrow> nat" where
  "gaps (a # b # rs) = (if first_nr b = last_nr a + 1 then 0 else 1) + gaps (b # rs)"
| "gaps _ = 0"

lemma gaps_snoc:
  assumes "out \<noteq> []"
  shows "gaps (out @ [b]) = gaps out + (if first_nr b = last_nr (last out) + 1 then 0 else 1)"
proof -
  have "gaps (xs @ [a, b]) = gaps (xs @ [a]) + (if first_nr b = last_nr a + 1 then 0 else 1)" for xs a
    by (induction xs rule: gaps.induct) auto
  then show ?thesis using assms by (cases out rule: rev_cases) auto
qed

lemma gaps_last_nr: "gaps (xs @ [a\<lparr>last_nr := m\<rparr>]) = gaps (xs @ [a])"
  by (induction xs rule: gaps.induct) auto

lemma spaced_snoc:
  assumes "out \<noteq> []"
  shows "spaced (out @ [b]) \<longleftrightarrow> spaced out \<and> last_nr (last out) < first_nr b \<and> first_nr b \<le> last_nr b \<and>
    (action b = ACTION_CONDITIONAL \<longrightarrow> last_nr b = first_nr b)"
proof -
  obtain xs a where out: "out = xs @ [a]" using assms by (cases out rule: rev_cases) auto
  have "last_nr x < first_nr b" if "last_nr x < first_nr a" "first_nr a \<le> last_nr a" "last_nr a < first_nr b" for x
    using that by simp
  then show ?thesis unfolding spaced_def out by (auto simp: sorted_wrt_append)
qed

lemma spaced_last_nr:
  "spaced (xs @ [a]) \<Longrightarrow> last_nr a \<le> m \<Longrightarrow> action a \<noteq> ACTION_CONDITIONAL \<Longrightarrow> spaced (xs @ [a\<lparr>last_nr := m\<rparr>])"
  unfolding spaced_def by (auto simp: sorted_wrt_append)

lemma table_decide_snoc:
  assumes "spaced (xs @ [r])"
  shows "table_decide d fb (xs @ [r]) n =
    (if in_range n r then rule_decide d fb r else table_decide d fb xs n)"
proof -
  have "find (in_range n) xs = None" if "in_range n r"
    using assms that by (auto simp: find_None_iff in_range_def spaced_def sorted_wrt_append)
  moreover have "find (in_range n) (xs @ [r]) =
      (case find (in_range n) xs of None \<Rightarrow> if in_range n r then Some r else None | y \<Rightarrow> y)"
    by (induction xs) auto
  ultimately show ?thesis by (auto simp: table_decide_def split: option.splits)
qed

lemma rule_decide_simps [simp]:
  "rule_decide d fb (r\<lparr>last_nr := m\<rparr>) = rule_decide d fb r"
  "rule_decide d fb (r\<lparr>first_nr := m\<rparr>) = rule_decide d fb r"
  "fb \<noteq> ACTION_CONDITIONAL \<Longrightarrow> rule_decide d fb (filler_rule lo hi fb) = fb"
  by (auto simp: rule_decide_def filler_rule_def)

lemma rule_decide_normalize [simp]:
  assumes "action r \<noteq> ACTION_CONDITIONAL \<longrightarrow> expr_list r = []"
  shows "rule_decide d fb (normalize_expr_list r fb) = rule_decide d fb r"
  using assms
  by (auto simp: rule_decide_def normalize_expr_list_def rule_add_expr_def mappings_decide_append)

lemma normalize_fields [simp]:
  "first_nr (normalize_expr_list r fb) = first_nr r" "last_nr (normalize_expr_list r fb) = last_nr r"
  by (auto simp: normalize_expr_list_def rule_add_expr_def)

lemma filler_fields [simp]:
  "first_nr (filler_rule lo hi fb) = lo" "last_nr (filler_rule lo hi fb) = hi"
  "action (filler_rule lo hi fb) = fb" "expr_list (filler_rule lo hi fb) = []"
  by (auto simp: filler_rule_def)

lemma first_decide_snoc:
  "first_decide d fb (done @ [c]) n =
    (if first_nr c = n \<and> same_nr n done = [] then rule_decide d fb c else first_decide d fb done n)"
  by (auto simp: first_decide_def split: list.splits)

text \<open>Where the rules of a table come from: the collected ones, normalised, and fillers.\<close>

definition origin :: "int \<Rightarrow> syscall_range_rule list \<Rightarrow> syscall_range_rule \<Rightarrow> bool" where
  "origin fb done r \<longleftrightarrow>
     (if action r = ACTION_CONDITIONAL
      then \<exists>s \<in> set done. action s = ACTION_CONDITIONAL \<and> expr_list r = expr_list s @ [(None, fb)]
      else action r = fb \<or> (\<exists>s \<in> set done. action r = action s))"

definition raw_rule :: "syscall_range_rule \<Rightarrow> bool" where
  "raw_rule r \<longleftrightarrow> last_nr r = first_nr r \<and>
     (if action r = ACTION_CONDITIONAL then \<exists>e a. expr_list r = [(Some e, a)] else expr_list r = [])"

lemma origin_mono: "origin fb done r \<Longrightarrow> set done \<subseteq> set done' \<Longrightarrow> origin fb done' r"
  unfolding origin_def by (auto split: if_splits)

lemma origin_snoc: "origin fb done r \<Longrightarrow> origin fb (done @ [c]) r"
  by (erule origin_mono) auto

lemma origin_normalize:
  "raw_rule r \<Longrightarrow> r \<in> set done \<Longrightarrow> origin fb done (normalize_expr_list r fb)"
  unfolding origin_def raw_rule_def normalize_expr_list_def rule_add_expr_def
  by (auto split: if_splits)

lemma origin_simps [simp]:
  "origin fb done (r\<lparr>first_nr := m\<rparr>) = origin fb done r" "origin fb done (r\<lparr>last_nr := m\<rparr>) = origin fb done r"
  "fb \<noteq> ACTION_CONDITIONAL \<Longrightarrow> origin fb done (filler_rule lo hi fb)"
  by (auto simp: origin_def)

lemma normalize_first_nr:
  "normalize_expr_list (r\<lparr>first_nr := m\<rparr>) fb = (normalize_expr_list r fb)\<lparr>first_nr := m\<rparr>"
  by (simp add: normalize_expr_list_def rule_add_expr_def)

lemma normalize_last_nr:
  "normalize_expr_list (r\<lparr>last_nr := m\<rparr>) fb = (normalize_expr_list r fb)\<lparr>last_nr := m\<rparr>"
  by (simp add: normalize_expr_list_def rule_add_expr_def)

lemma normalize_unconditional:
  "raw_rule r \<Longrightarrow> action r \<noteq> ACTION_CONDITIONAL \<Longrightarrow> normalize_expr_list r fb = r"
  by (simp add: raw_rule_def normalize_expr_list_def)

lemma action_normalize [simp]:
  "raw_rule r \<Longrightarrow> action (normalize_expr_list r fb) = action r"
  by (auto simp: raw_rule_def normalize_expr_list_def rule_add_expr_def split: if_splits)

text \<open>
  The loop's invariant: \<open>out\<close> decides like the rules read so far, ends where they end, and has
  \<open>to_add\<close> gaps. The first rule is normalised after the loop, all others within.
\<close>

definition merge_inv ::
  "int \<Rightarrow> syscall_range_rule list \<Rightarrow> syscall_range_rule list \<Rightarrow> nat \<Rightarrow> bool" where
  "merge_inv fb done out to_add \<longleftrightarrow> out \<noteq> [] \<and> done \<noteq> [] \<and> spaced out \<and>
     last_nr (last out) = first_nr (last done) \<and>
     (\<forall>d n. table_decide d fb out n = first_decide d fb done n) \<and>
     (action (last out) = ACTION_CONDITIONAL \<longrightarrow>
        action (hd (same_nr (first_nr (last done)) done)) = ACTION_CONDITIONAL) \<and>
     gaps out = to_add \<and> first_nr (hd out) = first_nr (hd done) \<and>
     (action (hd out) \<noteq> ACTION_CONDITIONAL \<longrightarrow> expr_list (hd out) = []) \<and>
     origin fb done (normalize_expr_list (hd out) fb) \<and> (\<forall>r \<in> set (tl out). origin fb done r)"

lemma table_beyond:
  assumes "spaced out" "out \<noteq> []" "last_nr (last out) < n"
  shows "table_decide d fb out n = fb"
proof -
  obtain xs a where out: "out = xs @ [a]" using assms(2) by (cases out rule: rev_cases) auto
  have "last_nr r \<le> last_nr a" if "r \<in> set out" for r
  proof (cases "r = a")
    case False
    then have "last_nr r < first_nr a" "first_nr a \<le> last_nr a"
      using assms(1) that out by (auto simp: spaced_def sorted_wrt_append)
    then show ?thesis by simp
  qed simp
  then have "\<not> in_range n r" if "r \<in> set out" for r
    using that assms(3) out by (fastforce simp: in_range_def)
  then have "find (in_range n) out = None" by (auto simp: find_None_iff)
  then show ?thesis by (simp add: table_decide_def)
qed

lemma merge_append:
  assumes out: "out \<noteq> []" "spaced out" "last_nr (last out) < f" "f \<le> first_nr cur"
    and dn: "done \<noteq> []" "\<forall>r \<in> set done. first_nr r < first_nr cur"
    and dec: "\<forall>d n. table_decide d fb out n = first_decide d fb done n"
    and raw: "raw_rule cur" and early: "f < first_nr cur \<longrightarrow> action cur = fb" and fb: "fb \<noteq> ACTION_CONDITIONAL"
    and hd: "first_nr (hd out) = first_nr (hd done)" "action (hd out) \<noteq> ACTION_CONDITIONAL \<longrightarrow> expr_list (hd out) = []"
      "origin fb done (normalize_expr_list (hd out) fb)" "\<forall>r \<in> set (tl out). origin fb done r"
  shows "merge_inv fb (done @ [cur]) (out @ [normalize_expr_list (cur\<lparr>first_nr := f\<rparr>) fb])
    (gaps (out @ [normalize_expr_list (cur\<lparr>first_nr := f\<rparr>) fb]))"
proof -
  let ?c = "normalize_expr_list (cur\<lparr>first_nr := f\<rparr>) fb"
  have c: "first_nr ?c = f" "last_nr ?c = first_nr cur" using raw by (simp_all add: raw_rule_def)
  have rd: "rule_decide d fb ?c = rule_decide d fb cur" for d
    using raw by (simp add: raw_rule_def normalize_first_nr)
  have fresh: "same_nr (first_nr cur) done = []" using dn(2) by (auto simp: filter_empty_conv)
  have sp: "spaced (out @ [?c])"
    using out c early fb raw by (auto simp: spaced_snoc normalize_first_nr)
  have "table_decide d fb (out @ [?c]) n = first_decide d fb (done @ [cur]) n" for d n
  proof (cases "in_range n ?c")
    case True
    then have n: "f \<le> n" "n \<le> first_nr cur" using c by (auto simp: in_range_def)
    show ?thesis
    proof (cases "n = first_nr cur")
      case True
      then show ?thesis
        using fresh rd \<open>in_range n ?c\<close> by (simp add: table_decide_snoc [OF sp] first_decide_snoc)
    next
      case False
      then have "f < first_nr cur" using n by simp
      then have "rule_decide d fb cur = fb" using early fb by (simp add: rule_decide_def)
      moreover have "table_decide d fb out n = fb"
        using table_beyond [OF out(2,1)] out(3) n(1) by simp
      ultimately show ?thesis
        using dec False rd \<open>in_range n ?c\<close> by (simp add: table_decide_snoc [OF sp] first_decide_snoc)
    qed
  next
    case False
    then have "n \<noteq> first_nr cur" using c out(4) by (auto simp: in_range_def)
    then show ?thesis
      using False dec by (simp add: table_decide_snoc [OF sp] first_decide_snoc)
  qed
  moreover have "action ?c = ACTION_CONDITIONAL \<longrightarrow> action cur = ACTION_CONDITIONAL"
    using raw by (simp add: normalize_first_nr)
  moreover have "origin fb (done @ [cur]) ?c"
    using origin_normalize [OF raw, of "done @ [cur]"] by (simp add: normalize_first_nr)
  ultimately show ?thesis
    using out c sp fresh hd dn(1) origin_mono [of fb "done" _ "done @ [cur]"]
    unfolding merge_inv_def by auto
qed

lemma spaced_filler:
  assumes "spaced out" "out \<noteq> []" "last_nr (last out) < c" "c \<noteq> last_nr (last out) + 1"
    and fb: "fb \<noteq> ACTION_CONDITIONAL"
  shows "spaced (out @ [filler_rule (last_nr (last out) + 1) (c - 1) fb])"
    and "c - 1 < c" and "last_nr (last out) + 1 < c"
proof -
  let ?l = "last_nr (last out)"
  have "?l + 1 \<le> c" using succ_le_iff [OF assms(3)] assms(3) by simp
  then show lt: "?l + 1 < c" using assms(4) by simp
  have "?l < ?l + 1" using succ_le_iff [OF assms(3), of "?l + 1"] by simp
  moreover have "?l + 1 \<le> c - 1" using le_pred_iff [OF assms(3)] lt by simp
  ultimately show "spaced (out @ [filler_rule (?l + 1) (c - 1) fb])"
    using assms(1,2) fb by (simp add: spaced_snoc)
  show "c - 1 < c" using le_pred_iff [OF assms(3), of "c - 1"] by simp
qed

text \<open>A gap may be covered by any rule with the default action.\<close>

lemma filler_decide:
  assumes "spaced out" "out \<noteq> []" "last_nr (last out) < c" "c \<noteq> last_nr (last out) + 1"
    and "fb \<noteq> ACTION_CONDITIONAL"
  shows "table_decide d fb (out @ [filler_rule (last_nr (last out) + 1) (c - 1) fb]) n = table_decide d fb out n"
proof (cases "in_range n (filler_rule (last_nr (last out) + 1) (c - 1) fb)")
  case True
  then have "last_nr (last out) < n" using succ_le_iff [OF assms(3)] by (simp add: in_range_def)
  then show ?thesis
    using table_beyond [OF assms(1,2)] assms(5) by (simp add: table_decide_snoc [OF spaced_filler(1) [OF assms]])
next
  case False
  then show ?thesis by (simp add: table_decide_snoc [OF spaced_filler(1) [OF assms]])
qed

lemma stretch_decide:
  assumes sp: "spaced (xs @ [a])" and m: "last_nr a \<le> m" "action a \<noteq> ACTION_CONDITIONAL"
  shows "table_decide d fb (xs @ [a\<lparr>last_nr := m\<rparr>]) n =
    (if last_nr a < n \<and> n \<le> m then rule_decide d fb a else table_decide d fb (xs @ [a]) n)"
proof -
  have fl: "first_nr a \<le> last_nr a" using sp by (simp add: spaced_def)
  then have "in_range n (a\<lparr>last_nr := m\<rparr>) \<longleftrightarrow> in_range n a \<or> last_nr a < n \<and> n \<le> m"
    using m by (auto simp: in_range_def)
  then show ?thesis
    using table_decide_snoc [OF sp] table_decide_snoc [OF spaced_last_nr [OF sp m]]
    by (auto simp: in_range_def)
qed

text \<open>The five ways a turn of the loop can go.\<close>

lemma merge_same_number:
  assumes inv: "merge_inv fb done out add" and same: "first_nr cur = last_nr (last out)"
  shows "merge_inv fb (done @ [cur]) out add"
proof -
  have l: "first_nr (last done) = first_nr cur" "done \<noteq> []" using inv same by (auto simp: merge_inv_def)
  then have "last done \<in> set (same_nr (first_nr cur) done)" by simp
  then have ne: "same_nr (first_nr cur) done \<noteq> []" by force
  then have "first_decide d fb (done @ [cur]) n = first_decide d fb done n" for d n
    by (auto simp: first_decide_snoc)
  then show ?thesis
    using inv ne l by (auto simp: merge_inv_def intro: origin_snoc)
qed

lemma merge_same_drops:
  assumes inv: "merge_inv fb done out add" and fb: "fb \<noteq> ACTION_CONDITIONAL"
    and same: "first_nr cur = first_nr (last done)"
    and cond: "action (hd (same_nr (first_nr cur) done)) = ACTION_CONDITIONAL \<Longrightarrow>
      action cur = ACTION_CONDITIONAL \<and> first_nr (hd done) < first_nr cur"
  shows "merge_same_syscall (last out) cur = last out"
proof (cases "action (last out) = ACTION_CONDITIONAL")
  case True
  obtain xs a where out: "out = xs @ [a]" using inv by (cases out rule: rev_cases) (auto simp: merge_inv_def)
  from True inv same cond have c: "action cur = ACTION_CONDITIONAL" "first_nr (hd done) < first_nr cur"
    by (auto simp: merge_inv_def)
  have "first_nr a = first_nr cur" "first_nr (hd out) = first_nr (hd done)"
    using inv out True same by (auto simp: merge_inv_def spaced_def)
  then have "xs \<noteq> []" using c(2) out by auto
  then have "origin fb done a" using inv out by (cases xs) (auto simp: merge_inv_def)
  then show ?thesis using True c(1) out by (auto simp: merge_same_syscall_def origin_def)
qed (simp add: merge_same_syscall_def)

lemma merge_stretch:
  assumes inv: "merge_inv fb done out add" and fb: "fb \<noteq> ACTION_CONDITIONAL"
    and nxt: "last_nr (last out) < first_nr cur" "first_nr cur = last_nr (last out) + 1"
    and act: "action (last out) \<noteq> ACTION_CONDITIONAL" "action (last out) = action cur"
    and new: "\<forall>r \<in> set done. first_nr r < first_nr cur" and raw: "raw_rule cur"
  shows "merge_inv fb (done @ [cur]) (butlast out @ [(last out)\<lparr>last_nr := last_nr cur\<rparr>]) add"
proof -
  obtain xs a where out: "out = xs @ [a]" using inv by (cases out rule: rev_cases) (auto simp: merge_inv_def)
  have sp: "spaced (xs @ [a])" using inv out by (simp add: merge_inv_def)
  have m: "last_nr a \<le> first_nr cur" "action a \<noteq> ACTION_CONDITIONAL" "last_nr cur = first_nr cur"
    using nxt raw out act by (auto simp: raw_rule_def)
  have fresh: "same_nr (first_nr cur) done = []" using new by (auto simp: filter_empty_conv)
  have "last_nr a < n \<and> n \<le> first_nr cur \<longleftrightarrow> n = first_nr cur" for n
    using nxt succ_le_iff [OF nxt(1), of n] out by auto
  then have "table_decide d fb (xs @ [a\<lparr>last_nr := first_nr cur\<rparr>]) n = first_decide d fb (done @ [cur]) n" for d n
    using stretch_decide [OF sp m(1,2), of d fb n] inv act out fresh
    by (auto simp: merge_inv_def first_decide_snoc rule_decide_def)
  moreover have "hd (xs @ [a\<lparr>last_nr := l\<rparr>]) = (if xs = [] then a\<lparr>last_nr := l\<rparr> else hd xs)"
    "tl (xs @ [a\<lparr>last_nr := l\<rparr>]) = (if xs = [] then [] else tl xs @ [a\<lparr>last_nr := l\<rparr>])"
    "hd (xs @ [a]) = (if xs = [] then a else hd xs)" "tl (xs @ [a]) = (if xs = [] then [] else tl xs @ [a])" for l
    by (cases xs; simp)+
  ultimately show ?thesis
    using inv act out m spaced_last_nr [OF sp m(1,2)] unfolding merge_inv_def
    by (auto simp: gaps_last_nr normalize_last_nr intro: origin_snoc split: if_splits)
qed

lemma merge_new:
  assumes inv: "merge_inv fb done out add" and fb: "fb \<noteq> ACTION_CONDITIONAL" and raw: "raw_rule cur"
    and new: "\<forall>r \<in> set done. first_nr r < first_nr cur" and gt: "last_nr (last out) < first_nr cur"
  shows "merge_inv fb (done @ [cur]) (out @ [normalize_expr_list cur fb])
    (add + (if first_nr cur = last_nr (last out) + 1 then 0 else 1))"
proof -
  have "cur\<lparr>first_nr := first_nr cur\<rparr> = cur" by simp
  then show ?thesis
    using merge_append [of out "first_nr cur" cur "done" fb] inv fb raw new gt
    unfolding merge_inv_def [of fb "done"] by (simp add: gaps_snoc)
qed

lemma merge_early:
  assumes inv: "merge_inv fb done out add" and fb: "fb \<noteq> ACTION_CONDITIONAL" and raw: "raw_rule cur"
    and new: "\<forall>r \<in> set done. first_nr r < first_nr cur" and gt: "last_nr (last out) < first_nr cur"
    and act: "action cur = fb"
  shows "merge_inv fb (done @ [cur])
    (out @ [normalize_expr_list (cur\<lparr>first_nr := last_nr (last out) + 1\<rparr>) fb]) add"
proof -
  have "last_nr (last out) < last_nr (last out) + 1" "last_nr (last out) + 1 \<le> first_nr cur"
    using succ_le_iff [OF gt] gt by auto
  then show ?thesis
    using merge_append [of out "last_nr (last out) + 1" cur "done" fb] inv fb raw new act
    unfolding merge_inv_def [of fb "done"] by (simp add: gaps_snoc)
qed

lemma merge_fill:
  assumes inv: "merge_inv fb done out add" and fb: "fb \<noteq> ACTION_CONDITIONAL" and raw: "raw_rule cur"
    and new: "\<forall>r \<in> set done. first_nr r < first_nr cur" and gt: "last_nr (last out) < first_nr cur"
    and gap: "first_nr cur \<noteq> last_nr (last out) + 1"
  shows "merge_inv fb (done @ [cur])
    (out @ [filler_rule (last_nr (last out) + 1) (first_nr cur - 1) fb, normalize_expr_list cur fb]) add"
proof -
  let ?f = "filler_rule (last_nr (last out) + 1) (first_nr cur - 1) fb"
  have o: "spaced out" "out \<noteq> []" "gaps out = add" using inv by (auto simp: merge_inv_def)
  note f = spaced_filler(1) [OF o(1,2) gt gap fb] spaced_filler(2) [OF o(1,2) gt gap fb]
  have hd: "hd (out @ [?f]) = hd out" "set (tl (out @ [?f])) = insert ?f (set (tl out))"
    using o(2) by (cases out; auto)+
  have g: "gaps (out @ [?f, normalize_expr_list cur fb]) = add"
    using gaps_snoc [of "out @ [?f]" "normalize_expr_list cur fb"] gaps_snoc [OF o(2), of ?f] o(3) by simp
  have "cur\<lparr>first_nr := first_nr cur\<rparr> = cur" by simp
  with g show ?thesis
    using merge_append [of "out @ [?f]" "first_nr cur" cur "done" fb] inv fb raw new f(1,2)
      filler_decide [OF o(1,2) gt gap fb]
    unfolding merge_inv_def [of fb "done"] by (simp add: hd)
qed

text \<open>Stretching a rule with the default action over a gap.\<close>

lemma merge_stretch_gap:
  assumes inv: "merge_inv fb done out add" and fb: "fb \<noteq> ACTION_CONDITIONAL" and raw: "raw_rule cur"
    and new: "\<forall>r \<in> set done. first_nr r < first_nr cur" and gt: "last_nr (last out) < first_nr cur"
    and act: "action (last out) = fb"
  shows "merge_inv fb (done @ [cur])
    (butlast out @ [(last out)\<lparr>last_nr := first_nr cur - 1\<rparr>, normalize_expr_list cur fb]) add"
proof -
  obtain xs a where out: "out = xs @ [a]" using inv by (cases out rule: rev_cases) (auto simp: merge_inv_def)
  let ?a = "a\<lparr>last_nr := first_nr cur - 1\<rparr>"
  have sp: "spaced (xs @ [a])" "last_nr a < first_nr cur" using inv gt out by (simp_all add: merge_inv_def)
  have m: "last_nr a \<le> first_nr cur - 1" "first_nr cur - 1 < first_nr cur"
    using le_pred_iff [OF sp(2), of "last_nr a"] le_pred_iff [OF sp(2), of "first_nr cur - 1"] sp(2) by auto
  have na: "action a \<noteq> ACTION_CONDITIONAL" using act fb out by simp
  have dec: "table_decide d fb (xs @ [?a]) n = first_decide d fb done n" for d n
  proof (cases "last_nr a < n")
    case True
    have "table_decide d fb (xs @ [a]) n = fb" by (rule table_beyond [OF sp(1)]) (use True in auto)
    then show ?thesis
      using stretch_decide [OF sp(1) m(1) na, of d fb n] inv act out fb by (auto simp: merge_inv_def rule_decide_def)
  next
    case False
    then show ?thesis
      using stretch_decide [OF sp(1) m(1) na, of d fb n] inv out by (auto simp: merge_inv_def)
  qed
  have hd: "hd (xs @ [?a]) = (if xs = [] then ?a else hd xs)"
    "tl (xs @ [?a]) = (if xs = [] then [] else tl xs @ [?a])"
    "hd (xs @ [a]) = (if xs = [] then a else hd xs)" "tl (xs @ [a]) = (if xs = [] then [] else tl xs @ [a])"
    by (cases xs; simp)+
  have h: "first_nr (hd (xs @ [?a])) = first_nr (hd done)" "action (hd (xs @ [?a])) \<noteq> ACTION_CONDITIONAL \<longrightarrow> expr_list (hd (xs @ [?a])) = []"
    "origin fb done (normalize_expr_list (hd (xs @ [?a])) fb)" "\<forall>r \<in> set (tl (xs @ [?a])). origin fb done r"
    using inv out by (auto simp: merge_inv_def hd normalize_last_nr split: if_splits)
  have g: "gaps (xs @ [?a, normalize_expr_list cur fb]) = add"
    using gaps_snoc [of "xs @ [?a]" "normalize_expr_list cur fb"] inv out by (simp add: gaps_last_nr merge_inv_def)
  have "cur\<lparr>first_nr := first_nr cur\<rparr> = cur" "done \<noteq> []" using inv by (auto simp: merge_inv_def)
  with g show ?thesis
    using merge_append [of "xs @ [?a]" "first_nr cur" cur "done" fb] fb raw new dec h m
      spaced_last_nr [OF sp(1) m(1) na] out by simp
qed

lemma merge_step:
  assumes inv: "merge_inv fb done out add" and fb: "fb \<noteq> ACTION_CONDITIONAL" and raw: "raw_rule cur"
    and le: "\<forall>r \<in> set done. first_nr r \<le> first_nr (last done)" "first_nr (last done) \<le> first_nr cur"
    and alone: "first_nr cur = first_nr (last done) \<Longrightarrow>
      action (hd (same_nr (first_nr cur) done)) = ACTION_CONDITIONAL \<Longrightarrow>
      action cur = ACTION_CONDITIONAL \<and> first_nr (hd done) < first_nr cur"
  shows "\<exists>out' slack' add'. count_missing_step fb (out, slack, add) cur = Some (out', slack', add') \<and>
    merge_inv fb (done @ [cur]) out' add'"
proof -
  have l: "last_nr (last out) = first_nr (last done)" "out \<noteq> []" using inv by (auto simp: merge_inv_def)
  have one: "first_nr cur = last_nr cur" using raw by (simp add: raw_rule_def)
  show ?thesis
  proof (cases "first_nr cur = last_nr (last out)")
    case True
    then have "merge_same_syscall (last out) cur = last out"
      using merge_same_drops [OF inv fb] alone l by simp
    then show ?thesis
      using merge_same_number [OF inv True] True one l(2) by (simp add: count_missing_step_def)
  next
    case False
    then have gt: "last_nr (last out) < first_nr cur" using l le(2) by simp
    have new: "\<forall>r \<in> set done. first_nr r < first_nr cur" using le(1) gt l by auto
    show ?thesis
    proof (cases "first_nr cur = last_nr (last out) + 1")
      case True
      then show ?thesis
        using merge_stretch [OF inv fb gt True _ _ new raw] merge_new [OF inv fb raw new gt] False one
        by (auto simp: count_missing_step_def Let_def)
    next
      case gap: False
      then show ?thesis
        using merge_stretch_gap [OF inv fb raw new gt] merge_early [OF inv fb raw new gt]
          merge_fill [OF inv fb raw new gt gap] merge_new [OF inv fb raw new gt] False one
        by (auto simp: count_missing_step_def Let_def)
    qed
  qed
qed

end
