(* ===== verification/Kafel_Fill.thy ===== *)
theory Kafel_Fill
  imports Kafel_Normal
begin

text \<open>
  The end of normalisation: the loop as a whole, the outer ranges, the fillers of
  \<open>add_missing_rules\<close>, and the table that results.
\<close>

section \<open>The loop\<close>

lemma merge_loop:
  assumes "merge_inv fb done out add" and "fb \<noteq> ACTION_CONDITIONAL" and "\<forall>r \<in> set rest. raw_rule r"
    and "sorted_wrt (\<lambda>a b. first_nr a \<le> first_nr b) (done @ rest)" and "conditions_first (done @ rest)"
  shows "\<exists>out' slack' add'. count_missing_loop fb (out, slack, add) rest = Some (out', slack', add') \<and>
    merge_inv fb (done @ rest) out' add'"
  using assms
proof (induction rest arbitrary: "done" out slack add)
  case (Cons cur rest)
  have ne: "done \<noteq> []" using Cons.prems(1) by (simp add: merge_inv_def)
  then have le: "\<forall>r \<in> set done. first_nr r \<le> first_nr (last done)" "first_nr (last done) \<le> first_nr cur"
    using Cons.prems(4) by (cases "done" rule: rev_cases; auto simp: sorted_wrt_append)+
  have "hd done \<in> set done" "\<forall>r \<in> set (done @ cur # rest). first_nr (hd done) \<le> first_nr r"
    using ne Cons.prems(4) by (cases "done"; auto)+
  then have least: "first_nr (hd done) < first_nr cur" if "s \<in> set (done @ cur # rest)" "first_nr s < first_nr cur" for s
    using that by (metis le_less_trans)
  have alone: "action cur = ACTION_CONDITIONAL \<and> first_nr (hd done) < first_nr cur"
    if same: "first_nr cur = first_nr (last done)"
      and act: "action (hd (same_nr (first_nr cur) done)) = ACTION_CONDITIONAL"
  proof -
    have "last done \<in> set (same_nr (first_nr cur) done)" using same ne by simp
    then obtain g gs where g: "same_nr (first_nr cur) done = g # gs"
      by (cases "same_nr (first_nr cur) done") auto
    then have all: "same_nr (first_nr cur) (done @ cur # rest) = g # (gs @ cur # same_nr (first_nr cur) rest)" by simp
    have "cur \<in> set (done @ cur # rest)" by simp
    from Cons.prems(5) [unfolded conditions_first_def, rule_format, OF this] show ?thesis
      using act g least unfolding Let_def all by auto
  qed
  obtain out1 slack1 add1 where 1: "count_missing_step fb (out, slack, add) cur = Some (out1, slack1, add1)"
    "merge_inv fb (done @ [cur]) out1 add1"
    using merge_step [OF Cons.prems(1,2) _ le alone, of slack] Cons.prems(3) by auto
  then show ?case
    using Cons.IH [OF 1(2) Cons.prems(2)] Cons.prems(3-5) by auto
qed auto

lemma merge_start:
  assumes "raw_rule r"
  shows "merge_inv fb [r] [r] 0"
proof -
  have "table_decide d fb [r] n = first_decide d fb [r] n" for d n
    using assms by (auto simp: table_decide_def first_decide_def in_range_def raw_rule_def)
  then show ?thesis
    using assms origin_normalize [OF assms, of "[r]" fb]
    by (auto simp: merge_inv_def spaced_def raw_rule_def split: if_splits)
qed

section \<open>The outer ranges\<close>

definition table_inv :: "int \<Rightarrow> syscall_range_rule list \<Rightarrow> syscall_range_rule list \<Rightarrow> bool" where
  "table_inv fb done out \<longleftrightarrow> out \<noteq> [] \<and> spaced out \<and>
     (\<forall>d n. table_decide d fb out n = first_decide d fb done n) \<and> (\<forall>r \<in> set out. origin fb done r)"

lemma table_decide_Cons:
  "table_decide d fb (r # rs) n = (if in_range n r then rule_decide d fb r else table_decide d fb rs n)"
  by (simp add: table_decide_def)

lemma close_first_ok:
  assumes inv: "merge_inv fb done out add" and fb: "fb \<noteq> ACTION_CONDITIONAL"
    and c: "close_first fb out = (out1, n1)"
  shows "table_inv fb done out1" and "gaps out1 = add" and "n1 = (if first_nr (hd out1) = 0 then 0 else 1)"
proof -
  obtain a xs where out: "out = a # xs" using inv by (cases out) (auto simp: merge_inv_def)
  define a' where "a' = normalize_expr_list a fb"
  have a': "first_nr a' = first_nr a" "last_nr a' = last_nr a" "origin fb done a'"
    and rd: "rule_decide d fb a' = rule_decide d fb a" for d
    using inv out by (auto simp: a'_def merge_inv_def)
  have act: "action a' = ACTION_CONDITIONAL \<Longrightarrow> action a = ACTION_CONDITIONAL"
    using inv out by (auto simp: a'_def merge_inv_def normalize_expr_list_def rule_add_expr_def split: if_splits)
  have g: "gaps (b # xs) = gaps (a # xs)" if "last_nr b = last_nr a" for b
    using that by (cases xs) auto
  have sp: "spaced (b # xs)"
    if "last_nr b = last_nr a" "first_nr b \<le> first_nr a" "action b = ACTION_CONDITIONAL \<longrightarrow> b = a'" for b
    using inv out that a' act by (auto simp: merge_inv_def spaced_def)
  have beyond: "table_decide d fb (a # xs) n = fb" if "n < first_nr a" for d n
  proof -
    have "first_nr a \<le> first_nr r" if "r \<in> set (a # xs)" for r
      using that inv out by (fastforce simp: merge_inv_def spaced_def)
    then have "\<not> in_range n r" if "r \<in> set (a # xs)" for r
      using that \<open>n < first_nr a\<close> by (fastforce simp: in_range_def)
    then have "find (in_range n) (a # xs) = None" unfolding find_None_iff by blast
    then show ?thesis unfolding table_decide_def by simp
  qed
  have eq: "table_decide d fb (a # xs) n = first_decide d fb done n" for d n
    using inv out unfolding merge_inv_def by blast
  have dec: "table_decide d fb (a' # xs) n = first_decide d fb done n" for d n
    using eq [of d n] rd a' by (auto simp: table_decide_Cons in_range_def split: if_splits)
  have zero: "table_decide d fb (a'\<lparr>first_nr := 0\<rparr> # xs) n = first_decide d fb done n" if "action a' = fb" for d n
  proof (cases "n < first_nr a")
    case True
    have "first_decide d fb done n = fb" using beyond [OF True] eq by simp
    moreover have "n \<le> last_nr a" using True inv out by (auto simp: merge_inv_def spaced_def)
    ultimately show ?thesis
      using that fb a' by (simp add: table_decide_Cons in_range_def rule_decide_def)
  next
    case False
    then show ?thesis using dec [of d n] a' by (auto simp: table_decide_Cons in_range_def not_less)
  qed
  have o: "\<forall>r \<in> set xs. origin fb done r" using inv out by (simp add: merge_inv_def)
  have "out1 = a' # xs \<or> action a' = fb \<and> out1 = a'\<lparr>first_nr := 0\<rparr> # xs"
    using c out by (auto simp: close_first_def a'_def Let_def split: if_splits)
  then show "table_inv fb done out1"
    using a' dec zero o sp [of a'] sp [of "a'\<lparr>first_nr := 0\<rparr>"] fb by (auto simp: table_inv_def)
  show "gaps out1 = add" "n1 = (if first_nr (hd out1) = 0 then 0 else 1)"
    using c out inv g [of a'] g [of "a'\<lparr>first_nr := 0\<rparr>"] a'
    by (auto simp: close_first_def a'_def Let_def merge_inv_def split: if_splits)
qed

lemma close_last_ok:
  assumes inv: "table_inv fb done out" and fb: "fb \<noteq> ACTION_CONDITIONAL"
    and c: "close_last fb out = (out2, n2)"
  shows "table_inv fb done out2" and "gaps out2 = gaps out" and "first_nr (hd out2) = first_nr (hd out)"
    and "n2 = (if last_nr (last out2) = MAX_SYSCALL_NR then 0 else 1)"
    and "last_nr (last out2) \<noteq> MAX_SYSCALL_NR \<Longrightarrow> action (last out2) \<noteq> fb"
proof -
  obtain xs a where out: "out = xs @ [a]" using inv by (cases out rule: rev_cases) (auto simp: table_inv_def)
  have last: "last out = a" "butlast out = xs" using out by auto
  have cases: "out2 = out \<and> n2 = (if last_nr a = MAX_SYSCALL_NR then 0 else 1) \<and>
      (last_nr a \<noteq> MAX_SYSCALL_NR \<longrightarrow> action a \<noteq> fb) \<or>
      action a = fb \<and> out2 = xs @ [a\<lparr>last_nr := MAX_SYSCALL_NR\<rparr>] \<and> n2 = 0"
    using c unfolding close_last_def Let_def last by (simp split: if_splits)
  note max = le_max32
  have sp: "spaced (xs @ [a])" using inv out by (simp add: table_inv_def)
  have "table_inv fb done (xs @ [a\<lparr>last_nr := MAX_SYSCALL_NR\<rparr>])" if act: "action a = fb"
  proof -
    have na: "action a \<noteq> ACTION_CONDITIONAL" using act fb by simp
    have "table_decide d fb (xs @ [a\<lparr>last_nr := MAX_SYSCALL_NR\<rparr>]) n = table_decide d fb (xs @ [a]) n" for d n
    proof (cases "last_nr a < n")
      case True
      have "table_decide d fb (xs @ [a]) n = fb" by (rule table_beyond [OF sp]) (use True in auto)
      then show ?thesis
        using stretch_decide [OF sp max na, of d fb n] act fb by (auto simp: rule_decide_def)
    next
      case False
      then show ?thesis using stretch_decide [OF sp max na, of d fb n] by auto
    qed
    then show ?thesis
      using inv out spaced_last_nr [OF sp max na] by (simp add: table_inv_def)
  qed
  then show "table_inv fb done out2" using cases inv by (elim disjE) simp_all
  show "gaps out2 = gaps out" using cases by (elim disjE) (simp_all add: gaps_last_nr out)
  show "first_nr (hd out2) = first_nr (hd out)" using cases by (elim disjE; cases xs) (simp_all add: out)
  show "n2 = (if last_nr (last out2) = MAX_SYSCALL_NR then 0 else 1)"
    using cases by (elim disjE) (simp_all add: last)
  show "action (last out2) \<noteq> fb" if "last_nr (last out2) \<noteq> MAX_SYSCALL_NR"
    using cases that by (elim disjE) (simp_all add: last)
qed

lemma count_missing_ok:
  assumes raws: "\<forall>r \<in> set rules. raw_rule r" and ne: "rules \<noteq> []" and fb: "fb \<noteq> ACTION_CONDITIONAL"
    and sorted: "sorted_wrt (\<lambda>a b. first_nr a \<le> first_nr b) rules" and alone: "conditions_first rules"
  shows "\<exists>out. normalize_rules_count_missing rules fb = Some (out,
      gaps out + (if first_nr (hd out) = 0 then 0 else 1) + (if last_nr (last out) = MAX_SYSCALL_NR then 0 else 1)) \<and>
    table_inv fb rules out \<and> (last_nr (last out) \<noteq> MAX_SYSCALL_NR \<longrightarrow> action (last out) \<noteq> fb)"
proof -
  obtain r rest where rules: "rules = r # rest" using ne by (cases rules) auto
  obtain out slack add where l: "count_missing_loop fb ([r], 0, 0) rest = Some (out, slack, add)"
    "merge_inv fb rules out add"
    using merge_loop [OF merge_start fb, of r rest 0] raws sorted alone rules by auto
  obtain out1 n1 where c1: "close_first fb out = (out1, n1)" by fastforce
  obtain out2 n2 where c2: "close_last fb out1 = (out2, n2)" by fastforce
  note f = close_first_ok [OF l(2) fb c1]
  note g = close_last_ok [OF f(1) fb c2]
  show ?thesis
    using l(1) c1 c2 f g rules by (intro exI [of _ out2]) (simp add: normalize_rules_count_missing_def)
qed

section \<open>Fillers\<close>

text \<open>
  What the code generator reads of a rule. The end of a range is not part of it: it may be
  wrong in a filler and no decision depends on it.
\<close>

definition read_rule :: "syscall_range_rule \<Rightarrow> u32 \<times> int \<times> (expr_tree option \<times> int) list" where
  "read_rule r = (first_nr r, action r, expr_list r)"

fun fill :: "int \<Rightarrow> syscall_range_rule list \<Rightarrow> syscall_range_rule list" where
  "fill fb (a # b # rs) = a #
     (if first_nr b = last_nr a + 1 then [] else [filler_rule (last_nr a + 1) (first_nr b - 1) fb]) @
     fill fb (b # rs)"
| "fill fb rs = rs"

lemma fill_snoc:
  "fill fb (xs @ [a, b]) = fill fb (xs @ [a]) @
     (if first_nr b = last_nr a + 1 then [] else [filler_rule (last_nr a + 1) (first_nr b - 1) fb]) @ [b]"
  by (induction fb xs rule: fill.induct) auto

lemma fill_ends: "rs \<noteq> [] \<Longrightarrow> fill fb rs \<noteq> [] \<and> hd (fill fb rs) = hd rs \<and> last (fill fb rs) = last rs"
  by (induction fb rs rule: fill.induct) auto

lemma fill_hd: "fill fb (a # rs) = a # tl (fill fb (a # rs))"
  by (cases rs) auto

lemma fill_origin: "\<forall>r \<in> set rs. origin fb done r \<Longrightarrow> fb \<noteq> ACTION_CONDITIONAL \<Longrightarrow> \<forall>r \<in> set (fill fb rs). origin fb done r"
  by (induction fb rs rule: fill.induct) auto

lemma add_missing_loop_ok:
  assumes "gaps (ys @ [p]) \<le> n"
  shows "\<exists>acc'. add_missing_loop fb n (Some p) (rev ys) acc = Some (n - gaps (ys @ [p]), acc') \<and>
    map read_rule acc' = map read_rule (butlast (fill fb (ys @ [p])) @ acc)"
  using assms
proof (induction ys arbitrary: p n acc rule: rev_induct)
  case (snoc c zs)
  have g: "gaps (zs @ [c, p]) = gaps (zs @ [c]) + (if first_nr p = last_nr c + 1 then 0 else 1)"
    using gaps_snoc [of "zs @ [c]" p] by simp
  have b: "butlast (fill fb (zs @ [c, p])) = butlast (fill fb (zs @ [c])) @ c #
      (if first_nr p = last_nr c + 1 then [] else [filler_rule (last_nr c + 1) (first_nr p - 1) fb])"
    using fill_ends [of "zs @ [c]" fb] append_butlast_last_id [of "fill fb (zs @ [c])"]
    by (simp add: fill_snoc butlast_append)
  show ?case
  proof (cases "first_nr p = last_nr c + 1")
    case True
    then show ?thesis using snoc.IH [of c n "c # acc"] snoc.prems g b by simp
  next
    case False
    let ?f = "filler_rule (last_nr c + 1) (if n = 1 then last_nr c else first_nr p - 1) fb"
    have "gaps (zs @ [c]) \<le> n - 1" "n \<noteq> 0" using False snoc.prems g by auto
    then show ?thesis
      using snoc.IH [of c "n - 1" "c # ?f # acc"] False g b by (auto simp: read_rule_def Let_def)
  qed
qed simp

definition head_filler :: "int \<Rightarrow> syscall_range_rule list \<Rightarrow> syscall_range_rule list" where
  "head_filler fb rules = (if first_nr (hd rules) = 0 then [] else [filler_rule 0 (first_nr (hd rules) - 1) fb])"

definition tail_filler :: "int \<Rightarrow> syscall_range_rule list \<Rightarrow> syscall_range_rule list" where
  "tail_filler fb rules = (if last_nr (last rules) = MAX_SYSCALL_NR then []
     else [filler_rule (last_nr (last rules) + 1) MAX_SYSCALL_NR fb])"

lemma add_missing_ok:
  assumes ne: "rules \<noteq> []" and last: "last_nr (last rules) \<noteq> MAX_SYSCALL_NR \<longrightarrow> action (last rules) \<noteq> fb"
    and n: "n = gaps rules + (if first_nr (hd rules) = 0 then 0 else 1) +
      (if last_nr (last rules) = MAX_SYSCALL_NR then 0 else 1)"
  shows "\<exists>out. add_missing_rules rules n fb = Some out \<and>
    map read_rule out = map read_rule (head_filler fb rules @ fill fb rules @ tail_filler fb rules)"
proof -
  obtain ys p where rules: "rules = ys @ [p]" using ne by (cases rules rule: rev_cases) auto
  define h where "h = (if first_nr (hd rules) = 0 then 0 else 1 :: nat)"
  have start: "(if last_nr (last rules) \<noteq> MAX_SYSCALL_NR then
      if action (last rules) = fb \<or> n = 0 then None
      else Some (n - 1, [filler_rule (last_nr (last rules) + 1) MAX_SYSCALL_NR fb])
      else Some (n, [])) = Some (gaps rules + h, tail_filler fb rules)"
    using last n by (auto simp: tail_filler_def h_def)
  obtain out where loop: "add_missing_loop fb (gaps rules + h) (Some p) (rev ys) (p # tail_filler fb rules)
      = Some (h, out)"
    and out: "map read_rule out = map read_rule (butlast (fill fb rules) @ p # tail_filler fb rules)"
    using add_missing_loop_ok [of ys p "gaps rules + h" fb "p # tail_filler fb rules"] rules by auto
  have "butlast (fill fb rules) @ [p] = fill fb rules"
    using fill_ends [of rules fb] append_butlast_last_id [of "fill fb rules"] rules by simp
  then have out': "map read_rule out = map read_rule (fill fb rules @ tail_filler fb rules)"
    using out by (metis append.assoc append_Cons append_Nil)
  have "fill fb rules \<noteq> []" "hd (fill fb rules) = hd rules" using fill_ends [OF ne] by auto
  then have hd: "out \<noteq> []" "first_nr (hd out) = first_nr (hd rules)"
    using out' by (cases out; cases "fill fb rules"; auto simp: read_rule_def)+
  have "add_missing_loop fb (gaps rules + h) None (rev rules) (tail_filler fb rules) = Some (h, out)"
    using loop rules by simp
  then have a: "add_missing_rules rules n fb = (if h = 1 then
      if 0 < first_nr (hd out) then Some (filler_rule 0 (first_nr (hd out) - 1) fb # out) else None
      else if h = 0 then Some out else None)"
    unfolding add_missing_rules_def start by simp
  show ?thesis
  proof (cases "first_nr (hd rules) = 0")
    case True
    then show ?thesis using a out' by (simp add: h_def head_filler_def)
  next
    case False
    then show ?thesis using a out' hd by (simp add: h_def head_filler_def word_neq_0_conv)
  qed
qed

section \<open>Looking a number up in the filled table\<close>

lemma lookup_append:
  assumes "xs \<noteq> []"
  shows "rules_lookup n (xs @ ys) =
    (if filter (\<lambda>r. first_nr r \<le> n) ys = [] then rules_lookup n xs else last (filter (\<lambda>r. first_nr r \<le> n) ys))"
  using assms by (simp add: rules_lookup_def)

lemma lookup_later:
  assumes "ys \<noteq> []" "first_nr (hd ys) \<le> n"
  shows "rules_lookup n (xs @ ys) = rules_lookup n ys"
proof -
  have "filter (\<lambda>r. first_nr r \<le> n) ys \<noteq> []" using assms by (cases ys) auto
  then show ?thesis by (simp add: rules_lookup_def)
qed

lemma read_lookup:
  assumes "map read_rule xs = map read_rule ys" "xs \<noteq> []"
  shows "read_rule (rules_lookup n xs) = read_rule (rules_lookup n ys)"
proof -
  have l: "read_rule (rules_lookup n zs) = last (hd (map read_rule zs) # filter (\<lambda>t. fst t \<le> n) (map read_rule zs))"
    if "zs \<noteq> []" for zs
  proof -
    have f: "filter (\<lambda>t. fst t \<le> n) (map read_rule zs) = map read_rule (filter (\<lambda>r. first_nr r \<le> n) zs)"
      by (induction zs) (auto simp: read_rule_def)
    show ?thesis
      using that by (simp add: rules_lookup_def f hd_map last_map)
  qed
  have "ys \<noteq> []" using assms by auto
  then show ?thesis using l [of xs] l [of ys] assms by simp
qed

lemma read_decide: "read_rule a = read_rule b \<Longrightarrow> rule_decide d fb a = rule_decide d fb b"
  by (simp add: read_rule_def rule_decide_def)

lemma spaced_sorted: "spaced (a # rs) \<Longrightarrow> r \<in> set rs \<Longrightarrow> last_nr a < first_nr r"
  by (simp add: spaced_def)

lemma spaced_firsts: "spaced (a # rs) \<Longrightarrow> r \<in> set (fill fb (a # rs)) \<Longrightarrow> r = a \<or> last_nr a < first_nr r"
proof (induction fb "a # rs" arbitrary: a rs rule: fill.induct)
  case (1 fb a b rs)
  have ab: "last_nr a < first_nr b" "first_nr b \<le> last_nr b" "spaced (b # rs)"
    using 1(2) by (auto simp: spaced_def)
  have "last_nr a < last_nr a + 1" using succ_le_iff [OF ab(1), of "last_nr a + 1"] by simp
  then show ?case using 1 ab by (auto split: if_splits)
qed auto

lemma fill_sorted:
  assumes "spaced rs"
  shows "sorted_wrt (<) (map first_nr (fill fb rs))"
  using assms
proof (induction fb rs rule: fill.induct)
  case (1 fb a b rs)
  have ab: "first_nr a \<le> last_nr a" "last_nr a < first_nr b" "first_nr b \<le> last_nr b" "spaced (b # rs)"
    using 1(2) by (auto simp: spaced_def)
  have step: "first_nr a < last_nr a + 1" using succ_le_iff [OF ab(2), of "last_nr a + 1"] ab(1) by simp
  have rest: "first_nr b \<le> first_nr r" if "r \<in> set (fill fb (b # rs))" for r
    using spaced_firsts [OF ab(4) that] ab(3) by auto
  have "last_nr a + 1 < first_nr b" if "first_nr b \<noteq> last_nr a + 1"
    using succ_le_iff [OF ab(2), of "first_nr b"] ab(2) that by simp
  then show ?case
    using 1(1) [OF ab(4)] step rest ab by (fastforce simp: less_le_trans)
qed auto

lemma lookup_fill:
  assumes "rs \<noteq> []" "spaced rs" "first_nr (hd rs) \<le> n" "n \<le> last_nr (last rs)" "fb \<noteq> ACTION_CONDITIONAL"
  shows "rule_decide d fb (rules_lookup n (fill fb rs)) = table_decide d fb rs n"
  using assms
proof (induction fb rs rule: fill.induct)
  case (1 fb a b rs)
  have ab: "last_nr a < first_nr b" "spaced (b # rs)" using 1(3) by (auto simp: spaced_def)
  define gap where "gap = (if first_nr b = last_nr a + 1 then [] else [filler_rule (last_nr a + 1) (first_nr b - 1) fb])"
  have fb: "fill fb (a # b # rs) = a # gap @ fill fb (b # rs)" by (simp add: gap_def)
  have hdb: "hd (fill fb (b # rs)) = b" "fill fb (b # rs) \<noteq> []" using fill_ends [of "b # rs" fb] by auto
  show ?case
  proof (cases "first_nr b \<le> n")
    case True
    have "rules_lookup n (fill fb (a # b # rs)) = rules_lookup n (fill fb (b # rs))"
      unfolding fb using lookup_later [of "fill fb (b # rs)" n "a # gap"] hdb True by simp
    moreover have "\<not> in_range n a" using True ab(1) by (auto simp: in_range_def)
    ultimately show ?thesis
      using 1(1) ab(2) True 1(5,6) by (simp add: table_decide_Cons)
  next
    case False
    have later: "\<not> first_nr r \<le> n" if "r \<in> set (fill fb (b # rs))" for r
    proof -
      have "first_nr b \<le> first_nr r"
        using spaced_firsts [OF ab(2) that] ab(2) by (auto simp: spaced_def)
      then show ?thesis using False by auto
    qed
    then have none: "filter (\<lambda>r. first_nr r \<le> n) (fill fb (b # rs)) = []" by (simp add: filter_empty_conv)
    have "find (in_range n) (b # rs) = None"
      using ab(2) False by (fastforce simp: find_None_iff in_range_def spaced_def)
    then have t: "table_decide d fb (b # rs) n = fb" by (simp add: table_decide_def)
    show ?thesis
    proof (cases "n \<le> last_nr a")
      case True
      have "filter (\<lambda>r. first_nr r \<le> n) gap = []"
        using succ_le_iff [OF ab(1), of n] True by (auto simp: gap_def)
      then have "rules_lookup n (fill fb (a # b # rs)) = a"
        unfolding fb using none by (simp add: rules_lookup_def)
      then show ?thesis using 1(4) True by (simp add: table_decide_Cons in_range_def)
    next
      case out: False
      then have "last_nr a + 1 \<le> n" using succ_le_iff [OF ab(1), of n] by simp
      moreover have "first_nr b \<noteq> last_nr a + 1" using calculation False by auto
      ultimately have "rules_lookup n (fill fb (a # b # rs)) = filler_rule (last_nr a + 1) (first_nr b - 1) fb"
        unfolding fb using none by (simp add: rules_lookup_def gap_def)
      then show ?thesis
        using t out 1(6) by (simp add: table_decide_Cons in_range_def)
    qed
  qed
qed (auto simp: rules_lookup_def table_decide_def in_range_def)

section \<open>The normalised table\<close>

text \<open>
  The contract of \<open>normalize_rules\<close>: the rules start at 0 in strictly ascending order, and the
  rule in force for a number decides like the collected rules. A table of one rule has no
  condition.
\<close>

definition normal_table :: "int \<Rightarrow> syscall_range_rule list \<Rightarrow> syscall_range_rule list \<Rightarrow> bool" where
  "normal_table fb raws rules \<longleftrightarrow> rules \<noteq> [] \<and> sorted_wrt (<) (map first_nr rules) \<and>
     first_nr (hd rules) = 0 \<and>
     (\<forall>d n. rule_decide d fb (rules_lookup n rules) = raws_decide d fb n raws) \<and>
     (\<forall>r \<in> set rules. origin fb raws r) \<and>
     (length rules = 1 \<longrightarrow> action (hd rules) \<noteq> ACTION_CONDITIONAL)"

text \<open>The same, but decided by the first rule for the number whether it applies or not.\<close>

definition first_table :: "int \<Rightarrow> syscall_range_rule list \<Rightarrow> syscall_range_rule list \<Rightarrow> bool" where
  "first_table fb raws rules \<longleftrightarrow> rules \<noteq> [] \<and> sorted_wrt (<) (map first_nr rules) \<and>
     first_nr (hd rules) = 0 \<and>
     (\<forall>d n. rule_decide d fb (rules_lookup n rules) = first_decide d fb raws n) \<and>
     (\<forall>r \<in> set rules. origin fb raws r) \<and>
     (length rules = 1 \<longrightarrow> action (hd rules) \<noteq> ACTION_CONDITIONAL)"

lemma filled_decide:
  assumes inv: "table_inv fb raws rules" and fb: "fb \<noteq> ACTION_CONDITIONAL"
  shows "rule_decide d fb (rules_lookup n (head_filler fb rules @ fill fb rules @ tail_filler fb rules)) =
    first_decide d fb raws n"
proof -
  have ne: "rules \<noteq> []" and sp: "spaced rules" and dec: "table_decide d fb rules n = first_decide d fb raws n"
    using inv by (auto simp: table_inv_def)
  note ends = fill_ends [OF ne, of fb]
  let ?mid = "fill fb rules @ tail_filler fb rules"
  consider (low) "n < first_nr (hd rules)" | (high) "last_nr (last rules) < n"
    | (mid) "first_nr (hd rules) \<le> n" "n \<le> last_nr (last rules)" by fastforce
  then show ?thesis
  proof cases
    case low
    have first: "first_nr (hd rules) \<le> first_nr r" if "r \<in> set rules" for r
      using that sp ne by (cases rules) (fastforce simp: spaced_def)+
    then have "find (in_range n) rules = None" using low by (fastforce simp: find_None_iff in_range_def)
    then have "first_decide d fb raws n = fb" using dec by (simp add: table_decide_def)
    moreover have "filter (\<lambda>r. first_nr r \<le> n) ?mid = []"
    proof -
      have "first_nr (hd rules) \<le> first_nr r" if "r \<in> set (fill fb rules)" for r
        using that sp ne spaced_firsts [of "hd rules" "tl rules" r fb]
        by (cases rules) (auto simp: spaced_def)
      moreover have "first_nr (hd rules) \<le> first_nr r" if r: "r \<in> set (tail_filler fb rules)" for r
      proof -
        have "last_nr (last rules) < MAX_SYSCALL_NR" using r by (auto simp: tail_filler_def order_less_le split: if_splits)
        from succ_le_iff [OF this, of "last_nr (last rules) + 1"]
        have "last_nr (last rules) < last_nr (last rules) + 1" by simp
        moreover have "first_nr (hd rules) \<le> first_nr (last rules)" "first_nr (last rules) \<le> last_nr (last rules)"
          using first ne sp by (auto simp: spaced_def)
        ultimately show ?thesis using r by (auto simp: tail_filler_def split: if_splits)
      qed
      ultimately show ?thesis using low by (fastforce simp: filter_empty_conv)
    qed
    moreover have "head_filler fb rules = [filler_rule 0 (first_nr (hd rules) - 1) fb]"
      using low by (auto simp: head_filler_def)
    ultimately show ?thesis using fb by (simp add: rules_lookup_def)
  next
    case high
    have "first_decide d fb raws n = fb" using dec table_beyond [OF sp ne high] by simp
    moreover have "last_nr (last rules) \<noteq> MAX_SYSCALL_NR" using high by (metis le_max32 not_less)
    then have t: "tail_filler fb rules = [filler_rule (last_nr (last rules) + 1) MAX_SYSCALL_NR fb]"
      by (simp add: tail_filler_def)
    have "last_nr (last rules) + 1 \<le> n" using succ_le_iff [OF high] high by simp
    then have "rules_lookup n ((head_filler fb rules @ fill fb rules) @ tail_filler fb rules) =
        rules_lookup n (tail_filler fb rules)"
      using lookup_later [of "tail_filler fb rules" n "head_filler fb rules @ fill fb rules"] t by simp
    ultimately show ?thesis using fb t by (simp add: rules_lookup_def)
  next
    case mid
    have "rules_lookup n (head_filler fb rules @ ?mid) = rules_lookup n ?mid"
      using lookup_later [of ?mid n "head_filler fb rules"] ends mid(1) by simp
    moreover have "filter (\<lambda>r. first_nr r \<le> n) (tail_filler fb rules) = []"
    proof (cases "last_nr (last rules) = MAX_SYSCALL_NR")
      case False
      then have "last_nr (last rules) < MAX_SYSCALL_NR" by (simp add: order_less_le)
      from succ_le_iff [OF this, of n] mid(2) show ?thesis by (auto simp: tail_filler_def)
    qed (simp add: tail_filler_def)
    then have "rules_lookup n ?mid = rules_lookup n (fill fb rules)"
      using lookup_append [of "fill fb rules" n "tail_filler fb rules"] ends by simp
    ultimately show ?thesis using lookup_fill [OF ne sp mid fb] dec by simp
  qed
qed

lemma filled_sorted:
  assumes inv: "table_inv fb raws rules"
  shows "sorted_wrt (<) (map first_nr (head_filler fb rules @ fill fb rules @ tail_filler fb rules))"
proof -
  have ne: "rules \<noteq> []" and sp: "spaced rules" using inv by (auto simp: table_inv_def)
  have first: "first_nr (hd rules) \<le> first_nr r" if "r \<in> set (fill fb rules)" for r
    using that sp ne spaced_firsts [of "hd rules" "tl rules" r fb] by (cases rules) (auto simp: spaced_def)
  have lst: "first_nr r \<le> first_nr (last rules)" if "r \<in> set (fill fb rules)" for r
  proof -
    obtain xs where xs: "fill fb rules = xs @ [last rules]"
      using fill_ends [OF ne, of fb] append_butlast_last_id [of "fill fb rules"] by metis
    then show ?thesis
      using fill_sorted [OF sp, of fb] that by (auto simp: sorted_wrt_append)
  qed
  have tail: "last_nr (last rules) < first_nr r" if r: "r \<in> set (tail_filler fb rules)" for r
  proof -
    have "last_nr (last rules) < MAX_SYSCALL_NR" using r by (auto simp: tail_filler_def order_less_le split: if_splits)
    from succ_le_iff [OF this, of "last_nr (last rules) + 1"] r show ?thesis
      by (auto simp: tail_filler_def split: if_splits)
  qed
  have "first_nr (last rules) \<le> last_nr (last rules)" using sp ne by (simp add: spaced_def)
  then have ft: "first_nr a < first_nr b" if "a \<in> set (fill fb rules)" "b \<in> set (tail_filler fb rules)" for a b
    using lst [OF that(1)] tail [OF that(2)] by (meson le_less_trans)
  have hm: "first_nr a < first_nr b" if "a \<in> set (head_filler fb rules)" "b \<in> set (fill fb rules)" for a b
    using that first [OF that(2)] by (auto simp: head_filler_def word_gt_0 split: if_splits)
  have ht: "first_nr a < first_nr b" if "a \<in> set (head_filler fb rules)" "b \<in> set (tail_filler fb rules)" for a b
  proof -
    have "last rules \<in> set (fill fb rules)" using fill_ends [OF ne, of fb] by (metis last_in_set)
    then show ?thesis using hm [OF that(1)] ft [OF _ that(2)] by (meson less_trans)
  qed
  have "sorted_wrt (<) (map first_nr (head_filler fb rules))" "sorted_wrt (<) (map first_nr (tail_filler fb rules))"
    by (auto simp: head_filler_def tail_filler_def)
  then show ?thesis
    using fill_sorted [OF sp, of fb] ft hm ht by (auto simp: sorted_wrt_append)
qed

lemma read_origin: "read_rule a = read_rule b \<Longrightarrow> origin fb done a = origin fb done b"
  by (simp add: read_rule_def origin_def)

lemma read_firsts: "map read_rule xs = map read_rule ys \<Longrightarrow> map first_nr xs = map first_nr ys"
  by (drule arg_cong [where f = "map fst"]) (simp add: read_rule_def comp_def)

lemma filled_hd:
  assumes "rules \<noteq> []"
  shows "first_nr (hd (head_filler fb rules @ fill fb rules @ tail_filler fb rules)) = 0"
  using fill_ends [OF assms, of fb] by (auto simp: head_filler_def)

lemma filled_single:
  assumes inv: "table_inv fb raws rules" and fb: "fb \<noteq> ACTION_CONDITIONAL"
    and one: "length (head_filler fb rules @ fill fb rules @ tail_filler fb rules) = 1"
  shows "action (hd (head_filler fb rules @ fill fb rules @ tail_filler fb rules)) \<noteq> ACTION_CONDITIONAL"
proof -
  have ne: "rules \<noteq> []" and sp: "spaced rules" using inv by (auto simp: table_inv_def)
  have "fill fb rules \<noteq> []" using fill_ends [OF ne] by blast
  then have h: "head_filler fb rules = []" "tail_filler fb rules = []" "length (fill fb rules) = 1"
    using one by (cases "fill fb rules"; auto)+
  have "length rules \<le> length (fill fb rules)" for rules
    by (induction fb rules rule: fill.induct) auto
  then have "length rules = 1" using h(3) ne by (metis One_nat_def Suc_leI le_antisym length_greater_0_conv)
  then obtain r where r: "rules = [r]" by (cases rules) auto
  have "first_nr r = 0" "last_nr r = MAX_SYSCALL_NR"
    using h r by (auto simp: head_filler_def tail_filler_def split: if_splits)
  then show ?thesis using sp r h by (auto simp: spaced_def)
qed

lemma normalize_rules_first:
  assumes raws: "\<forall>r \<in> set raws. raw_rule r" and num: "numbered raws" and alone: "conditions_first raws"
    and fb: "fb \<noteq> ACTION_CONDITIONAL"
  shows "\<exists>rules. normalize_rules raws fb = Some rules \<and> first_table fb raws rules"
proof (cases "raws = []")
  case True
  then show ?thesis
    using fb by (auto simp: normalize_rules_def add_range_rule_def rules_lookup_def
        rule_decide_def origin_def first_decide_def first_table_def)
next
  case False
  let ?s = "sort_range_rules raws"
  have s: "\<forall>r \<in> set ?s. raw_rule r" "?s \<noteq> []"
    using raws False sort_set [of raws] by (auto simp del: set_empty simp flip: set_empty)
  obtain out where c: "normalize_rules_count_missing ?s fb = Some (out,
      gaps out + (if first_nr (hd out) = 0 then 0 else 1) + (if last_nr (last out) = MAX_SYSCALL_NR then 0 else 1))"
    and inv: "table_inv fb ?s out" and lst: "last_nr (last out) \<noteq> MAX_SYSCALL_NR \<longrightarrow> action (last out) \<noteq> fb"
    using count_missing_ok [OF s fb sort_sorted conditions_first_sort [OF alone num]] by blast
  have ne: "out \<noteq> []" using inv by (simp add: table_inv_def)
  let ?t = "head_filler fb out @ fill fb out @ tail_filler fb out"
  obtain rules where a: "normalize_rules raws fb = Some rules" and r: "map read_rule rules = map read_rule ?t"
    using add_missing_ok [OF ne lst refl] c fb False by (auto simp: normalize_rules_def)
  have ne': "?t \<noteq> []" "rules \<noteq> []"
    using fill_ends [OF ne, of fb] r by auto
  have hd: "read_rule (hd rules) = read_rule (hd ?t)"
    using r ne' by (metis hd_map)
  have "rule_decide d fb (rules_lookup n rules) = first_decide d fb raws n" for d n
    using read_decide [OF read_lookup [OF r ne'(2)]] filled_decide [OF inv fb] sort_group [OF numbered_sorted [OF num], of n]
    by (simp add: first_decide_def)
  moreover have "origin fb raws x" if "x \<in> set rules" for x
  proof -
    have "read_rule x \<in> set (map read_rule ?t)" using that r by (metis image_eqI list.set_map)
    then obtain y where y: "y \<in> set ?t" "read_rule x = read_rule y" by auto
    have "\<forall>r \<in> set (fill fb out). origin fb ?s r" using fill_origin inv fb by (auto simp: table_inv_def)
    then have "origin fb ?s y" using y(1) fb by (auto simp: head_filler_def tail_filler_def split: if_splits)
    then show ?thesis using read_origin [OF y(2)] origin_mono [of fb ?s x raws] by (simp add: sort_set)
  qed
  moreover have "action (hd rules) \<noteq> ACTION_CONDITIONAL" if "length rules = 1"
    using filled_single [OF inv fb] that hd map_eq_imp_length_eq [OF r] by (simp add: read_rule_def)
  moreover have "first_nr (hd rules) = 0"
    using hd filled_hd [OF ne, of fb] by (simp add: read_rule_def)
  ultimately have "first_table fb raws rules"
    using ne'(2) filled_sorted [OF inv] read_firsts [OF r] unfolding first_table_def by auto
  then show ?thesis using a by blast
qed

lemma normalize_rules_ok:
  assumes "\<forall>r \<in> set raws. raw_rule r" and "numbered raws" and alone: "conditions_alone raws"
    and "fb \<noteq> ACTION_CONDITIONAL"
  shows "\<exists>rules. normalize_rules raws fb = Some rules \<and> normal_table fb raws rules"
  using normalize_rules_first [OF assms(1,2) conditions_alone_first [OF alone] assms(4)] first_decide_raws [OF alone]
  by (auto simp: first_table_def normal_table_def)

text \<open>C3: Normalisation of rules as they are collected (one number each, priorities in their order, a
  default action that is not the mark of conditional rules) answers (none of its assertions
  fails) and keeps the decision if a rule with a condition that comes first for its number is the
  only one for it: the resulting table starts at 0, ascends strictly, and the rule in force for
  any number, the last that starts at or below it, decides like the first collected rule for the
  number that applies, and by the default action if there is none.\<close>

theorem normalize_rules_decides:
  assumes "\<forall>r \<in> set raws. raw_rule r" and "numbered raws" and "conditions_alone raws"
    and "fb \<noteq> ACTION_CONDITIONAL"
  shows "\<exists>rules. normalize_rules raws fb = Some rules \<and> rules \<noteq> [] \<and> first_nr (hd rules) = 0 \<and>
    sorted_wrt (<) (map first_nr rules) \<and>
    (\<forall>d n. rule_decide d fb (rules_lookup n rules) = raws_decide d fb n raws)"
  using normalize_rules_ok [OF assms] unfolding normal_table_def by blast

theorem normalize_rules_decides_witness:
  "let raws = [\<lparr>first_nr = 9, last_nr = 9, action = ACTION_ALLOW, priority = 1, expr_list = []\<rparr>,
       \<lparr>first_nr = 3, last_nr = 3, action = ACTION_CONDITIONAL, priority = 2,
         expr_list = [(Some (EXPR_BINARY EXPR_EQ (EXPR_VAR 0 4) (EXPR_NUMBER 1)), ACTION_LOG)]\<rparr>]
   in (\<forall>r \<in> set raws. raw_rule r) \<and> numbered raws \<and> conditions_alone raws \<and>
     (\<exists>rules. normalize_rules raws ACTION_KILL = Some rules \<and> rules \<noteq> [] \<and> first_nr (hd rules) = 0 \<and>
       sorted_wrt (<) (map first_nr rules) \<and>
       (\<forall>d n. rule_decide d ACTION_KILL (rules_lookup n rules) = raws_decide d ACTION_KILL n raws))"
  unfolding Let_def
  by (intro conjI normalize_rules_decides)
    (auto simp: raw_rule_def numbered_def conditions_alone_def Let_def less_Suc_eq numeral_2_eq_2)

end
