(* ===== verification/Kafel_Table.thy ===== *)
theory Kafel_Table
  imports Kafel_Sound Kafel_Fill
begin

unbundle bit_operations_syntax

text \<open>
  From the table of range rules to the program: what a rule decides, the binary search the
  generator lays out, and the program with its loads and its check of the architecture.
\<close>

section \<open>Rules the generator handles\<close>

definition expr_fine :: "seccomp_data \<Rightarrow> expr_tree \<Rightarrow> bool" where
  "expr_fine d e \<longleftrightarrow> (\<exists>sz. cg_expr sz e) \<and> masks_alone e \<and> args_clean d e"

definition mapping_fine :: "seccomp_data \<Rightarrow> expr_tree option \<times> int \<Rightarrow> bool" where
  "mapping_fine d m \<longleftrightarrow> valid_action (snd m) \<and> (\<exists>x. fst m = Some x \<and> expr_fine d x)"

definition rule_fine :: "seccomp_data \<Rightarrow> syscall_range_rule \<Rightarrow> bool" where
  "rule_fine d rule \<longleftrightarrow>
     (if action rule \<noteq> ACTION_CONDITIONAL then valid_action (action rule)
      else \<exists>ms a. expr_list rule = ms @ [(None, a)] \<and> valid_action a \<and> (\<forall>m \<in> set ms. mapping_fine d m))"

lemma valid_action_pos: "valid_action a \<Longrightarrow> 0 < a"
  by (auto simp: valid_action_def)

lemma valid_action_loc: "valid_action a \<Longrightarrow> - a \<noteq> INVALID_LOCATION"
  by (auto simp: valid_action_def)

section \<open>Growth of rules\<close>

lemma mappings_grown:
  assumes "ctxt_ok c" "loc_ok c loc" "\<forall>m \<in> set ms. 0 < snd m"
    and "generate_mappings c ms loc = Some (c', n)"
  shows "grown c c' n (insert loc {x. x < 0})"
  using assms
proof (induction c ms loc rule: generate_mappings.induct)
  case (1 c loc)
  then show ?case by (auto intro: grown_refl)
next
  case (2 c e act rest loc)
  show ?case
  proof (cases "loc = INVALID_LOCATION")
    case True
    then have "grown c c' n (insert (- act) {x. x < 0})"
      using 2 by (intro "2.IH"(1)) (auto split: if_splits)
    then show ?thesis by (rule grown_mono) (use 2(5) in auto)
  next
    case False
    then obtain x c1 l1 where x: "e = Some x" "generate_expr c x (- act) loc = Some (c1, l1)"
      "generate_mappings c1 rest l1 = Some (c', n)"
      using 2(6) by (auto elim!: bind_SomeE split: option.splits)
    have g: "grown c c1 l1 {- act, loc}"
      using generate_expr_grown [OF 2(3) _ 2(4) x(2)] 2(5) by simp
    have "grown c1 c' n (insert l1 {x. x < 0})"
      using "2.IH"(2) [OF False x(1,2) refl] x(3) g 2(5) by (simp add: grown_def)
    then have "grown c1 c' n (insert l1 (insert loc {x. x < 0}))" by (rule grown_mono) auto
    moreover have "grown c c1 l1 (insert loc {x. x < 0})" by (rule grown_mono [OF g]) (use 2(5) in auto)
    ultimately show ?thesis by (rule grown_trans [rotated])
  qed
qed

lemma rule_fine_actions:
  assumes "rule_fine d rule" "action rule = ACTION_CONDITIONAL"
  shows "\<forall>m \<in> set (expr_list rule). 0 < snd m"
proof -
  obtain ms a where ms: "expr_list rule = ms @ [(None, a)]" "valid_action a" "\<forall>m \<in> set ms. mapping_fine d m"
    using assms by (auto simp: rule_fine_def)
  have "valid_action (snd m)" if "m \<in> set (expr_list rule)" for m
    using that ms by (auto simp: mapping_fine_def)
  then show ?thesis using valid_action_pos by blast
qed

lemma generate_action_grown:
  assumes "ctxt_ok c" "rule_fine d rule" "generate_action c rule = Some (c', n)"
  shows "grown c c' n {x. x < 0}"
proof (cases "action rule = ACTION_CONDITIONAL")
  case True
  then have "generate_mappings c (rev (expr_list rule)) INVALID_LOCATION = Some (c', n)"
    using assms(3) by (auto simp: generate_action_def elim!: bind_SomeE split: if_splits)
  from mappings_grown [OF assms(1) _ _ this] show ?thesis
    using rule_fine_actions [OF assms(2) True] by (simp add: insert_absorb)
next
  case False
  then show ?thesis
    using assms valid_action_pos [of "action rule"]
    by (auto simp: generate_action_def rule_fine_def intro!: grown_refl)
qed

lemma generate_rules_split:
  assumes "generate_rules c rules = Some (c', n)" "length rules \<noteq> 1"
  obtains c1 lower c2 upper where
    "generate_rules c (take (length rules div 2) rules) = Some (c1, lower)"
    "generate_rules c1 (drop (length rules div 2) rules) = Some (c2, upper)"
    "add_jump c2 BPF_JGE (first_nr (rules ! (length rules div 2))) upper lower = Some (c', n)"
    "1 < length rules"
proof -
  have "rules \<noteq> []"
    using assms by (subst (asm) generate_rules.simps) (auto simp: Let_def)
  then have len: "1 < length rules"
    using assms(2) by (cases rules) auto
  then have "hd (drop (length rules div 2) rules) = rules ! (length rules div 2)"
    by (intro hd_drop_conv_nth) auto
  then show thesis
    using assms len that
    by (subst (asm) generate_rules.simps) (auto simp: Let_def elim!: bind_SomeE split: if_splits)
qed

lemma generate_rules_one: "generate_rules c [rule] = generate_action c rule"
  by (simp add: generate_rules.simps)

lemma generate_rules_grown:
  assumes "ctxt_ok c" "\<forall>rule \<in> set rules. rule_fine d rule" "generate_rules c rules = Some (c', n)"
  shows "grown c c' n {x. x < 0} \<and> (length rules \<noteq> 1 \<longrightarrow> n < 0 \<or> n = CURRENT_LOC c')"
  using assms
proof (induction rules arbitrary: c c' n rule: length_induct)
  case (1 rules)
  show ?case
  proof (cases "length rules = 1")
    case True
    then obtain rule where rule: "rules = [rule]" by (cases rules) auto
    then have "generate_action c rule = Some (c', n)" using 1(4) by (simp add: generate_rules_one)
    then show ?thesis using generate_action_grown [OF 1(2)] 1(3) rule by simp
  next
    case False
    show ?thesis
      using 1(4) False
    proof (cases rule: generate_rules_split)
      case (1 c1 lower c2 upper)
      let ?m = "length rules div 2"
      have fine: "\<forall>r \<in> set (take ?m rules). rule_fine d r" "\<forall>r \<in> set (drop ?m rules). rule_fine d r"
        using "1.prems"(2) by (auto dest: in_set_takeD in_set_dropD)
      have small: "length (take ?m rules) < length rules" "length (drop ?m rules) < length rules"
        using 1(4) by auto
      have lo: "grown c c1 lower {x. x < 0}"
        using "1.IH" [rule_format, OF small(1) "1.prems"(1) _ 1(1)] fine(1) by blast
      have "ctxt_ok c1" using lo by (simp add: grown_def)
      then have hi: "grown c1 c2 upper {x. x < 0}"
        using "1.IH" [rule_format, OF small(2) _ _ 1(2)] fine(2) by blast
      have ok: "ctxt_ok c2" "loc_ok c2 upper" "loc_ok c2 lower"
        using hi lo grown_loc_ok [OF hi] by (auto simp: grown_def)
      note j = add_jump_grows [OF ok 1(3)]
      have neg: "n < 0" if "c' = c2"
      proof -
        have "upper = lower" "n = upper" using add_jump_same [OF ok] 1(3) that by auto
        then show ?thesis using lo hi by (auto simp: grown_def loc_ok_def)
      qed
      have e: "extends c c2" "extends c2 c'"
        using lo hi j extends_trans by (auto simp: grown_def)
      show ?thesis
        using j neg extends_trans [OF e] extends_length [OF e(1)]
        by (auto simp: grown_def CURRENT_LOC_def)
    qed
  qed
qed

section \<open>What the code of a rule decides\<close>

lemma lookup_single: "rules_lookup n [rule] = rule"
  by (simp add: rules_lookup_def)

text \<open>One step of the binary search.\<close>

lemma lookup_split:
  assumes sorted: "sorted_wrt (\<lambda>a b. first_nr a < first_nr b) rules" and m: "m < length rules" "0 < m"
  shows "rules_lookup n rules = rules_lookup n
    (if n \<ge> first_nr (rules ! m) then drop m rules else take m rules)"
proof -
  define lo hi where "lo = take m rules" and "hi = drop m rules"
  have rules: "rules = lo @ hi" by (simp add: lo_def hi_def)
  have hd: "hi \<noteq> []" "hd hi = rules ! m" "lo \<noteq> []" using m by (auto simp: lo_def hi_def hd_drop_conv_nth)
  have s: "sorted_wrt (\<lambda>a b. first_nr a < first_nr b) hi" using sorted unfolding hi_def by (rule sorted_wrt_drop)
  show ?thesis
  proof (cases "first_nr (rules ! m) \<le> n")
    case True
    then have "filter (\<lambda>r. first_nr r \<le> n) hi \<noteq> []"
      using hd by (cases hi) auto
    then show ?thesis
      using True by (simp add: rules_lookup_def flip: hi_def) (simp add: rules)
  next
    case False
    have "\<not> first_nr r \<le> n" if "r \<in> set hi" for r
      using that s hd False by (cases hi) auto
    then have "filter (\<lambda>r. first_nr r \<le> n) hi = []" by (simp add: filter_empty_conv)
    then show ?thesis
      using False hd(3) by (simp add: rules_lookup_def flip: lo_def) (simp add: rules)
  qed
qed

lemma mappings_decide_last:
  "\<forall>m \<in> set ms. fst m \<noteq> None \<Longrightarrow> mappings_decide d fb (ms @ [(None, a)]) =
    foldr (\<lambda>m r. if expr_holds d (the (fst m)) then snd m else r) ms a"
  by (induction ms) auto

context bpf_machine
begin

lemma closed_action: "0 < act \<Longrightarrow> closed d c (- act) (ACTION_TO_BPF act)"
  by (simp add: closed_def tgt_def)

lemma mappings_exec:
  assumes "ctxt_ok c" "closed d c loc (ACTION_TO_BPF a)" "loc \<noteq> INVALID_LOCATION"
    and "\<forall>m \<in> set ms. mapping_fine d m"
    and "generate_mappings c ms loc = Some (c', n)" "length (buffer c') \<le> 256"
  shows "closed d c' n
    (ACTION_TO_BPF (fold (\<lambda>m r. if expr_holds d (the (fst m)) then snd m else r) ms a))"
  using assms
proof (induction ms arbitrary: c loc a)
  case (Cons m ms)
  obtain x act sz where m: "m = (Some x, act)" "valid_action act" "cg_expr sz x" "masks_alone x" "args_clean d x"
    using Cons.prems(4) by (cases m) (auto simp: mapping_fine_def expr_fine_def)
  obtain c1 l1 where s: "generate_expr c x (- act) loc = Some (c1, l1)"
    "generate_mappings c1 ms l1 = Some (c', n)"
    using Cons.prems(3,5) m(1) by (auto elim!: bind_SomeE)
  have act: "0 < act" using m(2) by (rule valid_action_pos)
  have g: "grown c c1 l1 {- act, loc}"
    by (rule generate_expr_grown [OF Cons.prems(1) _ _ s(1)])
      (use act Cons.prems(2) in \<open>auto simp: closed_def\<close>)
  have ok1: "ctxt_ok c1" "loc_ok c1 l1" using g by (auto simp: grown_def)
  have pos: "\<forall>m \<in> set ms. 0 < snd m"
    using Cons.prems(4) valid_action_pos by (auto simp: mapping_fine_def)
  have "length (buffer c1) \<le> 256"
    using grown_length [OF mappings_grown [OF ok1 pos s(2)]] Cons.prems(6) by simp
  from generate_expr_exec [OF m(3-5) Cons.prems(1) closed_action [OF act] Cons.prems(2) s(1) this]
  have "closed d c1 l1 (ACTION_TO_BPF (if expr_holds d x then act else a))"
    by (auto split: if_splits)
  moreover have "l1 \<noteq> INVALID_LOCATION"
    using g valid_action_loc [OF m(2)] Cons.prems(3) by (auto simp: grown_def)
  ultimately show ?case
    using Cons.IH [OF ok1(1) _ _ _ s(2) Cons.prems(6)] Cons.prems(4) m(1) by simp
qed simp

lemma generate_action_exec:
  assumes "ctxt_ok c" "rule_fine d rule" "generate_action c rule = Some (c', n)" "length (buffer c') \<le> 256"
  shows "closed d c' n (ACTION_TO_BPF (rule_decide d fb rule))"
proof (cases "action rule = ACTION_CONDITIONAL")
  case True
  then obtain ms a where ms: "expr_list rule = ms @ [(None, a)]" "valid_action a" "\<forall>m \<in> set ms. mapping_fine d m"
    using assms(2) by (auto simp: rule_fine_def)
  have g: "generate_mappings c (rev ms) (- a) = Some (c', n)"
    using assms(3) True ms(1) by (auto simp: generate_action_def elim!: bind_SomeE split: if_splits)
  have "\<forall>m \<in> set ms. fst m \<noteq> None" using ms(3) by (auto simp: mapping_fine_def)
  then have "rule_decide d fb rule = fold (\<lambda>m r. if expr_holds d (the (fst m)) then snd m else r) (rev ms) a"
    using True ms(1) mappings_decide_last by (simp add: rule_decide_def foldr_conv_fold)
  moreover have "\<forall>m \<in> set (rev ms). mapping_fine d m" using ms(3) by simp
  ultimately show ?thesis
    using mappings_exec [OF assms(1) closed_action [OF valid_action_pos [OF ms(2)]]
        valid_action_loc [OF ms(2)] _ g assms(4)] by simp
next
  case False
  then show ?thesis
    using assms valid_action_pos [of "action rule"] closed_action [of "action rule"]
    by (auto simp: generate_action_def rule_fine_def rule_decide_def)
qed

text \<open>The table is entered with the system call number in the accumulator.\<close>

definition at_nr :: "seccomp_data \<Rightarrow> codegen_ctxt \<Rightarrow> int \<Rightarrow> u32 option \<Rightarrow> bool" where
  "at_nr d c loc r \<longleftrightarrow> (\<forall>X. tgt d c loc (nr d) X = r)"

lemma at_nr_extends: "extends c c' \<Longrightarrow> loc_ok c loc \<Longrightarrow> at_nr d c loc r \<Longrightarrow> at_nr d c' loc r"
  unfolding at_nr_def using tgt_extends by simp

lemma generate_rules_exec:
  assumes "ctxt_ok c" "\<forall>rule \<in> set rules. rule_fine d rule"
    and "sorted_wrt (\<lambda>a b. first_nr a < first_nr b) rules"
    and "generate_rules c rules = Some (c', n)" "length (buffer c') \<le> 256"
  shows "at_nr d c' n (ACTION_TO_BPF (rule_decide d fb (rules_lookup (nr d) rules)))"
  using assms
proof (induction rules arbitrary: c c' n rule: length_induct)
  case (1 rules)
  show ?case
  proof (cases "length rules = 1")
    case True
    then obtain rule where rule: "rules = [rule]" by (cases rules) auto
    then have "generate_action c rule = Some (c', n)" using 1(5) by (simp add: generate_rules_one)
    then show ?thesis
      using generate_action_exec [OF 1(2)] 1(3,6) rule by (simp add: lookup_single at_nr_def closed_def)
  next
    case False
    show ?thesis
      using 1(5) False
    proof (cases rule: generate_rules_split)
      case s: (1 c1 lower c2 upper)
      let ?m = "length rules div 2"
      have fine: "\<forall>r \<in> set (take ?m rules). rule_fine d r" "\<forall>r \<in> set (drop ?m rules). rule_fine d r"
        using "1.prems"(2) by (auto dest: in_set_takeD in_set_dropD)
      have sorted: "sorted_wrt (\<lambda>a b. first_nr a < first_nr b) (take ?m rules)"
        "sorted_wrt (\<lambda>a b. first_nr a < first_nr b) (drop ?m rules)"
        using "1.prems"(3) by (simp_all add: sorted_wrt_take sorted_wrt_drop)
      have small: "length (take ?m rules) < length rules" "length (drop ?m rules) < length rules"
        using s(4) by auto
      have lo: "grown c c1 lower {x. x < 0}"
        using generate_rules_grown [OF "1.prems"(1) fine(1) s(1)] by blast
      have ok1: "ctxt_ok c1" using lo by (simp add: grown_def)
      have hi: "grown c1 c2 upper {x. x < 0}"
        using generate_rules_grown [OF ok1 fine(2) s(2)] by blast
      have ok: "ctxt_ok c2" "loc_ok c2 upper" "loc_ok c2 lower" "loc_ok c1 lower" "extends c1 c2"
        using hi lo grown_loc_ok [OF hi] by (auto simp: grown_def)
      have "extends c2 c'" using add_jump_grows [OF ok(1-3) s(3)] by simp
      then have len: "length (buffer c1) \<le> 256" "length (buffer c2) \<le> 256"
        using extends_length [OF ok(5)] extends_length "1.prems"(5) by fastforce+
      have dl: "at_nr d c1 lower (ACTION_TO_BPF (rule_decide d fb (rules_lookup (nr d) (take ?m rules))))"
        using "1.IH" [rule_format, OF small(1) "1.prems"(1) _ sorted(1) s(1) len(1)] fine(1) by blast
      have du: "at_nr d c2 upper (ACTION_TO_BPF (rule_decide d fb (rules_lookup (nr d) (drop ?m rules))))"
        using "1.IH" [rule_format, OF small(2) ok1 _ sorted(2) s(2) len(2)] fine(2) by blast
      have j: "tgt d c' n (nr d) X =
          tgt d c2 (if nr d \<ge> first_nr (rules ! ?m) then upper else lower) (nr d) X" for X
        using short_jump_exec [OF ok(1-3), of BPF_JGE BPF_K _ c' n d "nr d" X] s(3) "1.prems"(5)
        by (simp add: bpf_jump_taken_def)
      have "0 < ?m" "?m < length rules" using s(4) by auto
      then show ?thesis
        using du at_nr_extends [OF ok(5,4) dl] j
        by (simp add: lookup_split [OF "1.prems"(3), of ?m] at_nr_def)
    qed
  qed
qed

end

end
