(* ===== verification/Kafel_Compile.thy ===== *)
theory Kafel_Compile
  imports Kafel_Table
begin

unbundle bit_operations_syntax

text \<open>
  The whole compiler: what it relies on of the table is the locale \<open>rule_tables\<close>, what it
  relies on of the machine is \<open>bpf_machine\<close>; together they give that a compiled policy decides
  like the policy. The interpretations at the end are on \<open>normalize_rules\<close> and \<open>bpf_exec\<close>.
\<close>

section \<open>The program around the table\<close>

text \<open>\<open>compile_policy\<close> after the rules: the load of the number and the check of the architecture.\<close>

definition finish :: "codegen_ctxt \<Rightarrow> int \<Rightarrow> int \<Rightarrow> u32 \<Rightarrow> sock_fprog option" where
  "finish c next dflt tarch =
     do { let (c2, begin2, next2) =
            (if next > - 1 then
               let (c', l) = add_instruction c (BPF_STMT (BPF_LD OR BPF_W OR BPF_ABS) 0) in (c', l, l)
             else (c, - 1, - dflt));
          (c3, next3) \<leftarrow> add_jump c2 BPF_JEQ tarch next2 (- ACTION_KILL);
          let (c4, next4) =
            (if next3 > begin2 then add_instruction c3 (BPF_STMT (BPF_LD OR BPF_W OR BPF_ABS) 4)
             else (c3, next3));
          c5 \<leftarrow> (if next4 < 0 then map_option fst (resolve_location c4 next4) else Some c4);
          Some \<lparr>len = of_nat (length (buffer c5)), filter_code = rev (buffer c5)\<rparr> }"

abbreviation (input) "main_of ctxt \<equiv> (case main_policy ctxt of None \<Rightarrow> policy_create ''@main'' None | Some p \<Rightarrow> p)"
abbreviation (input) "default_of ctxt \<equiv> (if default_action ctxt = 0 then ACTION_KILL else default_action ctxt)"

lemma compile_policy_eq:
  "compile_policy ctxt =
     do { rules \<leftarrow> normalize_rules (add_policy_rules [] (main_of ctxt)) (default_of ctxt);
          (c1, next1) \<leftarrow> generate_rules context_create rules;
          finish c1 next1 (default_of ctxt) (target_arch ctxt) }"
  unfolding compile_policy_def finish_def Let_def
  by (simp add: CURRENT_LOC_def context_create_def cong: if_cong)

text \<open>An empty buffer has no recorded returns.\<close>

lemma ctxt_ok_empty:
  assumes "ctxt_ok c" "buffer c = []"
  shows "cache c = []" and "i < 6 \<Longrightarrow> basic_actions c ! i = INVALID_LOCATION"
  using assms by (auto simp: ctxt_ok_def returns_at_def loc_ok_def) (cases "cache c"; auto)

lemma jump_emitted:
  assumes "ctxt_ok c" "loc_ok c tloc" "loc_ok c floc" "tloc \<noteq> floc"
    and "add_jump c ty v tloc floc = Some (c', next)"
  shows "length (buffer c) < length (buffer c')" "next = CURRENT_LOC c'" "ctxt_ok c'" "buffer c' \<noteq> []"
proof -
  have "c' \<noteq> c" using add_jump_same [OF assms(1-3)] assms(4,5) by blast
  then show "length (buffer c) < length (buffer c')" "next = CURRENT_LOC c'" "ctxt_ok c'"
    using add_jump_grows [OF assms(1-3,5)] by auto
  then show "buffer c' \<noteq> []" by auto
qed

lemma finish_grows:
  assumes ok: "ctxt_ok c" "loc_ok c n" and dflt: "0 < dflt" and f: "finish c n dflt tarch = Some prog"
  shows "length (buffer c) \<le> length (filter_code prog)"
proof -
  define c2 where "c2 = (if n > - 1 then fst (add_instruction c (BPF_STMT (BPF_LD OR BPF_W OR BPF_ABS) 0)) else c)"
  define n2 where "n2 = (if n > - 1 then int (length (buffer c)) else - dflt)"
  have ok2: "ctxt_ok c2" "loc_ok c2 n2" "loc_ok c2 (- ACTION_KILL)"
    using ok dflt by (auto simp: c2_def n2_def loc_ok_def intro: add_instruction_ok)
  obtain c3 n3 where j: "add_jump c2 BPF_JEQ tarch n2 (- ACTION_KILL) = Some (c3, n3)"
    using f unfolding finish_def c2_def n2_def
    by (cases "add_instruction c (BPF_STMT (BPF_LD OR BPF_W OR BPF_ABS) 0)")
      (auto simp: Let_def elim!: bind_SomeE dest!: add_instructionD split: if_splits)
  note g = add_jump_grows [OF ok2 j]
  have ext: "length (buffer c3) \<le> length (buffer c4)"
    if "resolve_location c3 n3 = Some (c4, pos)" for c4 pos
    using resolve_location_ok [OF _ _ that] g extends_length by blast
  have "length (buffer c3) \<le> length (filter_code prog)"
    using f j ext unfolding finish_def c2_def n2_def
    by (auto simp: Let_def add_instruction_def CURRENT_LOC_def elim!: bind_SomeE split: if_splits)
  moreover have "length (buffer c) \<le> length (buffer c2)" by (simp add: c2_def)
  ultimately show ?thesis using g extends_length [of c2 c3] by simp
qed

context bpf_machine
begin

lemma exec_ld_nr: "exec d (BPF_STMT (BPF_LD OR BPF_W OR BPF_ABS) 0 # is) A X = exec d is (nr d) X"
  by (rule exec_ld_abs) (simp add: seccomp_load_def)

lemma exec_ld_arch: "exec d (BPF_STMT (BPF_LD OR BPF_W OR BPF_ABS) 4 # is) A X = exec d is (arch d) X"
  by (rule exec_ld_abs) (simp add: seccomp_load_def)

lemma tgt_kill: "tgt d c (- ACTION_KILL) A X = Some SECCOMP_RET_KILL"
  by (simp add: tgt_def ACTION_TO_BPF_def)

text \<open>The check of the architecture in front of any other destination.\<close>

lemma arch_check:
  assumes ok: "ctxt_ok c" "loc_ok c n" "n \<noteq> - ACTION_KILL" and b: "b < int (length (buffer c))"
    and j: "add_jump c BPF_JEQ tarch n (- ACTION_KILL) = Some (c3, n3)"
    and prog: "filter_code prog = rev (buffer (fst (add_instruction c3 (BPF_STMT (BPF_LD OR BPF_W OR BPF_ABS) 4))))"
    and len: "length (filter_code prog) \<le> 256"
  shows "b < n3" and "exec d (filter_code prog) A X =
    (if arch d = tarch then tgt d c n (arch d) X else Some SECCOMP_RET_KILL)"
proof -
  note e = jump_emitted [OF ok(1,2) _ ok(3) j]
  have kill: "loc_ok c (- ACTION_KILL)" by simp
  show "b < n3" using e(1,2) kill b by (simp add: CURRENT_LOC_def)
  have "exec d (filter_code prog) A X = tgt d c3 n3 (arch d) X"
    using prog exec_ld_arch e(2,4) tgt_current [of c3 d] kill by simp
  also have "\<dots> = tgt d c (if arch d = tarch then n else - ACTION_KILL) (arch d) X"
    using short_jump_exec [OF ok(1,2) kill, of BPF_JEQ BPF_K tarch c3 n3 d "arch d" X] j len prog
    by (simp add: bpf_jump_taken_def)
  finally show "exec d (filter_code prog) A X =
      (if arch d = tarch then tgt d c n (arch d) X else Some SECCOMP_RET_KILL)"
    using tgt_kill by simp
qed

lemma finish_table:
  assumes ok: "ctxt_ok c" and n: "0 \<le> n" "n = CURRENT_LOC c" and at: "at_nr d c n r"
    and f: "finish c n dflt tarch = Some prog" and len: "length (filter_code prog) \<le> 256"
  shows "exec d (filter_code prog) A X = (if arch d = tarch then r else Some SECCOMP_RET_KILL)"
proof -
  obtain c2 l where add: "add_instruction c (BPF_STMT (BPF_LD OR BPF_W OR BPF_ABS) 0) = (c2, l)" by fastforce
  note d2 = add_instructionD [OF add]
  have ok2: "ctxt_ok c2" "loc_ok c2 l" "l = CURRENT_LOC c2"
    using add_instruction_ok [OF ok] add d2 by (metis fst_conv) (simp_all add: d2 loc_ok_def CURRENT_LOC_def)
  obtain c3 n3 where j: "add_jump c2 BPF_JEQ tarch l (- ACTION_KILL) = Some (c3, n3)"
    using f n add unfolding finish_def by (auto simp: Let_def elim!: bind_SomeE)
  have l: "l \<noteq> - ACTION_KILL" "l < int (length (buffer c2))" using d2 by auto
  have e: "l < n3" "0 \<le> n3"
    using jump_emitted [OF ok2(1,2) _ l(1) j] d2 by (auto simp: CURRENT_LOC_def)
  have prog: "filter_code prog = rev (buffer (fst (add_instruction c3 (BPF_STMT (BPF_LD OR BPF_W OR BPF_ABS) 4))))"
    using f n add j e add_instruction_simps(4) [of c3] unfolding finish_def
    by (cases "add_instruction c3 (BPF_STMT (BPF_LD OR BPF_W OR BPF_ABS) 4)")
      (auto simp: Let_def elim!: bind_SomeE dest!: add_instructionD)
  have "tgt d c2 l (arch d) X = r"
  proof -
    have "tgt d c2 l (arch d) X = exec d (rev (buffer c)) (nr d) X"
      using tgt_current [of c2 d] ok2(3) d2 exec_ld_nr by simp
    also have "\<dots> = tgt d c n (nr d) X" using tgt_current [of c d] n by (cases "buffer c = []") (auto simp: CURRENT_LOC_def)
    finally show ?thesis using at by (simp add: at_nr_def)
  qed
  then show ?thesis using arch_check(2) [OF ok2(1,2) l j prog len, of d A X] by auto
qed

lemma finish_empty:
  assumes ok: "ctxt_ok c" and n: "n < 0" and b: "buffer c = []" and dflt: "0 < dflt"
    and f: "finish c n dflt tarch = Some prog" and len: "length (filter_code prog) \<le> 256"
  shows "exec d (filter_code prog) A X = (if arch d = tarch then ACTION_TO_BPF dflt else Some SECCOMP_RET_KILL)"
proof (cases "dflt = ACTION_KILL")
  case True
  have "resolve_location c (- ACTION_KILL) \<noteq> None"
    using f n True by (auto simp: finish_def add_jump_def)
  moreover have "basic_actions c ! 1 = INVALID_LOCATION" using ctxt_ok_empty(2) [OF ok b, of 1] by simp
  ultimately have "filter_code prog = [BPF_STMT (BPF_RET OR BPF_K) SECCOMP_RET_KILL]"
    using f n True b
    by (auto simp: finish_def add_jump_def resolve_location_def resolve_action_def resolve_basic_def
        ACTION_TO_BPF_def add_instruction_def Let_def)
  then show ?thesis using True exec_ret [of d SECCOMP_RET_KILL "[]" A X] by (simp add: ACTION_TO_BPF_def)
next
  case False
  then have l: "- dflt \<noteq> - ACTION_KILL" "loc_ok c (- dflt)" "- 1 < int (length (buffer c))" using dflt by auto
  obtain c3 n3 where j: "add_jump c BPF_JEQ tarch (- dflt) (- ACTION_KILL) = Some (c3, n3)"
    using f n unfolding finish_def by (auto simp: Let_def elim!: bind_SomeE)
  have e: "- 1 < n3"
    using jump_emitted [OF ok l(2) _ l(1) j] by (auto simp: CURRENT_LOC_def)
  have prog: "filter_code prog = rev (buffer (fst (add_instruction c3 (BPF_STMT (BPF_LD OR BPF_W OR BPF_ABS) 4))))"
    using f n j e add_instruction_simps(4) [of c3] unfolding finish_def
    by (cases "add_instruction c3 (BPF_STMT (BPF_LD OR BPF_W OR BPF_ABS) 4)")
      (auto simp: Let_def elim!: bind_SomeE dest!: add_instructionD)
  show ?thesis
    using arch_check(2) [OF ok l(2,1) l(3) j prog len, of d A X] dflt by (simp add: tgt_def)
qed

end

section \<open>Policies without conditions\<close>

lemma unconditional_rules:
  assumes "ctxt_ok c" "\<forall>r \<in> set rules. action r \<noteq> ACTION_CONDITIONAL \<and> rule_fine d r"
    and "generate_rules c rules = Some (c', n)" "n < 0"
  shows "c' = c"
  using assms
proof (induction rules arbitrary: c c' n rule: length_induct)
  case (1 rules)
  show ?case
  proof (cases "length rules = 1")
    case True
    then obtain rule where "rules = [rule]" by (cases rules) auto
    then show ?thesis using 1(3,4) by (simp add: generate_rules_one generate_action_def)
  next
    case False
    show ?thesis
      using 1(4) False
    proof (cases rule: generate_rules_split)
      case s: (1 c1 lower c2 upper)
      let ?m = "length rules div 2"
      have sub: "set (take ?m rules) \<subseteq> set rules" "set (drop ?m rules) \<subseteq> set rules"
        by (rule set_take_subset, rule set_drop_subset)
      have small: "length (take ?m rules) < length rules" "length (drop ?m rules) < length rules"
        using s(4) by auto
      have lo: "grown c c1 lower {x. x < 0}"
        using generate_rules_grown [OF "1.prems"(1) _ s(1)] "1.prems"(2) sub(1) by blast
      have ok1: "ctxt_ok c1" using lo by (simp add: grown_def)
      have hi: "grown c1 c2 upper {x. x < 0}"
        using generate_rules_grown [OF ok1 _ s(2)] "1.prems"(2) sub(2) by blast
      have ok: "ctxt_ok c2" "loc_ok c2 upper" "loc_ok c2 lower"
        using hi lo grown_loc_ok [OF hi] by (auto simp: grown_def)
      have "c' = c2"
        using add_jump_grows [OF ok s(3)] "1.prems"(4) by (auto simp: CURRENT_LOC_def)
      then have "upper = lower" "n = upper" using add_jump_same [OF ok] s(3) by auto
      then have "c2 = c1" "c1 = c"
        using "1.IH" [rule_format, OF small(2) ok1 _ s(2)] "1.IH" [rule_format, OF small(1) "1.prems"(1) _ s(1)]
          "1.prems"(2,4) sub by blast+
      then show ?thesis using \<open>c' = c2\<close> by simp
    qed
  qed
qed

section \<open>The table's contract\<close>

text \<open>
  \<open>table p fb\<close> is the table of policy \<open>p\<close> with default action \<open>fb\<close>; \<open>fit p fb d\<close> says that the
  policy is within what the compiler handles, for a system call with the arguments of \<open>d\<close>.
\<close>

locale rule_tables =
  fixes table :: "policy \<Rightarrow> int \<Rightarrow> syscall_range_rule list option"
    and fit :: "policy \<Rightarrow> int \<Rightarrow> seccomp_data \<Rightarrow> bool"
  assumes table_answers: "fit p fb d \<Longrightarrow> \<exists>rules. table p fb = Some rules"
    and table_sorted: "fit p fb d \<Longrightarrow> table p fb = Some rules \<Longrightarrow>
      rules \<noteq> [] \<and> sorted_wrt (\<lambda>a b. first_nr a < first_nr b) rules"
    and table_single: "fit p fb d \<Longrightarrow> table p fb = Some [r] \<Longrightarrow> action r \<noteq> ACTION_CONDITIONAL"
    and table_fine: "fit p fb d \<Longrightarrow> table p fb = Some rules \<Longrightarrow> r \<in> set rules \<Longrightarrow> rule_fine d r"
    and table_decides: "fit p fb d \<Longrightarrow> table p fb = Some rules \<Longrightarrow>
      rule_decide d fb (rules_lookup (nr d) rules) = policy_decision p fb d"
    and fit_default: "fit p fb d \<Longrightarrow> 0 < fb"
begin

text \<open>A table of several rules ends in a jump or in one common action.\<close>

lemma rules_location:
  assumes "fit p fb d" "table p fb = Some rules" "generate_rules context_create rules = Some (c, n)"
  shows "ctxt_ok c" and "n < 0 \<or> n = CURRENT_LOC c"
proof -
  note g = generate_rules_grown [OF context_create_ok _ assms(3)]
  have fine: "\<forall>r \<in> set rules. rule_fine d r" using table_fine [OF assms(1,2)] by blast
  show "ctxt_ok c" using g [OF fine] by (simp add: grown_def)
  show "n < 0 \<or> n = CURRENT_LOC c"
  proof (cases "length rules = 1")
    case True
    then obtain r where r: "rules = [r]" by (cases rules) auto
    have u: "action r \<noteq> ACTION_CONDITIONAL" using table_single assms(1,2) r by simp
    then have "n = - action r" using assms(3) r by (simp add: generate_rules_one generate_action_def)
    moreover have "0 < action r" using fine r u valid_action_pos by (auto simp: rule_fine_def)
    ultimately show ?thesis by simp
  qed (use g [OF fine] in blast)
qed

end

locale policy_compiler = bpf_machine exec + rule_tables table fit
  for exec and table and fit
begin

lemma rules_decide:
  assumes "fit p fb d" "table p fb = Some rules" "generate_rules context_create rules = Some (c, n)"
    and "length (buffer c) \<le> 256"
  shows "at_nr d c n (ACTION_TO_BPF (policy_decision p fb d))"
  using generate_rules_exec [OF context_create_ok _ _ assms(3,4), of d fb] table_fine [OF assms(1,2)]
    table_sorted [OF assms(1,2)] table_decides [OF assms(1,2)] by simp

text \<open>If the code ends in one action, every system call is decided that way.\<close>

lemma rules_constant:
  assumes "fit p fb d" "table p fb = Some rules" "generate_rules context_create rules = Some (c, n)"
    and "length (buffer c) \<le> 256" "n < 0"
  shows "ACTION_TO_BPF (policy_decision p fb d) = ACTION_TO_BPF (- n)"
  using rules_decide [OF assms(1-4)] assms(5) by (simp add: at_nr_def tgt_def)

lemma program_decides:
  assumes fit: "fit p fb d" and t: "table p fb = Some rules"
    and g: "generate_rules context_create rules = Some (c, n)"
    and f: "finish c n fb tarch = Some prog" and len: "length (filter_code prog) \<le> 256"
    and cover: "0 \<le> n \<or> buffer c = [] \<and> ACTION_TO_BPF (policy_decision p fb d) = ACTION_TO_BPF fb"
    and short: "length (buffer c) \<le> 256"
  shows "exec d (filter_code prog) A X =
    (if arch d = tarch then ACTION_TO_BPF (policy_decision p fb d) else Some SECCOMP_RET_KILL)"
proof (cases "n < 0")
  case True
  then show ?thesis
    using finish_empty [OF rules_location(1) [OF fit t g] True _ fit_default [OF fit] f len] cover by auto
next
  case False
  then show ?thesis
    using finish_table [OF rules_location(1) [OF fit t g] _ _ rules_decide [OF fit t g short] f len]
      rules_location(2) [OF fit t g] by auto
qed

end

section \<open>Policies within the compiler's reach\<close>

definition filter_fit :: "seccomp_data \<Rightarrow> int \<times> syscall_filter \<Rightarrow> bool" where
  "filter_fit d af \<longleftrightarrow> valid_action (fst af) \<and>
     (case filter_expr (snd af) of None \<Rightarrow> True
      | Some e \<Rightarrow> e = EXPR_TRUE \<or> e = EXPR_FALSE \<or> expr_fine d e)"

definition policy_fit :: "policy \<Rightarrow> int \<Rightarrow> seccomp_data \<Rightarrow> bool" where
  "policy_fit p fb d \<longleftrightarrow> valid_action fb \<and> list_all (filter_fit d) (policy_rules p) \<and>
     conditions_alone (add_policy_rules [] p)"

abbreviation (input) "policy_table p fb \<equiv> normalize_rules (add_policy_rules [] p) fb"

lemma valid_not_conditional: "valid_action a \<Longrightarrow> a \<noteq> ACTION_CONDITIONAL"
  by (auto simp: valid_action_def)

lemma policy_fit_raw:
  assumes "policy_fit p fb d" "s \<in> set (add_policy_rules [] p)"
  shows "raw_rule s" and "action s \<noteq> ACTION_CONDITIONAL \<Longrightarrow> valid_action (action s)"
    and "action s = ACTION_CONDITIONAL \<Longrightarrow> \<exists>e a. expr_list s = [(Some e, a)] \<and> valid_action a \<and> expr_fine d e"
proof -
  obtain a f where af: "(a, f) \<in> set (policy_rules p)" "last_nr s = first_nr s"
    and s: "action s = a \<and> expr_list s = [] \<or> action s = ACTION_CONDITIONAL \<and>
      (\<exists>e. filter_expr f = Some e \<and> e \<noteq> EXPR_TRUE \<and> e \<noteq> EXPR_FALSE \<and> expr_list s = [(Some e, a)])"
    using policy_raws [OF assms(2)] by (auto simp: raw_of_def)
  have fit: "valid_action a" "filter_fit d (a, f)"
    using assms(1) af(1) by (auto simp: policy_fit_def list_all_iff filter_fit_def)
  note nc = valid_not_conditional [OF fit(1)]
  show "raw_rule s" using af(2) s nc by (auto simp: raw_rule_def)
  show "valid_action (action s)" if "action s \<noteq> ACTION_CONDITIONAL" using s that fit(1) by auto
  show "\<exists>e a. expr_list s = [(Some e, a)] \<and> valid_action a \<and> expr_fine d e" if "action s = ACTION_CONDITIONAL"
    using s that fit nc by (auto simp: filter_fit_def)
qed

lemma policy_fit_table:
  assumes fit: "policy_fit p fb d"
  shows "\<exists>rules. policy_table p fb = Some rules \<and> normal_table fb (add_policy_rules [] p) rules"
proof -
  have "numbered (add_policy_rules [] p)"
    using numbered_collected [of "[]" "policy_rules p"] by (simp add: add_policy_rules_fold numbered_def)
  then show ?thesis
    using normalize_rules_ok policy_fit_raw(1) [OF fit] fit valid_not_conditional
    by (auto simp: policy_fit_def)
qed

lemma policy_fit_normal:
  "policy_fit p fb d \<Longrightarrow> policy_table p fb = Some rules \<Longrightarrow> normal_table fb (add_policy_rules [] p) rules"
  using policy_fit_table by fastforce

lemma origin_fine:
  assumes fit: "policy_fit p fb d" and o: "origin fb (add_policy_rules [] p) r"
  shows "rule_fine d r"
proof (cases "action r = ACTION_CONDITIONAL")
  case True
  then obtain s where s: "s \<in> set (add_policy_rules [] p)" "action s = ACTION_CONDITIONAL"
    "expr_list r = expr_list s @ [(None, fb)]" using o by (auto simp: origin_def)
  from policy_fit_raw(3) [OF fit s(1,2)] s(3) True fit show ?thesis
    by (auto simp: rule_fine_def mapping_fine_def policy_fit_def intro!: exI [of _ "expr_list s"])
next
  case False
  then show ?thesis
    using o policy_fit_raw(2) [OF fit] fit by (auto simp: origin_def rule_fine_def policy_fit_def)
qed

interpretation kafel_table: rule_tables policy_table policy_fit
proof (unfold_locales, goal_cases)
  case (1 p fb d)
  then show ?case using policy_fit_table by blast
next
  case (2 p fb d rules)
  then show ?case
    using policy_fit_normal [OF 2] by (simp add: normal_table_def sorted_wrt_map)
next
  case (3 p fb d r)
  then show ?case using policy_fit_normal [OF 3] by (simp add: normal_table_def)
next
  case (4 p fb d rules r)
  then show ?case
    using policy_fit_normal [OF 4(1,2)] origin_fine [OF 4(1)] by (simp add: normal_table_def)
next
  case (5 p fb d rules)
  have "\<forall>af \<in> set (policy_rules p). fst af \<noteq> ACTION_CONDITIONAL"
    using 5(1) valid_not_conditional by (auto simp: policy_fit_def list_all_iff filter_fit_def)
  then show ?case
    using policy_fit_normal [OF 5] policy_raws_decide by (simp add: normal_table_def)
next
  case (6 p fb d)
  then show ?case using valid_action_pos by (simp add: policy_fit_def)
qed

interpretation kafel: policy_compiler bpf_exec policy_table policy_fit
  by unfold_locales

section \<open>The compiler decides like the policy\<close>

lemma vars_clean_nr: "vars_clean (d\<lparr>nr := n\<rparr>) e = vars_clean d e"
  by (induction e) auto

lemma args_clean_nr: "args_clean (d\<lparr>nr := n\<rparr>) e = args_clean d e"
  by (induction e) (auto simp: vars_clean_nr)

lemma policy_fit_nr: "policy_fit p fb (d\<lparr>nr := n\<rparr>) = policy_fit p fb d"
proof -
  have "filter_fit (d\<lparr>nr := n\<rparr>) af = filter_fit d af" for af
    by (auto simp: filter_fit_def expr_fine_def args_clean_nr split: option.splits)
  then show ?thesis by (simp add: policy_fit_def list_all_iff)
qed

text \<open>There are more system call numbers than rules.\<close>

lemma unmentioned_number:
  assumes "length (policy_rules p) < 2 ^ 32"
  shows "\<exists>n. \<forall>d. policy_decision p fb (d\<lparr>nr := n\<rparr>) = fb"
proof -
  let ?m = "(\<lambda>af. syscall_nr (snd af)) ` set (policy_rules p)"
  have "card ?m \<le> length (policy_rules p)"
    using card_image_le [of "set (policy_rules p)"] card_length [of "policy_rules p"] le_trans by blast
  then have "card ?m < CARD(u32)" using assms by (simp add: card_word)
  then have "?m \<noteq> UNIV" by auto
  then obtain n where "n \<notin> ?m" by blast
  then have n: "\<forall>af \<in> set (policy_rules p). syscall_nr (snd af) \<noteq> n" by auto
  have "filters_decide (d\<lparr>nr := n\<rparr>) fb fs = fb" if "\<forall>af \<in> set fs. syscall_nr (snd af) \<noteq> n" for d fs
    using that by (induction fs) (auto simp: filter_matches_def)
  then show ?thesis using n by (auto simp: policy_decision_filters)
qed

lemma compile_policy_steps:
  assumes "compile_policy ctxt = Some prog" "policy_fit (main_of ctxt) (default_of ctxt) d"
  obtains rules c n where "policy_table (main_of ctxt) (default_of ctxt) = Some rules"
    "generate_rules context_create rules = Some (c, n)"
    "finish c n (default_of ctxt) (target_arch ctxt) = Some prog"
    "length (buffer c) \<le> length (filter_code prog)"
proof -
  obtain rules c n where s: "policy_table (main_of ctxt) (default_of ctxt) = Some rules"
    "generate_rules context_create rules = Some (c, n)"
    "finish c n (default_of ctxt) (target_arch ctxt) = Some prog"
    using assms(1) unfolding compile_policy_eq by (auto elim!: bind_SomeE)
  note l = kafel_table.rules_location [OF assms(2) s(1,2)]
  have "loc_ok c n" using l(2) by (auto simp: loc_ok_def CURRENT_LOC_def)
  then show thesis
    using that [OF s] finish_grows [OF l(1) _ kafel_table.fit_default [OF assms(2)] s(3)] by blast
qed

text \<open>C1: A compiled policy decides like the policy, within the compiler's reach. If the compiler
  answers with a program of at most 256 instructions for a policy of fewer than 2^32 rules with
  valid actions and conditions as simplification leaves them, where a rule with a condition that
  comes first for its number is the only one for it and no mask by a second argument is compared
  with a non-constant, and some system call is decided otherwise than by default, then running the
  program on a system call gives the return value of the policy's decision (the target of the
  first matching rule, else the default action), and kills on a foreign architecture. In both
  calls the upper half of a four-byte argument that is compared as 64 bits is clear.\<close>

theorem compile_policy_sound:
  assumes "compile_policy ctxt = Some prog" and "length (filter_code prog) \<le> 256"
    and "p = (case main_policy ctxt of None \<Rightarrow> policy_create ''@main'' None | Some p \<Rightarrow> p)"
    and "dflt = (if default_action ctxt = 0 then ACTION_KILL else default_action ctxt)"
    and "policy_fit p dflt d" and "length (policy_rules p) < 2 ^ 32"
    and "policy_fit p dflt d'" and "ACTION_TO_BPF (policy_decision p dflt d') \<noteq> ACTION_TO_BPF dflt"
  shows "bpf_run d (filter_code prog) =
    (if arch d = target_arch ctxt then ACTION_TO_BPF (policy_decision p dflt d) else Some SECCOMP_RET_KILL)"
proof -
  note fit = assms(5) [unfolded assms(3,4)]
  obtain rules c n where s': "policy_table p dflt = Some rules" "generate_rules context_create rules = Some (c, n)"
    "finish c n dflt (target_arch ctxt) = Some prog" "length (buffer c) \<le> length (filter_code prog)"
    by (rule compile_policy_steps [OF assms(1) fit, folded assms(3,4)])
  then have s: "policy_table p dflt = Some rules" "generate_rules context_create rules = Some (c, n)"
    "finish c n dflt (target_arch ctxt) = Some prog" "length (buffer c) \<le> 256"
    using assms(2) by simp_all
  obtain u where u: "policy_decision p dflt (d\<lparr>nr := u\<rparr>) = dflt" using unmentioned_number [OF assms(6)] by blast
  have fit_u: "policy_fit p dflt (d\<lparr>nr := u\<rparr>)" using assms(5) by (simp add: policy_fit_nr)
  have "0 \<le> n"
  proof (rule ccontr)
    assume "\<not> 0 \<le> n"
    then have "n < 0" by simp
    from kafel.rules_constant [OF assms(7) s(1,2,4) this] kafel.rules_constant [OF fit_u s(1,2,4) this]
    show False using u assms(8) by simp
  qed
  then show ?thesis
    using kafel.program_decides [OF assms(5) s(1-3) assms(2) _ s(4)] by (simp add: bpf_run_def)
qed

text \<open>The policy \<open>ALLOW { read, write { fd == 1 } } DEFAULT KILL\<close> for amd64, and two system calls.\<close>

definition demo_filters :: "syscall_filter list" where
  "demo_filters = [\<lparr>syscall_nr = 0, filter_expr = None\<rparr>,
     \<lparr>syscall_nr = 1, filter_expr = Some (EXPR_BINARY EXPR_EQ (EXPR_VAR 0 4) (EXPR_NUMBER 1))\<rparr>]"

definition demo_ctxt :: kafel_ctxt where
  "demo_ctxt = (kafel_ctxt_create 0xc000003e)
     \<lparr>main_policy := Some (Policy ''@main'' [POLICY_ACTION ACTION_ALLOW demo_filters]),
      default_action := ACTION_KILL\<rparr>"

definition demo_call :: "u32 \<Rightarrow> u64 \<Rightarrow> seccomp_data" where
  "demo_call n a = \<lparr>nr = n, arch = 0xc000003e, instruction_pointer = 0, args = (\<lambda>i. if i = 0 then a else 0)\<rparr>"

lemma demo_fit:
  "policy_fit (Policy ''@main'' [POLICY_ACTION ACTION_ALLOW demo_filters]) ACTION_KILL (demo_call n a)"
proof -
  have "cg_expr (\<lambda>_. 4) (EXPR_BINARY EXPR_EQ (EXPR_VAR 0 4) (EXPR_NUMBER 1))" by simp
  then have "\<exists>sz. cg_expr sz (EXPR_BINARY EXPR_EQ (EXPR_VAR 0 4) (EXPR_NUMBER 1))" by blast
  moreover have "conditions_alone (add_policy_rules [] (Policy ''@main'' [POLICY_ACTION ACTION_ALLOW demo_filters]))"
    by code_simp
  ultimately show ?thesis
    by (simp add: policy_fit_def filter_fit_def expr_fine_def demo_filters_def valid_action_def
        mask_alone_def wide_cmp_def)
qed

lemma demo_program: "\<exists>prog. compile_policy demo_ctxt = Some prog \<and> length (filter_code prog) \<le> 256"
proof -
  have "case compile_policy demo_ctxt of None \<Rightarrow> False | Some prog \<Rightarrow> length (filter_code prog) \<le> 256"
    by code_simp
  then show ?thesis by (auto split: option.splits)
qed

theorem compile_policy_sound_witness:
  "\<exists>prog. compile_policy demo_ctxt = Some prog \<and> length (filter_code prog) \<le> 256 \<and>
     bpf_run (demo_call 1 1) (filter_code prog) = Some SECCOMP_RET_ALLOW"
proof -
  obtain prog where prog: "compile_policy demo_ctxt = Some prog" "length (filter_code prog) \<le> 256"
    using demo_program by blast
  let ?p = "Policy ''@main'' [POLICY_ACTION ACTION_ALLOW demo_filters]"
  have d: "policy_decision ?p ACTION_KILL (demo_call 1 1) = ACTION_ALLOW" by code_simp
  have few: "length (policy_rules ?p) < 2 ^ 32" by (simp add: demo_filters_def)
  have "bpf_run (demo_call 1 1) (filter_code prog) =
      (if arch (demo_call 1 1) = target_arch demo_ctxt
       then ACTION_TO_BPF (policy_decision ?p ACTION_KILL (demo_call 1 1)) else Some SECCOMP_RET_KILL)"
    by (rule compile_policy_sound [OF prog _ _ demo_fit few demo_fit [of 1 1]])
      (simp_all add: d demo_ctxt_def ACTION_TO_BPF_def)
  then show ?thesis
    using prog d by (simp add: demo_call_def demo_ctxt_def kafel_ctxt_create_def ACTION_TO_BPF_def)
qed

text \<open>C2: A policy of fewer than 2^32 rules, all of them without conditions and with valid
  actions, that the compiler answers with a program of at most 256 instructions: running the
  program on any system call gives the return value of the policy's decision, and kills on a
  foreign architecture, also when every system call is decided alike. For longer programs the
  offsets of jumps may be wrong.\<close>

theorem compile_unconditional_sound:
  assumes "compile_policy ctxt = Some prog" and "length (filter_code prog) \<le> 256"
    and "p = (case main_policy ctxt of None \<Rightarrow> policy_create ''@main'' None | Some p \<Rightarrow> p)"
    and "dflt = (if default_action ctxt = 0 then ACTION_KILL else default_action ctxt)"
    and "valid_action dflt" and "length (policy_rules p) < 2 ^ 32"
    and "list_all (\<lambda>(a, f). valid_action a \<and> filter_expr f = None) (policy_rules p)"
  shows "bpf_run d (filter_code prog) =
    (if arch d = target_arch ctxt then ACTION_TO_BPF (policy_decision p dflt d) else Some SECCOMP_RET_KILL)"
proof -
  have u: "action s \<noteq> ACTION_CONDITIONAL" if "s \<in> set (add_policy_rules [] p)" for s
    using policy_raws [OF that] assms(7) valid_not_conditional by (auto simp: raw_of_def list_all_iff)
  have "hd (same_nr n raws) \<in> set raws" if "s \<in> set raws" "n = first_nr s" for s n and raws :: "syscall_range_rule list"
  proof -
    have "s \<in> set (same_nr n raws)" using that by simp
    then have "same_nr n raws \<noteq> []" by (metis empty_iff list.set(1))
    then show ?thesis using hd_in_set by fastforce
  qed
  then have "conditions_alone (add_policy_rules [] p)" using u unfolding conditions_alone_def Let_def by blast
  then have fit: "policy_fit p dflt d" for d
    using assms(5,7) by (auto simp: policy_fit_def filter_fit_def list_all_iff)
  obtain rules c n where s: "policy_table p dflt = Some rules" "generate_rules context_create rules = Some (c, n)"
    "finish c n dflt (target_arch ctxt) = Some prog" "length (buffer c) \<le> length (filter_code prog)"
    by (rule compile_policy_steps [OF assms(1) fit [unfolded assms(3,4)], folded assms(3,4)])
  have short: "length (buffer c) \<le> 256" using s(4) assms(2) by simp
  have "buffer c = [] \<and> ACTION_TO_BPF (policy_decision p dflt d) = ACTION_TO_BPF dflt" if n: "n < 0"
  proof -
    have "action r \<noteq> ACTION_CONDITIONAL \<and> rule_fine d r" if "r \<in> set rules" for r
      using kafel_table.table_fine [OF fit s(1) that] policy_fit_normal [OF fit s(1)] that u
      by (auto simp: normal_table_def origin_def split: if_splits)
    then have "c = context_create" using unconditional_rules [OF context_create_ok _ s(2) n] by blast
    then have "buffer c = []" by (simp add: context_create_def)
    moreover obtain v where "policy_decision p dflt (d\<lparr>nr := v\<rparr>) = dflt" using unmentioned_number [OF assms(6)] by blast
    ultimately show ?thesis
      using kafel.rules_constant [OF fit s(1,2) short n, of d]
        kafel.rules_constant [OF fit s(1,2) short n, of "d\<lparr>nr := v\<rparr>"] by simp
  qed
  then show ?thesis
    using kafel.program_decides [OF fit s(1-3) assms(2) _ short] by (fastforce simp: bpf_run_def)
qed

theorem compile_unconditional_sound_witness:
  "\<exists>prog. compile_policy (kafel_ctxt_create 0xc000003e) = Some prog \<and> length (filter_code prog) \<le> 256 \<and>
     bpf_run (demo_call 60 0) (filter_code prog) = Some SECCOMP_RET_KILL"
proof -
  let ?ctxt = "kafel_ctxt_create 0xc000003e"
  have "case compile_policy ?ctxt of None \<Rightarrow> False | Some prog \<Rightarrow> length (filter_code prog) \<le> 256"
    by code_simp
  then obtain prog where prog: "compile_policy ?ctxt = Some prog" "length (filter_code prog) \<le> 256"
    by (auto split: option.splits)
  have "bpf_run (demo_call 60 0) (filter_code prog) =
      (if arch (demo_call 60 0) = target_arch ?ctxt
       then ACTION_TO_BPF (policy_decision (policy_create ''@main'' None) ACTION_KILL (demo_call 60 0))
       else Some SECCOMP_RET_KILL)"
    by (rule compile_unconditional_sound [OF prog])
      (simp_all add: kafel_ctxt_create_def policy_create_def valid_action_def)
  then show ?thesis
    using prog by (simp add: policy_create_def policy_decision_def ACTION_TO_BPF_def)
qed

end
