(* ===== verification/Kafel_Findings.thy ===== *)
theory Kafel_Findings
  imports Kafel_Compile
begin

unbundle bit_operations_syntax

text \<open>
  Behaviour outside the reach stated for the compiler: how constants are folded, what a stale
  offset, an overwritten index register, dead code and a second rule for a system call do.
\<close>

definition call_of :: "u32 \<Rightarrow> u32 \<Rightarrow> u64 list \<Rightarrow> seccomp_data" where
  "call_of tarch n as = \<lparr>nr = n, arch = tarch, instruction_pointer = 0,
     args = (\<lambda>i. if i < length as then as ! i else 0)\<rparr>"

section \<open>Stale offsets\<close>

text \<open>Resolving a location emits at most one instruction, and the offset to a new one is 0.\<close>

lemma resolve_action_emits:
  assumes "resolve_action c act = Some (c', pos)"
  obtains "c' = c" | v where "ACTION_TO_BPF act = Some v" "pos = 0"
    "buffer c' = buffer c @ [BPF_STMT (BPF_RET OR BPF_K) v]"
proof -
  obtain v where v: "ACTION_TO_BPF act = Some v" using assms by (auto simp: resolve_action_def)
  have "c' = c \<or> pos = 0 \<and> buffer c' = buffer c @ [BPF_STMT (BPF_RET OR BPF_K) v]"
    using assms v
    by (auto simp: resolve_action_def resolve_basic_def resolve_cached_def purge_location_cache_def
        add_instruction_def jump_offset_def LOC_TO_JUMP_def CURRENT_LOC_def Let_def split: if_splits option.splits)
  then show thesis using that v by blast
qed

lemma resolve_location_emits:
  assumes "resolve_location c loc = Some (c', pos)"
  shows "c' = c \<or> pos = 0 \<and> (\<exists>i. buffer c' = buffer c @ [i])"
proof (cases "loc < 0")
  case True
  then show ?thesis using assms by (auto simp: resolve_location_def elim!: resolve_action_emits)
next
  case False
  then show ?thesis using assms
    by (auto simp: resolve_location_def add_instruction_def LOC_TO_JUMP_def CURRENT_LOC_def Let_def split: if_splits)
qed

text \<open>An action just resolved is in reach.\<close>

lemma cache_find_append: "act \<notin> fst ` set es \<Longrightarrow> cache_find act (es @ [(act, l)]) = Some (length es)"
  by (induction es) auto

lemma cache_find_update: "cache_find act es = Some i \<Longrightarrow> cache_find act (es[i := (act, l)]) = Some i"
  by (induction es arbitrary: i) (auto split: if_splits)

lemma resolve_action_again:
  assumes "ctxt_ok c" and "0 < act" and "resolve_action c act = Some (c', pos)"
  shows "\<exists>p. resolve_action c' act = Some (c', p)"
proof -
  obtain v where v: "ACTION_TO_BPF act = Some v" using assms(3) by (auto simp: resolve_action_def)
  have six: "length (basic_actions c) = 6" using assms(1) by (simp add: ctxt_ok_def)
  show ?thesis
  proof (cases "act \<le> ACTION_BASIC_MAX")
    case True
    then show ?thesis using assms(2,3) v six
      by (auto simp: resolve_action_def resolve_basic_def add_instruction_def LOC_TO_JUMP_def CURRENT_LOC_def Let_def
          split: if_splits)
  next
    case False
    show ?thesis
    proof (cases "cache_find act (cache c)")
      case None
      let ?es = "filter (\<lambda>(act, loc). LOC_TO_JUMP c loc < MAX_JUMP) (cache c)"
      have "act \<notin> fst ` set ?es" using None cache_find_None by fastforce
      from cache_find_append [OF this] show ?thesis using assms(3) v False None
        by (auto simp: resolve_action_def resolve_cached_def purge_location_cache_def add_instruction_def
            LOC_TO_JUMP_def CURRENT_LOC_def Let_def split: if_splits)
    next
      case (Some i)
      show ?thesis using assms(3) v False Some cache_find_Some [OF Some] cache_find_update [OF Some]
        by (auto simp: resolve_action_def resolve_cached_def add_instruction_def
            LOC_TO_JUMP_def CURRENT_LOC_def Let_def split: if_splits)
    qed
  qed
qed

text \<open>C13: \<open>add_jump\<close> resolves the true destination again after the false one. Whenever this second
  resolution of an action emits an instruction, the offset of the false destination is one short
  and leads to that instruction: the conditional jump then ends in the action of its true
  destination, whatever is compared and whatever the false destination is.\<close>

theorem false_offset_goes_stale:
  assumes "ctxt_ok c" and "tloc < 0" and "\<not> jump_settled c tloc floc"
    and "add_jump c (op OR src) v tloc floc = Some (c', n)"
    and "op \<in> {BPF_JEQ, BPF_JGT, BPF_JGE, BPF_JSET}" and "src = BPF_K \<or> src = BPF_X"
  shows "bpf_exec d (rev (buffer c')) A X = ACTION_TO_BPF (- tloc)"
  using assms(4)
proof (cases rule: add_jumpE)
  case same
  then show ?thesis using assms(3) by (simp add: jump_settled_def)
next
  case (jump c1 p1 c2 p2 c3 p3)
  have unsettled: "buffer c3 \<noteq> buffer c2" using assms(3) jump by (auto simp: jump_settled_def)
  have "c2 \<noteq> c1"
    using resolve_action_again [OF assms(1), of "- tloc" c1 p1] unsettled jump assms(2) by (auto simp: resolve_location_def)
  then have p2: "p2 = 0" using resolve_location_emits [OF jump(3)] by simp
  have "resolve_action c2 (- tloc) = Some (c3, p3)" using jump(4) assms(2) by (simp add: resolve_location_def)
  then obtain u where u: "ACTION_TO_BPF (- tloc) = Some u" "p3 = 0" "buffer c3 = buffer c2 @ [BPF_STMT (BPF_RET OR BPF_K) u]"
    using unsettled by (auto elim: resolve_action_emits)
  have "rev (buffer c') = BPF_JUMP (BPF_JMP OR (op OR src)) v 0 0 # BPF_STMT (BPF_RET OR BPF_K) u # rev (buffer c2)"
    using add_instructionD [OF jump(5)] u p2 by simp
  then show ?thesis
    using u(1) assms(5,6) bpf_exec_jump_k [of op d v 0 0] bpf_exec_jump_x [of op d v 0 0]
    by (auto simp: bpf_exec_stmt [simplified])
qed

definition far_ctxt :: codegen_ctxt where
  "far_ctxt = \<lparr>buffer = BPF_STMT (BPF_RET OR BPF_K) SECCOMP_RET_ALLOW #
       replicate 255 (BPF_STMT (BPF_LD OR BPF_W OR BPF_ABS) 0),
     basic_actions = (replicate 6 INVALID_LOCATION)[2 := 0], cache = []\<rparr>"

theorem false_offset_goes_stale_witness:
  "map_option (\<lambda>(c', n). bpf_exec (call_of 0 0 []) (rev (buffer c')) 0 0)
     (add_jump far_ctxt (BPF_JEQ OR BPF_K) 1 (- ACTION_ALLOW) (- ACTION_KILL)) = Some (Some SECCOMP_RET_ALLOW)"
proof -
  have "add_jump far_ctxt (BPF_JEQ OR BPF_K) 1 (- ACTION_ALLOW) (- ACTION_KILL) \<noteq> None" by code_simp
  then obtain c' n where j: "add_jump far_ctxt (BPF_JEQ OR BPF_K) 1 (- ACTION_ALLOW) (- ACTION_KILL) = Some (c', n)" by auto
  have ok: "ctxt_ok far_ctxt"
    by (auto simp: ctxt_ok_def returns_at_def loc_ok_def far_ctxt_def ACTION_TO_BPF_def less_Suc_eq numeral_eq_Suc)
  have far: "\<not> jump_settled far_ctxt (- ACTION_ALLOW) (- ACTION_KILL)" by code_simp
  have "bpf_exec (call_of 0 0 []) (rev (buffer c')) 0 0 = ACTION_TO_BPF (- (- ACTION_ALLOW))"
    by (rule false_offset_goes_stale [OF ok _ far j]) simp_all
  then show ?thesis using j by (simp add: ACTION_TO_BPF_def)
qed

section \<open>An overwritten index register\<close>

lemma mask_cmp32:
  assumes "ctxt_ok c" and "i < 6" and "j < 6" and "tloc < 0" and "floc < 0" and "tloc \<noteq> floc"
    and "op \<in> {BPF_JEQ, BPF_JGT, BPF_JGE}"
    and g: "generate_cmp32 c op (EXPR_BINARY EXPR_BIT_AND (EXPR_VAR i 4) (EXPR_VAR j 4)) (EXPR_VAR h 4) tloc floc
      LOW_WORD NORMAL = Some (c', n)" and "h < 6" and "length (buffer c') \<le> 256"
  shows "bpf_exec d (rev (buffer c')) A X = ACTION_TO_BPF (-
    (if bpf_jump_taken op (lo32 (args d i) AND lo32 (args d j)) (lo32 (args d j)) then tloc else floc))"
proof -
  obtain c1 n1 where j: "add_jump c (op OR BPF_X) 0 tloc floc = Some (c1, n1)"
    using g by (cases "add_jump c (op OR BPF_X) 0 tloc floc")
      (auto simp: generate_cmp32_def cmp32_jset_def cmp32_emit_def ADD_JUMP_X_def)
  have l: "loc_ok c tloc" "loc_ok c floc" using assms(4,5) by simp_all
  have up: "n1 = CURRENT_LOC c1" "CURRENT_LOC c < n1" "buffer c1 \<noteq> []"
    using add_jump_grows [OF assms(1) l j] add_jump_same [OF assms(1) l] assms(6) j
    by (auto simp: CURRENT_LOC_def)
  have c': "rev (buffer c') = BPF_STMT (BPF_LD OR BPF_W OR BPF_ABS) (ARG_WORD h LOW_WORD) #
      BPF_STMT (BPF_MISC OR BPF_TAX) 0 # BPF_STMT (BPF_LD OR BPF_W OR BPF_ABS) (ARG_WORD j LOW_WORD) #
      BPF_STMT (BPF_MISC OR BPF_TAX) 0 # BPF_STMT (BPF_LD OR BPF_W OR BPF_ABS) (ARG_WORD i LOW_WORD) #
      BPF_STMT (BPF_ALU OR BPF_AND OR BPF_X) 0 # rev (buffer c1)"
    using g j up by (auto simp: generate_cmp32_def cmp32_jset_def cmp32_emit_def ADD_JUMP_X_def generate_load.simps
        add_instruction_def Let_def)
  then have "bpf_exec d (rev (buffer c')) A X =
      bpf_exec d (rev (buffer c1)) (lo32 (args d i) AND lo32 (args d j)) (lo32 (args d j))"
    by (simp only: c' bpf_exec_stmt seccomp_load_arg [OF assms(2)] seccomp_load_arg [OF assms(3)]
        seccomp_load_arg [OF assms(9)] option.case NUM_WORD_def word_sel.distinct if_False)
  also have "\<dots> = bpf.tgt d c1 n1 (lo32 (args d i) AND lo32 (args d j)) (lo32 (args d j))"
    unfolding up(1) bpf.tgt_current [OF up(3)] ..
  also have "\<dots> = bpf.tgt d c (if bpf_jump_taken op (lo32 (args d i) AND lo32 (args d j)) (lo32 (args d j))
      then tloc else floc) (lo32 (args d i) AND lo32 (args d j)) (lo32 (args d j))"
  proof -
    have len: "length (buffer c1) \<le> 256" using arg_cong [OF c', of length] assms(10) by simp
    show ?thesis
      using bpf.add_jump_exec [OF assms(1) l j short_jump_settled [OF assms(1) l j len]] assms(7) len by auto
  qed
  finally show ?thesis using assms(4,5) by (simp add: bpf.tgt_def)
qed

text \<open>C14: In a comparison of a mask of two arguments with a third one, loading the mask overwrites the
  index register that holds the third: the code emitted for \<open>(i & j) op h\<close> on four-byte arguments,
  with two different actions as destinations, decides \<open>(i & j) op j\<close>, for every comparison \<open>op\<close> and
  every system call.\<close>

theorem mask_overwrites_operand:
  assumes "ctxt_ok c" and "i < 6" and "j < 6" and "h < 6" and "tloc < 0" and "floc < 0" and "tloc \<noteq> floc"
    and "bop \<in> {EXPR_LE, EXPR_GT, EXPR_LT, EXPR_GE, EXPR_NEQ, EXPR_EQ}"
    and "generate_expr c (EXPR_BINARY bop (EXPR_BINARY EXPR_BIT_AND (EXPR_VAR i 4) (EXPR_VAR j 4)) (EXPR_VAR h 4))
      tloc floc = Some (c', n)" and "length (buffer c') \<le> 256"
  shows "bpf_exec d (rev (buffer c')) A X = ACTION_TO_BPF (-
    (if expr_holds d (EXPR_BINARY bop (EXPR_BINARY EXPR_BIT_AND (EXPR_VAR i 4) (EXPR_VAR j 4)) (EXPR_VAR j 4))
     then tloc else floc))"
proof -
  let ?l = "EXPR_BINARY EXPR_BIT_AND (EXPR_VAR i 4) (EXPR_VAR j 4)"
  have narrow: "is_64bit ?l = Some False" "is_64bit (EXPR_VAR h 4) = Some False" by simp_all
  have vals: "expr_value d ?l = ucast (lo32 (args d i) AND lo32 (args d j))"
    "expr_value d (EXPR_VAR j 4) = ucast (lo32 (args d j))"
    by (simp_all add: arg_value_def unsigned_and_eq)
  note run = mask_cmp32 [OF assms(1-3) _ _ _ _ _ assms(4) assms(10), of _ _ _ n d A X]
  have cmp: "generate_inequality c op ?l (EXPR_VAR h 4) t f = generate_cmp32 c op ?l (EXPR_VAR h 4) t f LOW_WORD NORMAL"
    "generate_equality c ?l (EXPR_VAR h 4) t f = generate_cmp32 c BPF_JEQ ?l (EXPR_VAR h 4) t f LOW_WORD NORMAL" for op t f
    unfolding generate_inequality_def generate_equality_def narrow by (simp_all add: split_def Let_def)
  have word: "(ucast a :: u64) < ucast b \<longleftrightarrow> a < b" "(ucast a :: u64) \<le> ucast b \<longleftrightarrow> a \<le> b"
    "(ucast a :: u64) = ucast b \<longleftrightarrow> a = b" for a b :: u32
    by (simp_all add: word_less_nat_alt word_le_nat_alt unat_ucast_32_64 word_unat_eq_iff)
  let ?x = "lo32 (args d i) AND lo32 (args d j)" and ?y = "lo32 (args d j)"
  have holds: "expr_holds d (EXPR_BINARY bop ?l (EXPR_VAR j 4)) = compare_values bop (ucast ?x) (ucast ?y)"
    using assms(8) vals by auto
  define decided where "decided op t f \<longleftrightarrow> generate_cmp32 c op ?l (EXPR_VAR h 4) t f LOW_WORD NORMAL = Some (c', n) \<and>
    t < 0 \<and> f < 0 \<and> t \<noteq> f \<and> (if bpf_jump_taken op ?x ?y then t else f) =
      (if compare_values bop (ucast ?x) (ucast ?y) then tloc else floc)" for op t f
  note defs = decided_def cmp word bpf_jump_taken_def
  have "decided BPF_JGT floc tloc \<or> decided BPF_JGT tloc floc \<or> decided BPF_JGE floc tloc \<or> decided BPF_JGE tloc floc \<or>
      decided BPF_JEQ floc tloc \<or> decided BPF_JEQ tloc floc"
    using assms(8)
  proof (elim insertE emptyE)
    assume "bop = EXPR_LE"
    then have "decided BPF_JGT floc tloc" using assms(5-7,9) by (auto simp: defs)
    then show ?thesis by blast
  next
    assume "bop = EXPR_GT"
    then have "decided BPF_JGT tloc floc" using assms(5-7,9) by (auto simp: defs)
    then show ?thesis by blast
  next
    assume "bop = EXPR_LT"
    then have "decided BPF_JGE floc tloc" using assms(5-7,9) by (auto simp: defs)
    then show ?thesis by blast
  next
    assume "bop = EXPR_GE"
    then have "decided BPF_JGE tloc floc" using assms(5-7,9) by (auto simp: defs)
    then show ?thesis by blast
  next
    assume "bop = EXPR_NEQ"
    then have "decided BPF_JEQ floc tloc" using assms(5-7,9) by (auto simp: defs)
    then show ?thesis by blast
  next
    assume "bop = EXPR_EQ"
    then have "decided BPF_JEQ tloc floc" using assms(5-7,9) by (auto simp: defs)
    then show ?thesis by blast
  qed
  then obtain op t f where "decided op t f" "op \<in> {BPF_JEQ, BPF_JGT, BPF_JGE}" by blast
  then show ?thesis using run [of t f op] holds by (auto simp: decided_def)
qed

theorem mask_overwrites_operand_witness:
  "map_option (\<lambda>(c', n). bpf_exec (call_of 0 0 [3, 1, 7]) (rev (buffer c')) 0 0)
     (generate_expr context_create (EXPR_BINARY EXPR_EQ (EXPR_BINARY EXPR_BIT_AND (EXPR_VAR 0 4) (EXPR_VAR 1 4)) (EXPR_VAR 2 4))
       (- ACTION_ALLOW) (- ACTION_KILL)) = Some (Some SECCOMP_RET_ALLOW)"
proof -
  let ?e = "EXPR_BINARY EXPR_EQ (EXPR_BINARY EXPR_BIT_AND (EXPR_VAR 0 4) (EXPR_VAR 1 4)) (EXPR_VAR 2 4)"
  have "map_option (\<lambda>(c', n). length (buffer c') \<le> 256) (generate_expr context_create ?e (- ACTION_ALLOW) (- ACTION_KILL))
      = Some True" by code_simp
  then obtain c' n where g: "generate_expr context_create ?e (- ACTION_ALLOW) (- ACTION_KILL) = Some (c', n)"
    "length (buffer c') \<le> 256" by auto
  have "bpf_exec (call_of 0 0 [3, 1, 7]) (rev (buffer c')) 0 0 = ACTION_TO_BPF (- (if expr_holds (call_of 0 0 [3, 1, 7])
      (EXPR_BINARY EXPR_EQ (EXPR_BINARY EXPR_BIT_AND (EXPR_VAR 0 4) (EXPR_VAR 1 4)) (EXPR_VAR 1 4))
     then - ACTION_ALLOW else - ACTION_KILL))"
    by (rule mask_overwrites_operand [OF context_create_ok _ _ _ _ _ _ _ g]) simp_all
  then show ?thesis using g(1) by (simp add: ACTION_TO_BPF_def call_of_def arg_value_def lo32_def)
qed

section \<open>Constants\<close>

fun no_args :: "expr_tree \<Rightarrow> bool" where
  "no_args (EXPR_VAR v s) = False"
| "no_args (EXPR_NOT e) = no_args e"
| "no_args (EXPR_BINARY bop l r) = (no_args l \<and> no_args r)"
| "no_args _ = True"

text \<open>The same expression with all numbers cut to 32 bits.\<close>

fun low_numbers :: "expr_tree \<Rightarrow> expr_tree" where
  "low_numbers (EXPR_NUMBER n) = EXPR_NUMBER (ucast (lo32 n))"
| "low_numbers (EXPR_NOT e) = EXPR_NOT (low_numbers e)"
| "low_numbers (EXPR_BINARY bop l r) = EXPR_BINARY bop (low_numbers l) (low_numbers r)"
| "low_numbers e = e"

lemma constant_operand:
  assumes "is_masked sz e" and "no_args e"
  shows "\<exists>m. expr_precompute_eliminate (expr_sort_operands e) = Some (EXPR_NUMBER m) \<and>
    expr_value d (low_numbers e) = ucast (lo32 m)"
  using assms(1)
proof (cases rule: masked_cases)
  case op
  then show ?thesis by (cases rule: operand_cases) (use assms(2) in auto)
next
  case (mask l r)
  from mask(2) obtain a where "l = EXPR_NUMBER a" by (cases rule: operand_cases) (use assms(2) mask(1) in auto)
  moreover from mask(3) obtain b where "r = EXPR_NUMBER b" by (cases rule: operand_cases) (use assms(2) mask(1) in auto)
  ultimately show ?thesis by (simp add: mask(1) precompute_node_def unsigned_and_eq)
qed

lemma fold_low:
  "comparison bop \<Longrightarrow> expr_eval bop (ucast a) (ucast b) =
     Some (expr_boolean (compare_values bop (ucast (lo32 a)) (ucast (lo32 b))))"
  using fold_compare [of bop "ucast (lo32 a)" "ucast (lo32 b)"] by (simp add: lo32_def [symmetric])

lemma constants_folded:
  "is_bool_expr sz e \<Longrightarrow> no_args e \<Longrightarrow>
   expr_precompute_eliminate (expr_sort_operands (expr_eliminate_negation e neg)) =
     Some (expr_boolean (expr_holds d (low_numbers e) \<noteq> neg))"
proof (induction e neg rule: expr_eliminate_negation.induct)
  case (2 bop l r neg)
  show ?case
  proof (cases "bop = EXPR_AND \<or> bop = EXPR_OR")
    case True
    then show ?thesis using 2
      by (auto simp: negate_op_def precompute_node_def eliminate_connective_def expr_boolean_def)
  next
    case False
    with 2 have c: "comparison bop" "comparison (negate_op neg bop)" "comparison (swapped (negate_op neg bop))"
      using negate_op_connective [of neg bop] by (cases bop; auto simp: negate_op_def)+
    from 2(3,4) False obtain a b where
      ab: "expr_precompute_eliminate (expr_sort_operands l) = Some (EXPR_NUMBER a)" "expr_value d (low_numbers l) = ucast (lo32 a)"
      "expr_precompute_eliminate (expr_sort_operands r) = Some (EXPR_NUMBER b)" "expr_value d (low_numbers r) = ucast (lo32 b)"
      using constant_operand [of sz l d] constant_operand [of sz r d] by auto
    have "expr_holds d (low_numbers (EXPR_BINARY bop l r)) = compare_values bop (ucast (lo32 a)) (ucast (lo32 b))"
      using c(1) ab by (simp add: expr_holds_compare)
    then show ?thesis
      using False c ab by (simp add: precompute_node_def fold_low compare_swapped compare_negated)
  qed
qed auto

text \<open>C16: A condition without arguments is folded to TRUE or FALSE, and by the low 32 bits of its numbers:
  it becomes TRUE exactly if it holds with all numbers cut to 32 bits. So \<open>0x100000000 == 0\<close>
  simplifies to TRUE.\<close>

theorem constants_folded_in_32_bits:
  assumes "is_bool_expr sz e" and "no_args e"
  shows "expr_simplify e = Some (if expr_holds d (low_numbers e) then EXPR_TRUE else EXPR_FALSE)"
  using constants_folded [OF assms, of False d] by (simp add: expr_simplify_def expr_boolean_def)

theorem constants_folded_in_32_bits_witness:
  "expr_simplify (EXPR_NOT (EXPR_BINARY EXPR_NEQ (EXPR_NUMBER 0x100000000) (EXPR_NUMBER 0))) = Some EXPR_TRUE \<and>
   \<not> expr_holds (call_of 0 0 []) (EXPR_NOT (EXPR_BINARY EXPR_NEQ (EXPR_NUMBER 0x100000000) (EXPR_NUMBER 0)))"
  using constants_folded_in_32_bits [of "\<lambda>_. 4" "EXPR_NOT (EXPR_BINARY EXPR_NEQ (EXPR_NUMBER 0x100000000) (EXPR_NUMBER 0))"
    "call_of 0 0 []"] by (simp add: lo32_def)

section \<open>Dead code\<close>

definition policy_ctxt :: "(u32 \<times> expr_tree option) list \<Rightarrow> kafel_ctxt" where
  "policy_ctxt fs = (kafel_ctxt_create 0xc000003e)
     \<lparr>main_policy := Some (Policy ''@main'' [POLICY_ACTION ACTION_ALLOW
        (map (\<lambda>(n, e). \<lparr>syscall_nr = n, filter_expr = e\<rparr>) fs)]),
      default_action := ACTION_KILL\<rparr>"

text \<open>The table of a policy that allows one system call under a condition.\<close>

lemma one_condition_table:
  assumes "0 < n" and "n < MAX_SYSCALL_NR" and "e \<noteq> EXPR_TRUE" and "e \<noteq> EXPR_FALSE"
  shows "normalize_rules (add_policy_rules [] (Policy nm [POLICY_ACTION ACTION_ALLOW
      [\<lparr>syscall_nr = n, filter_expr = Some e\<rparr>]])) ACTION_KILL =
    Some [filler_rule 0 (n - 1) ACTION_KILL,
      \<lparr>first_nr = n, last_nr = n, action = ACTION_CONDITIONAL, priority = 1,
       expr_list = [(Some e, ACTION_ALLOW), (None, ACTION_KILL)]\<rparr>,
      filler_rule (n + 1) MAX_SYSCALL_NR ACTION_KILL]"
  using assms
  by (simp add: normalize_rules_def sort_range_rules_def qsort_def normalize_rules_count_missing_def close_first_def
      close_last_def add_missing_rules_def normalize_expr_list_def rule_add_expr_def filler_rule_def add_filter_rule_def
      add_range_rule_def Let_def word_gt_0)

text \<open>When its condition folds to the default action, all that is left of the rules is that action.\<close>

lemma one_condition_rules:
  assumes "generate_expr context_create e (- ACTION_ALLOW) (- ACTION_KILL) = Some (c, - ACTION_KILL)"
  shows "generate_rules context_create [filler_rule 0 (n - 1) ACTION_KILL,
      \<lparr>first_nr = n, last_nr = n, action = ACTION_CONDITIONAL, priority = 1,
       expr_list = [(Some e, ACTION_ALLOW), (None, ACTION_KILL)]\<rparr>,
      filler_rule (n + 1) MAX_SYSCALL_NR ACTION_KILL] = Some (c, - ACTION_KILL)"
  using assms by (simp add: generate_rules.simps generate_action_def add_jump_def filler_rule_def)

text \<open>A mask of upper bits compared with a number that has lower ones.\<close>

lemma word_mask_folds:
  assumes "lo32 m = 0" and "lo32 v \<noteq> 0" and "floc < 0"
  shows "generate_equality c (EXPR_BINARY EXPR_BIT_AND (EXPR_VAR i 8) (EXPR_NUMBER m)) (EXPR_NUMBER v) tloc floc = Some (c, floc)"
  using assms
  by (auto simp: generate_equality_def generate_cmp32_def evaluate_jump_def NUM_WORD_def cmp32_jset_def cmp32_emit_def
      ADD_JUMP_K_def add_jump_set_def add_jump_def CURRENT_LOC_def Let_def)

lemma arg_equality_code:
  "generate_equality context_create (EXPR_VAR j 8) (EXPR_NUMBER w) (- ACTION_ALLOW) (- ACTION_KILL) =
   Some (\<lparr>buffer = rev [BPF_STMT (BPF_LD OR BPF_W OR BPF_ABS) (ARG_WORD j HIGH_WORD),
       BPF_JUMP (BPF_JMP OR (BPF_JEQ OR BPF_K)) (hi32 w) 0 2, BPF_STMT (BPF_LD OR BPF_W OR BPF_ABS) (ARG_WORD j LOW_WORD),
       BPF_JUMP (BPF_JMP OR (BPF_JEQ OR BPF_K)) (lo32 w) 1 0, BPF_STMT (BPF_RET OR BPF_K) SECCOMP_RET_KILL,
       BPF_STMT (BPF_RET OR BPF_K) SECCOMP_RET_ALLOW],
     basic_actions = (replicate 6 INVALID_LOCATION)[2 := 0, 1 := 1], cache = []\<rparr>, 5)"
  by (simp add: generate_equality_def generate_cmp32_def NUM_WORD_def cmp32_jset_def cmp32_emit_def generate_load.simps
      ADD_JUMP_K_def add_jump_def resolve_location_def resolve_action_def resolve_basic_def ACTION_TO_BPF_def
      jump_offset_def LOC_TO_JUMP_def CURRENT_LOC_def add_instruction_def context_create_def Let_def)

lemma arg_equality_run:
  assumes "j < 6"
  shows "bpf_exec d [BPF_STMT (BPF_LD OR BPF_W OR BPF_ABS) (ARG_WORD j HIGH_WORD),
       BPF_JUMP (BPF_JMP OR (BPF_JEQ OR BPF_K)) (hi32 w) 0 2, BPF_STMT (BPF_LD OR BPF_W OR BPF_ABS) (ARG_WORD j LOW_WORD),
       BPF_JUMP (BPF_JMP OR (BPF_JEQ OR BPF_K)) (lo32 w) 1 0, BPF_STMT (BPF_RET OR BPF_K) SECCOMP_RET_KILL,
       BPF_STMT (BPF_RET OR BPF_K) SECCOMP_RET_ALLOW] A X =
     Some (if args d j = w then SECCOMP_RET_ALLOW else SECCOMP_RET_KILL)"
  using seccomp_load_arg [OF assms, of d]
  by (simp add: bpf_exec.simps(2) BPF_STMT_def BPF_JUMP_def bpf_jump_taken_def NUM_WORD_def eq_split32 [of "args d j"])

lemma collapsed_program:
  assumes "main_policy ctxt = Some p" and "default_action ctxt = ACTION_KILL"
    and "normalize_rules (add_policy_rules [] p) ACTION_KILL = Some rules"
    and "generate_rules context_create rules = Some (c, - ACTION_KILL)"
    and "resolve_location c (- ACTION_KILL) = Some (c, pos)"
  shows "map_option filter_code (compile_policy ctxt) = Some (rev (buffer c))"
  using assms(3-5) by (simp add: compile_policy_def assms(1,2) context_create_def CURRENT_LOC_def add_jump_def Let_def)

text \<open>C12: A rule whose condition folds to false only at the level of words leaves code behind. In
  \<open>ALLOW { n { (i & m) == v && j == w } } DEFAULT KILL\<close>, where \<open>m\<close> has no lower bits and \<open>v\<close> has some,
  the policy allows nothing. But the code emitted for \<open>j == w\<close> becomes the program: it allows every
  system call of every number on every architecture whose argument \<open>j\<close> is \<open>w\<close>.\<close>

theorem dead_code_becomes_program:
  assumes "lo32 m = 0" and "lo32 v \<noteq> 0" and "0 < n" and "n < MAX_SYSCALL_NR" and "i < 6" and "j < 6"
    and "ctxt = policy_ctxt [(n, Some (EXPR_BINARY EXPR_AND
       (EXPR_BINARY EXPR_EQ (EXPR_BINARY EXPR_BIT_AND (EXPR_VAR i 8) (EXPR_NUMBER m)) (EXPR_NUMBER v))
       (EXPR_BINARY EXPR_EQ (EXPR_VAR j 8) (EXPR_NUMBER w))))]"
  shows "map_option (\<lambda>p. policy_decision p ACTION_KILL d) (main_policy ctxt) = Some ACTION_KILL \<and>
    map_option (\<lambda>prog. bpf_run d (filter_code prog)) (compile_policy ctxt) =
      Some (Some (if args d j = w then SECCOMP_RET_ALLOW else SECCOMP_RET_KILL))"
proof -
  let ?e = "EXPR_BINARY EXPR_AND
       (EXPR_BINARY EXPR_EQ (EXPR_BINARY EXPR_BIT_AND (EXPR_VAR i 8) (EXPR_NUMBER m)) (EXPR_NUMBER v))
       (EXPR_BINARY EXPR_EQ (EXPR_VAR j 8) (EXPR_NUMBER w))"
  have "(x AND m) \<noteq> v" for x using assms(1,2) lo32_and [of x m] by auto
  then have decision: "policy_decision (Policy ''@main'' [POLICY_ACTION ACTION_ALLOW [\<lparr>syscall_nr = n, filter_expr = Some ?e\<rparr>]])
      ACTION_KILL d = ACTION_KILL"
    by (simp add: policy_decision_def filter_matches_def arg_value_def)
  have rules: "normalize_rules (add_policy_rules [] (Policy ''@main'' [POLICY_ACTION ACTION_ALLOW
      [\<lparr>syscall_nr = n, filter_expr = Some ?e\<rparr>]])) ACTION_KILL = Some [filler_rule 0 (n - 1) ACTION_KILL,
      \<lparr>first_nr = n, last_nr = n, action = ACTION_CONDITIONAL, priority = 1,
       expr_list = [(Some ?e, ACTION_ALLOW), (None, ACTION_KILL)]\<rparr>,
      filler_rule (n + 1) MAX_SYSCALL_NR ACTION_KILL]"
    by (rule one_condition_table [OF assms(3,4)]) simp_all
  have "generate_expr context_create ?e (- ACTION_ALLOW) (- ACTION_KILL) = Some (c, - ACTION_KILL)"
    if "generate_equality context_create (EXPR_VAR j 8) (EXPR_NUMBER w) (- ACTION_ALLOW) (- ACTION_KILL) = Some (c, 5)" for c
    using that word_mask_folds [OF assms(1,2)] by simp
  note this [OF arg_equality_code]
  note one_condition_rules [OF this, of n]
  from collapsed_program [OF _ _ rules this, of ctxt]
  have "map_option filter_code (compile_policy ctxt) = Some [BPF_STMT (BPF_LD OR BPF_W OR BPF_ABS) (ARG_WORD j HIGH_WORD),
       BPF_JUMP (BPF_JMP OR (BPF_JEQ OR BPF_K)) (hi32 w) 0 2, BPF_STMT (BPF_LD OR BPF_W OR BPF_ABS) (ARG_WORD j LOW_WORD),
       BPF_JUMP (BPF_JMP OR (BPF_JEQ OR BPF_K)) (lo32 w) 1 0, BPF_STMT (BPF_RET OR BPF_K) SECCOMP_RET_KILL,
       BPF_STMT (BPF_RET OR BPF_K) SECCOMP_RET_ALLOW]"
    by (simp add: assms(7) policy_ctxt_def resolve_location_def resolve_action_def resolve_basic_def ACTION_TO_BPF_def
        LOC_TO_JUMP_def CURRENT_LOC_def)
  then show ?thesis
    using arg_equality_run [OF assms(6), of d w 0 0] decision
    by (cases "compile_policy ctxt") (simp_all add: assms(7) policy_ctxt_def bpf_run_def)
qed

theorem dead_code_becomes_program_witness:
  "let ctxt = policy_ctxt [(1, Some (EXPR_BINARY EXPR_AND
       (EXPR_BINARY EXPR_EQ (EXPR_BINARY EXPR_BIT_AND (EXPR_VAR 1 8) (EXPR_NUMBER 0x100000000)) (EXPR_NUMBER 1))
       (EXPR_BINARY EXPR_EQ (EXPR_VAR 2 8) (EXPR_NUMBER 5))))];
     d = call_of 0x40000003 77 [0, 0, 5]
   in map_option (\<lambda>p. policy_decision p ACTION_KILL d) (main_policy ctxt) = Some ACTION_KILL \<and>
      map_option (\<lambda>prog. bpf_run d (filter_code prog)) (compile_policy ctxt) = Some (Some SECCOMP_RET_ALLOW)"
  unfolding Let_def
  using dead_code_becomes_program [where m = "0x100000000" and v = 1 and n = 1 and i = 1 and j = 2 and w = 5 and
      d = "call_of 0x40000003 77 [0, 0, 5]", OF _ _ _ _ _ _ refl]
  by (simp add: lo32_def call_of_def)

section \<open>Further rules for a system call\<close>

text \<open>C15: Rules with conditions after another one for the same system call are dropped, when a lower
  number has a rule as well: the default action is appended to the conditions of the first one
  before the others are read. So for rules as they are collected where each number whose first rule
  has a condition has this rule alone, or further rules with conditions and a lower number beside
  it, the table decides every call by the first rule for its number, and by the default action when
  the condition of that rule does not hold, whatever the other rules are.\<close>

theorem second_condition_dropped:
  assumes "\<forall>r \<in> set raws. raw_rule r" and "numbered raws" and "conditions_first raws" and "fb \<noteq> ACTION_CONDITIONAL"
  shows "\<exists>rules. normalize_rules raws fb = Some rules \<and>
    (\<forall>d. rule_decide d fb (rules_lookup (nr d) rules) =
       (case filter (\<lambda>r. first_nr r = nr d) raws of [] \<Rightarrow> fb | r # _ \<Rightarrow> rule_decide d fb r))"
  using normalize_rules_first [OF assms] unfolding first_table_def first_decide_def by blast

theorem second_condition_dropped_witness:
  "let raws = add_policy_rules [] (Policy ''@main'' [POLICY_ACTION ACTION_ALLOW
       [\<lparr>syscall_nr = 0, filter_expr = None\<rparr>,
        \<lparr>syscall_nr = 1, filter_expr = Some (EXPR_BINARY EXPR_EQ (EXPR_VAR 0 4) (EXPR_NUMBER 1))\<rparr>,
        \<lparr>syscall_nr = 1, filter_expr = Some (EXPR_BINARY EXPR_EQ (EXPR_VAR 0 4) (EXPR_NUMBER 2))\<rparr>]]);
     d = call_of 0xc000003e 1 [2]
   in raws_decide d ACTION_KILL 1 raws = ACTION_ALLOW \<and>
      map_option (\<lambda>rules. rule_decide d ACTION_KILL (rules_lookup 1 rules)) (normalize_rules raws ACTION_KILL) = Some ACTION_KILL"
proof -
  let ?e = "\<lambda>v. EXPR_BINARY EXPR_EQ (EXPR_VAR 0 4) (EXPR_NUMBER v)"
  let ?raws = "[\<lparr>first_nr = 0, last_nr = 0, action = ACTION_ALLOW, priority = 1, expr_list = []\<rparr>,
     \<lparr>first_nr = 1, last_nr = 1, action = ACTION_CONDITIONAL, priority = 2, expr_list = [(Some (?e 1), ACTION_ALLOW)]\<rparr>,
     \<lparr>first_nr = 1, last_nr = 1, action = ACTION_CONDITIONAL, priority = 3, expr_list = [(Some (?e 2), ACTION_ALLOW)]\<rparr>]"
  let ?d = "call_of 0xc000003e 1 [2]"
  have raws: "add_policy_rules [] (Policy ''@main'' [POLICY_ACTION ACTION_ALLOW
       [\<lparr>syscall_nr = 0, filter_expr = None\<rparr>, \<lparr>syscall_nr = 1, filter_expr = Some (?e 1)\<rparr>,
        \<lparr>syscall_nr = 1, filter_expr = Some (?e 2)\<rparr>]]) = ?raws"
    by (simp add: add_filter_rule_def add_range_rule_def rule_add_expr_def)
  have "\<forall>r \<in> set ?raws. raw_rule r" "conditions_first ?raws"
    by (simp_all add: raw_rule_def conditions_first_def)
  moreover have "numbered ?raws" by (auto simp: numbered_def less_Suc_eq)
  ultimately obtain rules where "normalize_rules ?raws ACTION_KILL = Some rules"
    "rule_decide ?d ACTION_KILL (rules_lookup (nr ?d) rules) =
       (case filter (\<lambda>r. first_nr r = nr ?d) ?raws of [] \<Rightarrow> ACTION_KILL | r # _ \<Rightarrow> rule_decide ?d ACTION_KILL r)"
    using second_condition_dropped [of ?raws ACTION_KILL] by auto
  then show ?thesis
    unfolding raws Let_def by (simp add: call_of_def rule_decide_def arg_value_def lo32_def)
qed

text \<open>
  An unconditional rule after a conditional one is appended behind the default action, and the
  code generator refuses a mapping without a condition that is not the last one.
\<close>

lemma condition_then_plain_rule_fails:
  assumes "raw_rule r" and "action r = ACTION_CONDITIONAL" and "action cur \<noteq> ACTION_CONDITIONAL"
    and "action cur \<noteq> - INVALID_LOCATION"
  shows "generate_action c (merge_same_syscall (normalize_expr_list r fb) cur) = None"
  using assms
  by (auto simp: raw_rule_def normalize_expr_list_def rule_add_expr_def merge_same_syscall_def generate_action_def)

end
