(* ===== verification/Syscalldb_Generator.thy ===== *)
theory Syscalldb_Generator
  imports Kafel_Syscall "HOL-Library.Char_ord" "HOL-Library.List_Lexorder"
begin

text \<open>
  The program that turns the tables of system calls, one for each architecture, into the
  database (\<open>kafel/src/syscalls/syscalldb_generator.c\<close>). It merges the sorted tables by name
  and writes one definition for each name: the mask of the architectures that have the call,
  the arguments, and the numbers. An argument that is the same everywhere is written once; its
  size is written as 0 where it is that of a pointer.

  An \<open>exit(EXIT_FAILURE)\<close> is \<open>None\<close>. The growing arrays of \<open>struct ctx\<close> are lists;
  \<open>CHECK_CAPACITY\<close>, which makes room for the next element, has no counterpart. A pointer into
  the null-terminated array of an architecture's descriptors is the rest of the list; the code
  reads the descriptor it points to (\<open>hd\<close>) only where there is one.
\<close>

section \<open>State\<close>

record syscall_list =
  list_arch_mask :: u32
  list_pointer_size :: int
  list_syscalls :: "syscall_descriptor list"

record arch_ctx =
  arch_mask :: u32
  pointer_size :: int
  syscall :: "syscall_descriptor list"

record ctx =
  arch :: "arch_ctx list"
  syscall_entries :: "(string \<times> u32) list"
  syscall_definitions :: "u32 list"
  arg_name_pool :: string

section \<open>Sorting\<close>

fun strcmp :: "string \<Rightarrow> string \<Rightarrow> int" where
  "strcmp [] [] = 0"
| "strcmp [] (y # ys) = - 1"
| "strcmp (x # xs) [] = 1"
| "strcmp (x # xs) (y # ys) =
     (if x = y then strcmp xs ys
      else if (of_char x :: nat) < of_char y then - 1 else 1)"

text \<open>
  The comparison functions end the program when two elements are equal. Whatever algorithm
  \<open>qsort\<close> uses, it has to compare the elements that end up side by side, so two equal elements
  are always noticed.
\<close>

definition qsort_unique :: "('a \<Rightarrow> 'a \<Rightarrow> int option) \<Rightarrow> 'a list \<Rightarrow> 'a list option" where
  "qsort_unique cmp xs =
     (if sorted_wrt (\<lambda>a b. cmp a b \<noteq> None) xs
      then Some (qsort (\<lambda>a b. the (cmp a b)) xs) else None)"

definition syscall_descriptor_name_cmp ::
  "syscall_descriptor \<Rightarrow> syscall_descriptor \<Rightarrow> int option" where
  "syscall_descriptor_name_cmp lhs rhs =
     (let c = strcmp (the (desc_name lhs)) (the (desc_name rhs)) in
      if c = 0 then None else Some c)"

definition arch_ctx_arch_mask_cmp :: "arch_ctx \<Rightarrow> arch_ctx \<Rightarrow> int option" where
  "arch_ctx_arch_mask_cmp lhs rhs =
     (if arch_mask lhs = arch_mask rhs then None
      else if arch_mask lhs < arch_mask rhs then Some (- 1) else Some 1)"

definition init_arch :: "syscall_list \<Rightarrow> arch_ctx option" where
  "init_arch l =
     do { p \<leftarrow> qsort_unique syscall_descriptor_name_cmp (list_syscalls l);
          if popcount (list_arch_mask l) = 1
          then Some \<lparr>arch_mask = list_arch_mask l, pointer_size = list_pointer_size l,
                     syscall = p\<rparr>
          else None }"

definition init :: "syscall_list list \<Rightarrow> ctx option" where
  "init tables =
     do { as \<leftarrow> those (map init_arch tables);
          as' \<leftarrow> qsort_unique arch_ctx_arch_mask_cmp as;
          Some \<lparr>arch = as', syscall_entries = [], syscall_definitions = [],
                arg_name_pool = []\<rparr> }"

section \<open>Output buffers\<close>

definition syscall_entries_push :: "ctx \<Rightarrow> string \<Rightarrow> u32 \<Rightarrow> ctx" where
  "syscall_entries_push c name offset =
     c\<lparr>syscall_entries := syscall_entries c @ [(name, offset)]\<rparr>"

definition syscall_definitions_push :: "ctx \<Rightarrow> u32 \<Rightarrow> ctx" where
  "syscall_definitions_push c v =
     c\<lparr>syscall_definitions := syscall_definitions c @ [v]\<rparr>"

definition memmem :: "string \<Rightarrow> string \<Rightarrow> nat option" where
  "memmem haystack needle =
     find (\<lambda>i. take (length needle) (drop i haystack) = needle)
       [0..<length haystack + 1 - length needle]"

definition arg_name_intern :: "ctx \<Rightarrow> string \<Rightarrow> ctx \<times> nat" where
  "arg_name_intern c str =
     (let s = str @ [CHR 0x00] in
      case memmem (arg_name_pool c) s of
        Some existing \<Rightarrow> (c, existing)
      | None \<Rightarrow> (c\<lparr>arg_name_pool := arg_name_pool c @ s\<rparr>, length (arg_name_pool c)))"

section \<open>Merging the tables\<close>

fun begin_syscall_loop :: "arch_ctx list \<Rightarrow> u32 \<Rightarrow> string \<Rightarrow> u32 \<times> string" where
  "begin_syscall_loop [] msk name_min = (msk, name_min)"
| "begin_syscall_loop (a # as) msk name_min =
     (case syscall a of
        [] \<Rightarrow> begin_syscall_loop as msk name_min
      | d # _ \<Rightarrow>
          let name = the (desc_name d); c = strcmp name_min name in
          if c = 0 then begin_syscall_loop as (msk OR arch_mask a) name_min
          else if c > 0 then begin_syscall_loop as (arch_mask a) name
          else begin_syscall_loop as msk name_min)"

definition sentinel :: string where
  "sentinel = [CHR 0x7f]"

definition begin_syscall :: "ctx \<Rightarrow> u32 \<times> string" where
  "begin_syscall c = begin_syscall_loop (arch c) 0 sentinel"

definition complete_syscall :: "ctx \<Rightarrow> u32 \<Rightarrow> ctx" where
  "complete_syscall c msk =
     c\<lparr>syscall_definitions := syscall_definitions c @
         map (\<lambda>a. desc_nr (hd (syscall a))) (filter (\<lambda>a. arch_mask a AND msk \<noteq> 0) (arch c)),
       arch := map (\<lambda>a. if arch_mask a AND msk \<noteq> 0
                        then a\<lparr>syscall := tl (syscall a)\<rparr> else a) (arch c)\<rparr>"

section \<open>Arguments\<close>

definition current_arg :: "arch_ctx \<Rightarrow> nat \<Rightarrow> syscall_arg option" where
  "current_arg a argno = desc_args (hd (syscall a)) ! argno"

text \<open>The mask of architectures with the same name as the first one; \<open>None\<close> for no name.\<close>

definition get_arg_name :: "ctx \<Rightarrow> u32 \<Rightarrow> nat \<Rightarrow> (u32 \<times> string) option" where
  "get_arg_name c msk argno =
     (case dropWhile (\<lambda>a. arch_mask a AND msk = 0 \<or> current_arg a argno = None) (arch c) of
        [] \<Rightarrow> None
      | a # as \<Rightarrow>
          let name = arg_name (the (current_arg a argno)) in
          Some (foldl (OR) (arch_mask a)
                  (map arch_mask (filter (\<lambda>b. arch_mask b AND msk \<noteq> 0 \<and>
                     map_option arg_name (current_arg b argno) = Some name) as)), name))"

definition is_ptr_sized_arg :: "ctx \<Rightarrow> u32 \<Rightarrow> nat \<Rightarrow> bool" where
  "is_ptr_sized_arg c msk argno =
     list_all (\<lambda>a. arch_mask a AND msk \<noteq> 0 \<longrightarrow>
       arg_size (the (current_arg a argno)) = pointer_size a) (arch c)"

definition get_arg_type :: "ctx \<Rightarrow> u32 \<Rightarrow> nat \<Rightarrow> (u32 \<times> int) option" where
  "get_arg_type c msk argno =
     (case dropWhile (\<lambda>a. arch_mask a AND msk = 0) (arch c) of
        [] \<Rightarrow> None
      | a # as \<Rightarrow>
          let type = arg_size (the (current_arg a argno)) in
          Some (foldl (OR) (arch_mask a)
                  (map arch_mask (filter (\<lambda>b. arch_mask b AND msk \<noteq> 0 \<and>
                     arg_size (the (current_arg b argno)) = type) as)), type))"

definition push_arg :: "ctx \<Rightarrow> u32 \<Rightarrow> nat \<Rightarrow> int \<Rightarrow> nat \<Rightarrow> ctx" where
  "push_arg c msk argno type iname =
     syscall_definitions_push (syscall_definitions_push c msk)
       (SYSCALLDB_ARGNO argno OR SYSCALLDB_ARGTYPE type OR SYSCALLDB_ARGNAME iname)"

text \<open>
  The loops over the names and the sizes of an argument end because each round takes at least
  one architecture out of the mask.
\<close>

lemma and_foldl_or:
  "w AND foldl (OR) x ys = 0 \<longleftrightarrow> w AND x = 0 \<and> (\<forall>y \<in> set ys. w AND y = 0)"
  for w :: u32
proof (induction ys arbitrary: x)
  case (Cons y ys)
  have "w AND (x OR y) = 0 \<longleftrightarrow> w AND x = 0 \<and> w AND y = 0"
    by (simp add: bit.conj_disj_distrib or_eq_0_iff)
  then show ?case using Cons.IH [of "x OR y"] by auto
qed simp

lemma and_not_less:
  assumes "m AND n \<noteq> (0 :: u32)"
  shows "unat (m AND NOT n) < unat m"
proof -
  have "m AND NOT n \<le> m" by (rule word_and_le2)
  moreover have "m AND NOT n \<noteq> m"
  proof
    assume "m AND NOT n = m"
    then have "m AND n = (m AND NOT n) AND n" by simp
    also have "\<dots> = 0" by (simp add: and.assoc)
    finally show False using assms by simp
  qed
  ultimately show ?thesis by (simp add: word_less_nat_alt [symmetric])
qed

lemma dropWhile_ConsD: "dropWhile P xs = y # ys \<Longrightarrow> \<not> P y \<and> y \<in> set xs \<and> set ys \<subseteq> set xs"
  by (metis dropWhile_eq_Cons_conv in_set_conv_decomp set_dropWhileD subsetI list.set_intros(2))

lemma get_arg_type_hits:
  "get_arg_type c msk argno = Some (typemask, type) \<Longrightarrow> msk AND typemask \<noteq> 0"
  by (auto simp: get_arg_type_def Let_def and_foldl_or and.commute [of _ msk]
      split: list.splits dest!: dropWhile_ConsD)

lemma get_arg_name_hits:
  "get_arg_name c msk argno = Some (namemask, name) \<Longrightarrow> msk AND namemask \<noteq> 0"
  by (auto simp: get_arg_name_def Let_def and_foldl_or and.commute [of _ msk]
      split: list.splits dest!: dropWhile_ConsD)

function do_arg_types :: "ctx \<Rightarrow> u32 \<Rightarrow> nat \<Rightarrow> nat \<Rightarrow> ctx option" where
  "do_arg_types c namemask argno iname =
     (case get_arg_type c namemask argno of
        None \<Rightarrow> Some c
      | Some (typemask, type) \<Rightarrow>
          if type \<le> 0 \<or> type > SYSCALLDB_MAX_ARGTYPE then None
          else do_arg_types (push_arg c typemask argno type iname)
                 (namemask AND NOT typemask) argno iname)"
  by pat_completeness auto
termination
  by (relation "measure (\<lambda>(c, namemask, argno, iname). unat namemask)")
     (auto intro!: and_not_less dest: get_arg_type_hits)

function do_arg :: "ctx \<Rightarrow> u32 \<Rightarrow> nat \<Rightarrow> ctx option" where
  "do_arg c msk argno =
     (case get_arg_name c msk argno of
        None \<Rightarrow> Some c
      | Some (namemask, name) \<Rightarrow>
          let (c1, iname) = arg_name_intern c name;
              msk' = msk AND NOT namemask in
          if is_ptr_sized_arg c1 namemask argno
          then do_arg (push_arg c1 namemask argno 0 iname) msk' argno
          else do { c2 \<leftarrow> do_arg_types c1 namemask argno iname;
                    do_arg c2 msk' argno })"
  by pat_completeness auto
termination
  by (relation "measure (\<lambda>(c, msk, argno). unat msk)")
     (auto intro!: and_not_less dest: get_arg_name_hits)

declare do_arg_types.simps [simp del] do_arg.simps [simp del]

text \<open>
  The masks in front of the arguments are dropped when they all are the mask of the call; the
  number of arguments is negated when they stay.
\<close>

definition compress_args :: "ctx \<Rightarrow> u32 \<Rightarrow> nat \<Rightarrow> ctx \<times> u32" where
  "compress_args c msk firstargoff =
     (let defs = syscall_definitions c;
          narg = (length defs - firstargoff) div 2 in
      if list_ex (\<lambda>i. defs ! (firstargoff + 2 * i) \<noteq> msk) [0..<narg]
      then (c, - of_nat narg)
      else (c\<lparr>syscall_definitions := take firstargoff defs @
                map (\<lambda>i. defs ! (firstargoff + i * 2 + 1)) [0..<narg]\<rparr>, of_nat narg))"

fun do_args :: "ctx \<Rightarrow> u32 \<Rightarrow> nat list \<Rightarrow> ctx option" where
  "do_args c msk [] = Some c"
| "do_args c msk (argno # rest) = do { c' \<leftarrow> do_arg c msk argno; do_args c' msk rest }"

section \<open>The main loop\<close>

text \<open>The body of the loop in \<open>main\<close>, for the next name and the architectures that have it.\<close>

definition do_syscall :: "ctx \<Rightarrow> u32 \<Rightarrow> string \<Rightarrow> ctx option" where
  "do_syscall c msk name =
     (let c1 = syscall_entries_push c name (of_nat (length (syscall_definitions c)));
          c2 = syscall_definitions_push (syscall_definitions_push c1 msk) 0;
          firstargoff = length (syscall_definitions c2) in
      do { c3 \<leftarrow> do_args c2 msk [0..<SYSCALL_MAX_ARGS];
           let (c4, n) = compress_args c3 msk firstargoff;
           let c5 = c4\<lparr>syscall_definitions := (syscall_definitions c4)[firstargoff - 1 := n]\<rparr>;
           Some (complete_syscall c5 msk) })"

lemma arch_push_arg [simp]: "arch (push_arg c m i t n) = arch c"
  by (simp add: push_arg_def syscall_definitions_push_def)

lemma arch_intern [simp]: "arch (fst (arg_name_intern c s)) = arch c"
  by (simp add: arg_name_intern_def Let_def split: option.split)

lemma do_arg_types_arch: "do_arg_types c m i n = Some c' \<Longrightarrow> arch c' = arch c"
  by (induction c m i n rule: do_arg_types.induct)
     (subst (asm) (2) do_arg_types.simps, auto split: option.splits if_splits)

lemma do_arg_arch: "do_arg c m i = Some c' \<Longrightarrow> arch c' = arch c"
proof (induction c m i rule: do_arg.induct)
  case (1 c m i)
  show ?case
  proof (cases "get_arg_name c m i")
    case None
    then show ?thesis using "1.prems" by (simp add: do_arg.simps [of c])
  next
    case (Some p)
    obtain nm name where p: "p = (nm, name)" by (cases p)
    obtain c1 n where c1: "arg_name_intern c name = (c1, n)" by (cases "arg_name_intern c name")
    then have arch: "arch c1 = arch c" using arch_intern [of c name] by simp
    show ?thesis
    proof (cases "is_ptr_sized_arg c1 nm i")
      case True
      then have "do_arg (push_arg c1 nm i 0 n) (m AND NOT nm) i = Some c'"
        using "1.prems" Some p c1 by (simp add: do_arg.simps [of c m])
      then show ?thesis
        using "1.IH"(1) [OF Some p [symmetric] refl c1 [symmetric] refl True] arch by simp
    next
      case False
      then obtain c2 where "do_arg_types c1 nm i n = Some c2" "do_arg c2 (m AND NOT nm) i = Some c'"
        using "1.prems" Some p c1 by (auto simp: do_arg.simps [of c m])
      then show ?thesis
        using "1.IH"(2) [OF Some p [symmetric] refl c1 [symmetric] refl False] arch
        by (simp add: do_arg_types_arch)
    qed
  qed
qed

lemma do_args_arch: "do_args c m is = Some c' \<Longrightarrow> arch c' = arch c"
  by (induction "is" arbitrary: c) (auto dest: do_arg_arch elim!: bind_SomeE)

lemma begin_syscall_loop_hits:
  assumes "w AND fst (begin_syscall_loop as m nm) \<noteq> 0"
  shows "w AND m \<noteq> 0 \<or> (\<exists>a \<in> set as. syscall a \<noteq> [] \<and> w AND arch_mask a \<noteq> 0)"
  using assms
proof (induction as arbitrary: m nm)
  case (Cons a as)
  show ?case
    using Cons.prems
    by (auto simp: Let_def bit.conj_disj_distrib or_eq_0_iff split: list.splits if_splits
        dest!: Cons.IH)
qed simp

abbreviation start_syscall :: "ctx \<Rightarrow> u32 \<Rightarrow> string \<Rightarrow> ctx" where
  "start_syscall c msk name \<equiv>
     c\<lparr>syscall_entries := syscall_entries c @ [(name, of_nat (length (syscall_definitions c)))],
       syscall_definitions := syscall_definitions c @ [msk, 0]\<rparr>"

lemma do_syscallE:
  assumes "do_syscall c msk name = Some c'"
  obtains c3 c4 n where
    "do_args (start_syscall c msk name) msk [0..<SYSCALL_MAX_ARGS] = Some c3"
    and "compress_args c3 msk (length (syscall_definitions c) + 2) = (c4, n)"
    and "c' = complete_syscall
      (c4\<lparr>syscall_definitions := (syscall_definitions c4)[length (syscall_definitions c) + 1 := n]\<rparr>)
      msk"
  using assms
  by (auto simp: do_syscall_def Let_def syscall_entries_push_def syscall_definitions_push_def
      split: prod.splits elim!: bind_SomeE)

lemma compress_args_arch: "compress_args c msk i = (c', n) \<Longrightarrow> arch c' = arch c"
  by (auto simp: compress_args_def Let_def split: if_splits)

lemma do_syscall_arch:
  assumes "do_syscall c msk name = Some c'"
  shows "arch c' = map (\<lambda>a. if arch_mask a AND msk \<noteq> 0
                            then a\<lparr>syscall := tl (syscall a)\<rparr> else a) (arch c)"
  using assms
  by (elim do_syscallE) (auto simp: complete_syscall_def dest!: do_args_arch compress_args_arch)

text \<open>Each round takes the first descriptor from at least one of the tables.\<close>

definition left_over :: "ctx \<Rightarrow> nat" where
  "left_over c = (\<Sum>a\<leftarrow>arch c. length (syscall a))"

lemma do_syscall_left_over:
  assumes "do_syscall c msk name = Some c'" and "begin_syscall c = (msk, name)" and "msk \<noteq> 0"
  shows "left_over c' < left_over c"
proof -
  have "msk AND fst (begin_syscall_loop (arch c) 0 sentinel) \<noteq> 0"
    using assms by (simp add: begin_syscall_def)
  then obtain a where a: "a \<in> set (arch c)" "syscall a \<noteq> []" "arch_mask a AND msk \<noteq> 0"
    by (auto simp: and.commute dest!: begin_syscall_loop_hits)
  then obtain xs ys where xs: "arch c = xs @ a # ys" by (auto simp: in_set_conv_decomp)
  have le: "(\<Sum>b\<leftarrow>zs. length (syscall (if arch_mask b AND msk \<noteq> 0
      then b\<lparr>syscall := tl (syscall b)\<rparr> else b))) \<le> (\<Sum>b\<leftarrow>zs. length (syscall b))" for zs
    by (rule sum_list_mono) simp
  obtain d ds where "syscall a = d # ds" using a by (cases "syscall a") auto
  then show ?thesis
    using le [of xs] le [of ys] a xs do_syscall_arch [OF assms(1)]
    by (simp add: left_over_def o_def)
qed

function main_loop :: "ctx \<Rightarrow> ctx option" where
  "main_loop c =
     (case begin_syscall c of (msk, name) \<Rightarrow>
        if msk = 0 then Some c
        else do { c' \<leftarrow> do_syscall c msk name; main_loop c' })"
  by pat_completeness auto
termination
  by (relation "measure left_over") (auto simp: do_syscall_left_over)

declare main_loop.simps [simp del]

section \<open>Writing the database\<close>

text \<open>
  What the program prints are C declarations of arrays; here they are the values of the
  arrays. The size of a pointer is printed next to the position of an architecture after
  sorting, but taken from the table at that position before sorting.
\<close>

definition set_element :: "int list \<Rightarrow> nat \<times> int \<Rightarrow> int list" where
  "set_element xs = (\<lambda>(i, v). (xs @ replicate (Suc i - length xs) 0)[i := v])"

definition write_pointer_size :: "ctx \<Rightarrow> syscall_list list \<Rightarrow> int list option" where
  "write_pointer_size c tables =
     do { is \<leftarrow> those (map (\<lambda>a. ctz (arch_mask a)) (arch c));
          Some (foldl set_element [] (zip is (map list_pointer_size tables))) }"

definition repack :: "u32 \<Rightarrow> u32" where
  "repack x = SYSCALLDB_ARGNO (SYSCALLDB_GET_ARGNO x)
     OR SYSCALLDB_ARGTYPE (SYSCALLDB_GET_ARGTYPE x)
     OR SYSCALLDB_ARGNAME (SYSCALLDB_GET_ARGNAME x)"

definition write_args :: "u32 list \<Rightarrow> nat \<Rightarrow> u32 \<Rightarrow> u32 list option" where
  "write_args defs def n_arg_info =
     (if n_arg_info \<le> INT32_MAX
      then those (map (\<lambda>i. map_option repack (read_at defs (def + 2 + i)))
             [0..<unat n_arg_info])
      else map_option concat (those (map (\<lambda>i.
             do { m \<leftarrow> read_at defs (def + 2 + 2 * i);
                  x \<leftarrow> read_at defs (def + 2 + 2 * i + 1);
                  Some [m, repack x] }) [0..<unat (- n_arg_info)])))"

function write_syscall_definitions :: "u32 list \<Rightarrow> nat \<Rightarrow> u32 list option" where
  "write_syscall_definitions defs def =
     (case read_at defs def of
        None \<Rightarrow> None
      | Some am \<Rightarrow>
          if am = 0 then Some [0]
          else do { n_arg_info \<leftarrow> read_at defs (def + 1);
                    as \<leftarrow> write_args defs def n_arg_info;
                    ns \<leftarrow> those (map (\<lambda>i. read_at defs (SYSCALLDB_DEFINITION_NR def n_arg_info + i))
                            [0..<popcount am]);
                    rest \<leftarrow> write_syscall_definitions defs
                              (SYSCALLDB_DEFINITION_NEXT def am n_arg_info);
                    Some (am # n_arg_info # as @ ns @ rest) })"
  by pat_completeness auto
termination
  by (relation "measure (\<lambda>(defs, def). length defs - def)")
     (auto simp: read_at_def SYSCALLDB_DEFINITION_NEXT_def SYSCALLDB_DEFINITION_NR_def
        split: if_splits)

text \<open>The strings of the pool are printed as one literal, to which C adds a null character.\<close>

lemma in_set_drop_less: "x \<in> set (drop i xs) \<Longrightarrow> i < length xs"
  by (cases "i < length xs") auto

function write_arg_names :: "string \<Rightarrow> nat \<Rightarrow> string option" where
  "write_arg_names pool i =
     (if i = length pool then Some []
      else case c_string pool i of
             None \<Rightarrow> None
           | Some s \<Rightarrow> map_option (\<lambda>rest. s @ CHR 0x00 # rest)
                         (write_arg_names pool (i + length s + 1)))"
  by pat_completeness auto
termination
  by (relation "measure (\<lambda>(pool, i). length pool - i)")
     (auto simp: c_string_def Let_def split: if_splits dest: in_set_drop_less)

declare write_syscall_definitions.simps [simp del] write_arg_names.simps [simp del]

definition write_arg_name_pool :: "ctx \<Rightarrow> string option" where
  "write_arg_name_pool c =
     map_option (\<lambda>s. s @ [CHR 0x00]) (write_arg_names (arg_name_pool c) 0)"

record gperf_input =
  out_pointer_size :: "int list"
  out_definitions :: "u32 list"
  out_arg_name_pool :: string
  out_keywords :: "(string \<times> u32) list"

definition generator_main :: "syscall_list list \<Rightarrow> gperf_input option" where
  "generator_main tables =
     do { c0 \<leftarrow> init tables;
          c1 \<leftarrow> main_loop c0;
          let c = syscall_definitions_push c1 0;
          if length (arg_name_pool c) > SYSCALLDB_MAX_ARGNAME then None
          else do { ps \<leftarrow> write_pointer_size c tables;
                    ds \<leftarrow> write_syscall_definitions (syscall_definitions c) 0;
                    pool \<leftarrow> write_arg_name_pool c;
                    Some \<lparr>out_pointer_size = ps, out_definitions = ds,
                          out_arg_name_pool = pool, out_keywords = syscall_entries c\<rparr> } }"

end
