(* ===== verification/Syscalldb_Args.thy ===== *)
theory Syscalldb_Args
  imports Syscalldb_Generator
begin

text \<open>
  What the generator writes about the arguments of a system call. Architectures are bits of a
  mask; the first section has the laws of such masks. The second shows that the packed words
  can be taken apart again, the third follows the pool of names, and the last one shows that
  the words written for one call hold, for each architecture, exactly its arguments.
\<close>

section \<open>Masks of architectures\<close>

definition flag :: "u32 \<Rightarrow> bool" where
  "flag w \<longleftrightarrow> popcount w = 1"

definition pos :: "u32 \<Rightarrow> nat" where
  "pos w = the (ctz w)"

abbreviation hit :: "arch_ctx \<Rightarrow> u32 \<Rightarrow> bool" where
  "hit a m \<equiv> arch_mask a AND m \<noteq> 0"

lemma find_filter: "find P xs = (case filter P xs of [] \<Rightarrow> None | y # _ \<Rightarrow> Some y)"
  by (induction xs) auto

lemma flag_bit:
  assumes "flag w"
  shows "pos w < 32" and "bit w j \<longleftrightarrow> j = pos w"
proof -
  obtain i where i: "filter (bit w) [0..<32] = [i]"
    using assms by (auto simp: flag_def popcount_def length_Suc_conv)
  then have pos: "pos w = i" by (simp add: pos_def ctz_def find_filter)
  have mem: "j \<in> set (filter (bit w) [0..<32]) \<longleftrightarrow> j = i" for j using i by simp
  show "pos w < 32" using mem [of i] pos by simp
  show "bit w j \<longleftrightarrow> j = pos w"
    using mem [of j] pos bit_imp_le_length [of w j] by auto
qed

lemma flag_ctz: "flag w \<Longrightarrow> ctz w = Some (pos w)"
  by (auto simp: flag_def popcount_def pos_def ctz_def find_filter split: list.split)

lemma flag_and: "flag w \<Longrightarrow> w AND m \<noteq> 0 \<longleftrightarrow> bit m (pos w)"
  using flag_bit [of w] by (auto simp: bit_eq_iff [of "w AND m"] bit_and_iff)

lemma flag_diff: "flag w \<Longrightarrow> w AND (m AND NOT n) \<noteq> 0 \<longleftrightarrow> w AND m \<noteq> 0 \<and> w AND n = 0"
  using flag_bit [of w] flag_and [of w] by (auto simp: bit_simps)

lemma flag_eq: "flag v \<Longrightarrow> flag w \<Longrightarrow> v AND w \<noteq> 0 \<longleftrightarrow> v = w"
  using flag_bit [of v] flag_bit [of w] flag_and [of v w] by (auto simp: bit_eq_iff [of v])

lemma flag_unat: "flag w \<Longrightarrow> unat w = 2 ^ pos w"
proof -
  assume w: "flag w"
  have "w = push_bit (pos w) 1"
    using flag_bit [OF w] by (auto simp: bit_eq_iff [of w] bit_simps)
  then have "unat w = unat (push_bit (pos w) 1 :: u32)" by simp
  also have "\<dots> = take_bit LENGTH(32) (push_bit (pos w) (unat (1 :: u32)))"
    by (rule unsigned_push_bit_eq)
  finally show ?thesis using flag_bit(1) [OF w] by simp
qed

lemma flag_less: "flag v \<Longrightarrow> flag w \<Longrightarrow> v < w \<longleftrightarrow> pos v < pos w"
  by (simp add: word_less_nat_alt flag_unat)

definition archs_ok :: "arch_ctx list \<Rightarrow> bool" where
  "archs_ok as \<longleftrightarrow> (\<forall>a \<in> set as. flag (arch_mask a)) \<and> distinct (map arch_mask as)"

lemma archs_ok_eq:
  assumes "archs_ok as" and "a \<in> set as" and "b \<in> set as"
  shows "hit a (arch_mask b) \<longleftrightarrow> a = b"
proof -
  have "inj_on arch_mask (set as)" using assms(1) by (simp add: archs_ok_def distinct_map)
  then show ?thesis using assms flag_eq by (auto simp: archs_ok_def inj_on_eq_iff)
qed

text \<open>The mask that \<open>get_arg_name\<close> and \<open>get_arg_type\<close> gather.\<close>

lemma group_hit:
  assumes "archs_ok as" and "dropWhile P as = b # bs" and "a \<in> set as"
    and "\<And>x. Q x \<Longrightarrow> \<not> P x" and "Q b"
  shows "hit a (foldl (OR) (arch_mask b) (map arch_mask (filter Q bs))) \<longleftrightarrow> Q a"
proof -
  have "set as = set (takeWhile P as) \<union> set (b # bs)"
    using takeWhile_dropWhile_id [of P as] assms(2) by (metis set_append)
  then have cases: "a \<in> set (takeWhile P as) \<or> a = b \<or> a \<in> set bs" using assms(3) by auto
  have "b \<in> set as" and "set bs \<subseteq> set as" using dropWhile_ConsD [OF assms(2)] by auto
  then have "hit a (foldl (OR) (arch_mask b) (map arch_mask (filter Q bs))) \<longleftrightarrow>
      a = b \<or> a \<in> set bs \<and> Q a"
    using archs_ok_eq [OF assms(1,3)] by (auto simp: and_foldl_or)
  moreover have "a \<in> set (takeWhile P as) \<Longrightarrow> P a" by (rule set_takeWhileD [THEN conjunct2])
  ultimately show ?thesis using assms(4,5) cases by blast
qed

text \<open>A sum over the architectures of a mask.\<close>

definition cost :: "(arch_ctx \<Rightarrow> nat) \<Rightarrow> arch_ctx list \<Rightarrow> u32 \<Rightarrow> nat" where
  "cost f as m = (\<Sum>a\<leftarrow>as. if hit a m then f a else 0)"

lemma cost_split:
  assumes "\<And>a. a \<in> set as \<Longrightarrow>
    (if hit a l then h a else 0) = (if hit a m then f a else 0) + (if hit a n then g a else 0)"
  shows "cost h as l = cost f as m + cost g as n"
  using assms by (induction as) (simp_all add: cost_def)

lemma cost_member: "a \<in> set as \<Longrightarrow> hit a m \<Longrightarrow> f a \<le> cost f as m"
  by (induction as) (auto simp: cost_def)

lemma cost_mono: "(\<And>a. a \<in> set as \<Longrightarrow> hit a m \<Longrightarrow> f a \<le> g a) \<Longrightarrow> cost f as m \<le> cost g as m"
  unfolding cost_def by (rule sum_list_mono) simp

section \<open>Packed words\<close>

lemma bit_small: "n < 2 ^ m \<Longrightarrow> bit n j \<Longrightarrow> j < m" for n m j :: nat
  by (metis bit_take_bit_iff take_bit_nat_eq_self)

lemma bit_small_int: "0 \<le> n \<Longrightarrow> n < 2 ^ m \<Longrightarrow> bit n j \<Longrightarrow> j < m" for n :: int and m j :: nat
  by (metis bit_take_bit_iff take_bit_int_eq_self)

abbreviation arg_info :: "nat \<Rightarrow> int \<Rightarrow> nat \<Rightarrow> u32" where
  "arg_info no t n \<equiv> SYSCALLDB_ARGNO no OR SYSCALLDB_ARGTYPE t OR SYSCALLDB_ARGNAME n"

lemma pack_masks:
  "(0xff000000 :: u32) = push_bit 24 (mask 8)" "(0x00ff0000 :: u32) = push_bit 16 (mask 8)"
  "(0x0000ffff :: u32) = mask 16"
  by (simp_all add: mask_eq_exp_minus_1)

lemma get_packed:
  assumes "no < 2 ^ 8" and "0 \<le> t" and "t < 2 ^ 8" and "n < 2 ^ 16"
  shows "SYSCALLDB_GET_ARGNO (arg_info no t n) = no"
    and "SYSCALLDB_GET_ARGTYPE (arg_info no t n) = t"
    and "SYSCALLDB_GET_ARGNAME (arg_info no t n) = n"
proof -
  note bits = bit_small [OF assms(1)] bit_small_int [OF assms(2,3)] bit_small [OF assms(4)]
  have "drop_bit 24 (arg_info no t n AND 0xff000000) = of_nat no"
    by (intro bit_word_eqI) (auto simp: pack_masks SYSCALLDB_ARGNO_def
        SYSCALLDB_ARGTYPE_def SYSCALLDB_ARGNAME_def bit_simps dest: bits)
  then show "SYSCALLDB_GET_ARGNO (arg_info no t n) = no"
    using assms by (simp add: SYSCALLDB_GET_ARGNO_def unat_of_nat)
  have "drop_bit 16 (arg_info no t n AND 0x00ff0000) = word_of_int t"
    by (intro bit_word_eqI) (auto simp: pack_masks SYSCALLDB_ARGNO_def
        SYSCALLDB_ARGTYPE_def SYSCALLDB_ARGNAME_def bit_simps dest: bits)
  then show "SYSCALLDB_GET_ARGTYPE (arg_info no t n) = t"
    using assms by (simp add: SYSCALLDB_GET_ARGTYPE_def uint_word_of_int)
  have "arg_info no t n AND 0x0000ffff = of_nat n"
    by (intro bit_word_eqI) (auto simp: pack_masks SYSCALLDB_ARGNO_def
        SYSCALLDB_ARGTYPE_def SYSCALLDB_ARGNAME_def bit_simps dest: bits)
  then show "SYSCALLDB_GET_ARGNAME (arg_info no t n) = n"
    using assms by (simp add: SYSCALLDB_GET_ARGNAME_def unat_of_nat)
qed

lemma repack_id [simp]: "repack x = x"
proof -
  have "repack x = push_bit 24 (drop_bit 24 (x AND 0xff000000))
      OR push_bit 16 (drop_bit 16 (x AND 0x00ff0000)) OR (x AND 0x0000ffff)"
    by (simp add: repack_def SYSCALLDB_ARGNO_def SYSCALLDB_ARGTYPE_def SYSCALLDB_ARGNAME_def
        SYSCALLDB_GET_ARGNO_def SYSCALLDB_GET_ARGTYPE_def SYSCALLDB_GET_ARGNAME_def)
  also have "\<dots> = x"
  proof (rule bit_word_eqI)
    fix j
    assume "j < LENGTH(32)"
    then consider "j < 16" | "16 \<le> j" "j < 24" | "24 \<le> j" "j < 32" by fastforce
    then show "bit (push_bit 24 (drop_bit 24 (x AND 0xff000000))
        OR push_bit 16 (drop_bit 16 (x AND 0x00ff0000)) OR (x AND 0x0000ffff)) j = bit x j"
      by cases (auto simp: pack_masks bit_simps)
  qed
  finally show ?thesis .
qed

section \<open>The pool of argument names\<close>

lemma c_string_append: "c_string pool i = Some s \<Longrightarrow> c_string (pool @ x) i = Some s"
  by (cases "i \<le> length pool")
     (auto simp: c_string_def Let_def takeWhile_append1 split: if_splits)

lemma c_string_bound: "c_string pool i = Some s \<Longrightarrow> i < length pool"
  by (auto simp: c_string_def Let_def dest: in_set_drop_less split: if_splits)

lemma c_string_at:
  assumes "drop i pool = s @ CHR 0x00 # rest" and "CHR 0x00 \<notin> set s"
  shows "c_string pool i = Some s"
  using assms by (auto simp: c_string_def Let_def takeWhile_tail takeWhile_append2)

lemma arg_name_intern_spec:
  assumes "arg_name_intern c s = (c', i)" and "CHR 0x00 \<notin> set s"
  shows "\<exists>x. c' = c\<lparr>arg_name_pool := arg_name_pool c @ x\<rparr> \<and> length x \<le> Suc (length s) \<and>
      (x \<noteq> [] \<longrightarrow> last x = CHR 0x00)"
    and "c_string (arg_name_pool c') i = Some s"
proof -
  let ?z = "s @ [CHR 0x00]"
  show "\<exists>x. c' = c\<lparr>arg_name_pool := arg_name_pool c @ x\<rparr> \<and> length x \<le> Suc (length s) \<and>
      (x \<noteq> [] \<longrightarrow> last x = CHR 0x00)"
    using assms(1) exI [of "\<lambda>x. c = c\<lparr>arg_name_pool := arg_name_pool c @ x\<rparr> \<and>
        length x \<le> Suc (length s) \<and> (x \<noteq> [] \<longrightarrow> last x = CHR 0x00)" "[]"]
    by (auto simp: arg_name_intern_def Let_def split: option.splits)
  show "c_string (arg_name_pool c') i = Some s"
  proof (cases "memmem (arg_name_pool c) ?z")
    case None
    then show ?thesis
      using assms by (auto simp: arg_name_intern_def intro!: c_string_at)
  next
    case (Some j)
    then have "take (length ?z) (drop j (arg_name_pool c)) = ?z"
      by (auto simp: memmem_def find_Some_iff)
    then have "drop j (arg_name_pool c) = s @ CHR 0x00 # drop (length ?z) (drop j (arg_name_pool c))"
      by (metis append.assoc append_Cons append_Nil append_take_drop_id)
    then show ?thesis
      using assms Some c_string_at by (simp add: arg_name_intern_def)
  qed
qed

section \<open>The arguments of one system call\<close>

abbreviation arg_of_size :: "arch_ctx \<Rightarrow> nat \<Rightarrow> int" where
  "arg_of_size a i \<equiv> arg_size (the (current_arg a i))"

lemma get_arg_type_None:
  "get_arg_type c m i = None \<Longrightarrow> a \<in> set (arch c) \<Longrightarrow> \<not> hit a m"
  by (auto simp: get_arg_type_def Let_def dropWhile_eq_Nil_conv split: list.splits)

lemma get_arg_type_Some:
  assumes "get_arg_type c m i = Some (tm, t)" and "archs_ok (arch c)" and "a \<in> set (arch c)"
  shows "hit a tm \<longleftrightarrow> hit a m \<and> arg_of_size a i = t"
proof -
  obtain b bs where b: "dropWhile (\<lambda>a. arch_mask a AND m = 0) (arch c) = b # bs"
    and t: "t = arg_of_size b i"
    and tm: "tm = foldl (OR) (arch_mask b)
      (map arch_mask (filter (\<lambda>b. hit b m \<and> arg_of_size b i = t) bs))"
    using assms(1) by (auto simp: get_arg_type_def Let_def split: list.splits)
  show ?thesis
    unfolding tm by (rule group_hit [OF assms(2) b assms(3)])
      (use dropWhile_ConsD [OF b] t in auto)
qed

lemma get_arg_type_member:
  "get_arg_type c m i = Some (tm, t) \<Longrightarrow> \<exists>b \<in> set (arch c). hit b m \<and> arg_of_size b i = t"
  by (fastforce simp: get_arg_type_def Let_def split: list.splits dest!: dropWhile_ConsD)

lemma get_arg_name_None:
  "get_arg_name c m i = None \<Longrightarrow> a \<in> set (arch c) \<Longrightarrow> hit a m \<Longrightarrow> current_arg a i = None"
  by (auto simp: get_arg_name_def Let_def dropWhile_eq_Nil_conv split: list.splits)

lemma get_arg_name_Some:
  assumes "get_arg_name c m i = Some (nm, name)" and "archs_ok (arch c)" and "a \<in> set (arch c)"
  shows "hit a nm \<longleftrightarrow> hit a m \<and> map_option arg_name (current_arg a i) = Some name"
proof -
  let ?P = "\<lambda>a. arch_mask a AND m = 0 \<or> current_arg a i = None"
  obtain b bs where b: "dropWhile ?P (arch c) = b # bs"
    and name: "name = arg_name (the (current_arg b i))"
    and nm: "nm = foldl (OR) (arch_mask b) (map arch_mask
      (filter (\<lambda>b. hit b m \<and> map_option arg_name (current_arg b i) = Some name) bs))"
    using assms(1) by (auto simp: get_arg_name_def Let_def split: list.splits)
  show ?thesis
    unfolding nm by (rule group_hit [OF assms(2) b assms(3)])
      (use dropWhile_ConsD [OF b] name in auto)
qed

lemma get_arg_name_member:
  "get_arg_name c m i = Some (nm, name) \<Longrightarrow>
   \<exists>b \<in> set (arch c). hit b m \<and> map_option arg_name (current_arg b i) = Some name"
  by (fastforce simp: get_arg_name_def Let_def split: list.splits dest!: dropWhile_ConsD)

text \<open>
  An argument is written as a pair of words, the mask of the architectures it is for and the
  packed description. \<open>written\<close> are the descriptions for one architecture.
\<close>

definition flat :: "(u32 \<times> u32) list \<Rightarrow> u32 list" where
  "flat ps = concat (map (\<lambda>(m, x). [m, x]) ps)"

abbreviation written :: "arch_ctx \<Rightarrow> (u32 \<times> u32) list \<Rightarrow> u32 list" where
  "written a ps \<equiv> map snd (filter (\<lambda>p. hit a (fst p)) ps)"

lemma flat_simps [simp]:
  "flat [] = []" "flat ((m, x) # ps) = m # x # flat ps" "flat (ps @ qs) = flat ps @ flat qs"
  by (simp_all add: flat_def)

lemma push_arg_flat:
  "push_arg c m i t n =
     c\<lparr>syscall_definitions := syscall_definitions c @ flat [(m, arg_info i t n)]\<rparr>"
  by (simp add: push_arg_def syscall_definitions_push_def)

lemma do_arg_types_spec:
  assumes "do_arg_types c m i n = Some c'" and "archs_ok (arch c)"
  shows "\<exists>ps. c' = c\<lparr>syscall_definitions := syscall_definitions c @ flat ps\<rparr> \<and>
    length ps \<le> cost (\<lambda>_. 1) (arch c) m \<and>
    (\<forall>a \<in> set (arch c). written a ps = (if hit a m then [arg_info i (arg_of_size a i) n] else []) \<and>
       (hit a m \<longrightarrow> 0 < arg_of_size a i \<and> arg_of_size a i \<le> 8))"
  using assms
proof (induction c m i n rule: do_arg_types.induct)
  case (1 c m i n)
  show ?case
  proof (cases "get_arg_type c m i")
    case None
    then have "c' = c" using "1.prems" by (simp add: do_arg_types.simps [of c m])
    then show ?thesis
      using get_arg_type_None [OF None] by (intro exI [of _ "[]"]) auto
  next
    case (Some p)
    obtain tm t where p: "p = (tm, t)" by (cases p)
    let ?c = "push_arg c tm i t n" and ?m = "m AND NOT tm"
    have t: "0 < t" "t \<le> 8" and c': "do_arg_types ?c ?m i n = Some c'"
      using "1.prems" Some p by (auto simp: do_arg_types.simps [of c m] split: if_splits)
    obtain ps where ps: "c' = ?c\<lparr>syscall_definitions := syscall_definitions ?c @ flat ps\<rparr>"
      and len: "length ps \<le> cost (\<lambda>_. 1) (arch c) ?m"
      and spec: "\<forall>a \<in> set (arch c).
        written a ps = (if hit a ?m then [arg_info i (arg_of_size a i) n] else []) \<and>
        (hit a ?m \<longrightarrow> 0 < arg_of_size a i \<and> arg_of_size a i \<le> 8)"
      using "1.IH" [OF Some p [symmetric] _ c'] t "1.prems"(2) by auto
    note tm_hits = get_arg_type_Some [OF Some [unfolded p] "1.prems"(2)]
    have left: "hit a ?m \<longleftrightarrow> hit a m \<and> \<not> hit a tm" if "a \<in> set (arch c)" for a
      using flag_diff "1.prems"(2) that by (auto simp: archs_ok_def)
    have "written a ((tm, arg_info i t n) # ps) =
        (if hit a m then [arg_info i (arg_of_size a i) n] else []) \<and>
        (hit a m \<longrightarrow> 0 < arg_of_size a i \<and> arg_of_size a i \<le> 8)" if a: "a \<in> set (arch c)" for a
      using tm_hits [OF a] left [OF a] bspec [OF spec a] t by auto
    moreover have "cost (\<lambda>_. 1) (arch c) m = cost (\<lambda>_. 1) (arch c) tm + cost (\<lambda>_. 1) (arch c) ?m"
      by (rule cost_split) (simp add: tm_hits left)
    moreover obtain b where "b \<in> set (arch c)" "hit b tm"
      using get_arg_type_member [OF Some [unfolded p]] tm_hits by blast
    then have "1 \<le> cost (\<lambda>_. 1) (arch c) tm" by (rule cost_member)
    ultimately show ?thesis
      using ps len by (intro exI [of _ "(tm, arg_info i t n) # ps"]) (auto simp: push_arg_flat)
  qed
qed

text \<open>What a reader on architecture \<open>a\<close> makes of a packed description.\<close>

definition entry_of :: "arch_ctx \<Rightarrow> string \<Rightarrow> u32 \<Rightarrow> (nat \<times> syscall_arg) option" where
  "entry_of a pool x = map_option (\<lambda>name. (SYSCALLDB_GET_ARGNO x,
     \<lparr>arg_name = name, arg_size = if SYSCALLDB_GET_ARGTYPE x = 0 then pointer_size a
        else SYSCALLDB_GET_ARGTYPE x\<rparr>)) (c_string pool (SYSCALLDB_GET_ARGNAME x))"

definition args_at :: "arch_ctx \<Rightarrow> nat \<Rightarrow> (nat \<times> syscall_arg) list" where
  "args_at a i = (case current_arg a i of None \<Rightarrow> [] | Some arg \<Rightarrow> [(i, arg)])"

lemma entry_of_append1: "entry_of a pool x = Some y \<Longrightarrow> entry_of a (pool @ z) x = Some y"
  unfolding entry_of_def by (erule map_option_eq_Some [THEN iffD1, THEN exE])
    (simp add: c_string_append)

lemma entry_of_append:
  assumes "map (entry_of a pool) xs = map Some ys"
  shows "map (entry_of a (pool @ z)) xs = map Some ys"
  using assms
proof (induction xs arbitrary: ys)
  case (Cons x xs)
  then show ?case by (cases ys) (auto intro: entry_of_append1)
qed simp

lemma entry_of_info:
  assumes "c_string pool n = Some (arg_name arg)" and "length pool \<le> 0xffff" and "i < 6"
    and "t = arg_size arg \<and> 0 < t \<and> t \<le> 8 \<or> t = 0 \<and> arg_size arg = pointer_size a"
  shows "entry_of a pool (arg_info i t n) = Some (i, arg)"
proof -
  have "n < 2 ^ 16" using c_string_bound [OF assms(1)] assms(2) by simp
  then show ?thesis
    using assms get_packed [of i t n] by (cases arg) (auto simp: entry_of_def)
qed

text \<open>The characters that the names of arguments take in the pool.\<close>

definition chars :: "(nat \<times> syscall_arg) list \<Rightarrow> nat" where
  "chars ys = (\<Sum>(i, arg)\<leftarrow>ys. Suc (length (arg_name arg)))"

lemma chars_simps [simp]:
  "chars [] = 0" "chars ((i, arg) # ys) = Suc (length (arg_name arg)) + chars ys"
  "chars (xs @ ys) = chars xs + chars ys"
  by (simp_all add: chars_def)

text \<open>
  \<open>c'\<close> is \<open>c\<close> with words that tell a reader on each architecture of the mask the arguments
  \<open>f a\<close>, and one on any other architecture nothing; there are no more of them than arguments.
\<close>

definition tells :: "ctx \<Rightarrow> u32 \<Rightarrow> (arch_ctx \<Rightarrow> (nat \<times> syscall_arg) list) \<Rightarrow> ctx \<Rightarrow> bool" where
  "tells c m f c' \<longleftrightarrow> (\<exists>ps x. c' = c\<lparr>syscall_definitions := syscall_definitions c @ flat ps,
      arg_name_pool := arg_name_pool c @ x\<rparr> \<and>
    length ps \<le> cost (\<lambda>a. length (f a)) (arch c) m \<and>
    length x \<le> cost (\<lambda>a. chars (f a)) (arch c) m \<and> (x \<noteq> [] \<longrightarrow> last x = CHR 0x00) \<and>
    (length (arg_name_pool c @ x) \<le> 0xffff \<longrightarrow> (\<forall>a \<in> set (arch c).
       map (entry_of a (arg_name_pool c @ x)) (written a ps)
         = map Some (if hit a m then f a else []))))"

lemma do_arg_step:
  assumes "get_arg_name c m i = Some (nm, name)" and "arg_name_intern c name = (c1, n)"
    and "archs_ok (arch c)" and "CHR 0x00 \<notin> set name" and "i < 6"
    and "is_ptr_sized_arg c1 nm i \<and> c2 = push_arg c1 nm i 0 n \<or>
         do_arg_types c1 nm i n = Some c2"
  shows "tells c nm (\<lambda>a. args_at a i) c2"
proof -
  obtain x where x: "c1 = c\<lparr>arg_name_pool := arg_name_pool c @ x\<rparr>" "length x \<le> Suc (length name)"
      "x \<noteq> [] \<longrightarrow> last x = CHR 0x00"
    and str: "c_string (arg_name_pool c @ x) n = Some name"
  proof -
    obtain x where x: "c1 = c\<lparr>arg_name_pool := arg_name_pool c @ x\<rparr>" "length x \<le> Suc (length name)"
        "x \<noteq> [] \<longrightarrow> last x = CHR 0x00"
      using arg_name_intern_spec(1) [OF assms(2,4)] by blast
    show ?thesis
      by (rule that [OF x]) (use arg_name_intern_spec(2) [OF assms(2,4)] x(1) in simp)
  qed
  have named: "\<exists>arg. args_at a i = [(i, arg)] \<and> current_arg a i = Some arg \<and> arg_name arg = name"
    if "a \<in> set (arch c)" and "hit a nm" for a
    using get_arg_name_Some [OF assms(1,3) that(1)] that(2) by (auto simp: args_at_def)
  obtain b where b: "b \<in> set (arch c)" "hit b nm"
    using get_arg_name_member [OF assms(1)] get_arg_name_Some [OF assms(1,3)] by blast
  obtain ps where ps: "c2 = c1\<lparr>syscall_definitions := syscall_definitions c1 @ flat ps\<rparr>"
    and len: "length ps \<le> cost (\<lambda>_. 1) (arch c) nm"
    and wr: "\<And>a. a \<in> set (arch c) \<Longrightarrow> written a ps = [] \<and> \<not> hit a nm \<or>
      hit a nm \<and> (\<exists>t. written a ps = [arg_info i t n] \<and>
        (t = arg_of_size a i \<and> 0 < t \<and> t \<le> 8 \<or> t = 0 \<and> arg_of_size a i = pointer_size a))"
  proof (cases "is_ptr_sized_arg c1 nm i \<and> c2 = push_arg c1 nm i 0 n")
    case True
    then show ?thesis
      using cost_member [OF b, of "\<lambda>_. 1"]
      by (intro that [of "[(nm, arg_info i 0 n)]"])
         (auto simp: push_arg_flat is_ptr_sized_arg_def list_all_iff x)
  next
    case False
    then have types: "do_arg_types c1 nm i n = Some c2" using assms(6) by blast
    have "archs_ok (arch c1)" and arch: "arch c1 = arch c" using assms(3) x by simp_all
    then obtain ps where ps: "c2 = c1\<lparr>syscall_definitions := syscall_definitions c1 @ flat ps\<rparr>"
      and len: "length ps \<le> cost (\<lambda>_. 1) (arch c) nm"
      and spec: "\<forall>a \<in> set (arch c1).
        written a ps = (if hit a nm then [arg_info i (arg_of_size a i) n] else []) \<and>
        (hit a nm \<longrightarrow> 0 < arg_of_size a i \<and> arg_of_size a i \<le> 8)"
      using do_arg_types_spec [OF types] by auto
    show ?thesis by (rule that [OF ps len]) (use spec arch in auto)
  qed
  have told: "map (entry_of a (arg_name_pool c @ x)) (written a ps)
      = map Some (if hit a nm then args_at a i else [])"
    if "length (arg_name_pool c @ x) \<le> 0xffff" and a: "a \<in> set (arch c)" for a
  proof (cases "hit a nm")
    case True
    then obtain arg where arg: "args_at a i = [(i, arg)]" "current_arg a i = Some arg"
        "arg_name arg = name"
      using named [OF a] by blast
    then obtain t where "written a ps = [arg_info i t n]"
      and "t = arg_size arg \<and> 0 < t \<and> t \<le> 8 \<or> t = 0 \<and> arg_size arg = pointer_size a"
      using wr [OF a] True by auto
    then show ?thesis
      using True arg str that(1) assms(5) by (simp add: entry_of_info)
  next
    case False
    then show ?thesis using wr [OF a] by simp
  qed
  have "cost (\<lambda>_. 1) (arch c) nm \<le> cost (\<lambda>a. length (args_at a i)) (arch c) nm"
    by (rule cost_mono) (use named in fastforce)
  moreover have "Suc (length name) \<le> cost (\<lambda>a. chars (args_at a i)) (arch c) nm"
    using cost_member [OF b, of "\<lambda>a. chars (args_at a i)"] named [OF b] by auto
  ultimately show ?thesis
    unfolding tells_def using ps x told len by (intro exI [of _ ps] exI [of _ x]) auto
qed

definition names_ok :: "arch_ctx \<Rightarrow> nat \<Rightarrow> bool" where
  "names_ok a i \<longleftrightarrow> (\<forall>arg. current_arg a i = Some arg \<longrightarrow> CHR 0x00 \<notin> set (arg_name arg))"

lemma tells_trans:
  assumes "tells c m f c1" and "tells c1 n g c2"
    and "\<And>a. a \<in> set (arch c) \<Longrightarrow>
      (if hit a l then h a else []) = (if hit a m then f a else []) @ (if hit a n then g a else [])"
  shows "tells c l h c2"
proof -
  obtain ps x where c1: "c1 = c\<lparr>syscall_definitions := syscall_definitions c @ flat ps,
      arg_name_pool := arg_name_pool c @ x\<rparr>"
    and f_len: "length ps \<le> cost (\<lambda>a. length (f a)) (arch c) m"
      "length x \<le> cost (\<lambda>a. chars (f a)) (arch c) m" "x \<noteq> [] \<longrightarrow> last x = CHR 0x00"
    and f: "length (arg_name_pool c @ x) \<le> 0xffff \<Longrightarrow> a \<in> set (arch c) \<Longrightarrow>
      map (entry_of a (arg_name_pool c @ x)) (written a ps)
        = map Some (if hit a m then f a else [])" for a
    using assms(1) unfolding tells_def by blast
  obtain qs y where c2: "c2 = c1\<lparr>syscall_definitions := syscall_definitions c1 @ flat qs,
      arg_name_pool := arg_name_pool c1 @ y\<rparr>"
    and g_len: "length qs \<le> cost (\<lambda>a. length (g a)) (arch c1) n"
      "length y \<le> cost (\<lambda>a. chars (g a)) (arch c1) n" "y \<noteq> [] \<longrightarrow> last y = CHR 0x00"
    and g: "length (arg_name_pool c1 @ y) \<le> 0xffff \<Longrightarrow> a \<in> set (arch c1) \<Longrightarrow>
      map (entry_of a (arg_name_pool c1 @ y)) (written a qs)
        = map Some (if hit a n then g a else [])" for a
    using assms(2) unfolding tells_def by blast
  have split: "(if hit a l then F (h a) else 0) =
      (if hit a m then F (f a) else 0) + (if hit a n then F (g a) else 0)"
    if "F [] = 0" and "\<And>xs ys. F (xs @ ys) = F xs + F ys" and a: "a \<in> set (arch c)"
    for F :: "(nat \<times> syscall_arg) list \<Rightarrow> nat" and a
    using arg_cong [OF assms(3) [OF a], of F] that(1,2) by (auto split: if_splits)
  have "cost (\<lambda>a. length (h a)) (arch c) l =
      cost (\<lambda>a. length (f a)) (arch c) m + cost (\<lambda>a. length (g a)) (arch c) n"
    and "cost (\<lambda>a. chars (h a)) (arch c) l =
      cost (\<lambda>a. chars (f a)) (arch c) m + cost (\<lambda>a. chars (g a)) (arch c) n"
    by (rule cost_split, rule split, simp_all)+
  moreover have "map (entry_of a (arg_name_pool c @ x @ y)) (written a (ps @ qs))
      = map Some (if hit a l then h a else [])"
    if len: "length (arg_name_pool c @ x @ y) \<le> 0xffff" and a: "a \<in> set (arch c)" for a
  proof -
    have "map (entry_of a ((arg_name_pool c @ x) @ y)) (written a ps)
        = map Some (if hit a m then f a else [])"
      using len by (intro entry_of_append f a) simp
    moreover have "map (entry_of a ((arg_name_pool c @ x) @ y)) (written a qs)
        = map Some (if hit a n then g a else [])"
      using g [of a] c1 len a by simp
    ultimately show ?thesis using assms(3) [OF a] by simp
  qed
  moreover have "x @ y \<noteq> [] \<longrightarrow> last (x @ y) = CHR 0x00"
    using f_len(3) g_len(3) by (cases "y = []") auto
  ultimately show ?thesis
    unfolding tells_def using c1 c2 f_len(1,2) g_len(1,2)
    by (intro exI [of _ "ps @ qs"] exI [of _ "x @ y"]) simp
qed

lemma tells_refl:
  "(\<And>a. a \<in> set (arch c) \<Longrightarrow> hit a m \<Longrightarrow> f a = []) \<Longrightarrow> tells c m f c"
  unfolding tells_def by (intro exI [of _ "[]"]) auto

lemma tells_arch: "tells c m f c' \<Longrightarrow> arch c' = arch c"
  unfolding tells_def by auto

lemma do_arg_spec:
  assumes "do_arg c m i = Some c'" and "archs_ok (arch c)" and "i < 6"
    and "\<forall>a \<in> set (arch c). hit a m \<longrightarrow> names_ok a i"
  shows "tells c m (\<lambda>a. args_at a i) c'"
  using assms
proof (induction c m i rule: do_arg.induct)
  case (1 c m i)
  show ?case
  proof (cases "get_arg_name c m i")
    case None
    then have "c' = c" using "1.prems" by (simp add: do_arg.simps [of c m])
    then show ?thesis
      using get_arg_name_None [OF None] by (auto simp: args_at_def intro!: tells_refl)
  next
    case (Some p)
    obtain nm name where p: "p = (nm, name)" by (cases p)
    obtain c1 n where c1: "arg_name_intern c name = (c1, n)" by (cases "arg_name_intern c name")
    note name_hits = get_arg_name_Some [OF Some [unfolded p] "1.prems"(2)]
    have arch: "arch c1 = arch c" using arch_intern [of c name] c1 by simp
    have nul: "CHR 0x00 \<notin> set name"
      using get_arg_name_member [OF Some [unfolded p]] "1.prems"(4) by (auto simp: names_ok_def)
    have left: "hit a (m AND NOT nm) \<longleftrightarrow> hit a m \<and> \<not> hit a nm" if "a \<in> set (arch c)" for a
      using flag_diff "1.prems"(2) that by (auto simp: archs_ok_def)
    obtain c2 where c2: "is_ptr_sized_arg c1 nm i \<and> c2 = push_arg c1 nm i 0 n \<or>
         do_arg_types c1 nm i n = Some c2"
      and rest: "do_arg c2 (m AND NOT nm) i = Some c'"
      and IH: "archs_ok (arch c2) \<Longrightarrow> i < 6 \<Longrightarrow>
        \<forall>a \<in> set (arch c2). hit a (m AND NOT nm) \<longrightarrow> names_ok a i \<Longrightarrow>
        tells c2 (m AND NOT nm) (\<lambda>a. args_at a i) c'"
    proof (cases "is_ptr_sized_arg c1 nm i")
      case True
      then have "do_arg (push_arg c1 nm i 0 n) (m AND NOT nm) i = Some c'"
        using "1.prems" Some p c1 by (simp add: do_arg.simps [of c m])
      then show ?thesis
        using that "1.IH"(1) [OF Some p [symmetric] refl c1 [symmetric] refl True] True by blast
    next
      case False
      then obtain c2 where "do_arg_types c1 nm i n = Some c2" "do_arg c2 (m AND NOT nm) i = Some c'"
        using "1.prems" Some p c1 by (auto simp: do_arg.simps [of c m])
      then show ?thesis
        using that "1.IH"(2) [OF Some p [symmetric] refl c1 [symmetric] refl False] by blast
    qed
    have "tells c nm (\<lambda>a. args_at a i) c2"
      by (rule do_arg_step [OF Some [unfolded p] c1 "1.prems"(2) nul "1.prems"(3) c2])
    moreover from this have "tells c2 (m AND NOT nm) (\<lambda>a. args_at a i) c'"
      using IH "1.prems" tells_arch left by auto
    ultimately show ?thesis
      by (rule tells_trans) (use left name_hits in \<open>auto simp: args_at_def\<close>)
  qed
qed

lemma do_args_spec:
  assumes "do_args c m is = Some c'" and "archs_ok (arch c)"
    and "\<forall>i \<in> set is. i < 6 \<and> (\<forall>a \<in> set (arch c). hit a m \<longrightarrow> names_ok a i)"
  shows "tells c m (\<lambda>a. concat (map (args_at a) is)) c'"
  using assms
proof (induction "is" arbitrary: c)
  case Nil
  then show ?case by (simp add: tells_refl)
next
  case (Cons i "is")
  then obtain c1 where c1: "do_arg c m i = Some c1" and rest: "do_args c1 m is = Some c'" by auto
  then have "tells c m (\<lambda>a. args_at a i) c1" using do_arg_spec Cons.prems by auto
  moreover have "tells c1 m (\<lambda>a. concat (map (args_at a) is)) c'"
    using Cons.IH [OF rest] Cons.prems do_arg_arch [OF c1] by simp
  ultimately show ?case by (rule tells_trans) simp
qed

end
