(* ===== verification/Syscalldb_Blocks.thy ===== *)
theory Syscalldb_Blocks
  imports Syscalldb_Args
begin

text \<open>
  Reading back one definition of the database: the loops of \<open>syscalldb_unpack\<close> over the words
  of a definition, the size of pointers, and \<open>get_nr\<close>'s position of a number.
\<close>

section \<open>Arguments\<close>

lemma read_at_middle: "i < length ys \<Longrightarrow> read_at (xs @ ys @ zs) (length xs + i) = Some (ys ! i)"
  by (simp add: read_at_def nth_append)

abbreviation unpack_all ::
  "syscalldb \<Rightarrow> u32 list \<Rightarrow> syscall_arg option list option \<Rightarrow> syscall_arg option list option" where
  "unpack_all db \<equiv> foldr (\<lambda>x r. Option.bind r (unpack_arg db x))"

lemma unpack_all_None [simp]: "unpack_all db xs None = None"
  by (induction xs) auto

lemma unpack_args_run:
  assumes "\<forall>i < length xs. read_at (db_definitions db) (def + 2 + i) = Some (xs ! i)"
  shows "unpack_args db def (length xs) as = unpack_all db xs (Some as)"
  using assms
proof (induction xs arbitrary: as rule: rev_induct)
  case (snoc x xs)
  then have "read_at (db_definitions db) (def + 2 + length xs) = Some x"
    by (metis length_append_singleton lessI nth_append_length)
  moreover have "\<forall>i < length xs. read_at (db_definitions db) (def + 2 + i) = Some (xs ! i)"
    using snoc.prems by (metis less_SucI length_append_singleton nth_append_less)
  ultimately show ?case
    using snoc.IH by (cases "unpack_arg db x as") auto
qed simp

lemma unpack_ext_args_run:
  assumes "\<forall>i < length ps. read_at (db_definitions db) (def + 2 + 2 * i) = Some (fst (ps ! i)) \<and>
    read_at (db_definitions db) (def + 2 + 2 * i + 1) = Some (snd (ps ! i))"
  shows "unpack_ext_args db def (arch_mask a) (length ps) as =
    unpack_all db (written a ps) (Some as)"
  using assms
proof (induction ps arbitrary: as rule: rev_induct)
  case (snoc p ps)
  have "read_at (db_definitions db) (def + 2 + 2 * length ps) = Some (fst p)"
    "read_at (db_definitions db) (def + 2 + 2 * length ps + 1) = Some (snd p)"
    using snoc.prems [rule_format, of "length ps"] by (simp_all add: nth_append)
  moreover have "unpack_ext_args db def (arch_mask a) (length ps) as =
      unpack_all db (written a ps) (Some as)" for as
    using snoc.prems by (intro snoc.IH) (simp add: nth_append)
  ultimately show ?case
    by (cases "unpack_arg db (snd p) as") auto
qed simp

definition sized :: "int \<Rightarrow> syscall_arg \<Rightarrow> syscall_arg" where
  "sized n arg = (if arg_size arg = 0 then arg\<lparr>arg_size := n\<rparr> else arg)"

abbreviation place :: "nat \<times> syscall_arg \<Rightarrow> syscall_arg option list \<Rightarrow> syscall_arg option list" where
  "place \<equiv> \<lambda>(i, arg) as. as[i := Some arg]"

lemma length_place [simp]: "length (foldr place ys as) = length as"
  by (induction ys) (auto split: prod.split)

lemma unpack_entry:
  assumes "entry_of a pool x = Some (i, arg)" and "db_arg_name_pool db = pool"
    and "i < length as"
  shows "\<exists>as'. unpack_arg db x as = Some as' \<and>
    map (map_option (sized (pointer_size a))) as'
      = place (i, arg) (map (map_option (sized (pointer_size a))) as)"
  using assms by (auto simp: entry_of_def unpack_arg_def sized_def map_update)

lemma unpack_all_entries:
  assumes "map (entry_of a pool) xs = map Some ys" and "db_arg_name_pool db = pool"
    and "\<forall>y \<in> set ys. fst y < length as"
  shows "\<exists>as'. unpack_all db xs (Some as) = Some as' \<and>
    map (map_option (sized (pointer_size a))) as'
      = foldr place ys (map (map_option (sized (pointer_size a))) as)"
  using assms
proof (induction xs arbitrary: ys)
  case (Cons x xs)
  then obtain i arg ys' where ys: "ys = (i, arg) # ys'" by (cases ys) auto
  then obtain as1 where as1: "unpack_all db xs (Some as) = Some as1"
    and sized: "map (map_option (sized (pointer_size a))) as1
      = foldr place ys' (map (map_option (sized (pointer_size a))) as)"
    using Cons.IH [of ys'] Cons.prems by auto
  then have "length as1 = length as" by (metis length_map length_place)
  then show ?case
    using unpack_entry [of a pool x i arg db as1] Cons.prems ys as1 sized by auto
qed simp

lemma place_all:
  assumes "length xs = n" and "j \<le> n"
  shows "foldr place (concat (map (\<lambda>i. case xs ! i of None \<Rightarrow> [] | Some arg \<Rightarrow> [(i, arg)]) [j..<n]))
    (replicate n None) = replicate j None @ drop j xs"
  using assms(2)
proof (induction rule: inc_induct)
  case base
  then show ?case using assms(1) by simp
next
  case (step j)
  have xs: "drop j xs = xs ! j # drop (Suc j) xs" using step assms(1) by (simp add: Cons_nth_drop_Suc)
  show ?case
    using step xs
    by (cases "xs ! j")
       (auto simp: upt_conv_Cons list_update_append replicate_append_same [symmetric]
         simp del: upt.simps)
qed

lemma those_Some_map: "those (map (\<lambda>x. Some (f x)) xs) = Some (map f xs)"
  by (induction xs) auto

text \<open>The words of a definition, with or without a mask for each argument.\<close>

lemma unpack_definition:
  assumes "map (entry_of a pool) xs = map Some (concat (map (args_at a) [0..<6]))"
    and "db_arg_name_pool db = pool" and "length (desc_args (hd (syscall a))) = 6"
    and "flag (arch_mask a)"
    and "read_at (db_pointer_size db) (pos (arch_mask a)) = Some (pointer_size a)"
  shows "\<exists>as. unpack_all db xs (Some (replicate 6 None)) = Some as \<and>
    those (map (fill_pointer_size db (arch_mask a)) as) = Some (desc_args (hd (syscall a)))"
proof -
  let ?fix = "map_option (sized (pointer_size a))"
  have "\<forall>y \<in> set (concat (map (args_at a) [0..<6])). fst y < 6"
    by (auto simp: args_at_def split: option.splits)
  then obtain as where as: "unpack_all db xs (Some (replicate 6 None)) = Some as"
    and "map ?fix as = foldr place (concat (map (args_at a) [0..<6])) (replicate 6 None)"
    using unpack_all_entries [OF assms(1,2), of "replicate 6 None"] by auto
  moreover have "args_at a = (\<lambda>i. case desc_args (hd (syscall a)) ! i of
      None \<Rightarrow> [] | Some arg \<Rightarrow> [(i, arg)])"
    by (simp add: fun_eq_iff args_at_def current_arg_def)
  ultimately have sized: "map ?fix as = desc_args (hd (syscall a))"
    using place_all [OF assms(3), of 0] by simp
  have "fill_pointer_size db (arch_mask a) = (\<lambda>arg. Some (?fix arg))"
    using flag_ctz [OF assms(4)] assms(5)
    by (auto simp: fun_eq_iff fill_pointer_size_def sized_def split: option.split)
  then show ?thesis using as sized those_Some_map [of ?fix as] by simp
qed

section \<open>Numbers\<close>

lemma flag_match: "flag w \<Longrightarrow> w AND m \<noteq> 0 \<Longrightarrow> w AND m = w"
  using flag_bit [of w] flag_and [of w m] by (auto simp: bit_eq_iff [of "w AND m"] bit_and_iff)

lemma flag_below: "flag w \<Longrightarrow> bit (w XOR (w - 1)) j \<longleftrightarrow> j \<le> pos w"
proof -
  assume w: "flag w"
  have "w = 2 ^ pos w"
    using flag_bit [OF w] by (auto simp: bit_eq_iff [of w] bit_simps)
  then have "w - 1 = 2 ^ pos w - 1" by (rule arg_cong [of _ _ "\<lambda>v. v - 1"])
  then have "w - 1 = mask (pos w)" by (simp only: mask_eq_exp_minus_1)
  then have "bit (w XOR (w - 1)) j \<longleftrightarrow> bit w j \<noteq> bit (mask (pos w) :: u32) j"
    by (simp add: bit_xor_iff)
  then show ?thesis
    using flag_bit(1) [OF w] flag_bit(2) [OF w, of j] by (auto simp: bit_simps)
qed

lemma length_filter_le_nth:
  fixes xs :: "nat list"
  assumes "sorted_wrt (<) xs" and "i < length xs"
  shows "length (filter (\<lambda>x. x \<le> xs ! i) xs) = Suc i"
proof -
  have less: "j < k \<Longrightarrow> k < length xs \<Longrightarrow> xs ! j < xs ! k" for j k
    using assms(1) by (simp add: sorted_wrt_nth_less)
  have "\<forall>x \<in> set (take (Suc i) xs). x \<le> xs ! i"
    using less assms(2) by (fastforce simp: in_set_conv_nth less_Suc_eq)
  moreover have "\<forall>x \<in> set (drop (Suc i) xs). \<not> x \<le> xs ! i"
  proof
    fix x
    assume "x \<in> set (drop (Suc i) xs)"
    then obtain j where "j < length xs - Suc i" and "x = xs ! (Suc i + j)"
      by (auto simp: in_set_conv_nth)
    then show "\<not> x \<le> xs ! i" using less [of i "Suc i + j"] by (simp add: less_diff_conv not_le)
  qed
  moreover have "filter (\<lambda>x. x \<le> xs ! i) xs =
      filter (\<lambda>x. x \<le> xs ! i) (take (Suc i) xs) @ filter (\<lambda>x. x \<le> xs ! i) (drop (Suc i) xs)"
    by (metis append_take_drop_id filter_append)
  ultimately show ?thesis using assms(2) by simp
qed

text \<open>The architectures in the order of their bits, and a mask that is made of their bits.\<close>

definition ascending_archs :: "arch_ctx list \<Rightarrow> bool" where
  "ascending_archs as \<longleftrightarrow>
     (\<forall>a \<in> set as. flag (arch_mask a)) \<and> sorted_wrt (<) (map arch_mask as)"

definition covers :: "arch_ctx list \<Rightarrow> u32 \<Rightarrow> bool" where
  "covers as m \<longleftrightarrow> (\<forall>j. bit m j \<longrightarrow> (\<exists>a \<in> set as. pos (arch_mask a) = j))"

lemma ascending_archs_ok: "ascending_archs as \<Longrightarrow> archs_ok as"
  by (auto simp: ascending_archs_def archs_ok_def strict_sorted_iff)

lemma bits_of_archs:
  assumes "ascending_archs as" and "covers as m"
  shows "map (pos \<circ> arch_mask) (filter (\<lambda>a. hit a m) as) = filter (bit m) [0..<32]"
proof (rule sorted_distinct_set_unique)
  let ?bits = "map (pos \<circ> arch_mask) (filter (\<lambda>a. hit a m) as)"
  have "sorted_wrt (\<lambda>a b. arch_mask a < arch_mask b) as"
    using assms(1) by (simp add: ascending_archs_def sorted_wrt_map)
  then have "sorted_wrt (\<lambda>a b. arch_mask a < arch_mask b) (filter (\<lambda>a. hit a m) as)"
    by (rule sorted_wrt_filter)
  then have "sorted_wrt (<) ?bits"
    unfolding sorted_wrt_map
    by (rule sorted_wrt_mono_rel [rotated])
       (use assms(1) in \<open>auto simp: ascending_archs_def flag_less\<close>)
  then show "sorted ?bits" and "distinct ?bits" by (simp_all add: strict_sorted_iff)
  show "sorted (filter (bit m) [0..<32])" and "distinct (filter (bit m) [0..<32])"
    by (simp_all add: sorted_wrt_filter)
  have "hit a m \<longleftrightarrow> bit m (pos (arch_mask a))" and "pos (arch_mask a) < 32" if "a \<in> set as" for a
    using assms(1) that flag_and flag_bit(1) by (simp_all add: ascending_archs_def)
  then show "set ?bits = set (filter (bit m) [0..<32])"
    using assms(2) by (auto simp: covers_def image_iff) metis
qed

lemma number_position:
  assumes "ascending_archs as" and "covers as m"
    and "i < length (filter (\<lambda>a. hit a m) as)" and "a = filter (\<lambda>a. hit a m) as ! i"
  shows "popcount (m AND (arch_mask a XOR (arch_mask a - 1))) = Suc i"
proof -
  have a: "a \<in> set as" using assms(3,4) nth_mem by fastforce
  then have fl: "flag (arch_mask a)" using assms(1) by (simp add: ascending_archs_def)
  let ?bits = "filter (bit m) [0..<32]"
  have bits: "?bits = map (pos \<circ> arch_mask) (filter (\<lambda>a. hit a m) as)"
    using bits_of_archs [OF assms(1,2)] by simp
  then have i: "i < length ?bits" and p: "?bits ! i = pos (arch_mask a)"
    using assms(3,4) by simp_all
  have "popcount (m AND (arch_mask a XOR (arch_mask a - 1)))
      = length (filter (\<lambda>j. j \<le> pos (arch_mask a)) ?bits)"
    unfolding popcount_def filter_filter
    by (rule arg_cong [of _ _ length], rule filter_cong [OF refl])
       (use flag_below [OF fl] in \<open>auto simp: bit_and_iff\<close>)
  also have "\<dots> = Suc i"
    using length_filter_le_nth [of ?bits i] i p
    by (simp add: sorted_wrt_filter del: filter_filter)
  finally show ?thesis .
qed

lemma popcount_archs:
  "ascending_archs as \<Longrightarrow> covers as m \<Longrightarrow> popcount m = length (filter (\<lambda>a. hit a m) as)"
  using bits_of_archs [of as m] unfolding popcount_def by (metis length_map)

section \<open>Definitions\<close>

definition arg_count :: "u32 \<Rightarrow> (u32 \<times> u32) list \<Rightarrow> u32" where
  "arg_count m ps =
     (if \<forall>p \<in> set ps. fst p = m then of_nat (length ps) else - of_nat (length ps))"

definition arg_words :: "u32 \<Rightarrow> (u32 \<times> u32) list \<Rightarrow> u32 list" where
  "arg_words m ps = (if \<forall>p \<in> set ps. fst p = m then map snd ps else flat ps)"

definition block :: "u32 \<Rightarrow> (u32 \<times> u32) list \<Rightarrow> u32 list \<Rightarrow> u32 list" where
  "block m ps ns = m # arg_count m ps # arg_words m ps @ ns"

lemma length_flat [simp]: "length (flat ps) = 2 * length ps"
  by (induction ps) auto

lemma nth_flat:
  "i < length ps \<Longrightarrow> flat ps ! (2 * i) = fst (ps ! i) \<and> flat ps ! (2 * i + 1) = snd (ps ! i)"
proof (induction ps arbitrary: i)
  case (Cons p ps)
  then show ?case by (cases i; cases p) auto
qed simp

lemma unat_neg32: "w \<noteq> 0 \<Longrightarrow> unat (- w) = 2 ^ 32 - unat w" for w :: u32
proof -
  assume "w \<noteq> 0"
  then have "unat w \<noteq> 0" by (metis unat_eq_zero)
  moreover have "unat w < 2 ^ LENGTH(32)" by (rule unsigned_less)
  then have "- w = of_nat (2 ^ 32 - unat w)" by (simp add: of_nat_diff)
  ultimately show ?thesis by (simp only: unat_of_nat) simp
qed

lemma arg_count_cases:
  assumes "length ps < 2 ^ 30"
  shows "(\<forall>p \<in> set ps. fst p = m) \<Longrightarrow>
      arg_count m ps \<le> INT32_MAX \<and> unat (arg_count m ps) = length ps"
    and "\<not> (\<forall>p \<in> set ps. fst p = m) \<Longrightarrow>
      arg_count m ps > INT32_MAX \<and> unat (- arg_count m ps) = length ps
      \<and> unat (2 * (- arg_count m ps)) = 2 * length ps"
proof -
  have len: "unat (of_nat (length ps) :: u32) = length ps"
    using assms by (simp add: unat_of_nat)
  show "(\<forall>p \<in> set ps. fst p = m) \<Longrightarrow>
      arg_count m ps \<le> INT32_MAX \<and> unat (arg_count m ps) = length ps"
    using assms len by (simp add: arg_count_def word_le_nat_alt)
  assume ext: "\<not> (\<forall>p \<in> set ps. fst p = m)"
  then have "0 < length ps" by auto
  then have "(of_nat (length ps) :: u32) \<noteq> 0" using len by (metis less_irrefl unat_0)
  then have "unat (- (of_nat (length ps) :: u32)) = 2 ^ 32 - length ps"
    by (simp only: unat_neg32 len simp_thms)
  moreover have "unat (2 * of_nat (length ps) :: u32) = 2 * length ps"
    using assms len by (simp add: unat_word_ariths)
  ultimately show "arg_count m ps > INT32_MAX \<and> unat (- arg_count m ps) = length ps
      \<and> unat (2 * (- arg_count m ps)) = 2 * length ps"
    using assms ext len by (simp add: arg_count_def word_less_nat_alt)
qed

abbreviation numbers :: "arch_ctx list \<Rightarrow> u32 \<Rightarrow> u32 list" where
  "numbers as m \<equiv> map (\<lambda>a. desc_nr (hd (syscall a))) (filter (\<lambda>a. hit a m) as)"

text \<open>A definition inside of the array of definitions, and where its parts are.\<close>

lemma block_layout:
  assumes "db_definitions db = pre @ block m ps ns @ post" and "length ps < 2 ^ 30"
  shows "read_at (db_definitions db) (length pre) = Some m"
    and "read_at (db_definitions db) (length pre + 1) = Some (arg_count m ps)"
    and "SYSCALLDB_DEFINITION_NR (length pre) (arg_count m ps)
      = length pre + 2 + length (arg_words m ps)"
    and "i < length (arg_words m ps) \<Longrightarrow>
      read_at (db_definitions db) (length pre + 2 + i) = Some (arg_words m ps ! i)"
    and "i < length ns \<Longrightarrow>
      read_at (db_definitions db) (length pre + 2 + length (arg_words m ps) + i) = Some (ns ! i)"
proof -
  note mid = read_at_middle [of _ "block m ps ns" pre post, folded assms(1)]
  show "read_at (db_definitions db) (length pre) = Some m"
    using mid [of 0] by (simp add: block_def)
  show "read_at (db_definitions db) (length pre + 1) = Some (arg_count m ps)"
    using mid [of 1] by (simp add: block_def)
  show "SYSCALLDB_DEFINITION_NR (length pre) (arg_count m ps)
      = length pre + 2 + length (arg_words m ps)"
    using arg_count_cases [OF assms(2), of m]
    by (auto simp: SYSCALLDB_DEFINITION_NR_def arg_words_def)
  show "i < length (arg_words m ps) \<Longrightarrow>
      read_at (db_definitions db) (length pre + 2 + i) = Some (arg_words m ps ! i)"
    using mid [of "2 + i"] by (simp add: block_def add.assoc)
  show "i < length ns \<Longrightarrow>
      read_at (db_definitions db) (length pre + 2 + length (arg_words m ps) + i) = Some (ns ! i)"
    using mid [of "2 + length (arg_words m ps) + i"] by (simp add: block_def add.assoc)
qed

lemma block_args:
  assumes "db_definitions db = pre @ block m ps ns @ post" and "length ps < 2 ^ 30" and "hit a m"
  shows "(if arg_count m ps \<le> INT32_MAX
      then unpack_args db (length pre) (unat (arg_count m ps)) as
      else unpack_ext_args db (length pre) (arch_mask a) (unat (- arg_count m ps)) as)
    = unpack_all db (written a ps) (Some as)"
proof (cases "\<forall>p \<in> set ps. fst p = m")
  case True
  then have "written a ps = arg_words m ps"
    using assms(3) by (auto simp: arg_words_def intro!: arg_cong [of _ _ "map snd"])
  then show ?thesis
    using arg_count_cases(1) [OF assms(2) True] block_layout(4) [OF assms(1,2)]
      unpack_args_run [of "arg_words m ps" db "length pre" as] True
    by (simp add: arg_words_def)
next
  case False
  then have words: "arg_words m ps = flat ps" by (auto simp: arg_words_def)
  have "\<forall>i < length ps.
      read_at (db_definitions db) (length pre + 2 + 2 * i) = Some (fst (ps ! i)) \<and>
      read_at (db_definitions db) (length pre + 2 + 2 * i + 1) = Some (snd (ps ! i))"
  proof (intro allI impI)
    fix i
    assume "i < length ps"
    then show "read_at (db_definitions db) (length pre + 2 + 2 * i) = Some (fst (ps ! i)) \<and>
        read_at (db_definitions db) (length pre + 2 + 2 * i + 1) = Some (snd (ps ! i))"
      using block_layout(4) [OF assms(1,2), of "2 * i"] nth_flat [of i ps]
        block_layout(4) [OF assms(1,2), of "2 * i + 1"] words by simp
  qed
  then show ?thesis
    using arg_count_cases(2) [OF assms(2) False] unpack_ext_args_run [of ps db "length pre" a as]
    by (simp add: not_le [symmetric])
qed

lemma block_number:
  assumes "db_definitions db = pre @ block m ps (numbers as m) @ post" and "length ps < 2 ^ 30"
    and "ascending_archs as" and "covers as m" and "a \<in> set as" and "hit a m"
  shows "get_nr db (length pre) (arch_mask a) = Some (desc_nr (hd (syscall a)))"
proof -
  obtain i where i: "i < length (filter (\<lambda>a. hit a m) as)" and a: "a = filter (\<lambda>a. hit a m) as ! i"
    using assms(5,6) in_set_conv_nth [of a "filter (\<lambda>a. hit a m) as"] by auto
  have "arch_mask a AND m = arch_mask a"
    using flag_match assms(3,5,6) by (simp add: ascending_archs_def)
  moreover have "numbers as m ! i = desc_nr (hd (syscall a))" using i a by simp
  ultimately show ?thesis
    using block_layout(1-3) [OF assms(1,2)] block_layout(5) [OF assms(1,2), of i]
      number_position [OF assms(3,4) i a] i
    by (simp add: get_nr_def and.commute)
qed

lemma block_unpack:
  assumes "db_definitions db = pre @ block m ps (numbers as m) @ post" and "length ps < 2 ^ 30"
    and "ascending_archs as" and "covers as m" and "a \<in> set as" and "hit a m"
    and "map (entry_of a (db_arg_name_pool db)) (written a ps)
      = map Some (concat (map (args_at a) [0..<6]))"
    and "length (desc_args (hd (syscall a))) = 6"
    and "read_at (db_pointer_size db) (pos (arch_mask a)) = Some (pointer_size a)"
  shows "syscalldb_unpack db (length pre) (arch_mask a) =
    Some ((hd (syscall a))\<lparr>desc_name := None, is_custom := False\<rparr>)"
proof -
  have fl: "flag (arch_mask a)" using assms(3,5) by (simp add: ascending_archs_def)
  obtain xs where "unpack_all db (written a ps) (Some (replicate 6 None)) = Some xs"
    and "those (map (fill_pointer_size db (arch_mask a)) xs) = Some (desc_args (hd (syscall a)))"
    using unpack_definition [OF assms(7) refl assms(8) fl assms(9)] by blast
  then show ?thesis
    using block_layout(1,2) [OF assms(1,2)] block_number [OF assms(1-6)]
      block_args [OF assms(1,2,6), of "replicate 6 None"] flag_match [OF fl assms(6)]
    by (simp add: syscalldb_unpack_def)
qed

end
