(* ===== verification/Syscalldb_Merge.thy ===== *)
theory Syscalldb_Merge
  imports Syscalldb_Blocks
begin

text \<open>
  The merge of the sorted tables: one round of the generator's main loop writes the definition
  of the least name that is left, and the loop as a whole writes a definition for every name of
  every table, one behind the other.
\<close>

section \<open>One system call\<close>

lemma compress_args_spec:
  assumes "syscall_definitions c = pre @ flat ps"
  shows "compress_args c m (length pre) =
    (c\<lparr>syscall_definitions := pre @ arg_words m ps\<rparr>, arg_count m ps)"
proof -
  have fst: "syscall_definitions c ! (length pre + 2 * i) = fst (ps ! i)"
    and snd: "syscall_definitions c ! (length pre + i * 2 + 1) = snd (ps ! i)"
    if "i < length ps" for i
    using nth_flat [OF that] assms by (simp_all add: nth_append mult.commute)
  have narg: "(length (syscall_definitions c) - length pre) div 2 = length ps"
    using assms by simp
  have ex: "list_ex (\<lambda>i. syscall_definitions c ! (length pre + 2 * i) \<noteq> m) [0..<length ps]
      \<longleftrightarrow> \<not> (\<forall>p \<in> set ps. fst p = m)"
    using fst by (auto simp: list_ex_iff all_set_conv_all_nth)
  have "map (\<lambda>i. syscall_definitions c ! (length pre + i * 2 + 1)) [0..<length ps] = map snd ps"
    using snd by (intro nth_equalityI) auto
  then show ?thesis
    using assms
    unfolding compress_args_def Let_def narg ex arg_words_def arg_count_def by simp
qed

lemma do_syscall_spec:
  assumes "do_syscall c m name = Some c'" and "archs_ok (arch c)"
    and "\<forall>a \<in> set (arch c). hit a m \<longrightarrow> (\<forall>i < 6. names_ok a i)"
  shows "\<exists>ps x. syscall_definitions c' = syscall_definitions c @ block m ps (numbers (arch c) m) \<and>
    arg_name_pool c' = arg_name_pool c @ x \<and>
    syscall_entries c' = syscall_entries c @ [(name, of_nat (length (syscall_definitions c)))] \<and>
    length ps \<le> cost (\<lambda>a. length (concat (map (args_at a) [0..<6]))) (arch c) m \<and>
    length x \<le> cost (\<lambda>a. chars (concat (map (args_at a) [0..<6]))) (arch c) m \<and>
    (x \<noteq> [] \<longrightarrow> last x = CHR 0x00) \<and>
    (length (arg_name_pool c') \<le> 0xffff \<longrightarrow> (\<forall>a \<in> set (arch c). hit a m \<longrightarrow>
       map (entry_of a (arg_name_pool c')) (written a ps)
         = map Some (concat (map (args_at a) [0..<6]))))"
  using assms(1)
proof (rule do_syscallE)
  let ?c = "start_syscall c m name"
  fix c3 c4 n
  assume c3: "do_args ?c m [0..<6] = Some c3"
    and c4: "compress_args c3 m (length (syscall_definitions c) + 2) = (c4, n)"
    and c': "c' = complete_syscall (c4\<lparr>syscall_definitions :=
      (syscall_definitions c4)[length (syscall_definitions c) + 1 := n]\<rparr>) m"
  have "tells ?c m (\<lambda>a. concat (map (args_at a) [0..<6])) c3"
    using assms(2,3) by (intro do_args_spec [OF c3]) auto
  then obtain ps x where c3: "c3 = ?c\<lparr>syscall_definitions := syscall_definitions ?c @ flat ps,
        arg_name_pool := arg_name_pool ?c @ x\<rparr>"
    and len: "length ps \<le> cost (\<lambda>a. length (concat (map (args_at a) [0..<6]))) (arch c) m"
      "length x \<le> cost (\<lambda>a. chars (concat (map (args_at a) [0..<6]))) (arch c) m"
      "x \<noteq> [] \<longrightarrow> last x = CHR 0x00"
    and ps: "length (arg_name_pool c @ x) \<le> 0xffff \<Longrightarrow> a \<in> set (arch c) \<Longrightarrow>
       map (entry_of a (arg_name_pool c @ x)) (written a ps)
         = map Some (if hit a m then concat (map (args_at a) [0..<6]) else [])" for a
    unfolding tells_def by auto
  have "c4 = c3\<lparr>syscall_definitions := (syscall_definitions c @ [m, 0]) @ arg_words m ps\<rparr>"
    and "n = arg_count m ps"
    using compress_args_spec [of c3 "syscall_definitions c @ [m, 0]" ps m] c3 c4 by auto
  then have "syscall_definitions c' = syscall_definitions c @ block m ps (numbers (arch c) m)"
    and "arg_name_pool c' = arg_name_pool c @ x"
    and "syscall_entries c' = syscall_entries c @ [(name, of_nat (length (syscall_definitions c)))]"
    using c' c3 by (simp_all add: complete_syscall_def block_def list_update_append)
  then show ?thesis using ps len by (intro exI [of _ ps] exI [of _ x]) auto
qed

section \<open>The least name\<close>

lemma strcmp_order:
  "strcmp s t = 0 \<longleftrightarrow> s = t" "strcmp s t < 0 \<longleftrightarrow> s < t" "0 < strcmp s t \<longleftrightarrow> t < s"
proof -
  have "(strcmp s t = 0 \<longleftrightarrow> s = t) \<and> (strcmp s t < 0 \<longleftrightarrow> s < t) \<and> (0 < strcmp s t \<longleftrightarrow> t < s)"
  proof (induction s t rule: strcmp.induct)
    case (4 x xs y ys)
    then show ?case
      using not_less_iff_gr_or_eq [of "of_char x :: nat" "of_char y"] by (auto simp: less_char_def)
  qed auto
  then show "strcmp s t = 0 \<longleftrightarrow> s = t" "strcmp s t < 0 \<longleftrightarrow> s < t" "0 < strcmp s t \<longleftrightarrow> t < s"
    by blast+
qed

abbreviation dname :: "syscall_descriptor \<Rightarrow> string" where
  "dname d \<equiv> the (desc_name d)"

abbreviation starts :: "string \<Rightarrow> arch_ctx \<Rightarrow> bool" where
  "starts n a \<equiv> syscall a \<noteq> [] \<and> dname (hd (syscall a)) = n"

lemma begin_syscall_loop_spec:
  assumes "begin_syscall_loop as m nm = (m', nm')"
  shows "nm' \<le> nm \<and> (\<forall>a \<in> set as. syscall a \<noteq> [] \<longrightarrow> nm' \<le> dname (hd (syscall a))) \<and>
    m' = foldl (OR) (if nm' = nm then m else 0) (map arch_mask (filter (starts nm') as))"
  using assms
proof (induction as arbitrary: m nm)
  case (Cons a as)
  show ?case
  proof (cases "syscall a")
    case Nil
    then show ?thesis using Cons by simp
  next
    case d: (Cons d ds)
    consider "nm = dname d" | "dname d < nm" | "nm < dname d" by (rule linorder_cases)
    then show ?thesis
    proof cases
      case 1
      then have "strcmp nm (dname d) = 0" by (simp add: strcmp_order)
      then have "begin_syscall_loop as (m OR arch_mask a) nm = (m', nm')"
        using Cons.prems d by simp
      then show ?thesis using Cons.IH [of "m OR arch_mask a" nm] d 1 by auto
    next
      case 2
      then have "0 < strcmp nm (dname d)" by (simp add: strcmp_order)
      then have "begin_syscall_loop as (arch_mask a) (dname d) = (m', nm')"
        using Cons.prems d by simp
      then show ?thesis using Cons.IH [of "arch_mask a" "dname d"] d 2 by auto
    next
      case 3
      then have "strcmp nm (dname d) < 0" by (simp add: strcmp_order)
      then have "begin_syscall_loop as m nm = (m', nm')"
        using Cons.prems d by simp
      then show ?thesis using Cons.IH [of m nm] d 3 by auto
    qed
  qed
qed simp

lemma begin_syscall_loop_attained:
  "begin_syscall_loop as m nm = (m', nm') \<Longrightarrow> nm' \<noteq> nm \<Longrightarrow> \<exists>a \<in> set as. starts nm' a"
proof (induction as arbitrary: m nm)
  case (Cons a as)
  show ?case
  proof (cases "\<exists>b \<in> set as. starts nm' b")
    case False
    then have eq: "begin_syscall_loop as m1 nm1 = (m', nm') \<Longrightarrow> nm' = nm1" for m1 nm1
      using Cons.IH by blast
    show ?thesis
      using Cons.prems by (auto simp: Let_def split: list.splits if_splits dest!: eq)
  qed auto
qed simp

text \<open>
  What the generator takes for granted of the tables: names and argument names are strings
  without null characters, names come before the sentinel, and no descriptor is custom.
\<close>

definition desc_ok :: "syscall_descriptor \<Rightarrow> bool" where
  "desc_ok d \<longleftrightarrow> desc_name d \<noteq> None \<and> dname d \<le> sentinel \<and> length (desc_args d) = 6 \<and>
     (\<forall>arg. Some arg \<in> set (desc_args d) \<longrightarrow> CHR 0x00 \<notin> set (arg_name arg)) \<and> \<not> is_custom d"

definition ctx_ok :: "ctx \<Rightarrow> bool" where
  "ctx_ok c \<longleftrightarrow> ascending_archs (arch c) \<and> (\<forall>a \<in> set (arch c).
     sorted_wrt (<) (map dname (syscall a)) \<and> (\<forall>d \<in> set (syscall a). desc_ok d))"

lemma ctx_okD:
  assumes "ctx_ok c"
  shows "ascending_archs (arch c)" and "archs_ok (arch c)"
    and "a \<in> set (arch c) \<Longrightarrow> sorted_wrt (<) (map dname (syscall a))"
    and "a \<in> set (arch c) \<Longrightarrow> d \<in> set (syscall a) \<Longrightarrow> desc_ok d"
  using assms ascending_archs_ok by (auto simp: ctx_ok_def)

lemma bit_foldl_or:
  "bit (foldl (OR) (x :: u32) ys) j \<longleftrightarrow> bit x j \<or> (\<exists>y \<in> set ys. bit y j)"
  by (induction ys arbitrary: x) (auto simp: bit_or_iff)

lemma begin_syscall_spec:
  assumes "ctx_ok c" and "begin_syscall c = (m, n)"
  shows "a \<in> set (arch c) \<Longrightarrow> hit a m \<longleftrightarrow> starts n a"
    and "covers (arch c) m"
    and "m = 0 \<Longrightarrow> a \<in> set (arch c) \<Longrightarrow> syscall a = []"
    and "a \<in> set (arch c) \<Longrightarrow> syscall a \<noteq> [] \<Longrightarrow> n \<le> dname (hd (syscall a))"
    and "m \<noteq> 0 \<Longrightarrow> \<exists>a \<in> set (arch c). starts n a"
proof -
  have "begin_syscall_loop (arch c) 0 sentinel = (m, n)"
    using assms(2) by (simp add: begin_syscall_def)
  note spec = begin_syscall_loop_spec [OF this]
  then have m: "m = foldl (OR) 0 (map arch_mask (filter (starts n) (arch c)))" by simp
  show hits: "hit a m \<longleftrightarrow> starts n a" if a: "a \<in> set (arch c)" for a
  proof -
    have "hit a m \<longleftrightarrow> (\<exists>b \<in> set (arch c). starts n b \<and> hit a (arch_mask b))"
      unfolding m using and_foldl_or [of "arch_mask a" 0] by auto
    then show ?thesis using archs_ok_eq [OF ctx_okD(2) [OF assms(1)] a] a by auto
  qed
  have flags: "b \<in> set (arch c) \<Longrightarrow> flag (arch_mask b)" for b
    using ctx_okD(1) [OF assms(1)] by (simp add: ascending_archs_def)
  show "covers (arch c) m"
    unfolding covers_def
  proof (intro allI impI)
    fix j
    assume "bit m j"
    then obtain b where "b \<in> set (arch c)" and "bit (arch_mask b) j"
      unfolding m by (auto simp: bit_foldl_or)
    then show "\<exists>a \<in> set (arch c). pos (arch_mask a) = j"
      using flag_bit(2) [OF flags, of b j] by auto
  qed
  show least: "a \<in> set (arch c) \<Longrightarrow> syscall a \<noteq> [] \<Longrightarrow> n \<le> dname (hd (syscall a))" for a
    using spec by blast
  show "syscall a = []" if "m = 0" and a: "a \<in> set (arch c)"
  proof (rule ccontr)
    assume ne: "syscall a \<noteq> []"
    have "n \<noteq> sentinel"
      using hits [OF a] least [OF a ne] ctx_okD(4) [OF assms(1) a, of "hd (syscall a)"] ne that
      by (auto simp: desc_ok_def)
    then have "\<exists>b \<in> set (arch c). starts n b"
      using begin_syscall_loop_attained [of "arch c" 0 sentinel] assms(2)
      by (auto simp: begin_syscall_def)
    then show False using hits that by fastforce
  qed
  show "\<exists>a \<in> set (arch c). starts n a" if "m \<noteq> 0"
  proof (rule ccontr)
    assume "\<not> (\<exists>a \<in> set (arch c). starts n a)"
    then have "filter (starts n) (arch c) = []" by (simp add: filter_empty_conv)
    then show False using m that by simp
  qed
qed

section \<open>One round\<close>

definition advance :: "u32 \<Rightarrow> arch_ctx \<Rightarrow> arch_ctx" where
  "advance m a = (if hit a m then a\<lparr>syscall := tl (syscall a)\<rparr> else a)"

abbreviation names :: "arch_ctx \<Rightarrow> string set" where
  "names a \<equiv> dname ` set (syscall a)"

lemma advance_simps [simp]:
  "arch_mask (advance m a) = arch_mask a" "pointer_size (advance m a) = pointer_size a"
  "syscall (advance m a) = (if hit a m then tl (syscall a) else syscall a)"
  by (simp_all add: advance_def)

lemma do_syscall_advance: "do_syscall c m n = Some c' \<Longrightarrow> arch c' = map (advance m) (arch c)"
  using do_syscall_arch [of c m n c'] by (simp add: advance_def)

lemma advance_names:
  assumes "ctx_ok c" and "begin_syscall c = (m, n)" and a: "a \<in> set (arch c)"
  shows "n \<in> names a \<longleftrightarrow> hit a m"
    and "d \<in> set (syscall (advance m a)) \<Longrightarrow> n < dname d"
    and "d \<in> set (syscall a) \<Longrightarrow> n \<noteq> dname d \<longleftrightarrow> d \<in> set (syscall (advance m a))"
proof -
  note hits = begin_syscall_spec(1) [OF assms]
  have sorted: "sorted_wrt (\<lambda>x y. dname x < dname y) (syscall a)"
    using ctx_okD(3) [OF assms(1) a] by (simp add: sorted_wrt_map)
  note least = begin_syscall_spec(4) [OF assms]
  have rest: "d \<in> set (syscall (advance m a)) \<Longrightarrow> n < dname d" for d
    using sorted least hits by (cases "syscall a") (auto split: if_splits)
  then show "d \<in> set (syscall (advance m a)) \<Longrightarrow> n < dname d" .
  show "n \<in> names a \<longleftrightarrow> hit a m"
  proof (cases "hit a m")
    case True
    then show ?thesis using hits by (cases "syscall a") auto
  next
    case False
    then show ?thesis using rest by auto
  qed
  show "d \<in> set (syscall a) \<Longrightarrow> n \<noteq> dname d \<longleftrightarrow> d \<in> set (syscall (advance m a))"
    using rest [of d] hits by (cases "syscall a") (auto split: if_splits)
qed

lemma advance_ok:
  assumes "ctx_ok c" and "do_syscall c m n = Some c'"
  shows "ctx_ok c'"
proof -
  have arch: "arch c' = map (advance m) (arch c)" by (rule do_syscall_advance [OF assms(2)])
  then have "map arch_mask (arch c') = map arch_mask (arch c)" by (simp add: o_def)
  moreover have "\<forall>a \<in> set (arch c'). flag (arch_mask a)"
    using ctx_okD(1) [OF assms(1)] arch by (auto simp: ascending_archs_def)
  ultimately have "ascending_archs (arch c')"
    using ctx_okD(1) [OF assms(1)] by (simp add: ascending_archs_def)
  moreover have "sorted_wrt (<) (map dname (syscall (advance m a)))
      \<and> (\<forall>d \<in> set (syscall (advance m a)). desc_ok d)" if "a \<in> set (arch c)" for a
    using ctx_okD(3,4) [OF assms(1) that] by (cases "syscall a") auto
  ultimately show ?thesis using arch by (auto simp: ctx_ok_def)
qed

text \<open>
  The database answers for a name at an offset: the definition there has the bits of the
  architectures that know the name, and it can be unpacked into their descriptors.
\<close>

definition stripped :: "syscall_descriptor \<Rightarrow> syscall_descriptor" where
  "stripped d = d\<lparr>desc_name := None\<rparr>"

definition answers :: "syscalldb \<Rightarrow> arch_ctx list \<Rightarrow> string \<Rightarrow> nat \<Rightarrow> bool" where
  "answers db as n off \<longleftrightarrow> (\<exists>m. read_at (db_definitions db) off = Some m \<and> (\<forall>a \<in> set as.
     (hit a m \<longleftrightarrow> n \<in> names a) \<and>
     (\<forall>d \<in> set (syscall a). dname d = n \<longrightarrow>
        syscalldb_unpack db off (arch_mask a) = Some (stripped d))))"

lemma answers_advance:
  assumes "ctx_ok c" and "begin_syscall c = (m, n)"
    and "answers db (map (advance m) (arch c)) n' off" and "n \<noteq> n'"
  shows "answers db (arch c) n' off"
proof -
  obtain m' where m': "read_at (db_definitions db) off = Some m'"
    and all: "\<And>a. a \<in> set (arch c) \<Longrightarrow> (hit a m' \<longleftrightarrow> n' \<in> names (advance m a)) \<and>
      (\<forall>d \<in> set (syscall (advance m a)). dname d = n' \<longrightarrow>
        syscalldb_unpack db off (arch_mask a) = Some (stripped d))"
    using assms(3) unfolding answers_def by auto
  have "(hit a m' \<longleftrightarrow> n' \<in> names a) \<and> (\<forall>d \<in> set (syscall a). dname d = n' \<longrightarrow>
        syscalldb_unpack db off (arch_mask a) = Some (stripped d))" if a: "a \<in> set (arch c)" for a
  proof -
    have "set (syscall (advance m a)) \<subseteq> set (syscall a)"
      by (cases "syscall a") auto
    moreover have "d \<in> set (syscall a) \<Longrightarrow> dname d = n' \<Longrightarrow> d \<in> set (syscall (advance m a))" for d
      using advance_names(3) [OF assms(1,2) a, of d] assms(4) by blast
    ultimately show ?thesis using all [OF a] by blast
  qed
  then show ?thesis using m' unfolding answers_def by blast
qed

section \<open>The whole loop\<close>

text \<open>Definitions that lie one behind the other, at the offsets of a list.\<close>

fun chain :: "u32 list \<Rightarrow> nat \<Rightarrow> nat list \<Rightarrow> nat \<Rightarrow> bool" where
  "chain defs off [] e \<longleftrightarrow> off = e"
| "chain defs off (p # ps) e \<longleftrightarrow> off = p \<and> (\<exists>m k. read_at defs off = Some m \<and> m \<noteq> 0 \<and>
     read_at defs (off + 1) = Some k \<and> SYSCALLDB_DEFINITION_NEXT off m k \<le> length defs \<and>
     (k > INT32_MAX \<longrightarrow> unat (2 * (- k)) = 2 * unat (- k)) \<and>
     chain defs (SYSCALLDB_DEFINITION_NEXT off m k) ps e)"

definition reads_back :: "syscalldb \<Rightarrow> ctx \<Rightarrow> bool" where
  "reads_back db c \<longleftrightarrow> (\<exists>post z. db_definitions db = syscall_definitions c @ post \<and>
     db_arg_name_pool db = arg_name_pool c @ z) \<and>
     length (arg_name_pool c) \<le> 0xffff \<and> length (syscall_definitions c) < 2 ^ 30 \<and>
     (\<forall>a \<in> set (arch c). read_at (db_pointer_size db) (pos (arch_mask a)) = Some (pointer_size a))"

text \<open>The words and the characters a descriptor can take in the database.\<close>

definition desc_words :: "syscall_descriptor \<Rightarrow> nat" where
  "desc_words d = 3 + 2 * length (List.map_filter id (desc_args d))"

definition desc_chars :: "syscall_descriptor \<Rightarrow> nat" where
  "desc_chars d = (\<Sum>arg\<leftarrow>List.map_filter id (desc_args d). Suc (length (arg_name arg)))"

abbreviation total :: "(syscall_descriptor \<Rightarrow> nat) \<Rightarrow> arch_ctx list \<Rightarrow> nat" where
  "total f as \<equiv> (\<Sum>a\<leftarrow>as. \<Sum>d\<leftarrow>syscall a. f d)"

lemma map_snd_args:
  "map snd (concat (map (\<lambda>i. case xs ! i of None \<Rightarrow> [] | Some arg \<Rightarrow> [(i, arg)]) [0..<length xs]))
    = List.map_filter id xs"
proof (induction xs rule: rev_induct)
  case (snoc x xs)
  let ?g = "\<lambda>ys i. case ys ! i of None \<Rightarrow> [] | Some arg \<Rightarrow> [(i :: nat, arg)]"
  have eq: "map (?g (xs @ [x])) [0..<length xs] = map (?g xs) [0..<length xs]"
    by (rule map_cong) auto
  have "map snd (concat (map (?g (xs @ [x])) [0..<length (xs @ [x])])) =
      map snd (concat (map (?g xs) [0..<length xs])) @ map snd (?g (xs @ [x]) (length xs))"
    unfolding eq [symmetric] by (simp only: length_append_singleton upt_Suc_append le0 map_append
        concat_append list.map concat.simps append_Nil2)
  also have "\<dots> = List.map_filter id xs @ map snd (?g (xs @ [x]) (length xs))"
    by (simp only: snoc.IH)
  finally show ?case by (simp add: map_filter_def split: option.split)
qed (simp add: map_filter_def)

lemma args_weights:
  assumes "desc_ok (hd (syscall a))"
  shows "3 + 2 * length (concat (map (args_at a) [0..<6])) = desc_words (hd (syscall a))"
    and "chars (concat (map (args_at a) [0..<6])) = desc_chars (hd (syscall a))"
proof -
  have "args_at a = (\<lambda>i. case desc_args (hd (syscall a)) ! i of
      None \<Rightarrow> [] | Some arg \<Rightarrow> [(i, arg)])"
    by (simp add: fun_eq_iff args_at_def current_arg_def)
  then have snd: "map snd (concat (map (args_at a) [0..<6]))
      = List.map_filter id (desc_args (hd (syscall a)))"
    using map_snd_args [of "desc_args (hd (syscall a))"] assms by (simp add: desc_ok_def)
  have "chars ys = (\<Sum>arg\<leftarrow>map snd ys. Suc (length (arg_name arg)))" for ys
    by (induction ys) auto
  then show "chars (concat (map (args_at a) [0..<6])) = desc_chars (hd (syscall a))"
    unfolding desc_chars_def by (simp only: snd)
  show "3 + 2 * length (concat (map (args_at a) [0..<6])) = desc_words (hd (syscall a))"
    unfolding desc_words_def snd [symmetric] by simp
qed

lemma cost_of_hits: "cost (\<lambda>_. 1) as m = length (filter (\<lambda>a. hit a m) as)"
  by (induction as) (auto simp: cost_def)

lemma block_weight:
  assumes "length ps \<le> cost w as m" and "filter (\<lambda>a. hit a m) as \<noteq> []"
  shows "length (block m ps (numbers as m)) \<le> cost (\<lambda>a. 3 + 2 * w a) as m"
proof -
  have "cost (\<lambda>a. 3 + 2 * w a) as m = 3 * cost (\<lambda>_. 1) as m + 2 * cost w as m"
    by (induction as) (auto simp: cost_def)
  moreover have "length (arg_words m ps) \<le> 2 * length ps" by (simp add: arg_words_def)
  moreover have "0 < length (filter (\<lambda>a. hit a m) as)" using assms(2) by simp
  ultimately show ?thesis
    using assms(1) by (simp only: block_def cost_of_hits list.size length_append length_map)
qed

lemma total_advance:
  assumes "\<And>a. a \<in> set as \<Longrightarrow> hit a m \<Longrightarrow> syscall a \<noteq> []"
  shows "total f as = cost (\<lambda>a. f (hd (syscall a))) as m + total f (map (advance m) as)"
  using assms
proof (induction as)
  case (Cons a as)
  then have "(\<Sum>d\<leftarrow>syscall a. f d) = (if hit a m then f (hd (syscall a)) else 0)
      + (\<Sum>d\<leftarrow>syscall (advance m a). f d)"
    by (cases "syscall a") auto
  then show ?case using Cons by (simp add: cost_def)
qed (simp add: cost_def)

lemma names_ok_hd: "desc_ok (hd (syscall a)) \<Longrightarrow> i < 6 \<Longrightarrow> names_ok a i"
  unfolding names_ok_def current_arg_def desc_ok_def by (metis nth_mem)

lemma round:
  assumes c: "ctx_ok c" and b: "begin_syscall c = (m, n)" and "m \<noteq> 0"
    and c': "do_syscall c m n = Some c'"
  obtains x y where "syscall_definitions c' = syscall_definitions c @ x"
    and "arg_name_pool c' = arg_name_pool c @ y"
    and "syscall_entries c' = syscall_entries c @ [(n, of_nat (length (syscall_definitions c)))]"
    and "x \<noteq> []" and "length x \<le> cost (\<lambda>a. desc_words (hd (syscall a))) (arch c) m"
    and "length y \<le> cost (\<lambda>a. desc_chars (hd (syscall a))) (arch c) m"
    and "y \<noteq> [] \<longrightarrow> last y = CHR 0x00"
    and "reads_back db c' \<longrightarrow> answers db (arch c) n (length (syscall_definitions c)) \<and>
      (\<exists>k. read_at (db_definitions db) (length (syscall_definitions c)) = Some m \<and>
       read_at (db_definitions db) (length (syscall_definitions c) + 1) = Some k \<and>
       (k > INT32_MAX \<longrightarrow> unat (2 * (- k)) = 2 * unat (- k)) \<and>
       SYSCALLDB_DEFINITION_NEXT (length (syscall_definitions c)) m k
         = length (syscall_definitions c'))"
proof -
  let ?as = "arch c" and ?off = "length (syscall_definitions c)"
  note hits = begin_syscall_spec(1) [OF c b]
  have hd_ok: "desc_ok (hd (syscall a))" if "a \<in> set ?as" and "hit a m" for a
    using ctx_okD(4) [OF c that(1)] hits [OF that(1)] that(2) by simp
  then have "\<forall>a \<in> set ?as. hit a m \<longrightarrow> (\<forall>i < 6. names_ok a i)"
    using names_ok_hd by blast
  then obtain ps y where
    defs: "syscall_definitions c' = syscall_definitions c @ block m ps (numbers ?as m)"
    and pool: "arg_name_pool c' = arg_name_pool c @ y"
    and entries: "syscall_entries c' = syscall_entries c @ [(n, of_nat ?off)]"
    and ps_len: "length ps \<le> cost (\<lambda>a. length (concat (map (args_at a) [0..<6]))) ?as m"
    and y_len: "length y \<le> cost (\<lambda>a. chars (concat (map (args_at a) [0..<6]))) ?as m"
    and y_last: "y \<noteq> [] \<longrightarrow> last y = CHR 0x00"
    and ps: "length (arg_name_pool c') \<le> 0xffff \<Longrightarrow> a \<in> set ?as \<Longrightarrow> hit a m \<Longrightarrow>
       map (entry_of a (arg_name_pool c')) (written a ps)
         = map Some (concat (map (args_at a) [0..<6]))" for a
    using do_syscall_spec [OF c' ctx_okD(2) [OF c]] by blast
  have "answers db ?as n ?off \<and> (\<exists>k. read_at (db_definitions db) ?off = Some m \<and>
       read_at (db_definitions db) (?off + 1) = Some k \<and>
       (k > INT32_MAX \<longrightarrow> unat (2 * (- k)) = 2 * unat (- k)) \<and>
       SYSCALLDB_DEFINITION_NEXT ?off m k = length (syscall_definitions c'))"
    if rb: "reads_back db c'"
  proof -
    obtain post z where db: "db_definitions db =
        syscall_definitions c @ block m ps (numbers ?as m) @ post"
      and dbpool: "db_arg_name_pool db = arg_name_pool c' @ z"
      using rb defs by (auto simp: reads_back_def)
    have "length (arg_words m ps) < 2 ^ 30"
      using rb defs by (simp add: reads_back_def block_def)
    then have len: "length ps < 2 ^ 30" by (simp add: arg_words_def split: if_splits)
    note layout = block_layout [OF db len]
    have "SYSCALLDB_DEFINITION_NEXT ?off m (arg_count m ps) = length (syscall_definitions c')"
      using layout(3) popcount_archs [OF ctx_okD(1) [OF c] begin_syscall_spec(2) [OF c b]] defs
      by (simp add: SYSCALLDB_DEFINITION_NEXT_def block_def)
    moreover have "answers db ?as n ?off"
      unfolding answers_def
    proof (intro exI [of _ m] conjI ballI impI layout(1))
      fix a
      assume a: "a \<in> set ?as"
      show "hit a m \<longleftrightarrow> n \<in> names a" using advance_names(1) [OF c b a] by simp
      fix d
      assume d: "d \<in> set (syscall a)" and "dname d = n"
      then have hit: "hit a m" using advance_names(1) [OF c b a] by auto
      have "d = hd (syscall a)"
        using advance_names(2) [OF c b a, of d] d \<open>dname d = n\<close> hit by (cases "syscall a") auto
      moreover have "read_at (db_pointer_size db) (pos (arch_mask a)) = Some (pointer_size a)"
        using rb a do_syscall_advance [OF c'] by (auto simp: reads_back_def)
      moreover have "map (entry_of a (db_arg_name_pool db)) (written a ps)
          = map Some (concat (map (args_at a) [0..<6]))"
        unfolding dbpool using ps [OF _ a hit] rb by (intro entry_of_append) (simp add: reads_back_def)
      ultimately show "syscalldb_unpack db ?off (arch_mask a) = Some (stripped d)"
        using block_unpack [OF db len ctx_okD(1) [OF c] begin_syscall_spec(2) [OF c b] a hit]
          hd_ok [OF a hit] by (simp add: desc_ok_def stripped_def)
    qed
    moreover have "arg_count m ps > INT32_MAX \<longrightarrow>
        unat (2 * (- arg_count m ps)) = 2 * unat (- arg_count m ps)"
      using arg_count_cases [OF len, of m] by (cases "\<forall>p \<in> set ps. fst p = m") auto
    ultimately show ?thesis using layout(1,2) by blast
  qed
  moreover have "filter (\<lambda>a. hit a m) ?as \<noteq> []"
    using begin_syscall_spec(5) [OF c b \<open>m \<noteq> 0\<close>] hits by (auto simp: filter_empty_conv)
  then have "length (block m ps (numbers ?as m)) \<le>
      cost (\<lambda>a. 3 + 2 * length (concat (map (args_at a) [0..<6]))) ?as m"
    using block_weight [OF ps_len] by blast
  then have "length (block m ps (numbers ?as m)) \<le> cost (\<lambda>a. desc_words (hd (syscall a))) ?as m"
    by (rule order_trans) (intro cost_mono eq_refl args_weights(1) hd_ok)
  moreover have "length y \<le> cost (\<lambda>a. desc_chars (hd (syscall a))) ?as m"
    by (rule order_trans [OF y_len]) (intro cost_mono eq_refl args_weights(2) hd_ok)
  ultimately show thesis using that defs pool entries y_last by (simp add: block_def)
qed

lemma new_names:
  assumes "ctx_ok c" and "begin_syscall c = (m, n)" and "m \<noteq> 0"
  shows "insert n (\<Union>a \<in> set (map (advance m) (arch c)). names a) = (\<Union>a \<in> set (arch c). names a)"
proof (intro equalityI subsetI)
  obtain b where b: "b \<in> set (arch c)" "starts n b"
    using begin_syscall_spec(5) [OF assms] by blast
  then have n: "n \<in> names b" by auto
  have sub: "set (syscall (advance m a)) \<subseteq> set (syscall a)" for a by (cases "syscall a") auto
  fix n'
  {
    assume "n' \<in> insert n (\<Union>a \<in> set (map (advance m) (arch c)). names a)"
    then consider "n' = n" | a d where "a \<in> set (arch c)" "d \<in> set (syscall (advance m a))"
        "n' = dname d"
      by (auto simp del: advance_simps)
    then show "n' \<in> (\<Union>a \<in> set (arch c). names a)"
      by cases (use b n sub in blast)+
  next
    assume "n' \<in> (\<Union>a \<in> set (arch c). names a)"
    then obtain a d where a: "a \<in> set (arch c)" and "d \<in> set (syscall a)" and "n' = dname d"
      by blast
    then have "n' = n \<or> n' \<in> names (advance m a)"
      using advance_names(3) [OF assms(1,2) a, of d] by blast
    then show "n' \<in> insert n (\<Union>a \<in> set (map (advance m) (arch c)). names a)"
      using a by (auto simp del: advance_simps)
  }
qed

lemma main_loop_step:
  assumes "main_loop c = Some cf" and "begin_syscall c = (m, n)"
  shows "m = 0 \<Longrightarrow> cf = c"
    and "m \<noteq> 0 \<Longrightarrow> \<exists>c'. do_syscall c m n = Some c' \<and> main_loop c' = Some cf"
  using assms by (auto simp: main_loop.simps [of c])

lemma main_loop_extends:
  assumes "main_loop c = Some cf" and "ctx_ok c"
  shows "\<exists>x y. syscall_definitions cf = syscall_definitions c @ x \<and>
    arg_name_pool cf = arg_name_pool c @ y \<and>
    length x \<le> total desc_words (arch c) \<and> length y \<le> total desc_chars (arch c) \<and>
    (y \<noteq> [] \<longrightarrow> last y = CHR 0x00) \<and>
    map (\<lambda>a. (arch_mask a, pointer_size a)) (arch cf)
      = map (\<lambda>a. (arch_mask a, pointer_size a)) (arch c)"
  using assms
proof (induction c rule: main_loop.induct)
  case (1 c)
  obtain m n where b: "begin_syscall c = (m, n)" by (cases "begin_syscall c")
  show ?case
  proof (cases "m = 0")
    case True
    then show ?thesis using main_loop_step(1) [OF "1.prems"(1) b] by simp
  next
    case False
    then obtain c' where c': "do_syscall c m n = Some c'" and rest: "main_loop c' = Some cf"
      using main_loop_step(2) [OF "1.prems"(1) b] by blast
    obtain x y where x: "syscall_definitions c' = syscall_definitions c @ x"
      and y: "arg_name_pool c' = arg_name_pool c @ y"
      and x_len: "length x \<le> cost (\<lambda>a. desc_words (hd (syscall a))) (arch c) m"
      and y_len: "length y \<le> cost (\<lambda>a. desc_chars (hd (syscall a))) (arch c) m"
      and y_last: "y \<noteq> [] \<longrightarrow> last y = CHR 0x00"
      by (rule round [OF "1.prems"(2) b False c'])
    obtain x' y' where x': "syscall_definitions cf = syscall_definitions c' @ x'"
      and y': "arg_name_pool cf = arg_name_pool c' @ y'"
      and len': "length x' \<le> total desc_words (arch c')" "length y' \<le> total desc_chars (arch c')"
        "y' \<noteq> [] \<longrightarrow> last y' = CHR 0x00"
      and keys: "map (\<lambda>a. (arch_mask a, pointer_size a)) (arch cf)
        = map (\<lambda>a. (arch_mask a, pointer_size a)) (arch c')"
      using "1.IH" [OF b [symmetric] False c' rest advance_ok [OF "1.prems"(2) c']] by blast
    have "total f (arch c) = cost (\<lambda>a. f (hd (syscall a))) (arch c) m + total f (arch c')" for f
      unfolding do_syscall_advance [OF c']
      by (rule total_advance) (use begin_syscall_spec(1) [OF "1.prems"(2) b] in blast)
    then show ?thesis
      using x x' x_len y y' y_len y_last len' keys do_syscall_advance [OF c']
      by (intro exI [of _ "x @ x'"] exI [of _ "y @ y'"]) (auto simp: o_def last_append)
  qed
qed

lemma reads_back_earlier:
  assumes "reads_back db cf" and "main_loop c = Some cf" and "ctx_ok c"
  shows "reads_back db c"
proof -
  obtain x y where "syscall_definitions cf = syscall_definitions c @ x"
    and "arg_name_pool cf = arg_name_pool c @ y"
    and keys: "map (\<lambda>a. (arch_mask a, pointer_size a)) (arch cf)
      = map (\<lambda>a. (arch_mask a, pointer_size a)) (arch c)"
    using main_loop_extends [OF assms(2,3)] by blast
  moreover have "read_at (db_pointer_size db) (pos (arch_mask a)) = Some (pointer_size a)"
    if a: "a \<in> set (arch c)" for a
  proof -
    have "(arch_mask a, pointer_size a) \<in> set (map (\<lambda>a. (arch_mask a, pointer_size a)) (arch cf))"
      unfolding keys using a by simp
    then show ?thesis using assms(1) by (auto simp: reads_back_def)
  qed
  ultimately show ?thesis using assms(1) by (auto simp: reads_back_def)
qed

lemma main_loop_spec:
  assumes "main_loop c = Some cf" and "ctx_ok c" and "reads_back db cf"
  shows "\<exists>es. syscall_entries cf = syscall_entries c @ map (\<lambda>(n, i). (n, of_nat i)) es \<and>
    sorted_wrt (<) (map fst es) \<and> fst ` set es = (\<Union>a \<in> set (arch c). names a) \<and>
    (\<forall>(n, i) \<in> set es. answers db (arch c) n i \<and> i < length (syscall_definitions cf)) \<and>
    chain (db_definitions db) (length (syscall_definitions c)) (map snd es)
      (length (syscall_definitions cf))"
  using assms(1,2)
proof (induction c rule: main_loop.induct)
  case (1 c)
  obtain m n where b: "begin_syscall c = (m, n)" by (cases "begin_syscall c")
  show ?case
  proof (cases "m = 0")
    case True
    then show ?thesis
      using main_loop_step(1) [OF "1.prems"(1) b] begin_syscall_spec(3) [OF "1.prems"(2) b]
      by (intro exI [of _ "[]"]) auto
  next
    case False
    then obtain c' where c': "do_syscall c m n = Some c'" and rest: "main_loop c' = Some cf"
      using main_loop_step(2) [OF "1.prems"(1) b] by blast
    note ok' = advance_ok [OF "1.prems"(2) c'] and arch' = do_syscall_advance [OF c']
    have rb: "reads_back db c'" by (rule reads_back_earlier [OF assms(3) rest ok'])
    let ?off = "length (syscall_definitions c)"
    obtain x y where defs': "syscall_definitions c' = syscall_definitions c @ x"
      and "arg_name_pool c' = arg_name_pool c @ y"
      and entry: "syscall_entries c' = syscall_entries c @ [(n, of_nat ?off)]"
      and x: "x \<noteq> []"
      and "length x \<le> cost (\<lambda>a. desc_words (hd (syscall a))) (arch c) m"
      and "length y \<le> cost (\<lambda>a. desc_chars (hd (syscall a))) (arch c) m"
      and "y \<noteq> [] \<longrightarrow> last y = CHR 0x00"
      and "reads_back db c' \<longrightarrow> answers db (arch c) n ?off \<and>
        (\<exists>k. read_at (db_definitions db) ?off = Some m \<and>
         read_at (db_definitions db) (?off + 1) = Some k \<and>
         (k > INT32_MAX \<longrightarrow> unat (2 * (- k)) = 2 * unat (- k)) \<and>
         SYSCALLDB_DEFINITION_NEXT ?off m k = length (syscall_definitions c'))"
      by (rule round [OF "1.prems"(2) b False c', where db = db])
    then obtain k where ans: "answers db (arch c) n ?off"
      and link: "read_at (db_definitions db) ?off = Some m"
        "read_at (db_definitions db) (?off + 1) = Some k"
        "k > INT32_MAX \<longrightarrow> unat (2 * (- k)) = 2 * unat (- k)"
        "SYSCALLDB_DEFINITION_NEXT ?off m k = length (syscall_definitions c')"
      using rb by blast
    have next_le: "length (syscall_definitions c') \<le> length (db_definitions db)"
      using rb by (auto simp: reads_back_def)
    obtain es where es: "syscall_entries cf = syscall_entries c' @ map (\<lambda>(n, i). (n, of_nat i)) es"
      "sorted_wrt (<) (map fst es)" "fst ` set es = (\<Union>a \<in> set (arch c'). names a)"
      "\<forall>(n, i) \<in> set es. answers db (arch c') n i \<and> i < length (syscall_definitions cf)"
      "chain (db_definitions db) (length (syscall_definitions c')) (map snd es)
        (length (syscall_definitions cf))"
      using "1.IH" [OF b [symmetric] False c' rest ok'] by blast
    have off: "?off < length (syscall_definitions cf)"
      using main_loop_extends [OF rest ok'] defs' x by auto
    have later: "n < n'" if n': "n' \<in> fst ` set es" for n'
    proof -
      obtain a d where "a \<in> set (arch c)" and "d \<in> set (syscall (advance m a))" and "n' = dname d"
        using n' unfolding es(3) arch' by (auto simp del: advance_simps)
      then show ?thesis using advance_names(2) [OF "1.prems"(2) b] by simp
    qed
    have ans': "answers db (arch c) n' i" if "(n', i) \<in> set es" for n' i
    proof (rule answers_advance [OF "1.prems"(2) b])
      show "answers db (map (advance m) (arch c)) n' i" using es(4) that arch' by auto
      show "n \<noteq> n'" using later [of n'] that by force
    qed
    show ?thesis
    proof (intro exI [of _ "(n, ?off) # es"] conjI)
      show "fst ` set ((n, ?off) # es) = (\<Union>a \<in> set (arch c). names a)"
        using new_names [OF "1.prems"(2) b False] es(3) arch' by simp
      show "\<forall>(n, i) \<in> set ((n, ?off) # es).
          answers db (arch c) n i \<and> i < length (syscall_definitions cf)"
        using ans ans' es(4) off by auto
      show "chain (db_definitions db) ?off (map snd ((n, ?off) # es))
          (length (syscall_definitions cf))"
        using es(5) link next_le False by simp
    qed (use es entry later in auto)
  qed
qed

end
