(* ===== verification/Syscalldb_Lookup.thy ===== *)
theory Syscalldb_Lookup
  imports Syscalldb_Merge
begin

text \<open>
  The database as a whole: what the generator prints are the arrays it built, and looking up a
  name in the database for an architecture gives the row of that architecture's table.
\<close>

section \<open>Sorted tables\<close>

lemma insert_by_sorted:
  assumes "sorted (map key ys)" and "\<forall>y \<in> set ys. cmp x y \<le> 0 \<longleftrightarrow> key x \<le> key y"
  shows "sorted (map key (insert_by cmp x ys))"
  using assms
proof (induction ys)
  case (Cons y ys)
  have "set (insert_by cmp x ys) = insert x (set ys)"
    by (metis mset_insert_by set_mset_add_mset_insert set_mset_mset)
  then show ?case using Cons by auto
qed simp

lemma qsort_sorted:
  assumes "sorted_wrt (\<lambda>a b. cmp a b \<le> 0 \<longleftrightarrow> key a \<le> key b) xs"
  shows "sorted (map key (qsort cmp xs))"
  using assms
proof (induction xs)
  case (Cons x xs)
  then show ?case
    using insert_by_sorted [of key "qsort cmp xs" cmp x] set_qsort [of cmp xs]
    by (simp add: qsort_def)
qed (simp add: qsort_def)

lemma qsort_id: "sorted_wrt (\<lambda>a b. cmp a b \<le> 0) xs \<Longrightarrow> qsort cmp xs = xs"
proof (induction xs)
  case (Cons x xs)
  then show ?case by (cases xs) (simp_all add: qsort_def)
qed (simp add: qsort_def)

lemma sorted_wrt_neq: "sorted_wrt (\<lambda>a b. f a \<noteq> f b) xs \<longleftrightarrow> distinct (map f xs)"
  by (induction xs) auto

lemma strcmp_le: "strcmp s t \<le> 0 \<longleftrightarrow> s \<le> t"
  using strcmp_order [of s t] by (auto simp: order_le_less)

text \<open>
  A comparison that fails on equal keys and follows the order of the keys otherwise: sorting
  with it succeeds on distinct keys and sorts.
\<close>

lemma qsort_unique_iff:
  assumes "\<And>a b. cmp a b = None \<longleftrightarrow> key a = key b"
  shows "qsort_unique cmp xs =
    (if distinct (map key xs) then Some (qsort (\<lambda>a b. the (cmp a b)) xs) else None)"
  unfolding qsort_unique_def assms by (simp add: sorted_wrt_neq)

lemma qsort_unique_sorts:
  fixes key :: "'a \<Rightarrow> 'b :: linorder"
  assumes "\<And>a b. cmp a b = None \<longleftrightarrow> key a = key b"
    and "\<And>a b c. cmp a b = Some c \<Longrightarrow> c \<le> 0 \<longleftrightarrow> key a \<le> key b"
    and "qsort_unique cmp xs = Some ys"
  shows "set ys = set xs" and "sorted_wrt (<) (map key ys)"
proof -
  have distinct: "distinct (map key xs)" and ys: "ys = qsort (\<lambda>a b. the (cmp a b)) xs"
    using assms(3) unfolding qsort_unique_iff [of cmp key, OF assms(1)] by (auto split: if_splits)
  show "set ys = set xs" unfolding ys by (rule set_qsort)
  have neq: "sorted_wrt (\<lambda>a b. key a \<noteq> key b) xs" using distinct by (simp add: sorted_wrt_neq)
  have le: "the (cmp a b) \<le> 0 \<longleftrightarrow> key a \<le> key b" if "key a \<noteq> key b" for a b
    using assms(1) [of a b] assms(2) [of a b] that by (cases "cmp a b") auto
  have "sorted_wrt (\<lambda>a b. the (cmp a b) \<le> 0 \<longleftrightarrow> key a \<le> key b) xs"
    by (rule sorted_wrt_mono_rel [OF le neq])
  then have "sorted (map key ys)" unfolding ys by (rule qsort_sorted)
  moreover have "mset (map key ys) = mset (map key xs)" unfolding ys by simp
  then have "distinct (map key ys)" using distinct mset_eq_imp_distinct_iff by blast
  ultimately show "sorted_wrt (<) (map key ys)" by (simp add: strict_sorted_iff)
qed

lemma name_cmp:
  "syscall_descriptor_name_cmp a b = None \<longleftrightarrow> dname a = dname b"
  "syscall_descriptor_name_cmp a b = Some c \<Longrightarrow> c \<le> 0 \<longleftrightarrow> dname a \<le> dname b"
  by (auto simp: syscall_descriptor_name_cmp_def Let_def strcmp_order strcmp_le split: if_splits)

lemma mask_cmp:
  "arch_ctx_arch_mask_cmp a b = None \<longleftrightarrow> arch_mask a = arch_mask b"
  "arch_ctx_arch_mask_cmp a b = Some c \<Longrightarrow> c \<le> 0 \<longleftrightarrow> arch_mask a \<le> arch_mask b"
  by (auto simp: arch_ctx_arch_mask_cmp_def split: if_splits)

text \<open>The tables of \<open>syscall_lists\<close> come in the order of their bits.\<close>

definition tables_ok :: "syscall_list list \<Rightarrow> bool" where
  "tables_ok ls \<longleftrightarrow> sorted_wrt (<) (map list_arch_mask ls) \<and>
     (\<forall>l \<in> set ls. \<forall>d \<in> set (list_syscalls l). desc_ok d)"

lemma those_list_all2: "those (map f xs) = Some ys \<longleftrightarrow> list_all2 (\<lambda>x y. f x = Some y) xs ys"
proof (induction xs arbitrary: ys)
  case (Cons x xs)
  then show ?case by (cases ys) (auto split: option.splits)
qed auto

lemma init_archE:
  assumes "init_arch l = Some a"
  shows "flag (arch_mask a)" and "arch_mask a = list_arch_mask l"
    and "pointer_size a = list_pointer_size l" and "set (syscall a) = set (list_syscalls l)"
    and "sorted_wrt (<) (map dname (syscall a))"
proof -
  obtain p where "qsort_unique syscall_descriptor_name_cmp (list_syscalls l) = Some p"
    and "popcount (list_arch_mask l) = 1"
    and a: "a = \<lparr>arch_mask = list_arch_mask l, pointer_size = list_pointer_size l, syscall = p\<rparr>"
    using assms by (auto simp: init_arch_def split: if_splits elim!: bind_SomeE)
  then show "flag (arch_mask a)" and "arch_mask a = list_arch_mask l"
    and "pointer_size a = list_pointer_size l" and "set (syscall a) = set (list_syscalls l)"
    and "sorted_wrt (<) (map dname (syscall a))"
    using qsort_unique_sorts [OF name_cmp] by (simp_all add: flag_def)
qed

lemma mask_sort_id:
  assumes "qsort_unique arch_ctx_arch_mask_cmp as = Some as'"
    and "sorted_wrt (<) (map arch_mask as)"
  shows "as' = as"
proof -
  have "as' = qsort (\<lambda>a b. the (arch_ctx_arch_mask_cmp a b)) as"
    using assms(1) by (simp add: qsort_unique_def split: if_splits)
  also have "\<dots> = as"
  proof (rule qsort_id, rule sorted_wrt_mono_rel)
    show "sorted_wrt (\<lambda>a b. arch_mask a < arch_mask b) as"
      using assms(2) by (simp add: sorted_wrt_map)
  qed (auto simp: arch_ctx_arch_mask_cmp_def)
  finally show ?thesis .
qed

abbreviation from_table :: "syscall_list \<Rightarrow> arch_ctx \<Rightarrow> bool" where
  "from_table l a \<equiv> arch_mask a = list_arch_mask l \<and> pointer_size a = list_pointer_size l \<and>
     set (syscall a) = set (list_syscalls l)"

lemma init_spec:
  assumes "init ls = Some c" and "tables_ok ls"
  shows "ctx_ok c" and "syscall_entries c = []" and "syscall_definitions c = []"
    and "arg_name_pool c = []" and "list_all2 from_table ls (arch c)"
proof -
  obtain as as' where "those (map init_arch ls) = Some as"
    and sort: "qsort_unique arch_ctx_arch_mask_cmp as = Some as'"
    and c: "c = \<lparr>arch = as', syscall_entries = [], syscall_definitions = [], arg_name_pool = []\<rparr>"
    using assms(1) by (auto simp: init_def elim!: bind_SomeE)
  then have init: "list_all2 (\<lambda>l a. init_arch l = Some a) ls as" by (simp add: those_list_all2)
  have keys: "map arch_mask as = map list_arch_mask ls"
    using init by (induction rule: list_all2_induct) (auto dest: init_archE(2))
  then have "as' = as"
    using assms(2) mask_sort_id [OF sort] by (simp add: tables_ok_def)
  then show "list_all2 from_table ls (arch c)"
    using c init by (auto elim!: list_all2_mono dest: init_archE)
  have mem: "\<exists>l \<in> set ls. init_arch l = Some a" if "a \<in> set as" for a
    using init that by (induction rule: list_all2_induct) auto
  have "ascending_archs as"
    using mem init_archE(1) keys assms(2) by (auto simp: ascending_archs_def tables_ok_def)
  moreover have "sorted_wrt (<) (map dname (syscall a)) \<and> (\<forall>d \<in> set (syscall a). desc_ok d)"
    if a: "a \<in> set as" for a
    using mem [OF a] init_archE(4,5) assms(2) by (auto simp: tables_ok_def)
  ultimately show "ctx_ok c" using c \<open>as' = as\<close> by (simp add: ctx_ok_def)
  show "syscall_entries c = []" and "syscall_definitions c = []" and "arg_name_pool c = []"
    using c by simp_all
qed

section \<open>The printed arrays\<close>

lemma those_map_upt:
  "length ys = n \<Longrightarrow> (\<And>i. i < n \<Longrightarrow> f i = Some (ys ! i)) \<Longrightarrow> those (map f [0..<n]) = Some ys"
  by (simp add: those_list_all2 list_all2_conv_all_nth)

lemma concat_pairs:
  "k + 2 * n \<le> length xs \<Longrightarrow>
   concat (map (\<lambda>i. [xs ! (k + 2 * i), xs ! (k + 2 * i + 1)]) [0..<n]) = take (2 * n) (drop k xs)"
proof (induction n)
  case (Suc n)
  then show ?case
    by (simp add: take_Suc_conv_app_nth add.commute)
qed simp

lemma write_args_spec:
  assumes "SYSCALLDB_DEFINITION_NR off k \<le> length defs"
    and "k > INT32_MAX \<longrightarrow> unat (2 * (- k)) = 2 * unat (- k)"
  shows "write_args defs off k =
    Some (take (SYSCALLDB_DEFINITION_NR off k - (off + 2)) (drop (off + 2) defs))"
proof (cases "k \<le> INT32_MAX")
  case True
  then show ?thesis
    using assms(1) unfolding write_args_def SYSCALLDB_DEFINITION_NR_def
    by (auto simp: not_le [symmetric] read_at_def intro!: those_map_upt)
next
  case False
  then have n: "SYSCALLDB_DEFINITION_NR off k = off + 2 + 2 * unat (- k)"
    using assms(2) by (simp add: SYSCALLDB_DEFINITION_NR_def not_le)
  have "those (map (\<lambda>i. do { m \<leftarrow> read_at defs (off + 2 + 2 * i);
        x \<leftarrow> read_at defs (off + 2 + 2 * i + 1); Some [m, repack x] }) [0..<unat (- k)])
      = Some (map (\<lambda>i. [defs ! (off + 2 + 2 * i), defs ! (off + 2 + 2 * i + 1)]) [0..<unat (- k)])"
    using assms(1) n by (intro those_map_upt) (auto simp: read_at_def)
  then show ?thesis
    using False assms(1) n concat_pairs [of "off + 2" "unat (- k)" defs]
    unfolding write_args_def by simp
qed

lemma write_chain:
  assumes "chain defs off ps e" and "Suc e = length defs" and "defs ! e = 0"
  shows "write_syscall_definitions defs off = Some (drop off defs)"
  using assms(1)
proof (induction ps arbitrary: off)
  case Nil
  then have "drop off defs = [0]" using assms(2,3) by (simp add: Cons_nth_drop_Suc [symmetric])
  then show ?case
    using Nil assms(2,3) by (subst write_syscall_definitions.simps) (simp add: read_at_def)
next
  case (Cons p ps)
  then obtain m k where m: "read_at defs off = Some m" "m \<noteq> 0"
    and k: "read_at defs (off + 1) = Some k" "k > INT32_MAX \<longrightarrow> unat (2 * (- k)) = 2 * unat (- k)"
    and le: "SYSCALLDB_DEFINITION_NEXT off m k \<le> length defs"
    and rest: "chain defs (SYSCALLDB_DEFINITION_NEXT off m k) ps e" by auto
  let ?nr = "SYSCALLDB_DEFINITION_NR off k" and ?next = "SYSCALLDB_DEFINITION_NEXT off m k"
  have next_nr: "?next = ?nr + popcount m" and nr: "off + 2 \<le> ?nr"
    by (simp_all add: SYSCALLDB_DEFINITION_NEXT_def SYSCALLDB_DEFINITION_NR_def)
  have as: "write_args defs off k = Some (take (?nr - (off + 2)) (drop (off + 2) defs))"
    using le next_nr by (intro write_args_spec k) simp
  have ns: "those (map (\<lambda>i. read_at defs (?nr + i)) [0..<popcount m])
      = Some (take (popcount m) (drop ?nr defs))"
    using le next_nr by (intro those_map_upt) (auto simp: read_at_def)
  have "drop ?nr defs = take (popcount m) (drop ?nr defs) @ drop ?next defs"
    unfolding next_nr by (metis append_take_drop_id drop_drop add.commute)
  moreover have "drop (off + 2) defs = take (?nr - (off + 2)) (drop (off + 2) defs) @ drop ?nr defs"
    using nr by (metis append_take_drop_id drop_drop le_add_diff_inverse2)
  moreover have "drop off defs = m # k # drop (off + 2) defs"
    using m k by (auto simp: read_at_def Cons_nth_drop_Suc split: if_splits)
  ultimately show ?case
    using Cons.IH [OF rest] m k(1) as ns
    by (simp add: write_syscall_definitions.simps [of defs off])
qed

lemma takeWhile_split:
  "x \<in> set xs \<Longrightarrow> xs = takeWhile (\<lambda>c. c \<noteq> x) xs
     @ x # drop (Suc (length (takeWhile (\<lambda>c. c \<noteq> x) xs))) xs"
  by (induction xs) auto

lemma write_arg_names_spec:
  assumes "write_arg_names pool i = Some s" and "i \<le> length pool"
  shows "s = drop i pool"
  using assms
proof (induction pool i arbitrary: s rule: write_arg_names.induct)
  case (1 pool i)
  show ?case
  proof (cases "i = length pool")
    case True
    then show ?thesis using "1.prems" by (subst (asm) write_arg_names.simps) simp
  next
    case False
    then obtain t u where t: "c_string pool i = Some t"
      and u: "write_arg_names pool (i + length t + 1) = Some u" and s: "s = t @ CHR 0x00 # u"
      using "1.prems" by (auto simp: write_arg_names.simps [of pool i] split: option.splits)
    have "CHR 0x00 \<in> set (drop i pool)" "t = takeWhile (\<lambda>c. c \<noteq> CHR 0x00) (drop i pool)"
      using t by (auto simp: c_string_def Let_def split: if_splits)
    then have split: "drop i pool = t @ CHR 0x00 # drop (Suc (length t)) (drop i pool)"
      using takeWhile_split by metis
    then have "length pool - i = length t + Suc (length (drop (Suc (length t)) (drop i pool)))"
      by (metis length_append length_drop list.size(4) add_Suc_right add.right_neutral)
    then have "i + length t + 1 \<le> length pool" by linarith
    then have "u = drop (i + length t + 1) pool" using "1.IH" [OF False t u] by blast
    then show ?thesis using split s by (simp add: add.commute add.left_commute)
  qed
qed

lemma read_set_element:
  "read_at (set_element xs (i, v)) j =
     (if j = i then Some v else if j < length xs then Some (xs ! j) else
      if j < i then Some 0 else None)"
  by (auto simp: set_element_def read_at_def nth_append nth_list_update)

lemma read_set_elements:
  "distinct (map fst zs) \<Longrightarrow> (i, v) \<in> set zs \<Longrightarrow> read_at (foldl set_element xs zs) i = Some v"
proof (induction zs rule: rev_induct)
  case (snoc z zs)
  show ?case
  proof (cases "z = (i, v)")
    case True
    then show ?thesis by (simp add: read_set_element)
  next
    case False
    then have mem: "(i, v) \<in> set zs" using snoc.prems by auto
    then have "i \<in> fst ` set zs" by force
    then have "fst z \<noteq> i" using snoc.prems(1) by auto
    moreover have "read_at (foldl set_element xs zs) i = Some v"
      using snoc.IH snoc.prems(1) mem by simp
    then have "i < length (foldl set_element xs zs)" and "foldl set_element xs zs ! i = v"
      by (simp_all add: read_at_def split: if_splits)
    ultimately show ?thesis by (cases z) (simp add: read_set_element)
  qed
qed simp

lemma write_pointer_size_spec:
  assumes "write_pointer_size c ls = Some ps" and "ascending_archs (arch c)"
    and "map pointer_size (arch c) = map list_pointer_size ls" and "a \<in> set (arch c)"
  shows "read_at ps (pos (arch_mask a)) = Some (pointer_size a)"
proof -
  have fl: "\<forall>a \<in> set (arch c). flag (arch_mask a)" using assms(2) by (simp add: ascending_archs_def)
  then have "map (\<lambda>a. ctz (arch_mask a)) (arch c) = map (\<lambda>a. Some (pos (arch_mask a))) (arch c)"
    by (simp add: flag_ctz)
  then have ps: "ps = foldl set_element [] (zip (map (\<lambda>a. pos (arch_mask a)) (arch c))
      (map list_pointer_size ls))"
    using assms(1) unfolding write_pointer_size_def
    by (simp only: those_Some_map bind.simps option.inject)
  have "sorted_wrt (\<lambda>a b. arch_mask a < arch_mask b) (arch c)"
    using assms(2) by (simp add: ascending_archs_def sorted_wrt_map)
  then have "distinct (map (\<lambda>a. pos (arch_mask a)) (arch c))"
    unfolding sorted_wrt_neq [symmetric]
    by (rule sorted_wrt_mono_rel [rotated]) (use fl in \<open>auto simp: flag_less\<close>)
  moreover have "zip (map (\<lambda>a. pos (arch_mask a)) (arch c)) (map pointer_size (arch c))
      = map (\<lambda>a. (pos (arch_mask a), pointer_size a)) (arch c)"
    by (simp add: zip_map_map zip_same_conv_map)
  ultimately show ?thesis
    unfolding ps assms(3) [symmetric] using assms(4) by (intro read_set_elements) (auto simp: o_def)
qed

section \<open>Lookup\<close>

text \<open>
  The lookup function and the table that gperf makes of a list of keywords without duplicates:
  the function finds the keywords and nothing else, the table holds them and fillers. The
  offsets are stored in 16 bits.
\<close>

type_synonym gperf = "(string \<times> u32) list \<Rightarrow> (string \<Rightarrow> u16 option) \<times> (string \<times> u16) list"

definition gperf_ok :: "gperf \<Rightarrow> bool" where
  "gperf_ok gperf \<longleftrightarrow> (\<forall>kw. distinct (map fst kw) \<longrightarrow>
     (\<forall>n. fst (gperf kw) n = map_option ucast (map_of kw n)) \<and>
     (\<forall>(n, off) \<in> set kw. (n, ucast off) \<in> set (snd (gperf kw))) \<and>
     (\<forall>(n, off) \<in> set (snd (gperf kw)).
        off = 0xffff \<or> (\<exists>off'. (n, off') \<in> set kw \<and> off = ucast off')))"

text \<open>A lookup function that meets this, by a search of the keywords.\<close>

definition list_gperf :: gperf where
  "list_gperf kw = ((\<lambda>n. map_option ucast (map_of kw n)), map (\<lambda>(n, off). (n, ucast off)) kw)"

lemma list_gperf_ok: "gperf_ok list_gperf"
  by (auto simp: gperf_ok_def list_gperf_def)

definition syscalldb_of :: "gperf \<Rightarrow> gperf_input \<Rightarrow> syscalldb" where
  "syscalldb_of gperf out =
     \<lparr>db_definitions = out_definitions out, db_arg_name_pool = out_arg_name_pool out,
      db_pointer_size = out_pointer_size out, lookup_internal = fst (gperf (out_keywords out)),
      db_entries = snd (gperf (out_keywords out))\<rparr>"

definition table_words :: "syscall_list list \<Rightarrow> nat" where
  "table_words ls = (\<Sum>l\<leftarrow>ls. \<Sum>d\<leftarrow>list_syscalls l. desc_words d)"

lemma sum_list_mset:
  "mset xs = mset ys \<Longrightarrow> (\<Sum>x\<leftarrow>xs. f x) = (\<Sum>x\<leftarrow>ys. f x)" for f :: "'a \<Rightarrow> nat"
  unfolding sum_mset_sum_list [symmetric] mset_map by simp

lemma init_total:
  assumes "init ls = Some c" and "tables_ok ls"
  shows "total f (arch c) = (\<Sum>l\<leftarrow>ls. \<Sum>d\<leftarrow>list_syscalls l. f d)"
proof -
  obtain as where as: "those (map init_arch ls) = Some as" and
    sort: "qsort_unique arch_ctx_arch_mask_cmp as = Some (arch c)"
    using assms(1) by (auto simp: init_def elim!: bind_SomeE)
  then have "list_all2 (\<lambda>l a. init_arch l = Some a) ls as" by (simp add: those_list_all2)
  then have "(\<Sum>a\<leftarrow>as. \<Sum>d\<leftarrow>syscall a. f d) = (\<Sum>l\<leftarrow>ls. \<Sum>d\<leftarrow>list_syscalls l. f d)"
  proof (induction rule: list_all2_induct)
    case (Cons l ls a as)
    then have "mset (syscall a) = mset (list_syscalls l)"
      by (auto simp: init_arch_def qsort_unique_def split: if_splits elim!: bind_SomeE)
    then have "(\<Sum>d\<leftarrow>syscall a. f d) = (\<Sum>d\<leftarrow>list_syscalls l. f d)"
      by (rule sum_list_mset)
    then show ?case using Cons by simp
  qed simp
  moreover have "arch c = qsort (\<lambda>a b. the (arch_ctx_arch_mask_cmp a b)) as"
    using sort by (simp add: qsort_unique_def split: if_splits)
  then have "mset (arch c) = mset as" by simp
  then have "total f (arch c) = (\<Sum>a\<leftarrow>as. \<Sum>d\<leftarrow>syscall a. f d)"
    by (rule sum_list_mset)
  ultimately show ?thesis by simp
qed

lemma loop_reads_back:
  assumes init: "init ls = Some c0" and ok: "tables_ok ls" and "table_words ls < 0xffff"
    and loop: "main_loop c0 = Some c1" and "length (arg_name_pool c1) \<le> 0xffff"
    and ps: "write_pointer_size c1 ls = Some (db_pointer_size db)"
    and "db_definitions db = syscall_definitions c1 @ [0]"
    and "db_arg_name_pool db = arg_name_pool c1 @ [CHR 0x00]"
  shows "reads_back db c1" and "length (syscall_definitions c1) < 0xffff"
    and "ascending_archs (arch c1)"
proof -
  note c0 = init_spec [OF init ok]
  show len: "length (syscall_definitions c1) < 0xffff"
    using main_loop_extends [OF loop c0(1)] c0(3) init_total [OF init ok, of desc_words] assms(3)
    by (auto simp: table_words_def)
  have keys: "map (\<lambda>a. (arch_mask a, pointer_size a)) (arch c1)
      = map (\<lambda>a. (arch_mask a, pointer_size a)) (arch c0)"
    using main_loop_extends [OF loop c0(1)] by blast
  have masks: "map arch_mask (arch c1) = map arch_mask (arch c0)"
    and "map pointer_size (arch c1) = map pointer_size (arch c0)"
    using arg_cong [OF keys, of "map fst"] arg_cong [OF keys, of "map snd"] by (simp_all add: o_def)
  moreover have "map pointer_size (arch c0) = map list_pointer_size ls"
    using c0(5) by (induction rule: list_all2_induct) auto
  ultimately have sizes: "map pointer_size (arch c1) = map list_pointer_size ls" by simp
  show arch1: "ascending_archs (arch c1)"
    using ctx_okD(1) [OF c0(1)] masks arg_cong [OF masks, of set]
    unfolding ascending_archs_def by (metis (no_types, lifting) imageE imageI list.set_map)
  show "reads_back db c1"
    using assms(5,7,8) len write_pointer_size_spec [OF ps arch1 sizes] by (simp add: reads_back_def)
qed

lemma generated:
  assumes "generator_main ls = Some out" and "tables_ok ls" and "table_words ls < 0xffff"
  obtains c es where "ctx_ok c" and "list_all2 from_table ls (arch c)"
    and "out_keywords out = map (\<lambda>(n, i). (n, of_nat i)) es"
    and "sorted_wrt (<) (map fst es)" and "fst ` set es = (\<Union>a \<in> set (arch c). names a)"
    and "\<forall>(n, i) \<in> set es. answers (syscalldb_of gperf out) (arch c) n i \<and> i < 0xffff"
    and "\<exists>e. chain (out_definitions out) 0 (map snd es) e \<and> Suc e = length (out_definitions out) \<and>
      out_definitions out ! e = 0"
proof -
  obtain c0 c1 where init: "init ls = Some c0" and loop: "main_loop c0 = Some c1"
    and pool: "length (arg_name_pool c1) \<le> 0xffff"
    and ps: "write_pointer_size c1 ls = Some (out_pointer_size out)"
    and ds: "write_syscall_definitions (syscall_definitions c1 @ [0]) 0 = Some (out_definitions out)"
    and ns: "write_arg_name_pool c1 = Some (out_arg_name_pool out)"
    and kw: "out_keywords out = syscall_entries c1"
    using assms(1)
    by (auto simp: generator_main_def syscall_definitions_push_def Let_def write_pointer_size_def
        write_arg_name_pool_def not_less split: if_splits elim!: bind_SomeE)
  note c0 = init_spec [OF init assms(2)]
  define db where "db = (syscalldb_of gperf out)\<lparr>db_definitions := syscall_definitions c1 @ [0]\<rparr>"
  have "out_arg_name_pool out = arg_name_pool c1 @ [CHR 0x00]"
    using ns write_arg_names_spec [of "arg_name_pool c1" 0] by (auto simp: write_arg_name_pool_def)
  then have rb: "reads_back db c1" and len: "length (syscall_definitions c1) < 0xffff"
    using ps by (intro loop_reads_back [OF init assms(2,3) loop pool, of db];
      simp add: db_def syscalldb_of_def)+
  obtain es where es: "syscall_entries c1 = syscall_entries c0 @ map (\<lambda>(n, i). (n, of_nat i)) es"
    "sorted_wrt (<) (map fst es)" "fst ` set es = (\<Union>a \<in> set (arch c0). names a)"
    "\<forall>(n, i) \<in> set es. answers db (arch c0) n i \<and> i < length (syscall_definitions c1)"
    "chain (db_definitions db) (length (syscall_definitions c0)) (map snd es)
      (length (syscall_definitions c1))"
    using main_loop_spec [OF loop c0(1) rb] by blast
  have chain: "chain (syscall_definitions c1 @ [0]) 0 (map snd es) (length (syscall_definitions c1))"
    using es(5) c0(3) by (simp add: db_def)
  then have ds': "out_definitions out = syscall_definitions c1 @ [0]"
    using write_chain [OF chain] ds by simp
  then have "db = syscalldb_of gperf out" by (simp add: db_def syscalldb_of_def)
  then show thesis
    using that [OF c0(1,5), of es] es kw c0(2) ds' chain len by fastforce
qed

lemma map_of_offsets:
  fixes es :: "(string \<times> nat) list"
  assumes "sorted_wrt (<) (map fst es)" and "(n, i) \<in> set es"
  shows "map_of (map (\<lambda>(n, i). (n, of_nat i :: u32)) es) n = Some (of_nat i)"
  using assms by (auto simp: strict_sorted_iff o_def split_def intro!: map_of_is_SomeI
      rev_image_eqI [of "(n, i)"])

lemma offset_16: "i < 0xffff \<Longrightarrow> unat (ucast (of_nat i :: u32) :: u16) = i"
  by (simp add: unsigned_ucast_eq unat_of_nat take_bit_nat_eq_self)

lemma lookup_offset:
  assumes "gperf_ok gperf" and "out_keywords out = map (\<lambda>(n, i). (n, of_nat i)) es"
    and "sorted_wrt (<) (map fst es)" and "\<forall>(n, i) \<in> set es. i < 0xffff"
  shows "(n, i) \<in> set es \<Longrightarrow> syscalldb_lookup (syscalldb_of gperf out) n = Some i"
    and "n \<notin> fst ` set es \<Longrightarrow> syscalldb_lookup (syscalldb_of gperf out) n = None"
proof -
  have "distinct (map fst (out_keywords out))"
    using assms(2,3) by (simp add: strict_sorted_iff o_def split_def)
  then have look: "lookup_internal (syscalldb_of gperf out) n
      = map_option ucast (map_of (out_keywords out) n)"
    using assms(1) by (auto simp: gperf_ok_def syscalldb_of_def)
  show "(n, i) \<in> set es \<Longrightarrow> syscalldb_lookup (syscalldb_of gperf out) n = Some i"
    using look map_of_offsets [OF assms(3)] assms(2,4) by (auto simp: syscalldb_lookup_def offset_16)
  assume "n \<notin> fst ` set es"
  then have "map_of (out_keywords out) n = None"
    unfolding assms(2) map_of_eq_None_iff by force
  then show "syscalldb_lookup (syscalldb_of gperf out) n = None"
    using look by (simp add: syscalldb_lookup_def)
qed

text \<open>A row of a table by its name; the names of a table are distinct.\<close>

abbreviation row :: "syscall_list \<Rightarrow> string \<Rightarrow> syscall_descriptor option" where
  "row l name \<equiv> find (\<lambda>d. desc_name d = Some name) (list_syscalls l)"

lemma row_cases:
  assumes "from_table l a" and "a \<in> set (arch c)" and "ctx_ok c"
  shows "name \<in> names a \<Longrightarrow> \<exists>d \<in> set (syscall a). dname d = name \<and> row l name = Some d"
    and "name \<notin> names a \<Longrightarrow> row l name = None"
proof -
  have named: "desc_name d = Some name \<longleftrightarrow> dname d = name" if "d \<in> set (list_syscalls l)" for d
    using ctx_okD(4) [OF assms(3,2)] assms(1) that by (auto simp: desc_ok_def)
  show "name \<notin> names a \<Longrightarrow> row l name = None"
    using assms(1) named by (auto simp: find_None_iff)
  assume "name \<in> names a"
  then have "row l name \<noteq> None" using assms(1) named by (auto simp: find_None_iff)
  then obtain d where d: "row l name = Some d" by blast
  then have "d \<in> set (list_syscalls l)" and "desc_name d = Some name"
    by (auto simp: find_Some_iff)
  then show "\<exists>d \<in> set (syscall a). dname d = name \<and> row l name = Some d"
    using d assms(1) by auto
qed

lemma list_all2_member: "list_all2 P xs ys \<Longrightarrow> x \<in> set xs \<Longrightarrow> \<exists>y \<in> set ys. P x y"
  by (induction rule: list_all2_induct) auto

lemma syscall_lookup_rows:
  assumes "generator_main ls = Some out" and "tables_ok ls" and "table_words ls < 0xffff"
    and "gperf_ok gperf" and "l \<in> set ls"
  shows "syscall_lookup (syscalldb_of gperf out) (list_arch_mask l) name =
    Some (map_option stripped (row l name))"
proof -
  let ?db = "syscalldb_of gperf out"
  obtain c es where c: "ctx_ok c" "list_all2 from_table ls (arch c)"
    and kw: "out_keywords out = map (\<lambda>(n, i). (n, of_nat i)) es" "sorted_wrt (<) (map fst es)"
    and all: "fst ` set es = (\<Union>a \<in> set (arch c). names a)"
    and ans: "\<forall>(n, i) \<in> set es. answers ?db (arch c) n i \<and> i < 0xffff"
    by (rule generated [OF assms(1-3), where gperf = gperf])
  obtain a where a: "a \<in> set (arch c)" and l: "from_table l a"
    using list_all2_member [OF c(2) assms(5)] by blast
  have small: "\<forall>(n, i) \<in> set es. i < 0xffff" using ans by auto
  note look = lookup_offset [OF assms(4) kw small]
  show ?thesis
  proof (cases "name \<in> fst ` set es")
    case False
    then have "row l name = None" using all a row_cases(2) [OF l a c(1)] by blast
    then show ?thesis using look(2) [OF False] by (simp add: syscall_lookup_def)
  next
    case True
    then obtain i where i: "(name, i) \<in> set es" by auto
    then obtain m where m: "read_at (db_definitions ?db) i = Some m" "hit a m \<longleftrightarrow> name \<in> names a"
      and unpack: "\<And>d. d \<in> set (syscall a) \<Longrightarrow> dname d = name \<Longrightarrow>
        syscalldb_unpack ?db i (arch_mask a) = Some (stripped d)"
      using ans a by (fastforce simp: answers_def)
    show ?thesis
    proof (cases "name \<in> names a")
      case True
      then obtain d where "d \<in> set (syscall a)" "dname d = name" "row l name = Some d"
        using row_cases(1) [OF l a c(1)] by blast
      then show ?thesis
        using look(1) [OF i] m True unpack [of d] l by (simp add: syscall_lookup_def)
    next
      case False
      then show ?thesis
        using look(1) [OF i] m row_cases(2) [OF l a c(1)] l by (simp add: syscall_lookup_def)
    qed
  qed
qed

section \<open>Reverse lookup\<close>

lemma chain_ascending:
  "chain defs off ps e \<Longrightarrow> sorted_wrt (<) ps \<and> (\<forall>p \<in> set ps. off \<le> p)"
proof (induction ps arbitrary: off)
  case (Cons p ps)
  then obtain off' where "chain defs off' ps e" and "p < off'" and "off = p"
    by (auto simp: SYSCALLDB_DEFINITION_NEXT_def SYSCALLDB_DEFINITION_NR_def)
  then show ?case using Cons.IH [of off'] by auto
qed simp

lemma unpack_number:
  "syscalldb_unpack db off m = Some d \<Longrightarrow> get_nr db off m = Some (desc_nr d)"
  by (auto simp: syscalldb_unpack_def Let_def elim!: bind_SomeE)

lemma find_SomeD: "find P xs = Some x \<Longrightarrow> P x \<and> x \<in> set xs"
  by (induction xs) (auto split: if_splits)

lemma entry_name:
  assumes "gperf_ok gperf" and "out_keywords out = map (\<lambda>(n, i). (n, of_nat i)) es"
    and "distinct (map fst es)" and "distinct (map snd es)" and "\<forall>(n, i) \<in> set es. i < 0xffff"
    and "(n, i) \<in> set es"
  shows "map_option fst (find (\<lambda>e. unat (snd e) = i) (db_entries (syscalldb_of gperf out))) = Some n"
proof -
  let ?kw = "map (\<lambda>(n, i). (n, of_nat i :: u32)) es" and ?es = "db_entries (syscalldb_of gperf out)"
  have "distinct (map fst ?kw)" using assms(3) by (simp add: o_def split_def)
  then have mem: "\<forall>(n, off) \<in> set ?kw. (n, ucast off) \<in> set ?es"
    and only: "\<forall>(n, off) \<in> set ?es. off = 0xffff \<or> (\<exists>off'. (n, off') \<in> set ?kw \<and> off = ucast off')"
    using spec [OF assms(1) [unfolded gperf_ok_def], of ?kw] assms(2)
    by (simp_all add: syscalldb_of_def del: set_map)
  have i: "i < 0xffff" using assms(5,6) by auto
  have "(n, ucast (of_nat i :: u32)) \<in> set ?es" using mem assms(6) by force
  then have "find (\<lambda>e. unat (snd e) = i) ?es \<noteq> None"
    using offset_16 [OF i] by (auto simp: find_None_iff)
  then obtain n' off where found: "find (\<lambda>e. unat (snd e) = i) ?es = Some (n', off)" by auto
  then have "(n', off) \<in> set ?es" and off: "unat off = i" by (auto dest: find_SomeD)
  moreover have "off \<noteq> 0xffff" using off i by auto
  ultimately obtain i' where i': "(n', i') \<in> set es" and "off = ucast (of_nat i' :: u32)"
    using only by fastforce
  then have "i' = i" using off offset_16 assms(5) by auto
  then have "n' = n" using i' assms(4,6) by (metis eq_key_imp_eq_value distinct_map inj_onD
      prod.inject snd_conv)
  then show ?thesis using found by simp
qed

lemma reverse_lookup_chain:
  assumes "chain (db_definitions db) off (map snd es) e" and "Suc e = length (db_definitions db)"
    and "db_definitions db ! e = 0" and "a \<in> set as"
    and "\<forall>(n, i) \<in> set es. answers db as n i \<and>
      map_option fst (find (\<lambda>x. unat (snd x) = i) (db_entries db)) = Some n"
    and "\<forall>d \<in> set (syscall a). \<forall>d' \<in> set (syscall a). dname d = dname d' \<longrightarrow> d = d'"
  shows "\<exists>r. reverse_lookup_loop db (arch_mask a) k off = Some r \<and>
    (case r of None \<Rightarrow> \<forall>d \<in> set (syscall a). dname d \<in> fst ` set es \<longrightarrow> desc_nr d \<noteq> k
     | Some n \<Rightarrow> \<exists>d \<in> set (syscall a). dname d = n \<and> desc_nr d = k)"
  using assms(1,5)
proof (induction es arbitrary: off)
  case Nil
  then show ?case
    using assms(2,3) by (subst reverse_lookup_loop.simps) (simp add: read_at_def)
next
  case (Cons ni es)
  obtain n i where ni: "ni = (n, i)" by (cases ni)
  obtain m q where m: "read_at (db_definitions db) off = Some m" "m \<noteq> 0" and "off = i"
    and q: "read_at (db_definitions db) (off + 1) = Some q"
    and rest: "chain (db_definitions db) (SYSCALLDB_DEFINITION_NEXT off m q) (map snd es) e"
    using Cons.prems(1) ni by auto
  then have a: "hit a m \<longleftrightarrow> n \<in> names a"
    and unpack: "\<And>d. d \<in> set (syscall a) \<Longrightarrow> dname d = n \<Longrightarrow>
      get_nr db off (arch_mask a) = Some (desc_nr d)"
    using Cons.prems(2) assms(4) ni unpack_number
    by (fastforce simp: answers_def stripped_def)+
  obtain r where r: "reverse_lookup_loop db (arch_mask a) k (SYSCALLDB_DEFINITION_NEXT off m q) = Some r"
    and rs: "case r of None \<Rightarrow> \<forall>d \<in> set (syscall a). dname d \<in> fst ` set es \<longrightarrow> desc_nr d \<noteq> k
     | Some n \<Rightarrow> \<exists>d \<in> set (syscall a). dname d = n \<and> desc_nr d = k"
    using Cons.IH [OF rest] Cons.prems(2) by auto
  show ?case
  proof (cases "\<exists>d \<in> set (syscall a). dname d = n \<and> desc_nr d = k")
    case True
    then have "reverse_lookup_loop db (arch_mask a) k off = Some (Some n)"
      using m q a unpack Cons.prems(2) ni \<open>off = i\<close>
      by (subst reverse_lookup_loop.simps) (auto simp: option.map_comp o_def)
    then show ?thesis using True by auto
  next
    case False
    then have "reverse_lookup_loop db (arch_mask a) k off = Some r"
      using m q a unpack r by (subst reverse_lookup_loop.simps) auto
    then show ?thesis using rs False ni by (cases r) auto
  qed
qed

lemma reverse_lookup_rows:
  assumes "generator_main ls = Some out" and "tables_ok ls" and "table_words ls < 0xffff"
    and "gperf_ok gperf" and "l \<in> set ls"
  shows "\<exists>r. syscalldb_reverse_lookup (syscalldb_of gperf out) (list_arch_mask l) k = Some r \<and>
    (case r of None \<Rightarrow> \<forall>d \<in> set (list_syscalls l). desc_nr d \<noteq> k
     | Some n \<Rightarrow> \<exists>d \<in> set (list_syscalls l). desc_name d = Some n \<and> desc_nr d = k)"
proof -
  let ?db = "syscalldb_of gperf out"
  obtain c es where c: "ctx_ok c" "list_all2 from_table ls (arch c)"
    and kw: "out_keywords out = map (\<lambda>(n, i). (n, of_nat i)) es" "sorted_wrt (<) (map fst es)"
    and all: "fst ` set es = (\<Union>a \<in> set (arch c). names a)"
    and ans: "\<forall>(n, i) \<in> set es. answers ?db (arch c) n i \<and> i < 0xffff"
    and "\<exists>e. chain (out_definitions out) 0 (map snd es) e \<and> Suc e = length (out_definitions out) \<and>
      out_definitions out ! e = 0"
    by (rule generated [OF assms(1-3), where gperf = gperf])
  then obtain e where chain: "chain (db_definitions ?db) 0 (map snd es) e"
      "Suc e = length (db_definitions ?db)" "db_definitions ?db ! e = 0"
    by (auto simp: syscalldb_of_def)
  obtain a where a: "a \<in> set (arch c)" and l: "from_table l a"
    using list_all2_member [OF c(2) assms(5)] by blast
  have small: "\<forall>(n, i) \<in> set es. i < 0xffff" using ans by auto
  have "distinct (map fst es)" and "distinct (map snd es)"
    using kw(2) chain_ascending [OF chain(1)] by (simp_all add: strict_sorted_iff)
  then have named: "\<forall>(n, i) \<in> set es. answers ?db (arch c) n i \<and>
      map_option fst (find (\<lambda>x. unat (snd x) = i) (db_entries ?db)) = Some n"
    using ans entry_name [OF assms(4) kw(1) _ _ small] by auto
  have uniq: "\<forall>d \<in> set (syscall a). \<forall>d' \<in> set (syscall a). dname d = dname d' \<longrightarrow> d = d'"
    using ctx_okD(3) [OF c(1) a] by (simp add: strict_sorted_iff distinct_map inj_on_def)
  obtain r where r: "reverse_lookup_loop ?db (arch_mask a) k 0 = Some r"
    and rs: "case r of None \<Rightarrow> \<forall>d \<in> set (syscall a). dname d \<in> fst ` set es \<longrightarrow> desc_nr d \<noteq> k
     | Some n \<Rightarrow> \<exists>d \<in> set (syscall a). dname d = n \<and> desc_nr d = k"
    using reverse_lookup_chain [OF chain a named uniq] by blast
  have "desc_name d = Some (dname d)" if "d \<in> set (syscall a)" for d
    using ctx_okD(4) [OF c(1) a that] by (simp add: desc_ok_def)
  moreover have "dname d \<in> fst ` set es" if "d \<in> set (syscall a)" for d
    using all a that by blast
  ultimately show ?thesis
    using r rs l by (auto simp: syscalldb_reverse_lookup_def split: option.splits)
qed

end
