(* ===== verification/Syscalldb_Total.thy ===== *)
theory Syscalldb_Total
  imports Syscalldb_Lookup
begin

text \<open>
  The generator runs to its end on tables that pass its checks: masks with one bit, distinct
  names, sizes of arguments from 1 to 8, and not too many characters in the names of arguments.
\<close>

section \<open>The loops\<close>

definition arg_sized :: "arch_ctx \<Rightarrow> nat \<Rightarrow> bool" where
  "arg_sized a i \<longleftrightarrow>
     (\<forall>arg. current_arg a i = Some arg \<longrightarrow> 0 < arg_size arg \<and> arg_size arg \<le> 8)"

lemma do_arg_types_total:
  assumes "archs_ok (arch c)"
    and "\<forall>a \<in> set (arch c). hit a m \<longrightarrow> 0 < arg_of_size a i \<and> arg_of_size a i \<le> 8"
  shows "\<exists>c'. do_arg_types c m i n = Some c'"
  using assms
proof (induction c m i n rule: do_arg_types.induct)
  case (1 c m i n)
  show ?case
  proof (cases "get_arg_type c m i")
    case None
    then show ?thesis by (simp add: do_arg_types.simps [of c m])
  next
    case (Some p)
    obtain tm t where p: "p = (tm, t)" by (cases p)
    have t: "\<not> (t \<le> 0 \<or> SYSCALLDB_MAX_ARGTYPE < t)"
      using get_arg_type_member [OF Some [unfolded p]] "1.prems"(2) by fastforce
    have "\<forall>a \<in> set (arch c). hit a (m AND NOT tm) \<longrightarrow> 0 < arg_of_size a i \<and> arg_of_size a i \<le> 8"
      using flag_diff "1.prems" by (auto simp: archs_ok_def)
    then show ?thesis
      using "1.IH" [OF Some p [symmetric] t] "1.prems"(1) Some p t
      by (simp add: do_arg_types.simps [of c m])
  qed
qed

lemma do_arg_total:
  assumes "archs_ok (arch c)" and "\<forall>a \<in> set (arch c). hit a m \<longrightarrow> arg_sized a i"
  shows "\<exists>c'. do_arg c m i = Some c'"
  using assms
proof (induction c m i rule: do_arg.induct)
  case (1 c m i)
  show ?case
  proof (cases "get_arg_name c m i")
    case None
    then show ?thesis by (simp add: do_arg.simps [of c m])
  next
    case (Some p)
    obtain nm name where p: "p = (nm, name)" by (cases p)
    obtain c1 n where c1: "arg_name_intern c name = (c1, n)" by (cases "arg_name_intern c name")
    then have arch: "arch c1 = arch c" using arch_intern [of c name] by simp
    have left: "\<forall>a \<in> set (arch c). hit a (m AND NOT nm) \<longrightarrow> arg_sized a i"
      using flag_diff "1.prems" by (auto simp: archs_ok_def)
    note IH = "1.IH" [OF Some p [symmetric] refl c1 [symmetric] refl]
    show ?thesis
    proof (cases "is_ptr_sized_arg c1 nm i")
      case True
      then have "do_arg c m i = do_arg (push_arg c1 nm i 0 n) (m AND NOT nm) i"
        using Some p c1 by (simp add: do_arg.simps [of c m])
      then show ?thesis using IH(1) [OF True] left "1.prems"(1) arch by simp
    next
      case False
      have "\<forall>a \<in> set (arch c1). hit a nm \<longrightarrow> 0 < arg_of_size a i \<and> arg_of_size a i \<le> 8"
        using get_arg_name_Some [OF Some [unfolded p] "1.prems"(1)] "1.prems"(2) arch
        by (auto simp: arg_sized_def)
      then obtain c2 where c2: "do_arg_types c1 nm i n = Some c2"
        using do_arg_types_total "1.prems"(1) arch by metis
      then have "do_arg c m i = do_arg c2 (m AND NOT nm) i"
        using False Some p c1 by (simp add: do_arg.simps [of c m])
      then show ?thesis
        using IH(2) [OF False c2] left "1.prems"(1) arch do_arg_types_arch [OF c2] by simp
    qed
  qed
qed

lemma do_args_total:
  assumes "archs_ok (arch c)" and "\<forall>a \<in> set (arch c). \<forall>i \<in> set is. hit a m \<longrightarrow> arg_sized a i"
  shows "\<exists>c'. do_args c m is = Some c'"
  using assms
proof (induction "is" arbitrary: c)
  case (Cons i "is")
  then obtain c1 where c1: "do_arg c m i = Some c1" using do_arg_total [of c m i] by auto
  then show ?case using Cons do_arg_arch [OF c1] by simp
qed simp

definition desc_sized :: "syscall_descriptor \<Rightarrow> bool" where
  "desc_sized d \<longleftrightarrow> (\<forall>arg. Some arg \<in> set (desc_args d) \<longrightarrow> 0 < arg_size arg \<and> arg_size arg \<le> 8)"

lemma main_loop_total:
  assumes "ctx_ok c" and "\<forall>a \<in> set (arch c). \<forall>d \<in> set (syscall a). desc_sized d"
  shows "\<exists>cf. main_loop c = Some cf"
  using assms
proof (induction c rule: main_loop.induct)
  case (1 c)
  obtain m n where b: "begin_syscall c = (m, n)" by (cases "begin_syscall c")
  show ?case
  proof (cases "m = 0")
    case True
    then show ?thesis using b by (simp add: main_loop.simps [of c])
  next
    case False
    have "arg_sized a i" if "a \<in> set (arch c)" and "hit a m" and "i < 6" for a i
    proof -
      have "hd (syscall a) \<in> set (syscall a)"
        using begin_syscall_spec(1) [OF "1.prems"(1) b that(1)] that(2) by simp
      then have "desc_sized (hd (syscall a))" and "length (desc_args (hd (syscall a))) = 6"
        using "1.prems"(2) that(1) ctx_okD(4) [OF "1.prems"(1) that(1)] by (auto simp: desc_ok_def)
      then show ?thesis
        using that(3) unfolding arg_sized_def desc_sized_def current_arg_def by (metis nth_mem)
    qed
    then obtain c3 where "do_args (start_syscall c m n) m [0..<6] = Some c3"
      using do_args_total [of "start_syscall c m n" "[0..<6]" m] ctx_okD(2) [OF "1.prems"(1)] by auto
    then obtain c' where c': "do_syscall c m n = Some c'"
      by (cases "compress_args c3 m (length (syscall_definitions c) + 2)")
         (simp add: do_syscall_def Let_def syscall_entries_push_def syscall_definitions_push_def)
    have "\<forall>a \<in> set (arch c'). \<forall>d \<in> set (syscall a). desc_sized d"
      using "1.prems"(2) do_syscall_advance [OF c']
      by (auto split: if_splits) (metis list.set_sel(2) tl_Nil)
    then show ?thesis
      using "1.IH" [OF b [symmetric] False c' advance_ok [OF "1.prems"(1) c']] b False c'
      by (simp add: main_loop.simps [of c])
  qed
qed

section \<open>The whole program\<close>

definition table_chars :: "syscall_list list \<Rightarrow> nat" where
  "table_chars ls = (\<Sum>l\<leftarrow>ls. \<Sum>d\<leftarrow>list_syscalls l. desc_chars d)"

lemma those_total: "(\<And>x. x \<in> set xs \<Longrightarrow> \<exists>y. f x = Some y) \<Longrightarrow> \<exists>ys. those (map f xs) = Some ys"
proof (induction xs)
  case (Cons x xs)
  then obtain y ys where "f x = Some y" and "those (map f xs) = Some ys" by (metis list.set_intros)
  then show ?case by simp
qed simp

lemma init_total_ok:
  assumes "tables_ok ls"
    and "\<forall>l \<in> set ls. popcount (list_arch_mask l) = 1 \<and> distinct (map dname (list_syscalls l))"
  shows "\<exists>c. init ls = Some c"
proof -
  have "\<exists>a. init_arch l = Some a" if "l \<in> set ls" for l
    using assms(2) that qsort_unique_iff [of syscall_descriptor_name_cmp dname, OF name_cmp(1)]
    by (simp add: init_arch_def)
  then obtain as where as: "those (map init_arch ls) = Some as" using those_total by blast
  then have "list_all2 (\<lambda>l a. init_arch l = Some a) ls as" by (simp add: those_list_all2)
  then have "map arch_mask as = map list_arch_mask ls"
    by (induction rule: list_all2_induct) (auto dest: init_archE(2))
  then have "distinct (map arch_mask as)"
    using assms(1) by (simp add: tables_ok_def strict_sorted_iff)
  then show ?thesis
    using as qsort_unique_iff [of arch_ctx_arch_mask_cmp arch_mask, OF mask_cmp(1)]
    by (simp add: init_def)
qed

lemma takeWhile_shorter: "x \<in> set xs \<Longrightarrow> \<not> P x \<Longrightarrow> length (takeWhile P xs) < length xs"
  by (induction xs) auto

lemma write_arg_names_total:
  assumes "pool \<noteq> [] \<longrightarrow> last pool = CHR 0x00" and "i \<le> length pool"
  shows "\<exists>s. write_arg_names pool i = Some s"
  using assms
proof (induction pool i rule: write_arg_names.induct)
  case (1 pool i)
  show ?case
  proof (cases "i = length pool")
    case True
    then show ?thesis by (subst write_arg_names.simps) simp
  next
    case False
    then have i: "i < length pool" using "1.prems" by simp
    then have "CHR 0x00 \<in> set (drop i pool)"
      using "1.prems"(1) last_in_set [of "drop i pool"] by (auto simp: last_drop)
    then obtain t where t: "c_string pool i = Some t"
      and tw: "t = takeWhile (\<lambda>c. c \<noteq> CHR 0x00) (drop i pool)"
      by (auto simp: c_string_def Let_def)
    have "length t < length (drop i pool)"
      unfolding tw using \<open>CHR 0x00 \<in> set (drop i pool)\<close>
      by (intro takeWhile_shorter) auto
    then have "i + length t + 1 \<le> length pool" by simp
    then show ?thesis
      using "1.IH" [OF False t] "1.prems"(1) False t by (subst write_arg_names.simps) auto
  qed
qed

lemma generator_total:
  assumes "tables_ok ls" and "table_words ls < 0xffff" and "table_chars ls \<le> 0xffff"
    and "\<forall>l \<in> set ls. popcount (list_arch_mask l) = 1 \<and> distinct (map dname (list_syscalls l)) \<and>
      (\<forall>d \<in> set (list_syscalls l). desc_sized d)"
  shows "\<exists>out. generator_main ls = Some out"
proof -
  obtain c0 where init: "init ls = Some c0" using init_total_ok [OF assms(1)] assms(4) by auto
  note c0 = init_spec [OF init assms(1)]
  have "\<forall>a \<in> set (arch c0). \<forall>d \<in> set (syscall a). desc_sized d"
    using c0(5) assms(4) by (induction rule: list_all2_induct) auto
  then obtain c1 where loop: "main_loop c0 = Some c1" using main_loop_total [OF c0(1)] by blast
  obtain y where "arg_name_pool c1 = y" and "length y \<le> total desc_chars (arch c0)"
    and "y \<noteq> [] \<longrightarrow> last y = CHR 0x00"
    using main_loop_extends [OF loop c0(1)] c0(4) by auto
  then have pool: "length (arg_name_pool c1) \<le> 0xffff"
    and "arg_name_pool c1 \<noteq> [] \<longrightarrow> last (arg_name_pool c1) = CHR 0x00"
    using assms(3) init_total [OF init assms(1), of desc_chars] by (auto simp: table_chars_def)
  then obtain ns where ns: "write_arg_name_pool c1 = Some ns"
    using write_arg_names_total [of "arg_name_pool c1" 0] by (auto simp: write_arg_name_pool_def)
  have keys: "map (\<lambda>a. (arch_mask a, pointer_size a)) (arch c1)
      = map (\<lambda>a. (arch_mask a, pointer_size a)) (arch c0)"
    using main_loop_extends [OF loop c0(1)] by blast
  have "\<exists>i. ctz (arch_mask a) = Some i" if a: "a \<in> set (arch c1)" for a
  proof -
    have "(arch_mask a, pointer_size a) \<in> set (map (\<lambda>a. (arch_mask a, pointer_size a)) (arch c0))"
      unfolding keys [symmetric] using a by simp
    then show ?thesis
      using ctx_okD(1) [OF c0(1)] flag_ctz by (auto simp: ascending_archs_def)
  qed
  then obtain ps where ps: "write_pointer_size c1 ls = Some ps"
    using those_total [of "arch c1" "\<lambda>a. ctz (arch_mask a)"] by (auto simp: write_pointer_size_def)
  define db where "db = \<lparr>db_definitions = syscall_definitions c1 @ [0],
    db_arg_name_pool = arg_name_pool c1 @ [CHR 0x00], db_pointer_size = ps,
    lookup_internal = (\<lambda>_. None), db_entries = []\<rparr>"
  have "reads_back db c1"
    using ps by (intro loop_reads_back(1) [OF init assms(1,2) loop pool]) (simp_all add: db_def)
  then obtain es :: "(string \<times> nat) list" where "chain (db_definitions db) (length (syscall_definitions c0)) (map snd es)
      (length (syscall_definitions c1))"
    using main_loop_spec [OF loop c0(1), of db] by blast
  then have "chain (syscall_definitions c1 @ [0]) 0 (map snd es) (length (syscall_definitions c1))"
    using c0(3) by (simp add: db_def)
  from write_chain [OF this] show ?thesis
    using init loop pool ps ns
    by (auto simp: generator_main_def syscall_definitions_push_def Let_def write_pointer_size_def
        write_arg_name_pool_def)
qed

end
