(* ===== verification/Syscalls_Aarch64.thy ===== *)
theory Syscalls_Aarch64
  imports Kafel_Syscall
begin

text \<open>
  The system calls of one architecture, \<open>aarch64_syscall_list\<close> of
  \<open>kafel/src/syscalls/aarch64_syscalls.c\<close>, cut into stretches of the source file. The arguments are
  written in the order of their designators \<open>ARG_0\<close>, \<open>ARG_1\<close>, \<open>...\<close>, which are consecutive in
  every entry.
\<close>

definition aarch64_syscall_list_1 :: "syscall_descriptor list" where
  "aarch64_syscall_list_1 = [
     SYSCALL ''accept'' 202 [(''fd'', 4), (''upeer_sockaddr'', 8), (''upeer_addrlen'', 8)],
     SYSCALL ''accept4'' 242 [(''fd'', 4), (''upeer_sockaddr'', 8), (''upeer_addrlen'', 8),
       (''flags'', 4)],
     SYSCALL ''acct'' 89 [(''name'', 8)],
     SYSCALL ''add_key'' 217 [(''_type'', 8), (''_description'', 8), (''_payload'', 8),
       (''plen'', 8), (''ringid'', 4)],
     SYSCALL ''adjtimex'' 171 [(''txc_p'', 8)],
     SYSCALL ''bind'' 200 [(''fd'', 4), (''umyaddr'', 8), (''addrlen'', 4)],
     SYSCALL ''bpf'' 280 [(''cmd'', 4), (''uattr'', 8), (''size'', 4)],
     SYSCALL ''brk'' 214 [(''brk'', 8)],
     SYSCALL ''capget'' 90 [(''header'', 8), (''dataptr'', 8)],
     SYSCALL ''capset'' 91 [(''header'', 8), (''data'', 8)],
     SYSCALL ''chdir'' 49 [(''filename'', 8)],
     SYSCALL ''chroot'' 51 [(''filename'', 8)],
     SYSCALL ''clock_adjtime'' 266 [(''which_clock'', 4), (''utx'', 8)],
     SYSCALL ''clock_getres'' 114 [(''which_clock'', 4), (''tp'', 8)],
     SYSCALL ''clock_gettime'' 113 [(''which_clock'', 4), (''tp'', 8)],
     SYSCALL ''clock_nanosleep'' 115 [(''which_clock'', 4), (''flags'', 4), (''rqtp'', 8),
       (''rmtp'', 8)],
     SYSCALL ''clock_settime'' 112 [(''which_clock'', 4), (''tp'', 8)],
     SYSCALL ''clone'' 220 [(''clone_flags'', 8), (''newsp'', 8), (''parent_tidptr'', 8),
       (''child_tidptr'', 8), (''tls'', 8)],
     SYSCALL ''close'' 57 [(''fd'', 4)],
     SYSCALL ''connect'' 203 [(''fd'', 4), (''uservaddr'', 8), (''addrlen'', 4)]]"

definition aarch64_syscall_list_2 :: "syscall_descriptor list" where
  "aarch64_syscall_list_2 = [
     SYSCALL ''copy_file_range'' 285 [(''fd_in'', 4), (''off_in'', 8), (''fd_out'', 4),
       (''off_out'', 8), (''len'', 8), (''flags'', 4)],
     SYSCALL ''delete_module'' 106 [(''name_user'', 8), (''flags'', 4)],
     SYSCALL ''dup'' 23 [(''fildes'', 4)],
     SYSCALL ''dup3'' 24 [(''oldfd'', 4), (''newfd'', 4), (''flags'', 4)],
     SYSCALL ''epoll_create1'' 20 [(''flags'', 4)],
     SYSCALL ''epoll_ctl'' 21 [(''epfd'', 4), (''op'', 4), (''fd'', 4), (''event'', 8)],
     SYSCALL ''epoll_pwait'' 22 [(''epfd'', 4), (''events'', 8), (''maxevents'', 4),
       (''timeout'', 4), (''sigmask'', 8), (''sigsetsize'', 8)],
     SYSCALL ''eventfd2'' 19 [(''count'', 4), (''flags'', 4)],
     SYSCALL ''execve'' 221 [(''filename'', 8), (''argv'', 8), (''envp'', 8)],
     SYSCALL ''execveat'' 281 [(''fd'', 4), (''filename'', 8), (''argv'', 8), (''envp'', 8),
       (''flags'', 4)],
     SYSCALL ''exit'' 93 [(''error_code'', 4)],
     SYSCALL ''exit_group'' 94 [(''error_code'', 4)],
     SYSCALL ''faccessat'' 48 [(''dfd'', 4), (''filename'', 8), (''mode'', 4)],
     SYSCALL ''fadvise64'' 223 [(''fd'', 4), (''offset'', 8), (''len'', 8), (''advice'', 4)],
     SYSCALL ''fallocate'' 47 [(''fd'', 4), (''mode'', 4), (''offset'', 8), (''len'', 8)],
     SYSCALL ''fanotify_init'' 262 [(''flags'', 4), (''event_f_flags'', 4)],
     SYSCALL ''fanotify_mark'' 263 [(''fanotify_fd'', 4), (''flags'', 4), (''mask'', 8),
       (''dfd'', 4), (''pathname'', 8)],
     SYSCALL ''fchdir'' 50 [(''fd'', 4)]]"

definition aarch64_syscall_list_3 :: "syscall_descriptor list" where
  "aarch64_syscall_list_3 = [
     SYSCALL ''fchmod'' 52 [(''fd'', 4), (''mode'', 2)],
     SYSCALL ''fchmodat'' 53 [(''dfd'', 4), (''filename'', 8), (''mode'', 2)],
     SYSCALL ''fchown'' 55 [(''fd'', 4), (''user'', 4), (''group'', 4)],
     SYSCALL ''fchownat'' 54 [(''dfd'', 4), (''filename'', 8), (''user'', 4), (''group'', 4),
       (''flag'', 4)],
     SYSCALL ''fcntl'' 25 [(''fd'', 4), (''cmd'', 4), (''arg'', 8)],
     SYSCALL ''fdatasync'' 83 [(''fd'', 4)],
     SYSCALL ''fgetxattr'' 10 [(''fd'', 4), (''name'', 8), (''value'', 8), (''size'', 8)],
     SYSCALL ''finit_module'' 273 [(''fd'', 4), (''uargs'', 8), (''flags'', 4)],
     SYSCALL ''flistxattr'' 13 [(''fd'', 4), (''list'', 8), (''size'', 8)],
     SYSCALL ''flock'' 32 [(''fd'', 4), (''cmd'', 4)],
     SYSCALL ''fremovexattr'' 16 [(''fd'', 4), (''name'', 8)],
     SYSCALL ''fsetxattr'' 7 [(''fd'', 4), (''name'', 8), (''value'', 8), (''size'', 8),
       (''flags'', 4)],
     SYSCALL ''fstatfs'' 44 [(''fd'', 4), (''buf'', 8)],
     SYSCALL ''fsync'' 82 [(''fd'', 4)],
     SYSCALL ''ftruncate'' 46 [(''fd'', 4), (''length'', 8)],
     SYSCALL ''futex'' 98 [(''uaddr'', 8), (''op'', 4), (''val'', 4), (''utime'', 8),
       (''uaddr2'', 8), (''val3'', 4)],
     SYSCALL ''getcpu'' 168 [(''cpup'', 8), (''nodep'', 8), (''unused'', 8)],
     SYSCALL ''getcwd'' 17 [(''buf'', 8), (''size'', 8)],
     SYSCALL ''getdents64'' 61 [(''fd'', 4), (''dirent'', 8), (''count'', 4)]]"

definition aarch64_syscall_list_4 :: "syscall_descriptor list" where
  "aarch64_syscall_list_4 = [
     SYSCALL ''getegid'' 177 [],
     SYSCALL ''geteuid'' 175 [],
     SYSCALL ''getgid'' 176 [],
     SYSCALL ''getgroups'' 158 [(''gidsetsize'', 4), (''grouplist'', 8)],
     SYSCALL ''getitimer'' 102 [(''which'', 4), (''value'', 8)],
     SYSCALL ''get_mempolicy'' 236 [(''policy'', 8), (''nmask'', 8), (''maxnode'', 8), (''addr'',
       8), (''flags'', 8)],
     SYSCALL ''getpeername'' 205 [(''fd'', 4), (''usockaddr'', 8), (''usockaddr_len'', 8)],
     SYSCALL ''getpgid'' 155 [(''pid'', 4)],
     SYSCALL ''getpid'' 172 [],
     SYSCALL ''getppid'' 173 [],
     SYSCALL ''getpriority'' 141 [(''which'', 4), (''who'', 4)],
     SYSCALL ''getrandom'' 278 [(''buf'', 8), (''count'', 8), (''flags'', 4)],
     SYSCALL ''getresgid'' 150 [(''rgidp'', 8), (''egidp'', 8), (''sgidp'', 8)],
     SYSCALL ''getresuid'' 148 [(''ruidp'', 8), (''euidp'', 8), (''suidp'', 8)],
     SYSCALL ''getrlimit'' 163 [(''resource'', 4), (''rlim'', 8)],
     SYSCALL ''get_robust_list'' 100 [(''pid'', 4), (''head_ptr'', 8), (''len_ptr'', 8)],
     SYSCALL ''getrusage'' 165 [(''who'', 4), (''ru'', 8)],
     SYSCALL ''getsid'' 156 [(''pid'', 4)],
     SYSCALL ''getsockname'' 204 [(''fd'', 4), (''usockaddr'', 8), (''usockaddr_len'', 8)],
     SYSCALL ''getsockopt'' 209 [(''fd'', 4), (''level'', 4), (''optname'', 4), (''optval'', 8),
       (''optlen'', 8)],
     SYSCALL ''gettid'' 178 [],
     SYSCALL ''gettimeofday'' 169 [(''tv'', 8), (''tz'', 8)],
     SYSCALL ''getuid'' 174 [],
     SYSCALL ''getxattr'' 8 [(''pathname'', 8), (''name'', 8), (''value'', 8), (''size'', 8)],
     SYSCALL ''init_module'' 105 [(''umod'', 8), (''len'', 8), (''uargs'', 8)]]"

definition aarch64_syscall_list_5 :: "syscall_descriptor list" where
  "aarch64_syscall_list_5 = [
     SYSCALL ''inotify_add_watch'' 27 [(''fd'', 4), (''pathname'', 8), (''mask'', 4)],
     SYSCALL ''inotify_init1'' 26 [(''flags'', 4)],
     SYSCALL ''inotify_rm_watch'' 28 [(''fd'', 4), (''wd'', 4)],
     SYSCALL ''io_cancel'' 3 [(''ctx_id'', 8), (''iocb'', 8), (''result'', 8)],
     SYSCALL ''ioctl'' 29 [(''fd'', 4), (''cmd'', 4), (''arg'', 8)],
     SYSCALL ''io_destroy'' 1 [(''ctx'', 8)],
     SYSCALL ''io_getevents'' 4 [(''ctx_id'', 8), (''min_nr'', 8), (''nr'', 8), (''events'', 8),
       (''timeout'', 8)],
     SYSCALL ''ioprio_get'' 31 [(''which'', 4), (''who'', 4)],
     SYSCALL ''ioprio_set'' 30 [(''which'', 4), (''who'', 4), (''ioprio'', 4)],
     SYSCALL ''io_setup'' 0 [(''nr_events'', 4), (''ctxp'', 8)],
     SYSCALL ''io_submit'' 2 [(''ctx_id'', 8), (''nr'', 8), (''iocbpp'', 8)],
     SYSCALL ''kcmp'' 272 [(''pid1'', 4), (''pid2'', 4), (''type'', 4), (''idx1'', 8), (''idx2'',
       8)],
     SYSCALL ''kexec_load'' 104 [(''entry'', 8), (''nr_segments'', 8), (''segments'', 8),
       (''flags'', 8)],
     SYSCALL ''keyctl'' 219 [(''option'', 4), (''arg2'', 8), (''arg3'', 8), (''arg4'', 8),
       (''arg5'', 8)],
     SYSCALL ''kill'' 129 [(''pid'', 4), (''sig'', 4)],
     SYSCALL ''lgetxattr'' 9 [(''pathname'', 8), (''name'', 8), (''value'', 8), (''size'', 8)],
     SYSCALL ''linkat'' 37 [(''olddfd'', 4), (''oldname'', 8), (''newdfd'', 4), (''newname'', 8),
       (''flags'', 4)],
     SYSCALL ''listen'' 201 [(''fd'', 4), (''backlog'', 4)]]"

definition aarch64_syscall_list_6 :: "syscall_descriptor list" where
  "aarch64_syscall_list_6 = [
     SYSCALL ''listxattr'' 11 [(''pathname'', 8), (''list'', 8), (''size'', 8)],
     SYSCALL ''llistxattr'' 12 [(''pathname'', 8), (''list'', 8), (''size'', 8)],
     SYSCALL ''lookup_dcookie'' 18 [(''cookie64'', 8), (''buf'', 8), (''len'', 8)],
     SYSCALL ''lremovexattr'' 15 [(''pathname'', 8), (''name'', 8)],
     SYSCALL ''lseek'' 62 [(''fd'', 4), (''offset'', 8), (''whence'', 4)],
     SYSCALL ''lsetxattr'' 6 [(''pathname'', 8), (''name'', 8), (''value'', 8), (''size'', 8),
       (''flags'', 4)],
     SYSCALL ''madvise'' 233 [(''start'', 8), (''len_in'', 8), (''behavior'', 4)],
     SYSCALL ''mbind'' 235 [(''start'', 8), (''len'', 8), (''mode'', 8), (''nmask'', 8),
       (''maxnode'', 8), (''flags'', 4)],
     SYSCALL ''membarrier'' 283 [(''cmd'', 4), (''flags'', 4)],
     SYSCALL ''memfd_create'' 279 [(''uname'', 8), (''flags'', 4)],
     SYSCALL ''migrate_pages'' 238 [(''pid'', 4), (''maxnode'', 8), (''old_nodes'', 8),
       (''new_nodes'', 8)],
     SYSCALL ''mincore'' 232 [(''start'', 8), (''len'', 8), (''vec'', 8)],
     SYSCALL ''mkdirat'' 34 [(''dfd'', 4), (''pathname'', 8), (''mode'', 2)],
     SYSCALL ''mknodat'' 33 [(''dfd'', 4), (''filename'', 8), (''mode'', 2), (''dev'', 4)],
     SYSCALL ''mlock'' 228 [(''start'', 8), (''len'', 8)],
     SYSCALL ''mlock2'' 284 [(''start'', 8), (''len'', 8), (''flags'', 4)],
     SYSCALL ''mlockall'' 230 [(''flags'', 4)],
     SYSCALL ''mmap'' 222 [(''addr'', 8), (''len'', 8), (''prot'', 8), (''flags'', 8), (''fd'',
       8), (''off'', 8)]]"

definition aarch64_syscall_list_7 :: "syscall_descriptor list" where
  "aarch64_syscall_list_7 = [
     SYSCALL ''mount'' 40 [(''dev_name'', 8), (''dir_name'', 8), (''type'', 8), (''flags'', 8),
       (''data'', 8)],
     SYSCALL ''move_pages'' 239 [(''pid'', 4), (''nr_pages'', 8), (''pages'', 8), (''nodes'', 8),
       (''status'', 8), (''flags'', 4)],
     SYSCALL ''mprotect'' 226 [(''start'', 8), (''len'', 8), (''prot'', 8)],
     SYSCALL ''mq_getsetattr'' 185 [(''mqdes'', 4), (''u_mqstat'', 8), (''u_omqstat'', 8)],
     SYSCALL ''mq_notify'' 184 [(''mqdes'', 4), (''u_notification'', 8)],
     SYSCALL ''mq_open'' 180 [(''u_name'', 8), (''oflag'', 4), (''mode'', 2), (''u_attr'', 8)],
     SYSCALL ''mq_timedreceive'' 183 [(''mqdes'', 4), (''u_msg_ptr'', 8), (''msg_len'', 8),
       (''u_msg_prio'', 8), (''u_abs_timeout'', 8)],
     SYSCALL ''mq_timedsend'' 182 [(''mqdes'', 4), (''u_msg_ptr'', 8), (''msg_len'', 8),
       (''msg_prio'', 4), (''u_abs_timeout'', 8)],
     SYSCALL ''mq_unlink'' 181 [(''u_name'', 8)],
     SYSCALL ''mremap'' 216 [(''addr'', 8), (''old_len'', 8), (''new_len'', 8), (''flags'', 8),
       (''new_addr'', 8)],
     SYSCALL ''msgctl'' 187 [(''msqid'', 4), (''cmd'', 4), (''buf'', 8)],
     SYSCALL ''msgget'' 186 [(''key'', 4), (''msgflg'', 4)],
     SYSCALL ''msgrcv'' 188 [(''msqid'', 4), (''msgp'', 8), (''msgsz'', 8), (''msgtyp'', 8),
       (''msgflg'', 4)],
     SYSCALL ''msgsnd'' 189 [(''msqid'', 4), (''msgp'', 8), (''msgsz'', 8), (''msgflg'', 4)],
     SYSCALL ''msync'' 227 [(''start'', 8), (''len'', 8), (''flags'', 4)],
     SYSCALL ''munlock'' 229 [(''start'', 8), (''len'', 8)],
     SYSCALL ''munlockall'' 231 [],
     SYSCALL ''munmap'' 215 [(''addr'', 8), (''len'', 8)]]"

definition aarch64_syscall_list_8 :: "syscall_descriptor list" where
  "aarch64_syscall_list_8 = [
     SYSCALL ''name_to_handle_at'' 264 [(''dfd'', 4), (''name'', 8), (''handle'', 8),
       (''mnt_id'', 8), (''flag'', 4)],
     SYSCALL ''nanosleep'' 101 [(''rqtp'', 8), (''rmtp'', 8)],
     SYSCALL ''newfstat'' 80 [(''fd'', 4), (''statbuf'', 8)],
     SYSCALL ''newfstatat'' 79 [(''dfd'', 4), (''filename'', 8), (''statbuf'', 8), (''flag'',
       4)],
     SYSCALL ''newuname'' 160 [(''name'', 8)],
     SYSCALL ''nfsservctl'' 42 [(''cmd'', 4), (''argp'', 8), (''resp'', 8)],
     SYSCALL ''openat'' 56 [(''dfd'', 4), (''filename'', 8), (''flags'', 4), (''mode'', 2)],
     SYSCALL ''open_by_handle_at'' 265 [(''mountdirfd'', 4), (''handle'', 8), (''flags'', 4)],
     SYSCALL ''perf_event_open'' 241 [(''attr_uptr'', 8), (''pid'', 4), (''cpu'', 4),
       (''group_fd'', 4), (''flags'', 8)],
     SYSCALL ''personality'' 92 [(''personality'', 4)],
     SYSCALL ''pipe2'' 59 [(''fildes'', 8), (''flags'', 4)],
     SYSCALL ''pivot_root'' 41 [(''new_root'', 8), (''put_old'', 8)],
     SYSCALL ''ppoll'' 73 [(''ufds'', 8), (''nfds'', 4), (''tsp'', 8), (''sigmask'', 8),
       (''sigsetsize'', 8)],
     SYSCALL ''prctl'' 167 [(''option'', 4), (''arg2'', 8), (''arg3'', 8), (''arg4'', 8),
       (''arg5'', 8)],
     SYSCALL ''pread64'' 67 [(''fd'', 4), (''buf'', 8), (''count'', 8), (''pos'', 8)],
     SYSCALL ''preadv'' 69 [(''fd'', 8), (''vec'', 8), (''vlen'', 8), (''pos_l'', 8), (''pos_h'',
       8)],
     SYSCALL ''preadv2'' 286 [(''fd'', 8), (''vec'', 8), (''vlen'', 8), (''pos_l'', 8),
       (''pos_h'', 8), (''flags'', 4)]]"

definition aarch64_syscall_list_9 :: "syscall_descriptor list" where
  "aarch64_syscall_list_9 = [
     SYSCALL ''prlimit64'' 261 [(''pid'', 4), (''resource'', 4), (''new_rlim'', 8),
       (''old_rlim'', 8)],
     SYSCALL ''process_vm_readv'' 270 [(''pid'', 4), (''lvec'', 8), (''liovcnt'', 8), (''rvec'',
       8), (''riovcnt'', 8), (''flags'', 8)],
     SYSCALL ''process_vm_writev'' 271 [(''pid'', 4), (''lvec'', 8), (''liovcnt'', 8), (''rvec'',
       8), (''riovcnt'', 8), (''flags'', 8)],
     SYSCALL ''pselect6'' 72 [(''n'', 4), (''inp'', 8), (''outp'', 8), (''exp'', 8), (''tsp'',
       8), (''sig'', 8)],
     SYSCALL ''ptrace'' 117 [(''request'', 8), (''pid'', 8), (''addr'', 8), (''data'', 8)],
     SYSCALL ''pwrite64'' 68 [(''fd'', 4), (''buf'', 8), (''count'', 8), (''pos'', 8)],
     SYSCALL ''pwritev'' 70 [(''fd'', 8), (''vec'', 8), (''vlen'', 8), (''pos_l'', 8),
       (''pos_h'', 8)],
     SYSCALL ''pwritev2'' 287 [(''fd'', 8), (''vec'', 8), (''vlen'', 8), (''pos_l'', 8),
       (''pos_h'', 8), (''flags'', 4)],
     SYSCALL ''quotactl'' 60 [(''cmd'', 4), (''special'', 8), (''id'', 4), (''addr'', 8)],
     SYSCALL ''read'' 63 [(''fd'', 4), (''buf'', 8), (''count'', 8)],
     SYSCALL ''readahead'' 213 [(''fd'', 4), (''offset'', 8), (''count'', 8)],
     SYSCALL ''readlinkat'' 78 [(''dfd'', 4), (''pathname'', 8), (''buf'', 8), (''bufsiz'', 4)],
     SYSCALL ''readv'' 65 [(''fd'', 8), (''vec'', 8), (''vlen'', 8)],
     SYSCALL ''reboot'' 142 [(''magic1'', 4), (''magic2'', 4), (''cmd'', 4), (''arg'', 8)],
     SYSCALL ''recvfrom'' 207 [(''fd'', 4), (''ubuf'', 8), (''size'', 8), (''flags'', 4),
       (''addr'', 8), (''addr_len'', 8)]]"

definition aarch64_syscall_list_10 :: "syscall_descriptor list" where
  "aarch64_syscall_list_10 = [
     SYSCALL ''recvmmsg'' 243 [(''fd'', 4), (''mmsg'', 8), (''vlen'', 4), (''flags'', 4),
       (''timeout'', 8)],
     SYSCALL ''recvmsg'' 212 [(''fd'', 4), (''msg'', 8), (''flags'', 4)],
     SYSCALL ''remap_file_pages'' 234 [(''start'', 8), (''size'', 8), (''prot'', 8), (''pgoff'',
       8), (''flags'', 8)],
     SYSCALL ''removexattr'' 14 [(''pathname'', 8), (''name'', 8)],
     SYSCALL ''renameat'' 38 [(''olddfd'', 4), (''oldname'', 8), (''newdfd'', 4), (''newname'',
       8)],
     SYSCALL ''renameat2'' 276 [(''olddfd'', 4), (''oldname'', 8), (''newdfd'', 4), (''newname'',
       8), (''flags'', 4)],
     SYSCALL ''request_key'' 218 [(''_type'', 8), (''_description'', 8), (''_callout_info'', 8),
       (''destringid'', 4)],
     SYSCALL ''restart_syscall'' 128 [],
     SYSCALL ''rt_sigaction'' 134 [(''sig'', 4), (''act'', 8), (''oact'', 8), (''sigsetsize'',
       8)],
     SYSCALL ''rt_sigpending'' 136 [(''uset'', 8), (''sigsetsize'', 8)],
     SYSCALL ''rt_sigprocmask'' 135 [(''how'', 4), (''nset'', 8), (''oset'', 8), (''sigsetsize'',
       8)],
     SYSCALL ''rt_sigqueueinfo'' 138 [(''pid'', 4), (''sig'', 4), (''uinfo'', 8)],
     SYSCALL ''rt_sigreturn'' 139 [],
     SYSCALL ''rt_sigsuspend'' 133 [(''unewset'', 8), (''sigsetsize'', 8)],
     SYSCALL ''rt_sigtimedwait'' 137 [(''uthese'', 8), (''uinfo'', 8), (''uts'', 8),
       (''sigsetsize'', 8)],
     SYSCALL ''rt_tgsigqueueinfo'' 240 [(''tgid'', 4), (''pid'', 4), (''sig'', 4), (''uinfo'',
       8)],
     SYSCALL ''sched_getaffinity'' 123 [(''pid'', 4), (''len'', 4), (''user_mask_ptr'', 8)],
     SYSCALL ''sched_getattr'' 275 [(''pid'', 4), (''uattr'', 8), (''size'', 4), (''flags'', 4)],
     SYSCALL ''sched_getparam'' 121 [(''pid'', 4), (''param'', 8)]]"

definition aarch64_syscall_list_11 :: "syscall_descriptor list" where
  "aarch64_syscall_list_11 = [
     SYSCALL ''sched_get_priority_max'' 125 [(''policy'', 4)],
     SYSCALL ''sched_get_priority_min'' 126 [(''policy'', 4)],
     SYSCALL ''sched_getscheduler'' 120 [(''pid'', 4)],
     SYSCALL ''sched_rr_get_interval'' 127 [(''pid'', 4), (''interval'', 8)],
     SYSCALL ''sched_setaffinity'' 122 [(''pid'', 4), (''len'', 4), (''user_mask_ptr'', 8)],
     SYSCALL ''sched_setattr'' 274 [(''pid'', 4), (''uattr'', 8), (''flags'', 4)],
     SYSCALL ''sched_setparam'' 118 [(''pid'', 4), (''param'', 8)],
     SYSCALL ''sched_setscheduler'' 119 [(''pid'', 4), (''policy'', 4), (''param'', 8)],
     SYSCALL ''sched_yield'' 124 [],
     SYSCALL ''seccomp'' 277 [(''op'', 4), (''flags'', 4), (''uargs'', 8)],
     SYSCALL ''semctl'' 191 [(''semid'', 4), (''semnum'', 4), (''cmd'', 4), (''arg'', 8)],
     SYSCALL ''semget'' 190 [(''key'', 4), (''nsems'', 4), (''semflg'', 4)],
     SYSCALL ''semop'' 193 [(''semid'', 4), (''tsops'', 8), (''nsops'', 4)],
     SYSCALL ''semtimedop'' 192 [(''semid'', 4), (''tsops'', 8), (''nsops'', 4), (''timeout'',
       8)],
     SYSCALL ''sendfile'' 71 [(''out_fd'', 4), (''in_fd'', 4), (''offset'', 8), (''count'', 8)],
     SYSCALL ''sendmmsg'' 269 [(''fd'', 4), (''mmsg'', 8), (''vlen'', 4), (''flags'', 4)],
     SYSCALL ''sendmsg'' 211 [(''fd'', 4), (''msg'', 8), (''flags'', 4)],
     SYSCALL ''sendto'' 206 [(''fd'', 4), (''buff'', 8), (''len'', 8), (''flags'', 4), (''addr'',
       8), (''addr_len'', 4)],
     SYSCALL ''setdomainname'' 162 [(''name'', 8), (''len'', 4)],
     SYSCALL ''setfsgid'' 152 [(''gid'', 4)]]"

definition aarch64_syscall_list_12 :: "syscall_descriptor list" where
  "aarch64_syscall_list_12 = [
     SYSCALL ''setfsuid'' 151 [(''uid'', 4)],
     SYSCALL ''setgid'' 144 [(''gid'', 4)],
     SYSCALL ''setgroups'' 159 [(''gidsetsize'', 4), (''grouplist'', 8)],
     SYSCALL ''sethostname'' 161 [(''name'', 8), (''len'', 4)],
     SYSCALL ''setitimer'' 103 [(''which'', 4), (''value'', 8), (''ovalue'', 8)],
     SYSCALL ''set_mempolicy'' 237 [(''mode'', 4), (''nmask'', 8), (''maxnode'', 8)],
     SYSCALL ''setns'' 268 [(''fd'', 4), (''nstype'', 4)],
     SYSCALL ''setpgid'' 154 [(''pid'', 4), (''pgid'', 4)],
     SYSCALL ''setpriority'' 140 [(''which'', 4), (''who'', 4), (''niceval'', 4)],
     SYSCALL ''setregid'' 143 [(''rgid'', 4), (''egid'', 4)],
     SYSCALL ''setresgid'' 149 [(''rgid'', 4), (''egid'', 4), (''sgid'', 4)],
     SYSCALL ''setresuid'' 147 [(''ruid'', 4), (''euid'', 4), (''suid'', 4)],
     SYSCALL ''setreuid'' 145 [(''ruid'', 4), (''euid'', 4)],
     SYSCALL ''setrlimit'' 164 [(''resource'', 4), (''rlim'', 8)],
     SYSCALL ''set_robust_list'' 99 [(''head'', 8), (''len'', 8)],
     SYSCALL ''setsid'' 157 [],
     SYSCALL ''setsockopt'' 208 [(''fd'', 4), (''level'', 4), (''optname'', 4), (''optval'', 8),
       (''optlen'', 4)],
     SYSCALL ''set_tid_address'' 96 [(''tidptr'', 8)],
     SYSCALL ''settimeofday'' 170 [(''tv'', 8), (''tz'', 8)],
     SYSCALL ''setuid'' 146 [(''uid'', 4)],
     SYSCALL ''setxattr'' 5 [(''pathname'', 8), (''name'', 8), (''value'', 8), (''size'', 8),
       (''flags'', 4)]]"

definition aarch64_syscall_list_13 :: "syscall_descriptor list" where
  "aarch64_syscall_list_13 = [
     SYSCALL ''shmat'' 196 [(''shmid'', 4), (''shmaddr'', 8), (''shmflg'', 4)],
     SYSCALL ''shmctl'' 195 [(''shmid'', 4), (''cmd'', 4), (''buf'', 8)],
     SYSCALL ''shmdt'' 197 [(''shmaddr'', 8)],
     SYSCALL ''shmget'' 194 [(''key'', 4), (''size'', 8), (''shmflg'', 4)],
     SYSCALL ''shutdown'' 210 [(''fd'', 4), (''how'', 4)],
     SYSCALL ''sigaltstack'' 132 [(''uss'', 8), (''uoss'', 8)],
     SYSCALL ''signalfd4'' 74 [(''ufd'', 4), (''user_mask'', 8), (''sizemask'', 8), (''flags'',
       4)],
     SYSCALL ''socket'' 198 [(''family'', 4), (''type'', 4), (''protocol'', 4)],
     SYSCALL ''socketpair'' 199 [(''family'', 4), (''type'', 4), (''protocol'', 4),
       (''usockvec'', 8)],
     SYSCALL ''splice'' 76 [(''fd_in'', 4), (''off_in'', 8), (''fd_out'', 4), (''off_out'', 8),
       (''len'', 8), (''flags'', 4)],
     SYSCALL ''statfs'' 43 [(''pathname'', 8), (''buf'', 8)],
     SYSCALL ''swapoff'' 225 [(''specialfile'', 8)],
     SYSCALL ''swapon'' 224 [(''specialfile'', 8), (''swap_flags'', 4)],
     SYSCALL ''symlinkat'' 36 [(''oldname'', 8), (''newdfd'', 4), (''newname'', 8)],
     SYSCALL ''sync'' 81 [],
     SYSCALL ''sync_file_range2'' 84 [(''fd'', 4), (''offset'', 8), (''nbytes'', 8), (''flags'',
       4)],
     SYSCALL ''syncfs'' 267 [(''fd'', 4)],
     SYSCALL ''sysinfo'' 179 [(''info'', 8)],
     SYSCALL ''syslog'' 116 [(''type'', 4), (''buf'', 8), (''len'', 4)],
     SYSCALL ''tee'' 77 [(''fdin'', 4), (''fdout'', 4), (''len'', 8), (''flags'', 4)]]"

definition aarch64_syscall_list_14 :: "syscall_descriptor list" where
  "aarch64_syscall_list_14 = [
     SYSCALL ''tgkill'' 131 [(''tgid'', 4), (''pid'', 4), (''sig'', 4)],
     SYSCALL ''timer_create'' 107 [(''which_clock'', 4), (''timer_event_spec'', 8),
       (''created_timer_id'', 8)],
     SYSCALL ''timer_delete'' 111 [(''timer_id'', 4)],
     SYSCALL ''timerfd_create'' 85 [(''clockid'', 4), (''flags'', 4)],
     SYSCALL ''timerfd_gettime'' 87 [(''ufd'', 4), (''otmr'', 8)],
     SYSCALL ''timerfd_settime'' 86 [(''ufd'', 4), (''flags'', 4), (''utmr'', 8), (''otmr'', 8)],
     SYSCALL ''timer_getoverrun'' 109 [(''timer_id'', 4)],
     SYSCALL ''timer_gettime'' 108 [(''timer_id'', 4), (''setting'', 8)],
     SYSCALL ''timer_settime'' 110 [(''timer_id'', 4), (''flags'', 4), (''new_setting'', 8),
       (''old_setting'', 8)],
     SYSCALL ''times'' 153 [(''tbuf'', 8)],
     SYSCALL ''tkill'' 130 [(''pid'', 4), (''sig'', 4)],
     SYSCALL ''truncate'' 45 [(''path'', 8), (''length'', 8)],
     SYSCALL ''umask'' 166 [(''mask'', 4)],
     SYSCALL ''unlinkat'' 35 [(''dfd'', 4), (''pathname'', 8), (''flag'', 4)],
     SYSCALL ''unshare'' 97 [(''unshare_flags'', 8)],
     SYSCALL ''userfaultfd'' 282 [(''flags'', 4)],
     SYSCALL ''utimensat'' 88 [(''dfd'', 4), (''filename'', 8), (''utimes'', 8), (''flags'', 4)],
     SYSCALL ''vhangup'' 58 [],
     SYSCALL ''vmsplice'' 75 [(''fd'', 4), (''iov'', 8), (''nr_segs'', 8), (''flags'', 4)],
     SYSCALL ''wait4'' 260 [(''upid'', 4), (''stat_addr'', 8), (''options'', 4), (''ru'', 8)]]"

definition aarch64_syscall_list_15 :: "syscall_descriptor list" where
  "aarch64_syscall_list_15 = [
     SYSCALL ''waitid'' 95 [(''which'', 4), (''upid'', 4), (''infop'', 8), (''options'', 4),
       (''ru'', 8)],
     SYSCALL ''write'' 64 [(''fd'', 4), (''buf'', 8), (''count'', 8)],
     SYSCALL ''writev'' 66 [(''fd'', 8), (''vec'', 8), (''vlen'', 8)]]"

definition aarch64_syscall_list :: "syscall_descriptor list" where
  "aarch64_syscall_list = concat [
     aarch64_syscall_list_1,
     aarch64_syscall_list_2,
     aarch64_syscall_list_3,
     aarch64_syscall_list_4,
     aarch64_syscall_list_5,
     aarch64_syscall_list_6,
     aarch64_syscall_list_7,
     aarch64_syscall_list_8,
     aarch64_syscall_list_9,
     aarch64_syscall_list_10,
     aarch64_syscall_list_11,
     aarch64_syscall_list_12,
     aarch64_syscall_list_13,
     aarch64_syscall_list_14,
     aarch64_syscall_list_15]"

lemmas aarch64_syscall_defs =
  aarch64_syscall_list_def
  aarch64_syscall_list_1_def
  aarch64_syscall_list_2_def
  aarch64_syscall_list_3_def
  aarch64_syscall_list_4_def
  aarch64_syscall_list_5_def
  aarch64_syscall_list_6_def
  aarch64_syscall_list_7_def
  aarch64_syscall_list_8_def
  aarch64_syscall_list_9_def
  aarch64_syscall_list_10_def
  aarch64_syscall_list_11_def
  aarch64_syscall_list_12_def
  aarch64_syscall_list_13_def
  aarch64_syscall_list_14_def
  aarch64_syscall_list_15_def

end
