(* ===== verification/Syscalls_Amd64.thy ===== *)
theory Syscalls_Amd64
  imports Kafel_Syscall
begin

text \<open>
  The system calls of one architecture, \<open>amd64_syscall_list\<close> of
  \<open>kafel/src/syscalls/amd64_syscalls.c\<close>, cut into stretches of the source file. The arguments are
  written in the order of their designators \<open>ARG_0\<close>, \<open>ARG_1\<close>, \<open>...\<close>, which are consecutive in
  every entry.
\<close>

definition amd64_syscall_list_1 :: "syscall_descriptor list" where
  "amd64_syscall_list_1 = [
     SYSCALL ''accept'' 43 [(''fd'', 4), (''upeer_sockaddr'', 8), (''upeer_addrlen'', 8)],
     SYSCALL ''accept4'' 288 [(''fd'', 4), (''upeer_sockaddr'', 8), (''upeer_addrlen'', 8),
       (''flags'', 4)],
     SYSCALL ''access'' 21 [(''filename'', 8), (''mode'', 4)],
     SYSCALL ''acct'' 163 [(''name'', 8)],
     SYSCALL ''add_key'' 248 [(''_type'', 8), (''_description'', 8), (''_payload'', 8),
       (''plen'', 8), (''ringid'', 4)],
     SYSCALL ''adjtimex'' 159 [(''txc_p'', 8)],
     SYSCALL ''afs_syscall'' 183 [],
     SYSCALL ''alarm'' 37 [(''seconds'', 4)],
     SYSCALL ''arch_prctl'' 158 [(''code'', 4), (''addr'', 8)],
     SYSCALL ''bind'' 49 [(''fd'', 4), (''umyaddr'', 8), (''addrlen'', 4)],
     SYSCALL ''bpf'' 321 [(''cmd'', 4), (''uattr'', 8), (''size'', 4)],
     SYSCALL ''brk'' 12 [(''brk'', 8)],
     SYSCALL ''capget'' 125 [(''header'', 8), (''dataptr'', 8)],
     SYSCALL ''capset'' 126 [(''header'', 8), (''data'', 8)],
     SYSCALL ''chdir'' 80 [(''filename'', 8)],
     SYSCALL ''chmod'' 90 [(''filename'', 8), (''mode'', 2)],
     SYSCALL ''chown'' 92 [(''filename'', 8), (''user'', 4), (''group'', 4)],
     SYSCALL ''chroot'' 161 [(''filename'', 8)],
     SYSCALL ''clock_adjtime'' 305 [(''which_clock'', 4), (''utx'', 8)],
     SYSCALL ''clock_getres'' 229 [(''which_clock'', 4), (''tp'', 8)],
     SYSCALL ''clock_gettime'' 228 [(''which_clock'', 4), (''tp'', 8)]]"

definition amd64_syscall_list_2 :: "syscall_descriptor list" where
  "amd64_syscall_list_2 = [
     SYSCALL ''clock_nanosleep'' 230 [(''which_clock'', 4), (''flags'', 4), (''rqtp'', 8),
       (''rmtp'', 8)],
     SYSCALL ''clock_settime'' 227 [(''which_clock'', 4), (''tp'', 8)],
     SYSCALL ''clone'' 56 [(''clone_flags'', 8), (''newsp'', 8), (''parent_tidptr'', 8),
       (''child_tidptr'', 8), (''tls'', 8)],
     SYSCALL ''close'' 3 [(''fd'', 4)],
     SYSCALL ''connect'' 42 [(''fd'', 4), (''uservaddr'', 8), (''addrlen'', 4)],
     SYSCALL ''copy_file_range'' 326 [(''fd_in'', 4), (''off_in'', 8), (''fd_out'', 4),
       (''off_out'', 8), (''len'', 8), (''flags'', 4)],
     SYSCALL ''creat'' 85 [(''pathname'', 8), (''mode'', 2)],
     SYSCALL ''create_module'' 174 [(''name'', 8), (''size'', 8)],
     SYSCALL ''delete_module'' 176 [(''name_user'', 8), (''flags'', 4)],
     SYSCALL ''dup'' 32 [(''fildes'', 4)],
     SYSCALL ''dup2'' 33 [(''oldfd'', 4), (''newfd'', 4)],
     SYSCALL ''dup3'' 292 [(''oldfd'', 4), (''newfd'', 4), (''flags'', 4)],
     SYSCALL ''epoll_create'' 213 [(''size'', 4)],
     SYSCALL ''epoll_create1'' 291 [(''flags'', 4)],
     SYSCALL ''epoll_ctl'' 233 [(''epfd'', 4), (''op'', 4), (''fd'', 4), (''event'', 8)],
     SYSCALL ''epoll_ctl_old'' 214 [],
     SYSCALL ''epoll_pwait'' 281 [(''epfd'', 4), (''events'', 8), (''maxevents'', 4),
       (''timeout'', 4), (''sigmask'', 8), (''sigsetsize'', 8)],
     SYSCALL ''epoll_wait'' 232 [(''epfd'', 4), (''events'', 8), (''maxevents'', 4),
       (''timeout'', 4)],
     SYSCALL ''epoll_wait_old'' 215 [],
     SYSCALL ''eventfd'' 284 [(''count'', 4)],
     SYSCALL ''eventfd2'' 290 [(''count'', 4), (''flags'', 4)]]"

definition amd64_syscall_list_3 :: "syscall_descriptor list" where
  "amd64_syscall_list_3 = [
     SYSCALL ''execve'' 59 [(''filename'', 8), (''argv'', 8), (''envp'', 8)],
     SYSCALL ''execveat'' 322 [(''fd'', 4), (''filename'', 8), (''argv'', 8), (''envp'', 8),
       (''flags'', 4)],
     SYSCALL ''exit'' 60 [(''error_code'', 4)],
     SYSCALL ''exit_group'' 231 [(''error_code'', 4)],
     SYSCALL ''faccessat'' 269 [(''dfd'', 4), (''filename'', 8), (''mode'', 4)],
     SYSCALL ''fadvise64'' 221 [(''fd'', 4), (''offset'', 8), (''len'', 8), (''advice'', 4)],
     SYSCALL ''fallocate'' 285 [(''fd'', 4), (''mode'', 4), (''offset'', 8), (''len'', 8)],
     SYSCALL ''fanotify_init'' 300 [(''flags'', 4), (''event_f_flags'', 4)],
     SYSCALL ''fanotify_mark'' 301 [(''fanotify_fd'', 4), (''flags'', 4), (''mask'', 8),
       (''dfd'', 4), (''pathname'', 8)],
     SYSCALL ''fchdir'' 81 [(''fd'', 4)],
     SYSCALL ''fchmod'' 91 [(''fd'', 4), (''mode'', 2)],
     SYSCALL ''fchmodat'' 268 [(''dfd'', 4), (''filename'', 8), (''mode'', 2)],
     SYSCALL ''fchown'' 93 [(''fd'', 4), (''user'', 4), (''group'', 4)],
     SYSCALL ''fchownat'' 260 [(''dfd'', 4), (''filename'', 8), (''user'', 4), (''group'', 4),
       (''flag'', 4)],
     SYSCALL ''fcntl'' 72 [(''fd'', 4), (''cmd'', 4), (''arg'', 8)],
     SYSCALL ''fdatasync'' 75 [(''fd'', 4)],
     SYSCALL ''fgetxattr'' 193 [(''fd'', 4), (''name'', 8), (''value'', 8), (''size'', 8)],
     SYSCALL ''finit_module'' 313 [(''fd'', 4), (''uargs'', 8), (''flags'', 4)]]"

definition amd64_syscall_list_4 :: "syscall_descriptor list" where
  "amd64_syscall_list_4 = [
     SYSCALL ''flistxattr'' 196 [(''fd'', 4), (''list'', 8), (''size'', 8)],
     SYSCALL ''flock'' 73 [(''fd'', 4), (''cmd'', 4)],
     SYSCALL ''fork'' 57 [],
     SYSCALL ''fremovexattr'' 199 [(''fd'', 4), (''name'', 8)],
     SYSCALL ''fsetxattr'' 190 [(''fd'', 4), (''name'', 8), (''value'', 8), (''size'', 8),
       (''flags'', 4)],
     SYSCALL ''fstatfs'' 138 [(''fd'', 4), (''buf'', 8)],
     SYSCALL ''fsync'' 74 [(''fd'', 4)],
     SYSCALL ''ftruncate'' 77 [(''fd'', 4), (''length'', 8)],
     SYSCALL ''futex'' 202 [(''uaddr'', 8), (''op'', 4), (''val'', 4), (''utime'', 8),
       (''uaddr2'', 8), (''val3'', 4)],
     SYSCALL ''futimesat'' 261 [(''dfd'', 4), (''filename'', 8), (''utimes'', 8)],
     SYSCALL ''getcpu'' 309 [(''cpup'', 8), (''nodep'', 8), (''unused'', 8)],
     SYSCALL ''getcwd'' 79 [(''buf'', 8), (''size'', 8)],
     SYSCALL ''getdents'' 78 [(''fd'', 4), (''dirent'', 8), (''count'', 4)],
     SYSCALL ''getdents64'' 217 [(''fd'', 4), (''dirent'', 8), (''count'', 4)],
     SYSCALL ''getegid'' 108 [],
     SYSCALL ''geteuid'' 107 [],
     SYSCALL ''getgid'' 104 [],
     SYSCALL ''getgroups'' 115 [(''gidsetsize'', 4), (''grouplist'', 8)],
     SYSCALL ''getitimer'' 36 [(''which'', 4), (''value'', 8)],
     SYSCALL ''get_kernel_syms'' 177 [(''table'', 8)],
     SYSCALL ''get_mempolicy'' 239 [(''policy'', 8), (''nmask'', 8), (''maxnode'', 8), (''addr'',
       8), (''flags'', 8)],
     SYSCALL ''getpeername'' 52 [(''fd'', 4), (''usockaddr'', 8), (''usockaddr_len'', 8)],
     SYSCALL ''getpgid'' 121 [(''pid'', 4)]]"

definition amd64_syscall_list_5 :: "syscall_descriptor list" where
  "amd64_syscall_list_5 = [
     SYSCALL ''getpgrp'' 111 [],
     SYSCALL ''getpid'' 39 [],
     SYSCALL ''getpmsg'' 181 [],
     SYSCALL ''getppid'' 110 [],
     SYSCALL ''getpriority'' 140 [(''which'', 4), (''who'', 4)],
     SYSCALL ''getrandom'' 318 [(''buf'', 8), (''count'', 8), (''flags'', 4)],
     SYSCALL ''getresgid'' 120 [(''rgidp'', 8), (''egidp'', 8), (''sgidp'', 8)],
     SYSCALL ''getresuid'' 118 [(''ruidp'', 8), (''euidp'', 8), (''suidp'', 8)],
     SYSCALL ''getrlimit'' 97 [(''resource'', 4), (''rlim'', 8)],
     SYSCALL ''get_robust_list'' 274 [(''pid'', 4), (''head_ptr'', 8), (''len_ptr'', 8)],
     SYSCALL ''getrusage'' 98 [(''who'', 4), (''ru'', 8)],
     SYSCALL ''getsid'' 124 [(''pid'', 4)],
     SYSCALL ''getsockname'' 51 [(''fd'', 4), (''usockaddr'', 8), (''usockaddr_len'', 8)],
     SYSCALL ''getsockopt'' 55 [(''fd'', 4), (''level'', 4), (''optname'', 4), (''optval'', 8),
       (''optlen'', 8)],
     SYSCALL ''get_thread_area'' 211 [(''u_info'', 8)],
     SYSCALL ''gettid'' 186 [],
     SYSCALL ''gettimeofday'' 96 [(''tv'', 8), (''tz'', 8)],
     SYSCALL ''getuid'' 102 [],
     SYSCALL ''getxattr'' 191 [(''pathname'', 8), (''name'', 8), (''value'', 8), (''size'', 8)],
     SYSCALL ''init_module'' 175 [(''umod'', 8), (''len'', 8), (''uargs'', 8)],
     SYSCALL ''inotify_add_watch'' 254 [(''fd'', 4), (''pathname'', 8), (''mask'', 4)],
     SYSCALL ''inotify_init'' 253 [],
     SYSCALL ''inotify_init1'' 294 [(''flags'', 4)],
     SYSCALL ''inotify_rm_watch'' 255 [(''fd'', 4), (''wd'', 4)],
     SYSCALL ''io_cancel'' 210 [(''ctx_id'', 8), (''iocb'', 8), (''result'', 8)]]"

definition amd64_syscall_list_6 :: "syscall_descriptor list" where
  "amd64_syscall_list_6 = [
     SYSCALL ''ioctl'' 16 [(''fd'', 4), (''cmd'', 4), (''arg'', 8)],
     SYSCALL ''io_destroy'' 207 [(''ctx'', 8)],
     SYSCALL ''io_getevents'' 208 [(''ctx_id'', 8), (''min_nr'', 8), (''nr'', 8), (''events'',
       8), (''timeout'', 8)],
     SYSCALL ''ioperm'' 173 [(''from'', 8), (''num'', 8), (''turn_on'', 4)],
     SYSCALL ''iopl'' 172 [(''level'', 4)],
     SYSCALL ''ioprio_get'' 252 [(''which'', 4), (''who'', 4)],
     SYSCALL ''ioprio_set'' 251 [(''which'', 4), (''who'', 4), (''ioprio'', 4)],
     SYSCALL ''io_setup'' 206 [(''nr_events'', 4), (''ctxp'', 8)],
     SYSCALL ''io_submit'' 209 [(''ctx_id'', 8), (''nr'', 8), (''iocbpp'', 8)],
     SYSCALL ''kcmp'' 312 [(''pid1'', 4), (''pid2'', 4), (''type'', 4), (''idx1'', 8), (''idx2'',
       8)],
     SYSCALL ''kexec_file_load'' 320 [(''kernel_fd'', 4), (''initrd_fd'', 4), (''cmdline_len'',
       8), (''cmdline_ptr'', 8), (''flags'', 8)],
     SYSCALL ''kexec_load'' 246 [(''entry'', 8), (''nr_segments'', 8), (''segments'', 8),
       (''flags'', 8)],
     SYSCALL ''keyctl'' 250 [(''option'', 4), (''arg2'', 8), (''arg3'', 8), (''arg4'', 8),
       (''arg5'', 8)],
     SYSCALL ''kill'' 62 [(''pid'', 4), (''sig'', 4)],
     SYSCALL ''lchown'' 94 [(''filename'', 8), (''user'', 4), (''group'', 4)],
     SYSCALL ''lgetxattr'' 192 [(''pathname'', 8), (''name'', 8), (''value'', 8), (''size'', 8)],
     SYSCALL ''link'' 86 [(''oldname'', 8), (''newname'', 8)],
     SYSCALL ''linkat'' 265 [(''olddfd'', 4), (''oldname'', 8), (''newdfd'', 4), (''newname'',
       8), (''flags'', 4)]]"

definition amd64_syscall_list_7 :: "syscall_descriptor list" where
  "amd64_syscall_list_7 = [
     SYSCALL ''listen'' 50 [(''fd'', 4), (''backlog'', 4)],
     SYSCALL ''listxattr'' 194 [(''pathname'', 8), (''list'', 8), (''size'', 8)],
     SYSCALL ''llistxattr'' 195 [(''pathname'', 8), (''list'', 8), (''size'', 8)],
     SYSCALL ''lookup_dcookie'' 212 [(''cookie64'', 8), (''buf'', 8), (''len'', 8)],
     SYSCALL ''lremovexattr'' 198 [(''pathname'', 8), (''name'', 8)],
     SYSCALL ''lseek'' 8 [(''fd'', 4), (''offset'', 8), (''whence'', 4)],
     SYSCALL ''lsetxattr'' 189 [(''pathname'', 8), (''name'', 8), (''value'', 8), (''size'', 8),
       (''flags'', 4)],
     SYSCALL ''madvise'' 28 [(''start'', 8), (''len_in'', 8), (''behavior'', 4)],
     SYSCALL ''mbind'' 237 [(''start'', 8), (''len'', 8), (''mode'', 8), (''nmask'', 8),
       (''maxnode'', 8), (''flags'', 4)],
     SYSCALL ''membarrier'' 324 [(''cmd'', 4), (''flags'', 4)],
     SYSCALL ''memfd_create'' 319 [(''uname'', 8), (''flags'', 4)],
     SYSCALL ''migrate_pages'' 256 [(''pid'', 4), (''maxnode'', 8), (''old_nodes'', 8),
       (''new_nodes'', 8)],
     SYSCALL ''mincore'' 27 [(''start'', 8), (''len'', 8), (''vec'', 8)],
     SYSCALL ''mkdir'' 83 [(''pathname'', 8), (''mode'', 2)],
     SYSCALL ''mkdirat'' 258 [(''dfd'', 4), (''pathname'', 8), (''mode'', 2)],
     SYSCALL ''mknod'' 133 [(''filename'', 8), (''mode'', 2), (''dev'', 4)],
     SYSCALL ''mknodat'' 259 [(''dfd'', 4), (''filename'', 8), (''mode'', 2), (''dev'', 4)],
     SYSCALL ''mlock'' 149 [(''start'', 8), (''len'', 8)]]"

definition amd64_syscall_list_8 :: "syscall_descriptor list" where
  "amd64_syscall_list_8 = [
     SYSCALL ''mlock2'' 325 [(''start'', 8), (''len'', 8), (''flags'', 4)],
     SYSCALL ''mlockall'' 151 [(''flags'', 4)],
     SYSCALL ''mmap'' 9 [(''addr'', 8), (''len'', 8), (''prot'', 8), (''flags'', 8), (''fd'', 8),
       (''off'', 8)],
     SYSCALL ''modify_ldt'' 154 [(''func'', 4), (''ptr'', 8), (''bytecount'', 8)],
     SYSCALL ''mount'' 165 [(''dev_name'', 8), (''dir_name'', 8), (''type'', 8), (''flags'', 8),
       (''data'', 8)],
     SYSCALL ''move_pages'' 279 [(''pid'', 4), (''nr_pages'', 8), (''pages'', 8), (''nodes'', 8),
       (''status'', 8), (''flags'', 4)],
     SYSCALL ''mprotect'' 10 [(''start'', 8), (''len'', 8), (''prot'', 8)],
     SYSCALL ''mq_getsetattr'' 245 [(''mqdes'', 4), (''u_mqstat'', 8), (''u_omqstat'', 8)],
     SYSCALL ''mq_notify'' 244 [(''mqdes'', 4), (''u_notification'', 8)],
     SYSCALL ''mq_open'' 240 [(''u_name'', 8), (''oflag'', 4), (''mode'', 2), (''u_attr'', 8)],
     SYSCALL ''mq_timedreceive'' 243 [(''mqdes'', 4), (''u_msg_ptr'', 8), (''msg_len'', 8),
       (''u_msg_prio'', 8), (''u_abs_timeout'', 8)],
     SYSCALL ''mq_timedsend'' 242 [(''mqdes'', 4), (''u_msg_ptr'', 8), (''msg_len'', 8),
       (''msg_prio'', 4), (''u_abs_timeout'', 8)],
     SYSCALL ''mq_unlink'' 241 [(''u_name'', 8)],
     SYSCALL ''mremap'' 25 [(''addr'', 8), (''old_len'', 8), (''new_len'', 8), (''flags'', 8),
       (''new_addr'', 8)],
     SYSCALL ''msgctl'' 71 [(''msqid'', 4), (''cmd'', 4), (''buf'', 8)],
     SYSCALL ''msgget'' 68 [(''key'', 4), (''msgflg'', 4)],
     SYSCALL ''msgrcv'' 70 [(''msqid'', 4), (''msgp'', 8), (''msgsz'', 8), (''msgtyp'', 8),
       (''msgflg'', 4)]]"

definition amd64_syscall_list_9 :: "syscall_descriptor list" where
  "amd64_syscall_list_9 = [
     SYSCALL ''msgsnd'' 69 [(''msqid'', 4), (''msgp'', 8), (''msgsz'', 8), (''msgflg'', 4)],
     SYSCALL ''msync'' 26 [(''start'', 8), (''len'', 8), (''flags'', 4)],
     SYSCALL ''munlock'' 150 [(''start'', 8), (''len'', 8)],
     SYSCALL ''munlockall'' 152 [],
     SYSCALL ''munmap'' 11 [(''addr'', 8), (''len'', 8)],
     SYSCALL ''name_to_handle_at'' 303 [(''dfd'', 4), (''name'', 8), (''handle'', 8),
       (''mnt_id'', 8), (''flag'', 4)],
     SYSCALL ''nanosleep'' 35 [(''rqtp'', 8), (''rmtp'', 8)],
     SYSCALL ''newfstat'' 5 [(''fd'', 4), (''statbuf'', 8)],
     SYSCALL ''newfstatat'' 262 [(''dfd'', 4), (''filename'', 8), (''statbuf'', 8), (''flag'',
       4)],
     SYSCALL ''newlstat'' 6 [(''filename'', 8), (''statbuf'', 8)],
     SYSCALL ''newstat'' 4 [(''filename'', 8), (''statbuf'', 8)],
     SYSCALL ''newuname'' 63 [(''name'', 8)],
     SYSCALL ''nfsservctl'' 180 [(''cmd'', 4), (''argp'', 8), (''resp'', 8)],
     SYSCALL ''open'' 2 [(''filename'', 8), (''flags'', 4), (''mode'', 2)],
     SYSCALL ''openat'' 257 [(''dfd'', 4), (''filename'', 8), (''flags'', 4), (''mode'', 2)],
     SYSCALL ''open_by_handle_at'' 304 [(''mountdirfd'', 4), (''handle'', 8), (''flags'', 4)],
     SYSCALL ''pause'' 34 [],
     SYSCALL ''perf_event_open'' 298 [(''attr_uptr'', 8), (''pid'', 4), (''cpu'', 4),
       (''group_fd'', 4), (''flags'', 8)],
     SYSCALL ''personality'' 135 [(''personality'', 4)],
     SYSCALL ''pipe'' 22 [(''fildes'', 8)],
     SYSCALL ''pipe2'' 293 [(''fildes'', 8), (''flags'', 4)]]"

definition amd64_syscall_list_10 :: "syscall_descriptor list" where
  "amd64_syscall_list_10 = [
     SYSCALL ''pivot_root'' 155 [(''new_root'', 8), (''put_old'', 8)],
     SYSCALL ''poll'' 7 [(''ufds'', 8), (''nfds'', 4), (''timeout_msecs'', 4)],
     SYSCALL ''ppoll'' 271 [(''ufds'', 8), (''nfds'', 4), (''tsp'', 8), (''sigmask'', 8),
       (''sigsetsize'', 8)],
     SYSCALL ''prctl'' 157 [(''option'', 4), (''arg2'', 8), (''arg3'', 8), (''arg4'', 8),
       (''arg5'', 8)],
     SYSCALL ''pread64'' 17 [(''fd'', 4), (''buf'', 8), (''count'', 8), (''pos'', 8)],
     SYSCALL ''preadv'' 295 [(''fd'', 8), (''vec'', 8), (''vlen'', 8), (''pos_l'', 8),
       (''pos_h'', 8)],
     SYSCALL ''preadv2'' 327 [(''fd'', 8), (''vec'', 8), (''vlen'', 8), (''pos_l'', 8),
       (''pos_h'', 8), (''flags'', 4)],
     SYSCALL ''prlimit64'' 302 [(''pid'', 4), (''resource'', 4), (''new_rlim'', 8),
       (''old_rlim'', 8)],
     SYSCALL ''process_vm_readv'' 310 [(''pid'', 4), (''lvec'', 8), (''liovcnt'', 8), (''rvec'',
       8), (''riovcnt'', 8), (''flags'', 8)],
     SYSCALL ''process_vm_writev'' 311 [(''pid'', 4), (''lvec'', 8), (''liovcnt'', 8), (''rvec'',
       8), (''riovcnt'', 8), (''flags'', 8)],
     SYSCALL ''pselect6'' 270 [(''n'', 4), (''inp'', 8), (''outp'', 8), (''exp'', 8), (''tsp'',
       8), (''sig'', 8)],
     SYSCALL ''ptrace'' 101 [(''request'', 8), (''pid'', 8), (''addr'', 8), (''data'', 8)],
     SYSCALL ''putpmsg'' 182 [],
     SYSCALL ''pwrite64'' 18 [(''fd'', 4), (''buf'', 8), (''count'', 8), (''pos'', 8)],
     SYSCALL ''pwritev'' 296 [(''fd'', 8), (''vec'', 8), (''vlen'', 8), (''pos_l'', 8),
       (''pos_h'', 8)],
     SYSCALL ''pwritev2'' 328 [(''fd'', 8), (''vec'', 8), (''vlen'', 8), (''pos_l'', 8),
       (''pos_h'', 8), (''flags'', 4)]]"

definition amd64_syscall_list_11 :: "syscall_descriptor list" where
  "amd64_syscall_list_11 = [
     SYSCALL ''query_module'' 178 [(''name'', 8), (''which'', 4), (''buf'', 8), (''bufsize'', 8),
       (''ret'', 8)],
     SYSCALL ''quotactl'' 179 [(''cmd'', 4), (''special'', 8), (''id'', 4), (''addr'', 8)],
     SYSCALL ''read'' 0 [(''fd'', 4), (''buf'', 8), (''count'', 8)],
     SYSCALL ''readahead'' 187 [(''fd'', 4), (''offset'', 8), (''count'', 8)],
     SYSCALL ''readlink'' 89 [(''path'', 8), (''buf'', 8), (''bufsiz'', 4)],
     SYSCALL ''readlinkat'' 267 [(''dfd'', 4), (''pathname'', 8), (''buf'', 8), (''bufsiz'', 4)],
     SYSCALL ''readv'' 19 [(''fd'', 8), (''vec'', 8), (''vlen'', 8)],
     SYSCALL ''reboot'' 169 [(''magic1'', 4), (''magic2'', 4), (''cmd'', 4), (''arg'', 8)],
     SYSCALL ''recvfrom'' 45 [(''fd'', 4), (''ubuf'', 8), (''size'', 8), (''flags'', 4),
       (''addr'', 8), (''addr_len'', 8)],
     SYSCALL ''recvmmsg'' 299 [(''fd'', 4), (''mmsg'', 8), (''vlen'', 4), (''flags'', 4),
       (''timeout'', 8)],
     SYSCALL ''recvmsg'' 47 [(''fd'', 4), (''msg'', 8), (''flags'', 4)],
     SYSCALL ''remap_file_pages'' 216 [(''start'', 8), (''size'', 8), (''prot'', 8), (''pgoff'',
       8), (''flags'', 8)],
     SYSCALL ''removexattr'' 197 [(''pathname'', 8), (''name'', 8)],
     SYSCALL ''rename'' 82 [(''oldname'', 8), (''newname'', 8)],
     SYSCALL ''renameat'' 264 [(''olddfd'', 4), (''oldname'', 8), (''newdfd'', 4), (''newname'',
       8)],
     SYSCALL ''renameat2'' 316 [(''olddfd'', 4), (''oldname'', 8), (''newdfd'', 4), (''newname'',
       8), (''flags'', 4)],
     SYSCALL ''request_key'' 249 [(''_type'', 8), (''_description'', 8), (''_callout_info'', 8),
       (''destringid'', 4)]]"

definition amd64_syscall_list_12 :: "syscall_descriptor list" where
  "amd64_syscall_list_12 = [
     SYSCALL ''restart_syscall'' 219 [],
     SYSCALL ''rmdir'' 84 [(''pathname'', 8)],
     SYSCALL ''rt_sigaction'' 13 [(''sig'', 4), (''act'', 8), (''oact'', 8), (''sigsetsize'',
       8)],
     SYSCALL ''rt_sigpending'' 127 [(''uset'', 8), (''sigsetsize'', 8)],
     SYSCALL ''rt_sigprocmask'' 14 [(''how'', 4), (''nset'', 8), (''oset'', 8), (''sigsetsize'',
       8)],
     SYSCALL ''rt_sigqueueinfo'' 129 [(''pid'', 4), (''sig'', 4), (''uinfo'', 8)],
     SYSCALL ''rt_sigreturn'' 15 [],
     SYSCALL ''rt_sigsuspend'' 130 [(''unewset'', 8), (''sigsetsize'', 8)],
     SYSCALL ''rt_sigtimedwait'' 128 [(''uthese'', 8), (''uinfo'', 8), (''uts'', 8),
       (''sigsetsize'', 8)],
     SYSCALL ''rt_tgsigqueueinfo'' 297 [(''tgid'', 4), (''pid'', 4), (''sig'', 4), (''uinfo'',
       8)],
     SYSCALL ''sched_getaffinity'' 204 [(''pid'', 4), (''len'', 4), (''user_mask_ptr'', 8)],
     SYSCALL ''sched_getattr'' 315 [(''pid'', 4), (''uattr'', 8), (''size'', 4), (''flags'', 4)],
     SYSCALL ''sched_getparam'' 143 [(''pid'', 4), (''param'', 8)],
     SYSCALL ''sched_get_priority_max'' 146 [(''policy'', 4)],
     SYSCALL ''sched_get_priority_min'' 147 [(''policy'', 4)],
     SYSCALL ''sched_getscheduler'' 145 [(''pid'', 4)],
     SYSCALL ''sched_rr_get_interval'' 148 [(''pid'', 4), (''interval'', 8)],
     SYSCALL ''sched_setaffinity'' 203 [(''pid'', 4), (''len'', 4), (''user_mask_ptr'', 8)],
     SYSCALL ''sched_setattr'' 314 [(''pid'', 4), (''uattr'', 8), (''flags'', 4)],
     SYSCALL ''sched_setparam'' 142 [(''pid'', 4), (''param'', 8)],
     SYSCALL ''sched_setscheduler'' 144 [(''pid'', 4), (''policy'', 4), (''param'', 8)],
     SYSCALL ''sched_yield'' 24 []]"

definition amd64_syscall_list_13 :: "syscall_descriptor list" where
  "amd64_syscall_list_13 = [
     SYSCALL ''seccomp'' 317 [(''op'', 4), (''flags'', 4), (''uargs'', 8)],
     SYSCALL ''security'' 185 [],
     SYSCALL ''select'' 23 [(''n'', 4), (''inp'', 8), (''outp'', 8), (''exp'', 8), (''tvp'', 8)],
     SYSCALL ''semctl'' 66 [(''semid'', 4), (''semnum'', 4), (''cmd'', 4), (''arg'', 8)],
     SYSCALL ''semget'' 64 [(''key'', 4), (''nsems'', 4), (''semflg'', 4)],
     SYSCALL ''semop'' 65 [(''semid'', 4), (''tsops'', 8), (''nsops'', 4)],
     SYSCALL ''semtimedop'' 220 [(''semid'', 4), (''tsops'', 8), (''nsops'', 4), (''timeout'',
       8)],
     SYSCALL ''sendfile64'' 40 [(''out_fd'', 4), (''in_fd'', 4), (''offset'', 8), (''count'',
       8)],
     SYSCALL ''sendmmsg'' 307 [(''fd'', 4), (''mmsg'', 8), (''vlen'', 4), (''flags'', 4)],
     SYSCALL ''sendmsg'' 46 [(''fd'', 4), (''msg'', 8), (''flags'', 4)],
     SYSCALL ''sendto'' 44 [(''fd'', 4), (''buff'', 8), (''len'', 8), (''flags'', 4), (''addr'',
       8), (''addr_len'', 4)],
     SYSCALL ''setdomainname'' 171 [(''name'', 8), (''len'', 4)],
     SYSCALL ''setfsgid'' 123 [(''gid'', 4)],
     SYSCALL ''setfsuid'' 122 [(''uid'', 4)],
     SYSCALL ''setgid'' 106 [(''gid'', 4)],
     SYSCALL ''setgroups'' 116 [(''gidsetsize'', 4), (''grouplist'', 8)],
     SYSCALL ''sethostname'' 170 [(''name'', 8), (''len'', 4)],
     SYSCALL ''setitimer'' 38 [(''which'', 4), (''value'', 8), (''ovalue'', 8)],
     SYSCALL ''set_mempolicy'' 238 [(''mode'', 4), (''nmask'', 8), (''maxnode'', 8)]]"

definition amd64_syscall_list_14 :: "syscall_descriptor list" where
  "amd64_syscall_list_14 = [
     SYSCALL ''setns'' 308 [(''fd'', 4), (''nstype'', 4)],
     SYSCALL ''setpgid'' 109 [(''pid'', 4), (''pgid'', 4)],
     SYSCALL ''setpriority'' 141 [(''which'', 4), (''who'', 4), (''niceval'', 4)],
     SYSCALL ''setregid'' 114 [(''rgid'', 4), (''egid'', 4)],
     SYSCALL ''setresgid'' 119 [(''rgid'', 4), (''egid'', 4), (''sgid'', 4)],
     SYSCALL ''setresuid'' 117 [(''ruid'', 4), (''euid'', 4), (''suid'', 4)],
     SYSCALL ''setreuid'' 113 [(''ruid'', 4), (''euid'', 4)],
     SYSCALL ''setrlimit'' 160 [(''resource'', 4), (''rlim'', 8)],
     SYSCALL ''set_robust_list'' 273 [(''head'', 8), (''len'', 8)],
     SYSCALL ''setsid'' 112 [],
     SYSCALL ''setsockopt'' 54 [(''fd'', 4), (''level'', 4), (''optname'', 4), (''optval'', 8),
       (''optlen'', 4)],
     SYSCALL ''set_thread_area'' 205 [(''u_info'', 8)],
     SYSCALL ''set_tid_address'' 218 [(''tidptr'', 8)],
     SYSCALL ''settimeofday'' 164 [(''tv'', 8), (''tz'', 8)],
     SYSCALL ''setuid'' 105 [(''uid'', 4)],
     SYSCALL ''setxattr'' 188 [(''pathname'', 8), (''name'', 8), (''value'', 8), (''size'', 8),
       (''flags'', 4)],
     SYSCALL ''shmat'' 30 [(''shmid'', 4), (''shmaddr'', 8), (''shmflg'', 4)],
     SYSCALL ''shmctl'' 31 [(''shmid'', 4), (''cmd'', 4), (''buf'', 8)],
     SYSCALL ''shmdt'' 67 [(''shmaddr'', 8)],
     SYSCALL ''shmget'' 29 [(''key'', 4), (''size'', 8), (''shmflg'', 4)],
     SYSCALL ''shutdown'' 48 [(''fd'', 4), (''how'', 4)]]"

definition amd64_syscall_list_15 :: "syscall_descriptor list" where
  "amd64_syscall_list_15 = [
     SYSCALL ''sigaltstack'' 131 [(''uss'', 8), (''uoss'', 8)],
     SYSCALL ''signalfd'' 282 [(''ufd'', 4), (''user_mask'', 8), (''sizemask'', 8)],
     SYSCALL ''signalfd4'' 289 [(''ufd'', 4), (''user_mask'', 8), (''sizemask'', 8), (''flags'',
       4)],
     SYSCALL ''socket'' 41 [(''family'', 4), (''type'', 4), (''protocol'', 4)],
     SYSCALL ''socketpair'' 53 [(''family'', 4), (''type'', 4), (''protocol'', 4), (''usockvec'',
       8)],
     SYSCALL ''splice'' 275 [(''fd_in'', 4), (''off_in'', 8), (''fd_out'', 4), (''off_out'', 8),
       (''len'', 8), (''flags'', 4)],
     SYSCALL ''statfs'' 137 [(''pathname'', 8), (''buf'', 8)],
     SYSCALL ''swapoff'' 168 [(''specialfile'', 8)],
     SYSCALL ''swapon'' 167 [(''specialfile'', 8), (''swap_flags'', 4)],
     SYSCALL ''symlink'' 88 [(''oldname'', 8), (''newname'', 8)],
     SYSCALL ''symlinkat'' 266 [(''oldname'', 8), (''newdfd'', 4), (''newname'', 8)],
     SYSCALL ''sync'' 162 [],
     SYSCALL ''sync_file_range'' 277 [(''fd'', 4), (''offset'', 8), (''nbytes'', 8), (''flags'',
       4)],
     SYSCALL ''syncfs'' 306 [(''fd'', 4)],
     SYSCALL ''sysctl'' 156 [(''args'', 8)],
     SYSCALL ''sysfs'' 139 [(''option'', 4), (''arg1'', 8), (''arg2'', 8)],
     SYSCALL ''sysinfo'' 99 [(''info'', 8)],
     SYSCALL ''syslog'' 103 [(''type'', 4), (''buf'', 8), (''len'', 4)],
     SYSCALL ''tee'' 276 [(''fdin'', 4), (''fdout'', 4), (''len'', 8), (''flags'', 4)],
     SYSCALL ''tgkill'' 234 [(''tgid'', 4), (''pid'', 4), (''sig'', 4)]]"

definition amd64_syscall_list_16 :: "syscall_descriptor list" where
  "amd64_syscall_list_16 = [
     SYSCALL ''time'' 201 [(''tloc'', 8)],
     SYSCALL ''timer_create'' 222 [(''which_clock'', 4), (''timer_event_spec'', 8),
       (''created_timer_id'', 8)],
     SYSCALL ''timer_delete'' 226 [(''timer_id'', 4)],
     SYSCALL ''timerfd_create'' 283 [(''clockid'', 4), (''flags'', 4)],
     SYSCALL ''timerfd_gettime'' 287 [(''ufd'', 4), (''otmr'', 8)],
     SYSCALL ''timerfd_settime'' 286 [(''ufd'', 4), (''flags'', 4), (''utmr'', 8), (''otmr'',
       8)],
     SYSCALL ''timer_getoverrun'' 225 [(''timer_id'', 4)],
     SYSCALL ''timer_gettime'' 224 [(''timer_id'', 4), (''setting'', 8)],
     SYSCALL ''timer_settime'' 223 [(''timer_id'', 4), (''flags'', 4), (''new_setting'', 8),
       (''old_setting'', 8)],
     SYSCALL ''times'' 100 [(''tbuf'', 8)],
     SYSCALL ''tkill'' 200 [(''pid'', 4), (''sig'', 4)],
     SYSCALL ''truncate'' 76 [(''path'', 8), (''length'', 8)],
     SYSCALL ''tuxcall'' 184 [],
     SYSCALL ''umask'' 95 [(''mask'', 4)],
     SYSCALL ''umount'' 166 [(''name'', 8), (''flags'', 4)],
     SYSCALL ''unlink'' 87 [(''pathname'', 8)],
     SYSCALL ''unlinkat'' 263 [(''dfd'', 4), (''pathname'', 8), (''flag'', 4)],
     SYSCALL ''unshare'' 272 [(''unshare_flags'', 8)],
     SYSCALL ''uselib'' 134 [(''library'', 8)],
     SYSCALL ''userfaultfd'' 323 [(''flags'', 4)],
     SYSCALL ''ustat'' 136 [(''dev'', 4), (''ubuf'', 8)],
     SYSCALL ''utime'' 132 [(''filename'', 8), (''times'', 8)]]"

definition amd64_syscall_list_17 :: "syscall_descriptor list" where
  "amd64_syscall_list_17 = [
     SYSCALL ''utimensat'' 280 [(''dfd'', 4), (''filename'', 8), (''utimes'', 8), (''flags'',
       4)],
     SYSCALL ''utimes'' 235 [(''filename'', 8), (''utimes'', 8)],
     SYSCALL ''vfork'' 58 [],
     SYSCALL ''vhangup'' 153 [],
     SYSCALL ''vmsplice'' 278 [(''fd'', 4), (''iov'', 8), (''nr_segs'', 8), (''flags'', 4)],
     SYSCALL ''vserver'' 236 [],
     SYSCALL ''wait4'' 61 [(''upid'', 4), (''stat_addr'', 8), (''options'', 4), (''ru'', 8)],
     SYSCALL ''waitid'' 247 [(''which'', 4), (''upid'', 4), (''infop'', 8), (''options'', 4),
       (''ru'', 8)],
     SYSCALL ''write'' 1 [(''fd'', 4), (''buf'', 8), (''count'', 8)],
     SYSCALL ''writev'' 20 [(''fd'', 8), (''vec'', 8), (''vlen'', 8)]]"

definition amd64_syscall_list :: "syscall_descriptor list" where
  "amd64_syscall_list = concat [
     amd64_syscall_list_1,
     amd64_syscall_list_2,
     amd64_syscall_list_3,
     amd64_syscall_list_4,
     amd64_syscall_list_5,
     amd64_syscall_list_6,
     amd64_syscall_list_7,
     amd64_syscall_list_8,
     amd64_syscall_list_9,
     amd64_syscall_list_10,
     amd64_syscall_list_11,
     amd64_syscall_list_12,
     amd64_syscall_list_13,
     amd64_syscall_list_14,
     amd64_syscall_list_15,
     amd64_syscall_list_16,
     amd64_syscall_list_17]"

lemmas amd64_syscall_defs =
  amd64_syscall_list_def
  amd64_syscall_list_1_def
  amd64_syscall_list_2_def
  amd64_syscall_list_3_def
  amd64_syscall_list_4_def
  amd64_syscall_list_5_def
  amd64_syscall_list_6_def
  amd64_syscall_list_7_def
  amd64_syscall_list_8_def
  amd64_syscall_list_9_def
  amd64_syscall_list_10_def
  amd64_syscall_list_11_def
  amd64_syscall_list_12_def
  amd64_syscall_list_13_def
  amd64_syscall_list_14_def
  amd64_syscall_list_15_def
  amd64_syscall_list_16_def
  amd64_syscall_list_17_def

end
