(* ===== verification/Syscalls_Mipso32.thy ===== *)
theory Syscalls_Mipso32
  imports Kafel_Syscall
begin

text \<open>
  The system calls of one architecture, \<open>mipso32_syscall_list\<close> of
  \<open>kafel/src/syscalls/mipso32_syscalls.c\<close>, cut into stretches of the source file. The arguments are
  written in the order of their designators \<open>ARG_0\<close>, \<open>ARG_1\<close>, \<open>...\<close>, which are consecutive in
  every entry.
\<close>

definition mipso32_syscall_list_1 :: "syscall_descriptor list" where
  "mipso32_syscall_list_1 = [
     SYSCALL ''accept'' 4168 [(''fd'', 4), (''upeer_sockaddr'', 4), (''upeer_addrlen'', 4)],
     SYSCALL ''accept4'' 4334 [(''fd'', 4), (''upeer_sockaddr'', 4), (''upeer_addrlen'', 4),
       (''flags'', 4)],
     SYSCALL ''access'' 4033 [(''filename'', 4), (''mode'', 4)],
     SYSCALL ''acct'' 4051 [(''name'', 4)],
     SYSCALL ''add_key'' 4280 [(''_type'', 4), (''_description'', 4), (''_payload'', 4),
       (''plen'', 4), (''ringid'', 4)],
     SYSCALL ''adjtimex'' 4124 [(''txc_p'', 4)],
     SYSCALL ''alarm'' 4027 [(''seconds'', 4)],
     SYSCALL ''bdflush'' 4134 [(''func'', 4), (''data'', 4)],
     SYSCALL ''bind'' 4169 [(''fd'', 4), (''umyaddr'', 4), (''addrlen'', 4)],
     SYSCALL ''bpf'' 4355 [(''cmd'', 4), (''uattr'', 4), (''size'', 4)],
     SYSCALL ''breakpoint'' 983041 [],
     SYSCALL ''brk'' 4045 [(''brk'', 4)],
     SYSCALL ''cacheflush'' 4147 [(''vaddr_from'', 4), (''vaddr_to'', 4), (''flags'', 4)],
     SYSCALL ''capget'' 4204 [(''header'', 4), (''dataptr'', 4)],
     SYSCALL ''capset'' 4205 [(''header'', 4), (''data'', 4)],
     SYSCALL ''chdir'' 4012 [(''filename'', 4)],
     SYSCALL ''chmod'' 4015 [(''filename'', 4), (''mode'', 2)],
     SYSCALL ''chown'' 4202 [(''filename'', 4), (''user'', 4), (''group'', 4)],
     SYSCALL ''chroot'' 4061 [(''filename'', 4)]]"

definition mipso32_syscall_list_2 :: "syscall_descriptor list" where
  "mipso32_syscall_list_2 = [
     SYSCALL ''clock_adjtime'' 4341 [(''which_clock'', 4), (''utx'', 4)],
     SYSCALL ''clock_getres'' 4264 [(''which_clock'', 4), (''tp'', 4)],
     SYSCALL ''clock_gettime'' 4263 [(''which_clock'', 4), (''tp'', 4)],
     SYSCALL ''clock_nanosleep'' 4265 [(''which_clock'', 4), (''flags'', 4), (''rqtp'', 4),
       (''rmtp'', 4)],
     SYSCALL ''clock_settime'' 4262 [(''which_clock'', 4), (''tp'', 4)],
     SYSCALL ''clone'' 4120 [(''clone_flags'', 4), (''newsp'', 4), (''parent_tidptr'', 4),
       (''tls'', 4), (''child_tidptr'', 4)],
     SYSCALL ''close'' 4006 [(''fd'', 4)],
     SYSCALL ''connect'' 4170 [(''fd'', 4), (''uservaddr'', 4), (''addrlen'', 4)],
     SYSCALL ''copy_file_range'' 4360 [(''fd_in'', 4), (''off_in'', 4), (''fd_out'', 4),
       (''off_out'', 4), (''len'', 4), (''flags'', 4)],
     SYSCALL ''creat'' 4008 [(''pathname'', 4), (''mode'', 2)],
     SYSCALL ''delete_module'' 4129 [(''name_user'', 4), (''flags'', 4)],
     SYSCALL ''dup'' 4041 [(''fildes'', 4)],
     SYSCALL ''dup2'' 4063 [(''oldfd'', 4), (''newfd'', 4)],
     SYSCALL ''dup3'' 4327 [(''oldfd'', 4), (''newfd'', 4), (''flags'', 4)],
     SYSCALL ''epoll_create'' 4248 [(''size'', 4)],
     SYSCALL ''epoll_create1'' 4326 [(''flags'', 4)],
     SYSCALL ''epoll_ctl'' 4249 [(''epfd'', 4), (''op'', 4), (''fd'', 4), (''event'', 4)],
     SYSCALL ''epoll_pwait'' 4313 [(''epfd'', 4), (''events'', 4), (''maxevents'', 4),
       (''timeout'', 4), (''sigmask'', 4), (''sigsetsize'', 4)],
     SYSCALL ''epoll_wait'' 4250 [(''epfd'', 4), (''events'', 4), (''maxevents'', 4),
       (''timeout'', 4)]]"

definition mipso32_syscall_list_3 :: "syscall_descriptor list" where
  "mipso32_syscall_list_3 = [
     SYSCALL ''eventfd'' 4319 [(''count'', 4)],
     SYSCALL ''eventfd2'' 4325 [(''count'', 4), (''flags'', 4)],
     SYSCALL ''execve'' 4011 [(''filename'', 4), (''argv'', 4), (''envp'', 4)],
     SYSCALL ''execveat'' 4356 [(''fd'', 4), (''filename'', 4), (''argv'', 4), (''envp'', 4),
       (''flags'', 4)],
     SYSCALL ''exit'' 4001 [(''error_code'', 4)],
     SYSCALL ''exit_group'' 4246 [(''error_code'', 4)],
     SYSCALL ''faccessat'' 4300 [(''dfd'', 4), (''filename'', 4), (''mode'', 4)],
     SYSCALL ''fallocate'' 4320 [(''fd'', 4), (''mode'', 4), (''offset'', 8), (''len'', 8)],
     SYSCALL ''fanotify_init'' 4336 [(''flags'', 4), (''event_f_flags'', 4)],
     SYSCALL ''fanotify_mark'' 4337 [(''fanotify_fd'', 4), (''flags'', 4), (''mask'', 8),
       (''dfd'', 4), (''pathname'', 4)],
     SYSCALL ''fchdir'' 4133 [(''fd'', 4)],
     SYSCALL ''fchmod'' 4094 [(''fd'', 4), (''mode'', 2)],
     SYSCALL ''fchmodat'' 4299 [(''dfd'', 4), (''filename'', 4), (''mode'', 2)],
     SYSCALL ''fchown'' 4095 [(''fd'', 4), (''user'', 4), (''group'', 4)],
     SYSCALL ''fchownat'' 4291 [(''dfd'', 4), (''filename'', 4), (''user'', 4), (''group'', 4),
       (''flag'', 4)],
     SYSCALL ''fcntl'' 4055 [(''fd'', 4), (''cmd'', 4), (''arg'', 4)],
     SYSCALL ''fcntl64'' 4220 [(''fd'', 4), (''cmd'', 4), (''arg'', 4)],
     SYSCALL ''fdatasync'' 4152 [(''fd'', 4)]]"

definition mipso32_syscall_list_4 :: "syscall_descriptor list" where
  "mipso32_syscall_list_4 = [
     SYSCALL ''fgetxattr'' 4229 [(''fd'', 4), (''name'', 4), (''value'', 4), (''size'', 4)],
     SYSCALL ''finit_module'' 4348 [(''fd'', 4), (''uargs'', 4), (''flags'', 4)],
     SYSCALL ''flistxattr'' 4232 [(''fd'', 4), (''list'', 4), (''size'', 4)],
     SYSCALL ''flock'' 4143 [(''fd'', 4), (''cmd'', 4)],
     SYSCALL ''fork'' 2 [],
     SYSCALL ''fremovexattr'' 4235 [(''fd'', 4), (''name'', 4)],
     SYSCALL ''fsetxattr'' 4226 [(''fd'', 4), (''name'', 4), (''value'', 4), (''size'', 4),
       (''flags'', 4)],
     SYSCALL ''fstat64'' 4215 [(''fd'', 4), (''statbuf'', 4)],
     SYSCALL ''fstatat64'' 4293 [(''dfd'', 4), (''filename'', 4), (''statbuf'', 4), (''flag'',
       4)],
     SYSCALL ''fstatfs'' 4100 [(''fd'', 4), (''buf'', 4)],
     SYSCALL ''fstatfs64'' 4256 [(''fd'', 4), (''sz'', 4), (''buf'', 4)],
     SYSCALL ''fsync'' 4118 [(''fd'', 4)],
     SYSCALL ''ftruncate'' 4093 [(''fd'', 4), (''length'', 4)],
     SYSCALL ''ftruncate64'' 4212 [(''fd'', 4), (''length'', 8)],
     SYSCALL ''futex'' 4238 [(''uaddr'', 4), (''op'', 4), (''val'', 4), (''utime'', 4),
       (''uaddr2'', 4), (''val3'', 4)],
     SYSCALL ''futimesat'' 4292 [(''dfd'', 4), (''filename'', 4), (''utimes'', 4)],
     SYSCALL ''getcpu'' 4312 [(''cpup'', 4), (''nodep'', 4), (''unused'', 4)],
     SYSCALL ''getcwd'' 4203 [(''buf'', 4), (''size'', 4)],
     SYSCALL ''getdents'' 4141 [(''fd'', 4), (''dirent'', 4), (''count'', 4)]]"

definition mipso32_syscall_list_5 :: "syscall_descriptor list" where
  "mipso32_syscall_list_5 = [
     SYSCALL ''getdents64'' 4219 [(''fd'', 4), (''dirent'', 4), (''count'', 4)],
     SYSCALL ''getegid'' 202 [],
     SYSCALL ''getegid16'' 50 [],
     SYSCALL ''geteuid'' 201 [],
     SYSCALL ''geteuid16'' 49 [],
     SYSCALL ''getgid'' 200 [],
     SYSCALL ''getgid16'' 47 [],
     SYSCALL ''getgroups'' 4080 [(''gidsetsize'', 4), (''grouplist'', 4)],
     SYSCALL ''getitimer'' 4105 [(''which'', 4), (''value'', 4)],
     SYSCALL ''get_mempolicy'' 4269 [(''policy'', 4), (''nmask'', 4), (''maxnode'', 4),
       (''addr'', 4), (''flags'', 4)],
     SYSCALL ''getpeername'' 4171 [(''fd'', 4), (''usockaddr'', 4), (''usockaddr_len'', 4)],
     SYSCALL ''getpgid'' 4132 [(''pid'', 4)],
     SYSCALL ''getpgrp'' 65 [],
     SYSCALL ''getpid'' 20 [],
     SYSCALL ''getppid'' 64 [],
     SYSCALL ''getpriority'' 4096 [(''which'', 4), (''who'', 4)],
     SYSCALL ''getrandom'' 4353 [(''buf'', 4), (''count'', 4), (''flags'', 4)],
     SYSCALL ''getresgid'' 4191 [(''rgidp'', 4), (''egidp'', 4), (''sgidp'', 4)],
     SYSCALL ''getresuid'' 4186 [(''ruidp'', 4), (''euidp'', 4), (''suidp'', 4)],
     SYSCALL ''getrlimit'' 4076 [(''resource'', 4), (''rlim'', 4)],
     SYSCALL ''get_robust_list'' 4310 [(''pid'', 4), (''head_ptr'', 4), (''len_ptr'', 4)],
     SYSCALL ''getrusage'' 4077 [(''who'', 4), (''ru'', 4)],
     SYSCALL ''getsid'' 4151 [(''pid'', 4)],
     SYSCALL ''getsockname'' 4172 [(''fd'', 4), (''usockaddr'', 4), (''usockaddr_len'', 4)]]"

definition mipso32_syscall_list_6 :: "syscall_descriptor list" where
  "mipso32_syscall_list_6 = [
     SYSCALL ''getsockopt'' 4173 [(''fd'', 4), (''level'', 4), (''optname'', 4), (''optval'', 4),
       (''optlen'', 4)],
     SYSCALL ''gettid'' 224 [],
     SYSCALL ''gettimeofday'' 4078 [(''tv'', 4), (''tz'', 4)],
     SYSCALL ''getuid'' 199 [],
     SYSCALL ''getuid16'' 24 [],
     SYSCALL ''getxattr'' 4227 [(''pathname'', 4), (''name'', 4), (''value'', 4), (''size'', 4)],
     SYSCALL ''init_module'' 4128 [(''umod'', 4), (''len'', 4), (''uargs'', 4)],
     SYSCALL ''inotify_add_watch'' 4285 [(''fd'', 4), (''pathname'', 4), (''mask'', 4)],
     SYSCALL ''inotify_init'' 316 [],
     SYSCALL ''inotify_init1'' 4329 [(''flags'', 4)],
     SYSCALL ''inotify_rm_watch'' 4286 [(''fd'', 4), (''wd'', 4)],
     SYSCALL ''io_cancel'' 4245 [(''ctx_id'', 4), (''iocb'', 4), (''result'', 4)],
     SYSCALL ''ioctl'' 4054 [(''fd'', 4), (''cmd'', 4), (''arg'', 4)],
     SYSCALL ''io_destroy'' 4242 [(''ctx'', 4)],
     SYSCALL ''io_getevents'' 4243 [(''ctx_id'', 4), (''min_nr'', 4), (''nr'', 4), (''events'',
       4), (''timeout'', 4)],
     SYSCALL ''ioprio_get'' 4315 [(''which'', 4), (''who'', 4)],
     SYSCALL ''ioprio_set'' 4314 [(''which'', 4), (''who'', 4), (''ioprio'', 4)],
     SYSCALL ''io_setup'' 4241 [(''nr_events'', 4), (''ctxp'', 4)],
     SYSCALL ''io_submit'' 4244 [(''ctx_id'', 4), (''nr'', 4), (''iocbpp'', 4)],
     SYSCALL ''ipc'' 4117 [(''call'', 4), (''first'', 4), (''second'', 4), (''third'', 4),
       (''ptr'', 4), (''fifth'', 4)],
     SYSCALL ''kcmp'' 4347 [(''pid1'', 4), (''pid2'', 4), (''type'', 4), (''idx1'', 4),
       (''idx2'', 4)]]"

definition mipso32_syscall_list_7 :: "syscall_descriptor list" where
  "mipso32_syscall_list_7 = [
     SYSCALL ''kexec_load'' 4311 [(''entry'', 4), (''nr_segments'', 4), (''segments'', 4),
       (''flags'', 4)],
     SYSCALL ''keyctl'' 4282 [(''option'', 4), (''arg2'', 4), (''arg3'', 4), (''arg4'', 4),
       (''arg5'', 4)],
     SYSCALL ''kill'' 4037 [(''pid'', 4), (''sig'', 4)],
     SYSCALL ''lchown'' 4016 [(''filename'', 4), (''user'', 4), (''group'', 4)],
     SYSCALL ''lgetxattr'' 4228 [(''pathname'', 4), (''name'', 4), (''value'', 4), (''size'',
       4)],
     SYSCALL ''link'' 4009 [(''oldname'', 4), (''newname'', 4)],
     SYSCALL ''linkat'' 4296 [(''olddfd'', 4), (''oldname'', 4), (''newdfd'', 4), (''newname'',
       4), (''flags'', 4)],
     SYSCALL ''listen'' 4174 [(''fd'', 4), (''backlog'', 4)],
     SYSCALL ''listxattr'' 4230 [(''pathname'', 4), (''list'', 4), (''size'', 4)],
     SYSCALL ''llistxattr'' 4231 [(''pathname'', 4), (''list'', 4), (''size'', 4)],
     SYSCALL ''lookup_dcookie'' 4247 [(''cookie64'', 8), (''buf'', 4), (''len'', 4)],
     SYSCALL ''lremovexattr'' 4234 [(''pathname'', 4), (''name'', 4)],
     SYSCALL ''lseek'' 4019 [(''fd'', 4), (''offset'', 4), (''whence'', 4)],
     SYSCALL ''lsetxattr'' 4225 [(''pathname'', 4), (''name'', 4), (''value'', 4), (''size'', 4),
       (''flags'', 4)],
     SYSCALL ''lstat64'' 4214 [(''filename'', 4), (''statbuf'', 4)],
     SYSCALL ''madvise'' 4218 [(''start'', 4), (''len_in'', 4), (''behavior'', 4)]]"

definition mipso32_syscall_list_8 :: "syscall_descriptor list" where
  "mipso32_syscall_list_8 = [
     SYSCALL ''mbind'' 4268 [(''start'', 4), (''len'', 4), (''mode'', 4), (''nmask'', 4),
       (''maxnode'', 4), (''flags'', 4)],
     SYSCALL ''membarrier'' 4358 [(''cmd'', 4), (''flags'', 4)],
     SYSCALL ''memfd_create'' 4354 [(''uname'', 4), (''flags'', 4)],
     SYSCALL ''mincore'' 4217 [(''start'', 4), (''len'', 4), (''vec'', 4)],
     SYSCALL ''mkdir'' 4039 [(''pathname'', 4), (''mode'', 2)],
     SYSCALL ''mkdirat'' 4289 [(''dfd'', 4), (''pathname'', 4), (''mode'', 2)],
     SYSCALL ''mknod'' 4014 [(''filename'', 4), (''mode'', 2), (''dev'', 4)],
     SYSCALL ''mknodat'' 4290 [(''dfd'', 4), (''filename'', 4), (''mode'', 2), (''dev'', 4)],
     SYSCALL ''mlock'' 4154 [(''start'', 4), (''len'', 4)],
     SYSCALL ''mlock2'' 4359 [(''start'', 4), (''len'', 4), (''flags'', 4)],
     SYSCALL ''mlockall'' 4156 [(''flags'', 4)],
     SYSCALL ''mmap'' 4090 [(''addr'', 4), (''len'', 4), (''prot'', 4), (''flags'', 4), (''fd'',
       4), (''offset'', 4)],
     SYSCALL ''mmap2'' 4210 [(''addr'', 4), (''len'', 4), (''prot'', 4), (''flags'', 4), (''fd'',
       4), (''pgoffset'', 4)],
     SYSCALL ''mount'' 4021 [(''dev_name'', 4), (''dir_name'', 4), (''type'', 4), (''flags'', 4),
       (''data'', 4)],
     SYSCALL ''move_pages'' 4308 [(''pid'', 4), (''nr_pages'', 4), (''pages'', 4), (''nodes'',
       4), (''status'', 4), (''flag'', 4)],
     SYSCALL ''mprotect'' 4125 [(''start'', 4), (''len'', 4), (''prot'', 4)],
     SYSCALL ''mq_getsetattr'' 4276 [(''mqdes'', 4), (''u_mqstat'', 4), (''u_omqstat'', 4)]]"

definition mipso32_syscall_list_9 :: "syscall_descriptor list" where
  "mipso32_syscall_list_9 = [
     SYSCALL ''mq_notify'' 4275 [(''mqdes'', 4), (''u_notification'', 4)],
     SYSCALL ''mq_open'' 4271 [(''u_name'', 4), (''oflag'', 4), (''mode'', 2), (''u_attr'', 4)],
     SYSCALL ''mq_timedreceive'' 4274 [(''mqdes'', 4), (''u_msg_ptr'', 4), (''msg_len'', 4),
       (''u_msg_prio'', 4), (''u_abs_timeout'', 4)],
     SYSCALL ''mq_timedsend'' 4273 [(''mqdes'', 4), (''u_msg_ptr'', 4), (''msg_len'', 4),
       (''msg_prio'', 4), (''u_abs_timeout'', 4)],
     SYSCALL ''mq_unlink'' 4272 [(''u_name'', 4)],
     SYSCALL ''mremap'' 4167 [(''addr'', 4), (''old_len'', 4), (''new_len'', 4), (''flags'', 4),
       (''new_addr'', 4)],
     SYSCALL ''msync'' 4144 [(''start'', 4), (''len'', 4), (''flags'', 4)],
     SYSCALL ''munlock'' 4155 [(''start'', 4), (''len'', 4)],
     SYSCALL ''munlockall'' 153 [],
     SYSCALL ''munmap'' 4091 [(''addr'', 4), (''len'', 4)],
     SYSCALL ''name_to_handle_at'' 4339 [(''dfd'', 4), (''name'', 4), (''handle'', 4),
       (''mnt_id'', 4), (''flag'', 4)],
     SYSCALL ''nanosleep'' 4166 [(''rqtp'', 4), (''rmtp'', 4)]]"

definition mipso32_syscall_list_10 :: "syscall_descriptor list" where
  "mipso32_syscall_list_10 = [
     SYSCALL ''nfsservctl'' 4189 [(''cmd'', 4), (''argp'', 4), (''resp'', 4)],
     SYSCALL ''nice'' 4034 [(''increment'', 4)],
     SYSCALL ''open'' 4005 [(''filename'', 4), (''flags'', 4), (''mode'', 2)],
     SYSCALL ''openat'' 4288 [(''dfd'', 4), (''filename'', 4), (''flags'', 4), (''mode'', 2)],
     SYSCALL ''open_by_handle_at'' 4340 [(''mountdirfd'', 4), (''handle'', 4), (''flags'', 4)],
     SYSCALL ''pause'' 29 [],
     SYSCALL ''perf_event_open'' 4333 [(''attr_uptr'', 4), (''pid'', 4), (''cpu'', 4),
       (''group_fd'', 4), (''flags'', 4)],
     SYSCALL ''personality'' 4136 [(''personality'', 4)],
     SYSCALL ''pipe'' 4042 [(''fildes'', 4)],
     SYSCALL ''pipe2'' 4328 [(''fildes'', 4), (''flags'', 4)],
     SYSCALL ''pivot_root'' 4216 [(''new_root'', 4), (''put_old'', 4)],
     SYSCALL ''poll'' 4188 [(''ufds'', 4), (''nfds'', 4), (''timeout_msecs'', 4)],
     SYSCALL ''ppoll'' 4302 [(''ufds'', 4), (''nfds'', 4), (''tsp'', 4), (''sigmask'', 4),
       (''sigsetsize'', 4)]]"

definition mipso32_syscall_list_11 :: "syscall_descriptor list" where
  "mipso32_syscall_list_11 = [
     SYSCALL ''prctl'' 4192 [(''option'', 4), (''arg2'', 4), (''arg3'', 4), (''arg4'', 4),
       (''arg5'', 4)],
     SYSCALL ''pread64'' 4200 [(''fd'', 4), (''buf'', 4), (''count'', 4), (''pos'', 8)],
     SYSCALL ''preadv'' 4330 [(''fd'', 4), (''vec'', 4), (''vlen'', 4), (''pos_l'', 4),
       (''pos_h'', 4)],
     SYSCALL ''preadv2'' 4361 [(''fd'', 4), (''vec'', 4), (''vlen'', 4), (''pos_l'', 4),
       (''pos_h'', 4), (''flags'', 4)],
     SYSCALL ''prlimit64'' 4338 [(''pid'', 4), (''resource'', 4), (''new_rlim'', 4),
       (''old_rlim'', 4)],
     SYSCALL ''process_vm_readv'' 4345 [(''pid'', 4), (''lvec'', 4), (''liovcnt'', 4), (''rvec'',
       4), (''riovcnt'', 4), (''flags'', 4)],
     SYSCALL ''process_vm_writev'' 4346 [(''pid'', 4), (''lvec'', 4), (''liovcnt'', 4),
       (''rvec'', 4), (''riovcnt'', 4), (''flags'', 4)],
     SYSCALL ''pselect6'' 4301 [(''n'', 4), (''inp'', 4), (''outp'', 4), (''exp'', 4), (''tsp'',
       4), (''sig'', 4)],
     SYSCALL ''ptrace'' 4026 [(''request'', 4), (''pid'', 4), (''addr'', 4), (''data'', 4)],
     SYSCALL ''pwrite64'' 4201 [(''fd'', 4), (''buf'', 4), (''count'', 4), (''pos'', 8)],
     SYSCALL ''pwritev'' 4331 [(''fd'', 4), (''vec'', 4), (''vlen'', 4), (''pos_l'', 4),
       (''pos_h'', 4)],
     SYSCALL ''pwritev2'' 4362 [(''fd'', 4), (''vec'', 4), (''vlen'', 4), (''pos_l'', 4),
       (''pos_h'', 4), (''flags'', 4)],
     SYSCALL ''quotactl'' 4131 [(''cmd'', 4), (''special'', 4), (''id'', 4), (''addr'', 4)],
     SYSCALL ''read'' 4003 [(''fd'', 4), (''buf'', 4), (''count'', 4)],
     SYSCALL ''readahead'' 4223 [(''fd'', 4), (''offset'', 8), (''count'', 4)]]"

definition mipso32_syscall_list_12 :: "syscall_descriptor list" where
  "mipso32_syscall_list_12 = [
     SYSCALL ''readdir'' 4089 [(''fd'', 4), (''dirent'', 4), (''count'', 4)],
     SYSCALL ''readlink'' 4085 [(''path'', 4), (''buf'', 4), (''bufsiz'', 4)],
     SYSCALL ''readlinkat'' 4298 [(''dfd'', 4), (''pathname'', 4), (''buf'', 4), (''bufsiz'',
       4)],
     SYSCALL ''readv'' 4145 [(''fd'', 4), (''vec'', 4), (''vlen'', 4)],
     SYSCALL ''reboot'' 4088 [(''magic1'', 4), (''magic2'', 4), (''cmd'', 4), (''arg'', 4)],
     SYSCALL ''recv'' 4175 [(''fd'', 4), (''ubuf'', 4), (''size'', 4), (''flags'', 4)],
     SYSCALL ''recvfrom'' 4176 [(''fd'', 4), (''ubuf'', 4), (''size'', 4), (''flags'', 4),
       (''addr'', 4), (''addr_len'', 4)],
     SYSCALL ''recvmmsg'' 4335 [(''fd'', 4), (''mmsg'', 4), (''vlen'', 4), (''flags'', 4),
       (''timeout'', 4)],
     SYSCALL ''recvmsg'' 4177 [(''fd'', 4), (''msg'', 4), (''flags'', 4)],
     SYSCALL ''remap_file_pages'' 4251 [(''start'', 4), (''size'', 4), (''prot'', 4), (''pgoff'',
       4), (''flags'', 4)],
     SYSCALL ''removexattr'' 4233 [(''pathname'', 4), (''name'', 4)],
     SYSCALL ''rename'' 4038 [(''oldname'', 4), (''newname'', 4)],
     SYSCALL ''renameat'' 4295 [(''olddfd'', 4), (''oldname'', 4), (''newdfd'', 4), (''newname'',
       4)],
     SYSCALL ''renameat2'' 4351 [(''olddfd'', 4), (''oldname'', 4), (''newdfd'', 4),
       (''newname'', 4), (''flags'', 4)],
     SYSCALL ''request_key'' 4281 [(''_type'', 4), (''_description'', 4), (''_callout_info'', 4),
       (''destringid'', 4)],
     SYSCALL ''restart_syscall'' 0 [],
     SYSCALL ''rmdir'' 4040 [(''pathname'', 4)],
     SYSCALL ''rt_sigaction'' 4194 [(''sig'', 4), (''act'', 4), (''oact'', 4), (''sigsetsize'',
       4)]]"

definition mipso32_syscall_list_13 :: "syscall_descriptor list" where
  "mipso32_syscall_list_13 = [
     SYSCALL ''rt_sigpending'' 4196 [(''uset'', 4), (''sigsetsize'', 4)],
     SYSCALL ''rt_sigprocmask'' 4195 [(''how'', 4), (''nset'', 4), (''oset'', 4),
       (''sigsetsize'', 4)],
     SYSCALL ''rt_sigqueueinfo'' 4198 [(''pid'', 4), (''sig'', 4), (''uinfo'', 4)],
     SYSCALL ''rt_sigreturn'' 173 [],
     SYSCALL ''rt_sigsuspend'' 4199 [(''unewset'', 4), (''sigsetsize'', 4)],
     SYSCALL ''rt_sigtimedwait'' 4197 [(''uthese'', 4), (''uinfo'', 4), (''uts'', 4),
       (''sigsetsize'', 4)],
     SYSCALL ''rt_tgsigqueueinfo'' 4332 [(''tgid'', 4), (''pid'', 4), (''sig'', 4), (''uinfo'',
       4)],
     SYSCALL ''sched_getaffinity'' 4240 [(''pid'', 4), (''len'', 4), (''user_mask_ptr'', 4)],
     SYSCALL ''sched_getattr'' 4350 [(''pid'', 4), (''uattr'', 4), (''size'', 4), (''flags'',
       4)],
     SYSCALL ''sched_getparam'' 4159 [(''pid'', 4), (''param'', 4)],
     SYSCALL ''sched_get_priority_max'' 4163 [(''policy'', 4)],
     SYSCALL ''sched_get_priority_min'' 4164 [(''policy'', 4)],
     SYSCALL ''sched_getscheduler'' 4161 [(''pid'', 4)],
     SYSCALL ''sched_rr_get_interval'' 4165 [(''pid'', 4), (''interval'', 4)],
     SYSCALL ''sched_setaffinity'' 4239 [(''pid'', 4), (''len'', 4), (''user_mask_ptr'', 4)],
     SYSCALL ''sched_setattr'' 4349 [(''pid'', 4), (''uattr'', 4), (''flags'', 4)],
     SYSCALL ''sched_setparam'' 4158 [(''pid'', 4), (''param'', 4)],
     SYSCALL ''sched_setscheduler'' 4160 [(''pid'', 4), (''policy'', 4), (''param'', 4)],
     SYSCALL ''sched_yield'' 158 [],
     SYSCALL ''seccomp'' 4352 [(''op'', 4), (''flags'', 4), (''uargs'', 4)]]"

definition mipso32_syscall_list_14 :: "syscall_descriptor list" where
  "mipso32_syscall_list_14 = [
     SYSCALL ''send'' 4178 [(''fd'', 4), (''buff'', 4), (''len'', 4), (''flags'', 4)],
     SYSCALL ''sendfile'' 4207 [(''out_fd'', 4), (''in_fd'', 4), (''offset'', 4), (''count'',
       4)],
     SYSCALL ''sendfile64'' 4237 [(''out_fd'', 4), (''in_fd'', 4), (''offset'', 4), (''count'',
       4)],
     SYSCALL ''sendmmsg'' 4343 [(''fd'', 4), (''mmsg'', 4), (''vlen'', 4), (''flags'', 4)],
     SYSCALL ''sendmsg'' 4179 [(''fd'', 4), (''msg'', 4), (''flags'', 4)],
     SYSCALL ''sendto'' 4180 [(''fd'', 4), (''buff'', 4), (''len'', 4), (''flags'', 4),
       (''addr'', 4), (''addr_len'', 4)],
     SYSCALL ''setdomainname'' 4121 [(''name'', 4), (''len'', 4)],
     SYSCALL ''setfsgid'' 4139 [(''gid'', 4)],
     SYSCALL ''setfsuid'' 4138 [(''uid'', 4)],
     SYSCALL ''setgid'' 4046 [(''gid'', 4)],
     SYSCALL ''setgroups'' 4081 [(''gidsetsize'', 4), (''grouplist'', 4)],
     SYSCALL ''sethostname'' 4074 [(''name'', 4), (''len'', 4)],
     SYSCALL ''setitimer'' 4104 [(''which'', 4), (''value'', 4), (''ovalue'', 4)],
     SYSCALL ''set_mempolicy'' 4270 [(''mode'', 4), (''nmask'', 4), (''maxnode'', 4)],
     SYSCALL ''setns'' 4344 [(''fd'', 4), (''nstype'', 4)]]"

definition mipso32_syscall_list_15 :: "syscall_descriptor list" where
  "mipso32_syscall_list_15 = [
     SYSCALL ''setpgid'' 4057 [(''pid'', 4), (''pgid'', 4)],
     SYSCALL ''setpriority'' 4097 [(''which'', 4), (''who'', 4), (''niceval'', 4)],
     SYSCALL ''setregid'' 4071 [(''rgid'', 4), (''egid'', 4)],
     SYSCALL ''setresgid'' 4190 [(''rgid'', 4), (''egid'', 4), (''sgid'', 4)],
     SYSCALL ''setresuid'' 4185 [(''ruid'', 4), (''euid'', 4), (''suid'', 4)],
     SYSCALL ''setreuid'' 4070 [(''ruid'', 4), (''euid'', 4)],
     SYSCALL ''setrlimit'' 4075 [(''resource'', 4), (''rlim'', 4)],
     SYSCALL ''set_robust_list'' 4309 [(''head'', 4), (''len'', 4)],
     SYSCALL ''setsid'' 66 [],
     SYSCALL ''setsockopt'' 4181 [(''fd'', 4), (''level'', 4), (''optname'', 4), (''optval'', 4),
       (''optlen'', 4)],
     SYSCALL ''set_tid_address'' 4252 [(''tidptr'', 4)],
     SYSCALL ''settimeofday'' 4079 [(''tv'', 4), (''tz'', 4)],
     SYSCALL ''setuid'' 4023 [(''uid'', 4)],
     SYSCALL ''setxattr'' 4224 [(''pathname'', 4), (''name'', 4), (''value'', 4), (''size'', 4),
       (''flags'', 4)]]"

definition mipso32_syscall_list_16 :: "syscall_descriptor list" where
  "mipso32_syscall_list_16 = [
     SYSCALL ''shutdown'' 4182 [(''fd'', 4), (''how'', 4)],
     SYSCALL ''sigaction'' 4067 [(''sig'', 4), (''act'', 4), (''oact'', 4)],
     SYSCALL ''sigaltstack'' 4206 [(''uss'', 4), (''uoss'', 4)],
     SYSCALL ''signalfd'' 4317 [(''ufd'', 4), (''user_mask'', 4), (''sizemask'', 4)],
     SYSCALL ''signalfd4'' 4324 [(''ufd'', 4), (''user_mask'', 4), (''sizemask'', 4), (''flags'',
       4)],
     SYSCALL ''sigpending'' 4073 [(''set'', 4)],
     SYSCALL ''sigprocmask'' 4126 [(''how'', 4), (''nset'', 4), (''oset'', 4)],
     SYSCALL ''sigreturn'' 119 [],
     SYSCALL ''sigsuspend'' 4072 [(''unused1'', 4), (''unused2'', 4), (''mask'', 4)],
     SYSCALL ''socket'' 4183 [(''family'', 4), (''type'', 4), (''protocol'', 4)],
     SYSCALL ''socketcall'' 4102 [(''call'', 4), (''args'', 4)],
     SYSCALL ''socketpair'' 4184 [(''family'', 4), (''type'', 4), (''protocol'', 4),
       (''usockvec'', 4)],
     SYSCALL ''splice'' 4304 [(''fd_in'', 4), (''off_in'', 4), (''fd_out'', 4), (''off_out'', 4),
       (''len'', 4), (''flags'', 4)],
     SYSCALL ''stat64'' 4213 [(''filename'', 4), (''statbuf'', 4)],
     SYSCALL ''statfs'' 4099 [(''pathname'', 4), (''buf'', 4)],
     SYSCALL ''statfs64'' 4255 [(''path'', 4), (''sz'', 4), (''buf'', 4)],
     SYSCALL ''stime'' 4025 [(''tptr'', 4)],
     SYSCALL ''swapoff'' 4115 [(''specialfile'', 4)],
     SYSCALL ''swapon'' 4087 [(''specialfile'', 4), (''swap_flags'', 4)],
     SYSCALL ''symlink'' 4083 [(''oldname'', 4), (''newname'', 4)]]"

definition mipso32_syscall_list_17 :: "syscall_descriptor list" where
  "mipso32_syscall_list_17 = [
     SYSCALL ''symlinkat'' 4297 [(''oldname'', 4), (''newdfd'', 4), (''newname'', 4)],
     SYSCALL ''sync'' 36 [],
     SYSCALL ''syncfs'' 4342 [(''fd'', 4)],
     SYSCALL ''syscall'' 113 [],
     SYSCALL ''sysfs'' 4135 [(''option'', 4), (''arg1'', 4), (''arg2'', 4)],
     SYSCALL ''sysinfo'' 4116 [(''info'', 4)],
     SYSCALL ''syslog'' 4103 [(''type'', 4), (''buf'', 4), (''len'', 4)],
     SYSCALL ''tee'' 4306 [(''fdin'', 4), (''fdout'', 4), (''len'', 4), (''flags'', 4)],
     SYSCALL ''tgkill'' 4266 [(''tgid'', 4), (''pid'', 4), (''sig'', 4)],
     SYSCALL ''time'' 4013 [(''tloc'', 4)],
     SYSCALL ''timer_create'' 4257 [(''which_clock'', 4), (''timer_event_spec'', 4),
       (''created_timer_id'', 4)],
     SYSCALL ''timer_delete'' 4261 [(''timer_id'', 4)],
     SYSCALL ''timerfd_create'' 4321 [(''clockid'', 4), (''flags'', 4)],
     SYSCALL ''timerfd_gettime'' 4322 [(''ufd'', 4), (''otmr'', 4)],
     SYSCALL ''timerfd_settime'' 4323 [(''ufd'', 4), (''flags'', 4), (''utmr'', 4), (''otmr'',
       4)],
     SYSCALL ''timer_getoverrun'' 4260 [(''timer_id'', 4)],
     SYSCALL ''timer_gettime'' 4259 [(''timer_id'', 4), (''setting'', 4)],
     SYSCALL ''timer_settime'' 4258 [(''timer_id'', 4), (''flags'', 4), (''new_setting'', 4),
       (''old_setting'', 4)],
     SYSCALL ''times'' 4043 [(''tbuf'', 4)],
     SYSCALL ''tkill'' 4236 [(''pid'', 4), (''sig'', 4)]]"

definition mipso32_syscall_list_18 :: "syscall_descriptor list" where
  "mipso32_syscall_list_18 = [
     SYSCALL ''truncate'' 4092 [(''path'', 4), (''length'', 4)],
     SYSCALL ''truncate64'' 4211 [(''path'', 4), (''length'', 8)],
     SYSCALL ''umask'' 4060 [(''mask'', 4)],
     SYSCALL ''umount'' 4022 [(''name'', 4), (''flags'', 4)],
     SYSCALL ''unlink'' 4010 [(''pathname'', 4)],
     SYSCALL ''unlinkat'' 4294 [(''dfd'', 4), (''pathname'', 4), (''flag'', 4)],
     SYSCALL ''unshare'' 4303 [(''unshare_flags'', 4)],
     SYSCALL ''uselib'' 4086 [(''library'', 4)],
     SYSCALL ''userfaultfd'' 4357 [(''flags'', 4)],
     SYSCALL ''usr26'' 983043 [],
     SYSCALL ''usr32'' 983044 [],
     SYSCALL ''ustat'' 4062 [(''dev'', 4), (''ubuf'', 4)],
     SYSCALL ''utime'' 4030 [(''filename'', 4), (''times'', 4)],
     SYSCALL ''utimensat'' 4316 [(''dfd'', 4), (''filename'', 4), (''utimes'', 4), (''flags'',
       4)],
     SYSCALL ''utimes'' 4267 [(''filename'', 4), (''utimes'', 4)],
     SYSCALL ''vfork'' 190 [],
     SYSCALL ''vhangup'' 111 [],
     SYSCALL ''vmsplice'' 4307 [(''fd'', 4), (''iov'', 4), (''nr_segs'', 4), (''flags'', 4)],
     SYSCALL ''vserver'' 313 [],
     SYSCALL ''wait4'' 4114 [(''upid'', 4), (''stat_addr'', 4), (''options'', 4), (''ru'', 4)],
     SYSCALL ''waitid'' 4278 [(''which'', 4), (''upid'', 4), (''infop'', 4), (''options'', 4),
       (''ru'', 4)],
     SYSCALL ''write'' 4004 [(''fd'', 4), (''buf'', 4), (''count'', 4)],
     SYSCALL ''writev'' 4146 [(''fd'', 4), (''vec'', 4), (''vlen'', 4)]]"

definition mipso32_syscall_list :: "syscall_descriptor list" where
  "mipso32_syscall_list = concat [
     mipso32_syscall_list_1,
     mipso32_syscall_list_2,
     mipso32_syscall_list_3,
     mipso32_syscall_list_4,
     mipso32_syscall_list_5,
     mipso32_syscall_list_6,
     mipso32_syscall_list_7,
     mipso32_syscall_list_8,
     mipso32_syscall_list_9,
     mipso32_syscall_list_10,
     mipso32_syscall_list_11,
     mipso32_syscall_list_12,
     mipso32_syscall_list_13,
     mipso32_syscall_list_14,
     mipso32_syscall_list_15,
     mipso32_syscall_list_16,
     mipso32_syscall_list_17,
     mipso32_syscall_list_18]"

lemmas mipso32_syscall_defs =
  mipso32_syscall_list_def
  mipso32_syscall_list_1_def
  mipso32_syscall_list_2_def
  mipso32_syscall_list_3_def
  mipso32_syscall_list_4_def
  mipso32_syscall_list_5_def
  mipso32_syscall_list_6_def
  mipso32_syscall_list_7_def
  mipso32_syscall_list_8_def
  mipso32_syscall_list_9_def
  mipso32_syscall_list_10_def
  mipso32_syscall_list_11_def
  mipso32_syscall_list_12_def
  mipso32_syscall_list_13_def
  mipso32_syscall_list_14_def
  mipso32_syscall_list_15_def
  mipso32_syscall_list_16_def
  mipso32_syscall_list_17_def
  mipso32_syscall_list_18_def

end
