(* ===== verification/Syscalls_Mips64.thy ===== *)
theory Syscalls_Mips64
  imports Kafel_Syscall
begin

text \<open>
  The system calls of one architecture, \<open>mips64_syscall_list\<close> of
  \<open>kafel/src/syscalls/mips64_syscalls.c\<close>, cut into stretches of the source file. The arguments are
  written in the order of their designators \<open>ARG_0\<close>, \<open>ARG_1\<close>, \<open>...\<close>, which are consecutive in
  every entry.
\<close>

definition mips64_syscall_list_1 :: "syscall_descriptor list" where
  "mips64_syscall_list_1 = [
     SYSCALL ''accept'' 5042 [(''fd'', 4), (''upeer_sockaddr'', 8), (''upeer_addrlen'', 8)],
     SYSCALL ''accept4'' 5293 [(''fd'', 4), (''upeer_sockaddr'', 8), (''upeer_addrlen'', 8),
       (''flags'', 4)],
     SYSCALL ''acct'' 5158 [(''name'', 8)],
     SYSCALL ''add_key'' 5239 [(''_type'', 8), (''_description'', 8), (''_payload'', 8),
       (''plen'', 8), (''ringid'', 4)],
     SYSCALL ''adjtimex'' 5154 [(''txc_p'', 8)],
     SYSCALL ''bind'' 5048 [(''fd'', 4), (''umyaddr'', 8), (''addrlen'', 4)],
     SYSCALL ''bpf'' 5315 [(''cmd'', 4), (''uattr'', 8), (''size'', 4)],
     SYSCALL ''brk'' 5012 [(''brk'', 8)],
     SYSCALL ''capget'' 5123 [(''header'', 8), (''dataptr'', 8)],
     SYSCALL ''capset'' 5124 [(''header'', 8), (''data'', 8)],
     SYSCALL ''chdir'' 5078 [(''filename'', 8)],
     SYSCALL ''chroot'' 5156 [(''filename'', 8)],
     SYSCALL ''clock_adjtime'' 5300 [(''which_clock'', 4), (''utx'', 8)],
     SYSCALL ''clock_getres'' 5223 [(''which_clock'', 4), (''tp'', 8)],
     SYSCALL ''clock_gettime'' 5222 [(''which_clock'', 4), (''tp'', 8)],
     SYSCALL ''clock_nanosleep'' 5224 [(''which_clock'', 4), (''flags'', 4), (''rqtp'', 8),
       (''rmtp'', 8)],
     SYSCALL ''clock_settime'' 5221 [(''which_clock'', 4), (''tp'', 8)],
     SYSCALL ''clone'' 5055 [(''clone_flags'', 8), (''newsp'', 8), (''parent_tidptr'', 8),
       (''child_tidptr'', 8), (''tls'', 8)],
     SYSCALL ''close'' 5003 [(''fd'', 4)],
     SYSCALL ''connect'' 5041 [(''fd'', 4), (''uservaddr'', 8), (''addrlen'', 4)]]"

definition mips64_syscall_list_2 :: "syscall_descriptor list" where
  "mips64_syscall_list_2 = [
     SYSCALL ''copy_file_range'' 285 [(''fd_in'', 4), (''off_in'', 8), (''fd_out'', 4),
       (''off_out'', 8), (''len'', 8), (''flags'', 4)],
     SYSCALL ''delete_module'' 5169 [(''name_user'', 8), (''flags'', 4)],
     SYSCALL ''dup'' 5031 [(''fildes'', 4)],
     SYSCALL ''dup3'' 5286 [(''oldfd'', 4), (''newfd'', 4), (''flags'', 4)],
     SYSCALL ''epoll_create1'' 5285 [(''flags'', 4)],
     SYSCALL ''epoll_ctl'' 5208 [(''epfd'', 4), (''op'', 4), (''fd'', 4), (''event'', 8)],
     SYSCALL ''epoll_pwait'' 5272 [(''epfd'', 4), (''events'', 8), (''maxevents'', 4),
       (''timeout'', 4), (''sigmask'', 8), (''sigsetsize'', 8)],
     SYSCALL ''eventfd2'' 5284 [(''count'', 4), (''flags'', 4)],
     SYSCALL ''execve'' 5057 [(''filename'', 8), (''argv'', 8), (''envp'', 8)],
     SYSCALL ''execveat'' 5316 [(''fd'', 4), (''filename'', 8), (''argv'', 8), (''envp'', 8),
       (''flags'', 4)],
     SYSCALL ''exit'' 5058 [(''error_code'', 4)],
     SYSCALL ''exit_group'' 5205 [(''error_code'', 4)],
     SYSCALL ''faccessat'' 5259 [(''dfd'', 4), (''filename'', 8), (''mode'', 4)],
     SYSCALL ''fadvise64'' 5215 [(''fd'', 4), (''offset'', 8), (''len'', 8), (''advice'', 4)],
     SYSCALL ''fallocate'' 5279 [(''fd'', 4), (''mode'', 4), (''offset'', 8), (''len'', 8)],
     SYSCALL ''fanotify_init'' 5295 [(''flags'', 4), (''event_f_flags'', 4)],
     SYSCALL ''fanotify_mark'' 5296 [(''fanotify_fd'', 4), (''flags'', 4), (''mask'', 8),
       (''dfd'', 4), (''pathname'', 8)],
     SYSCALL ''fchdir'' 5079 [(''fd'', 4)]]"

definition mips64_syscall_list_3 :: "syscall_descriptor list" where
  "mips64_syscall_list_3 = [
     SYSCALL ''fchmod'' 5089 [(''fd'', 4), (''mode'', 2)],
     SYSCALL ''fchmodat'' 5258 [(''dfd'', 4), (''filename'', 8), (''mode'', 2)],
     SYSCALL ''fchown'' 5091 [(''fd'', 4), (''user'', 4), (''group'', 4)],
     SYSCALL ''fchownat'' 5250 [(''dfd'', 4), (''filename'', 8), (''user'', 4), (''group'', 4),
       (''flag'', 4)],
     SYSCALL ''fcntl'' 5070 [(''fd'', 4), (''cmd'', 4), (''arg'', 8)],
     SYSCALL ''fdatasync'' 5073 [(''fd'', 4)],
     SYSCALL ''fgetxattr'' 5185 [(''fd'', 4), (''name'', 8), (''value'', 8), (''size'', 8)],
     SYSCALL ''finit_module'' 5307 [(''fd'', 4), (''uargs'', 8), (''flags'', 4)],
     SYSCALL ''flistxattr'' 5188 [(''fd'', 4), (''list'', 8), (''size'', 8)],
     SYSCALL ''flock'' 5071 [(''fd'', 4), (''cmd'', 4)],
     SYSCALL ''fremovexattr'' 16 [(''fd'', 4), (''name'', 8)],
     SYSCALL ''fsetxattr'' 5182 [(''fd'', 4), (''name'', 8), (''value'', 8), (''size'', 8),
       (''flags'', 4)],
     SYSCALL ''fstatfs'' 5135 [(''fd'', 4), (''buf'', 8)],
     SYSCALL ''fsync'' 5072 [(''fd'', 4)],
     SYSCALL ''ftruncate'' 5075 [(''fd'', 4), (''length'', 8)],
     SYSCALL ''futex'' 5194 [(''uaddr'', 8), (''op'', 4), (''val'', 4), (''utime'', 8),
       (''uaddr2'', 8), (''val3'', 4)],
     SYSCALL ''getcpu'' 5271 [(''cpup'', 8), (''nodep'', 8), (''unused'', 8)],
     SYSCALL ''getcwd'' 5077 [(''buf'', 8), (''size'', 8)],
     SYSCALL ''getdents64'' 5308 [(''fd'', 4), (''dirent'', 8), (''count'', 4)]]"

definition mips64_syscall_list_4 :: "syscall_descriptor list" where
  "mips64_syscall_list_4 = [
     SYSCALL ''getegid'' 177 [],
     SYSCALL ''geteuid'' 175 [],
     SYSCALL ''getgid'' 176 [],
     SYSCALL ''getgroups'' 158 [(''gidsetsize'', 4), (''grouplist'', 8)],
     SYSCALL ''getitimer'' 5035 [(''which'', 4), (''value'', 8)],
     SYSCALL ''get_mempolicy'' 5228 [(''policy'', 8), (''nmask'', 8), (''maxnode'', 8),
       (''addr'', 8), (''flags'', 8)],
     SYSCALL ''getpeername'' 5051 [(''fd'', 4), (''usockaddr'', 8), (''usockaddr_len'', 8)],
     SYSCALL ''getpgid'' 5119 [(''pid'', 4)],
     SYSCALL ''getpid'' 172 [],
     SYSCALL ''getppid'' 173 [],
     SYSCALL ''getpriority'' 141 [(''which'', 4), (''who'', 4)],
     SYSCALL ''getrandom'' 5313 [(''buf'', 8), (''count'', 8), (''flags'', 4)],
     SYSCALL ''getresgid'' 5118 [(''rgidp'', 8), (''egidp'', 8), (''sgidp'', 8)],
     SYSCALL ''getresuid'' 5116 [(''ruidp'', 8), (''euidp'', 8), (''suidp'', 8)],
     SYSCALL ''getrlimit'' 5095 [(''resource'', 4), (''rlim'', 8)],
     SYSCALL ''get_robust_list'' 5269 [(''pid'', 4), (''head_ptr'', 8), (''len_ptr'', 8)],
     SYSCALL ''getrusage'' 5096 [(''who'', 4), (''ru'', 8)],
     SYSCALL ''getsid'' 5122 [(''pid'', 4)],
     SYSCALL ''getsockname'' 5050 [(''fd'', 4), (''usockaddr'', 8), (''usockaddr_len'', 8)],
     SYSCALL ''getsockopt'' 5054 [(''fd'', 4), (''level'', 4), (''optname'', 4), (''optval'', 8),
       (''optlen'', 8)],
     SYSCALL ''gettid'' 178 [],
     SYSCALL ''gettimeofday'' 169 [(''tv'', 8), (''tz'', 8)],
     SYSCALL ''getuid'' 174 [],
     SYSCALL ''getxattr'' 8 [(''pathname'', 8), (''name'', 8), (''value'', 8), (''size'', 8)],
     SYSCALL ''init_module'' 5168 [(''umod'', 8), (''len'', 8), (''uargs'', 8)]]"

definition mips64_syscall_list_5 :: "syscall_descriptor list" where
  "mips64_syscall_list_5 = [
     SYSCALL ''inotify_add_watch'' 5244 [(''fd'', 4), (''pathname'', 8), (''mask'', 4)],
     SYSCALL ''inotify_init1'' 26 [(''flags'', 4)],
     SYSCALL ''inotify_rm_watch'' 5245 [(''fd'', 4), (''wd'', 4)],
     SYSCALL ''io_cancel'' 5204 [(''ctx_id'', 8), (''iocb'', 8), (''result'', 8)],
     SYSCALL ''ioctl'' 5015 [(''fd'', 4), (''cmd'', 4), (''arg'', 8)],
     SYSCALL ''io_destroy'' 5201 [(''ctx'', 8)],
     SYSCALL ''io_getevents'' 5202 [(''ctx_id'', 8), (''min_nr'', 8), (''nr'', 8), (''events'',
       8), (''timeout'', 8)],
     SYSCALL ''ioprio_get'' 5274 [(''which'', 4), (''who'', 4)],
     SYSCALL ''ioprio_set'' 5273 [(''which'', 4), (''who'', 4), (''ioprio'', 4)],
     SYSCALL ''io_setup'' 5200 [(''nr_events'', 4), (''ctxp'', 8)],
     SYSCALL ''io_submit'' 5203 [(''ctx_id'', 8), (''nr'', 8), (''iocbpp'', 8)],
     SYSCALL ''kcmp'' 5306 [(''pid1'', 4), (''pid2'', 4), (''type'', 4), (''idx1'', 8),
       (''idx2'', 8)],
     SYSCALL ''kexec_load'' 5270 [(''entry'', 8), (''nr_segments'', 8), (''segments'', 8),
       (''flags'', 8)],
     SYSCALL ''keyctl'' 5241 [(''option'', 4), (''arg2'', 8), (''arg3'', 8), (''arg4'', 8),
       (''arg5'', 8)],
     SYSCALL ''kill'' 5060 [(''pid'', 4), (''sig'', 4)],
     SYSCALL ''lgetxattr'' 5184 [(''pathname'', 8), (''name'', 8), (''value'', 8), (''size'',
       8)],
     SYSCALL ''linkat'' 5255 [(''olddfd'', 4), (''oldname'', 8), (''newdfd'', 4), (''newname'',
       8), (''flags'', 4)],
     SYSCALL ''listen'' 5049 [(''fd'', 4), (''backlog'', 4)]]"

definition mips64_syscall_list_6 :: "syscall_descriptor list" where
  "mips64_syscall_list_6 = [
     SYSCALL ''listxattr'' 5186 [(''pathname'', 8), (''list'', 8), (''size'', 8)],
     SYSCALL ''llistxattr'' 5187 [(''pathname'', 8), (''list'', 8), (''size'', 8)],
     SYSCALL ''lookup_dcookie'' 5206 [(''cookie64'', 8), (''buf'', 8), (''len'', 8)],
     SYSCALL ''lremovexattr'' 5190 [(''pathname'', 8), (''name'', 8)],
     SYSCALL ''lseek'' 5008 [(''fd'', 4), (''offset'', 8), (''whence'', 4)],
     SYSCALL ''lsetxattr'' 5181 [(''pathname'', 8), (''name'', 8), (''value'', 8), (''size'', 8),
       (''flags'', 4)],
     SYSCALL ''madvise'' 5027 [(''start'', 8), (''len_in'', 8), (''behavior'', 4)],
     SYSCALL ''mbind'' 5227 [(''start'', 8), (''len'', 8), (''mode'', 8), (''nmask'', 8),
       (''maxnode'', 8), (''flags'', 4)],
     SYSCALL ''membarrier'' 5318 [(''cmd'', 4), (''flags'', 4)],
     SYSCALL ''memfd_create'' 5314 [(''uname'', 8), (''flags'', 4)],
     SYSCALL ''migrate_pages'' 5246 [(''pid'', 4), (''maxnode'', 8), (''old_nodes'', 8),
       (''new_nodes'', 8)],
     SYSCALL ''mincore'' 5026 [(''start'', 8), (''len'', 8), (''vec'', 8)],
     SYSCALL ''mkdirat'' 5248 [(''dfd'', 4), (''pathname'', 8), (''mode'', 2)],
     SYSCALL ''mknodat'' 5249 [(''dfd'', 4), (''filename'', 8), (''mode'', 2), (''dev'', 4)],
     SYSCALL ''mlock'' 5146 [(''start'', 8), (''len'', 8)],
     SYSCALL ''mlock2'' 5319 [(''start'', 8), (''len'', 8), (''flags'', 4)],
     SYSCALL ''mlockall'' 5148 [(''flags'', 4)],
     SYSCALL ''mmap'' 5009 [(''addr'', 8), (''len'', 8), (''prot'', 8), (''flags'', 8), (''fd'',
       8), (''off'', 8)]]"

definition mips64_syscall_list_7 :: "syscall_descriptor list" where
  "mips64_syscall_list_7 = [
     SYSCALL ''mount'' 5160 [(''dev_name'', 8), (''dir_name'', 8), (''type'', 8), (''flags'', 8),
       (''data'', 8)],
     SYSCALL ''move_pages'' 5267 [(''pid'', 4), (''nr_pages'', 8), (''pages'', 8), (''nodes'',
       8), (''status'', 8), (''flags'', 4)],
     SYSCALL ''mprotect'' 5010 [(''start'', 8), (''len'', 8), (''prot'', 8)],
     SYSCALL ''mq_getsetattr'' 5235 [(''mqdes'', 4), (''u_mqstat'', 8), (''u_omqstat'', 8)],
     SYSCALL ''mq_notify'' 5234 [(''mqdes'', 4), (''u_notification'', 8)],
     SYSCALL ''mq_open'' 5230 [(''u_name'', 8), (''oflag'', 4), (''mode'', 2), (''u_attr'', 8)],
     SYSCALL ''mq_timedreceive'' 5233 [(''mqdes'', 4), (''u_msg_ptr'', 8), (''msg_len'', 8),
       (''u_msg_prio'', 8), (''u_abs_timeout'', 8)],
     SYSCALL ''mq_timedsend'' 5232 [(''mqdes'', 4), (''u_msg_ptr'', 8), (''msg_len'', 8),
       (''msg_prio'', 4), (''u_abs_timeout'', 8)],
     SYSCALL ''mq_unlink'' 5231 [(''u_name'', 8)],
     SYSCALL ''mremap'' 5024 [(''addr'', 8), (''old_len'', 8), (''new_len'', 8), (''flags'', 8),
       (''new_addr'', 8)],
     SYSCALL ''msgctl'' 5069 [(''msqid'', 4), (''cmd'', 4), (''buf'', 8)],
     SYSCALL ''msgget'' 5066 [(''key'', 4), (''msgflg'', 4)],
     SYSCALL ''msgrcv'' 5068 [(''msqid'', 4), (''msgp'', 8), (''msgsz'', 8), (''msgtyp'', 8),
       (''msgflg'', 4)],
     SYSCALL ''msgsnd'' 5067 [(''msqid'', 4), (''msgp'', 8), (''msgsz'', 8), (''msgflg'', 4)],
     SYSCALL ''msync'' 5025 [(''start'', 8), (''len'', 8), (''flags'', 4)],
     SYSCALL ''munlock'' 5147 [(''start'', 8), (''len'', 8)],
     SYSCALL ''munlockall'' 231 [],
     SYSCALL ''munmap'' 215 [(''addr'', 8), (''len'', 8)]]"

definition mips64_syscall_list_8 :: "syscall_descriptor list" where
  "mips64_syscall_list_8 = [
     SYSCALL ''name_to_handle_at'' 5298 [(''dfd'', 4), (''name'', 8), (''handle'', 8),
       (''mnt_id'', 8), (''flag'', 4)],
     SYSCALL ''nanosleep'' 5034 [(''rqtp'', 8), (''rmtp'', 8)],
     SYSCALL ''newfstat'' 80 [(''fd'', 4), (''statbuf'', 8)],
     SYSCALL ''newfstatat'' 5252 [(''dfd'', 4), (''filename'', 8), (''statbuf'', 8), (''flag'',
       4)],
     SYSCALL ''newuname'' 160 [(''name'', 8)],
     SYSCALL ''nfsservctl'' 5173 [(''cmd'', 4), (''argp'', 8), (''resp'', 8)],
     SYSCALL ''openat'' 5247 [(''dfd'', 4), (''filename'', 8), (''flags'', 4), (''mode'', 2)],
     SYSCALL ''open_by_handle_at'' 5299 [(''mountdirfd'', 4), (''handle'', 8), (''flags'', 4)],
     SYSCALL ''perf_event_open'' 241 [(''attr_uptr'', 8), (''pid'', 4), (''cpu'', 4),
       (''group_fd'', 4), (''flags'', 8)],
     SYSCALL ''personality'' 5132 [(''personality'', 4)],
     SYSCALL ''pipe2'' 5287 [(''fildes'', 8), (''flags'', 4)],
     SYSCALL ''pivot_root'' 5151 [(''new_root'', 8), (''put_old'', 8)],
     SYSCALL ''ppoll'' 5261 [(''ufds'', 8), (''nfds'', 4), (''tsp'', 8), (''sigmask'', 8),
       (''sigsetsize'', 8)],
     SYSCALL ''prctl'' 5153 [(''option'', 4), (''arg2'', 8), (''arg3'', 8), (''arg4'', 8),
       (''arg5'', 8)],
     SYSCALL ''pread64'' 5016 [(''fd'', 4), (''buf'', 8), (''count'', 8), (''pos'', 8)],
     SYSCALL ''preadv'' 5289 [(''fd'', 8), (''vec'', 8), (''vlen'', 8), (''pos_l'', 8),
       (''pos_h'', 8)],
     SYSCALL ''preadv2'' 286 [(''fd'', 8), (''vec'', 8), (''vlen'', 8), (''pos_l'', 8),
       (''pos_h'', 8), (''flags'', 4)]]"

definition mips64_syscall_list_9 :: "syscall_descriptor list" where
  "mips64_syscall_list_9 = [
     SYSCALL ''prlimit64'' 5297 [(''pid'', 4), (''resource'', 4), (''new_rlim'', 8),
       (''old_rlim'', 8)],
     SYSCALL ''process_vm_readv'' 5304 [(''pid'', 4), (''lvec'', 8), (''liovcnt'', 8), (''rvec'',
       8), (''riovcnt'', 8), (''flags'', 8)],
     SYSCALL ''process_vm_writev'' 5305 [(''pid'', 4), (''lvec'', 8), (''liovcnt'', 8),
       (''rvec'', 8), (''riovcnt'', 8), (''flags'', 8)],
     SYSCALL ''pselect6'' 5260 [(''n'', 4), (''inp'', 8), (''outp'', 8), (''exp'', 8), (''tsp'',
       8), (''sig'', 8)],
     SYSCALL ''ptrace'' 5099 [(''request'', 8), (''pid'', 8), (''addr'', 8), (''data'', 8)],
     SYSCALL ''pwrite64'' 5017 [(''fd'', 4), (''buf'', 8), (''count'', 8), (''pos'', 8)],
     SYSCALL ''pwritev'' 5290 [(''fd'', 8), (''vec'', 8), (''vlen'', 8), (''pos_l'', 8),
       (''pos_h'', 8)],
     SYSCALL ''pwritev2'' 287 [(''fd'', 8), (''vec'', 8), (''vlen'', 8), (''pos_l'', 8),
       (''pos_h'', 8), (''flags'', 4)],
     SYSCALL ''quotactl'' 5172 [(''cmd'', 4), (''special'', 8), (''id'', 4), (''addr'', 8)],
     SYSCALL ''read'' 5000 [(''fd'', 4), (''buf'', 8), (''count'', 8)],
     SYSCALL ''readahead'' 5179 [(''fd'', 4), (''offset'', 8), (''count'', 8)],
     SYSCALL ''readlinkat'' 5257 [(''dfd'', 4), (''pathname'', 8), (''buf'', 8), (''bufsiz'',
       4)],
     SYSCALL ''readv'' 5018 [(''fd'', 8), (''vec'', 8), (''vlen'', 8)],
     SYSCALL ''reboot'' 5164 [(''magic1'', 4), (''magic2'', 4), (''cmd'', 4), (''arg'', 8)],
     SYSCALL ''recvfrom'' 5044 [(''fd'', 4), (''ubuf'', 8), (''size'', 8), (''flags'', 4),
       (''addr'', 8), (''addr_len'', 8)]]"

definition mips64_syscall_list_10 :: "syscall_descriptor list" where
  "mips64_syscall_list_10 = [
     SYSCALL ''recvmmsg'' 5294 [(''fd'', 4), (''mmsg'', 8), (''vlen'', 4), (''flags'', 4),
       (''timeout'', 8)],
     SYSCALL ''recvmsg'' 5046 [(''fd'', 4), (''msg'', 8), (''flags'', 4)],
     SYSCALL ''remap_file_pages'' 5210 [(''start'', 8), (''size'', 8), (''prot'', 8), (''pgoff'',
       8), (''flags'', 8)],
     SYSCALL ''removexattr'' 5189 [(''pathname'', 8), (''name'', 8)],
     SYSCALL ''renameat'' 5254 [(''olddfd'', 4), (''oldname'', 8), (''newdfd'', 4), (''newname'',
       8)],
     SYSCALL ''renameat2'' 5311 [(''olddfd'', 4), (''oldname'', 8), (''newdfd'', 4),
       (''newname'', 8), (''flags'', 4)],
     SYSCALL ''request_key'' 5240 [(''_type'', 8), (''_description'', 8), (''_callout_info'', 8),
       (''destringid'', 4)],
     SYSCALL ''restart_syscall'' 128 [],
     SYSCALL ''rt_sigaction'' 5013 [(''sig'', 4), (''act'', 8), (''oact'', 8), (''sigsetsize'',
       8)],
     SYSCALL ''rt_sigpending'' 5125 [(''uset'', 8), (''sigsetsize'', 8)],
     SYSCALL ''rt_sigprocmask'' 5014 [(''how'', 4), (''nset'', 8), (''oset'', 8),
       (''sigsetsize'', 8)],
     SYSCALL ''rt_sigqueueinfo'' 5127 [(''pid'', 4), (''sig'', 4), (''uinfo'', 8)],
     SYSCALL ''rt_sigreturn'' 139 [],
     SYSCALL ''rt_sigsuspend'' 133 [(''unewset'', 8), (''sigsetsize'', 8)],
     SYSCALL ''rt_sigtimedwait'' 5126 [(''uthese'', 8), (''uinfo'', 8), (''uts'', 8),
       (''sigsetsize'', 8)],
     SYSCALL ''rt_tgsigqueueinfo'' 5291 [(''tgid'', 4), (''pid'', 4), (''sig'', 4), (''uinfo'',
       8)],
     SYSCALL ''sched_getaffinity'' 5196 [(''pid'', 4), (''len'', 4), (''user_mask_ptr'', 8)],
     SYSCALL ''sched_getattr'' 5310 [(''pid'', 4), (''uattr'', 8), (''size'', 4), (''flags'',
       4)],
     SYSCALL ''sched_getparam'' 5140 [(''pid'', 4), (''param'', 8)]]"

definition mips64_syscall_list_11 :: "syscall_descriptor list" where
  "mips64_syscall_list_11 = [
     SYSCALL ''sched_get_priority_max'' 5143 [(''policy'', 4)],
     SYSCALL ''sched_get_priority_min'' 5144 [(''policy'', 4)],
     SYSCALL ''sched_getscheduler'' 5142 [(''pid'', 4)],
     SYSCALL ''sched_rr_get_interval'' 5145 [(''pid'', 4), (''interval'', 8)],
     SYSCALL ''sched_setaffinity'' 5195 [(''pid'', 4), (''len'', 4), (''user_mask_ptr'', 8)],
     SYSCALL ''sched_setattr'' 5309 [(''pid'', 4), (''uattr'', 8), (''flags'', 4)],
     SYSCALL ''sched_setparam'' 5139 [(''pid'', 4), (''param'', 8)],
     SYSCALL ''sched_setscheduler'' 5141 [(''pid'', 4), (''policy'', 4), (''param'', 8)],
     SYSCALL ''sched_yield'' 124 [],
     SYSCALL ''seccomp'' 277 [(''op'', 4), (''flags'', 4), (''uargs'', 8)],
     SYSCALL ''semctl'' 5064 [(''semid'', 4), (''semnum'', 4), (''cmd'', 4), (''arg'', 8)],
     SYSCALL ''semget'' 5062 [(''key'', 4), (''nsems'', 4), (''semflg'', 4)],
     SYSCALL ''semop'' 5063 [(''semid'', 4), (''tsops'', 8), (''nsops'', 4)],
     SYSCALL ''semtimedop'' 5214 [(''semid'', 4), (''tsops'', 8), (''nsops'', 4), (''timeout'',
       8)],
     SYSCALL ''sendfile'' 71 [(''out_fd'', 4), (''in_fd'', 4), (''offset'', 8), (''count'', 8)],
     SYSCALL ''sendmmsg'' 5302 [(''fd'', 4), (''mmsg'', 8), (''vlen'', 4), (''flags'', 4)],
     SYSCALL ''sendmsg'' 5045 [(''fd'', 4), (''msg'', 8), (''flags'', 4)],
     SYSCALL ''sendto'' 5043 [(''fd'', 4), (''buff'', 8), (''len'', 8), (''flags'', 4),
       (''addr'', 8), (''addr_len'', 4)],
     SYSCALL ''setdomainname'' 5166 [(''name'', 8), (''len'', 4)],
     SYSCALL ''setfsgid'' 5121 [(''gid'', 4)]]"

definition mips64_syscall_list_12 :: "syscall_descriptor list" where
  "mips64_syscall_list_12 = [
     SYSCALL ''setfsuid'' 5120 [(''uid'', 4)],
     SYSCALL ''setgid'' 5104 [(''gid'', 4)],
     SYSCALL ''setgroups'' 5114 [(''gidsetsize'', 4), (''grouplist'', 8)],
     SYSCALL ''sethostname'' 5165 [(''name'', 8), (''len'', 4)],
     SYSCALL ''setitimer'' 5036 [(''which'', 4), (''value'', 8), (''ovalue'', 8)],
     SYSCALL ''set_mempolicy'' 5229 [(''mode'', 4), (''nmask'', 8), (''maxnode'', 8)],
     SYSCALL ''setns'' 5303 [(''fd'', 4), (''nstype'', 4)],
     SYSCALL ''setpgid'' 5107 [(''pid'', 4), (''pgid'', 4)],
     SYSCALL ''setpriority'' 5138 [(''which'', 4), (''who'', 4), (''niceval'', 4)],
     SYSCALL ''setregid'' 5112 [(''rgid'', 4), (''egid'', 4)],
     SYSCALL ''setresgid'' 5117 [(''rgid'', 4), (''egid'', 4), (''sgid'', 4)],
     SYSCALL ''setresuid'' 5115 [(''ruid'', 4), (''euid'', 4), (''suid'', 4)],
     SYSCALL ''setreuid'' 5111 [(''ruid'', 4), (''euid'', 4)],
     SYSCALL ''setrlimit'' 5155 [(''resource'', 4), (''rlim'', 8)],
     SYSCALL ''set_robust_list'' 5268 [(''head'', 8), (''len'', 8)],
     SYSCALL ''setsid'' 157 [],
     SYSCALL ''setsockopt'' 208 [(''fd'', 4), (''level'', 4), (''optname'', 4), (''optval'', 8),
       (''optlen'', 4)],
     SYSCALL ''set_tid_address'' 5212 [(''tidptr'', 8)],
     SYSCALL ''settimeofday'' 5159 [(''tv'', 8), (''tz'', 8)],
     SYSCALL ''setuid'' 5103 [(''uid'', 4)],
     SYSCALL ''setxattr'' 5180 [(''pathname'', 8), (''name'', 8), (''value'', 8), (''size'', 8),
       (''flags'', 4)]]"

definition mips64_syscall_list_13 :: "syscall_descriptor list" where
  "mips64_syscall_list_13 = [
     SYSCALL ''shmat'' 5029 [(''shmid'', 4), (''shmaddr'', 8), (''shmflg'', 4)],
     SYSCALL ''shmctl'' 5030 [(''shmid'', 4), (''cmd'', 4), (''buf'', 8)],
     SYSCALL ''shmdt'' 5065 [(''shmaddr'', 8)],
     SYSCALL ''shmget'' 5028 [(''key'', 4), (''size'', 8), (''shmflg'', 4)],
     SYSCALL ''shutdown'' 5047 [(''fd'', 4), (''how'', 4)],
     SYSCALL ''sigaltstack'' 5129 [(''uss'', 8), (''uoss'', 8)],
     SYSCALL ''signalfd4'' 5283 [(''ufd'', 4), (''user_mask'', 8), (''sizemask'', 8), (''flags'',
       4)],
     SYSCALL ''socket'' 5040 [(''family'', 4), (''type'', 4), (''protocol'', 4)],
     SYSCALL ''socketpair'' 5052 [(''family'', 4), (''type'', 4), (''protocol'', 4),
       (''usockvec'', 8)],
     SYSCALL ''splice'' 5263 [(''fd_in'', 4), (''off_in'', 8), (''fd_out'', 4), (''off_out'', 8),
       (''len'', 8), (''flags'', 4)],
     SYSCALL ''statfs'' 5134 [(''pathname'', 8), (''buf'', 8)],
     SYSCALL ''swapoff'' 5163 [(''specialfile'', 8)],
     SYSCALL ''swapon'' 5162 [(''specialfile'', 8), (''swap_flags'', 4)],
     SYSCALL ''symlinkat'' 5256 [(''oldname'', 8), (''newdfd'', 4), (''newname'', 8)],
     SYSCALL ''sync'' 81 [],
     SYSCALL ''sync_file_range2'' 84 [(''fd'', 4), (''offset'', 8), (''nbytes'', 8), (''flags'',
       4)],
     SYSCALL ''syncfs'' 5301 [(''fd'', 4)],
     SYSCALL ''sysinfo'' 5097 [(''info'', 8)],
     SYSCALL ''syslog'' 5101 [(''type'', 4), (''buf'', 8), (''len'', 4)],
     SYSCALL ''tee'' 5265 [(''fdin'', 4), (''fdout'', 4), (''len'', 8), (''flags'', 4)]]"

definition mips64_syscall_list_14 :: "syscall_descriptor list" where
  "mips64_syscall_list_14 = [
     SYSCALL ''tgkill'' 5225 [(''tgid'', 4), (''pid'', 4), (''sig'', 4)],
     SYSCALL ''timer_create'' 5216 [(''which_clock'', 4), (''timer_event_spec'', 8),
       (''created_timer_id'', 8)],
     SYSCALL ''timer_delete'' 5220 [(''timer_id'', 4)],
     SYSCALL ''timerfd_create'' 5280 [(''clockid'', 4), (''flags'', 4)],
     SYSCALL ''timerfd_gettime'' 5281 [(''ufd'', 4), (''otmr'', 8)],
     SYSCALL ''timerfd_settime'' 5282 [(''ufd'', 4), (''flags'', 4), (''utmr'', 8), (''otmr'',
       8)],
     SYSCALL ''timer_getoverrun'' 5219 [(''timer_id'', 4)],
     SYSCALL ''timer_gettime'' 5218 [(''timer_id'', 4), (''setting'', 8)],
     SYSCALL ''timer_settime'' 5217 [(''timer_id'', 4), (''flags'', 4), (''new_setting'', 8),
       (''old_setting'', 8)],
     SYSCALL ''times'' 5098 [(''tbuf'', 8)],
     SYSCALL ''tkill'' 5192 [(''pid'', 4), (''sig'', 4)],
     SYSCALL ''truncate'' 5074 [(''path'', 8), (''length'', 8)],
     SYSCALL ''umask'' 5093 [(''mask'', 4)],
     SYSCALL ''unlinkat'' 5253 [(''dfd'', 4), (''pathname'', 8), (''flag'', 4)],
     SYSCALL ''unshare'' 5262 [(''unshare_flags'', 8)],
     SYSCALL ''userfaultfd'' 5317 [(''flags'', 4)],
     SYSCALL ''utimensat'' 5275 [(''dfd'', 4), (''filename'', 8), (''utimes'', 8), (''flags'',
       4)],
     SYSCALL ''vhangup'' 58 [],
     SYSCALL ''vmsplice'' 5266 [(''fd'', 4), (''iov'', 8), (''nr_segs'', 8), (''flags'', 4)],
     SYSCALL ''wait4'' 5059 [(''upid'', 4), (''stat_addr'', 8), (''options'', 4), (''ru'', 8)]]"

definition mips64_syscall_list_15 :: "syscall_descriptor list" where
  "mips64_syscall_list_15 = [
     SYSCALL ''waitid'' 5237 [(''which'', 4), (''upid'', 4), (''infop'', 8), (''options'', 4),
       (''ru'', 8)],
     SYSCALL ''write'' 5001 [(''fd'', 4), (''buf'', 8), (''count'', 8)],
     SYSCALL ''writev'' 5019 [(''fd'', 8), (''vec'', 8), (''vlen'', 8)]]"

definition mips64_syscall_list :: "syscall_descriptor list" where
  "mips64_syscall_list = concat [
     mips64_syscall_list_1,
     mips64_syscall_list_2,
     mips64_syscall_list_3,
     mips64_syscall_list_4,
     mips64_syscall_list_5,
     mips64_syscall_list_6,
     mips64_syscall_list_7,
     mips64_syscall_list_8,
     mips64_syscall_list_9,
     mips64_syscall_list_10,
     mips64_syscall_list_11,
     mips64_syscall_list_12,
     mips64_syscall_list_13,
     mips64_syscall_list_14,
     mips64_syscall_list_15]"

lemmas mips64_syscall_defs =
  mips64_syscall_list_def
  mips64_syscall_list_1_def
  mips64_syscall_list_2_def
  mips64_syscall_list_3_def
  mips64_syscall_list_4_def
  mips64_syscall_list_5_def
  mips64_syscall_list_6_def
  mips64_syscall_list_7_def
  mips64_syscall_list_8_def
  mips64_syscall_list_9_def
  mips64_syscall_list_10_def
  mips64_syscall_list_11_def
  mips64_syscall_list_12_def
  mips64_syscall_list_13_def
  mips64_syscall_list_14_def
  mips64_syscall_list_15_def

end
