(* ===== verification/Syscalls_I386.thy ===== *)
theory Syscalls_I386
  imports Kafel_Syscall
begin

text \<open>
  The system calls of one architecture, \<open>i386_syscall_list\<close> of
  \<open>kafel/src/syscalls/i386_syscalls.c\<close>, cut into stretches of the source file. The arguments are
  written in the order of their designators \<open>ARG_0\<close>, \<open>ARG_1\<close>, \<open>...\<close>, which are consecutive in
  every entry.
\<close>

definition i386_syscall_list_1 :: "syscall_descriptor list" where
  "i386_syscall_list_1 = [
     SYSCALL ''accept4'' 364 [(''fd'', 4), (''upeer_sockaddr'', 4), (''upeer_addrlen'', 4),
       (''flags'', 4)],
     SYSCALL ''access'' 33 [(''filename'', 4), (''mode'', 4)],
     SYSCALL ''acct'' 51 [(''name'', 4)],
     SYSCALL ''add_key'' 286 [(''_type'', 4), (''_description'', 4), (''_payload'', 4),
       (''plen'', 4), (''ringid'', 4)],
     SYSCALL ''adjtimex'' 124 [(''txc_p'', 4)],
     SYSCALL ''alarm'' 27 [(''seconds'', 4)],
     SYSCALL ''arch_prctl'' 384 [(''option'', 4), (''arg2'', 4)],
     SYSCALL ''bdflush'' 134 [(''func'', 4), (''data'', 4)],
     SYSCALL ''bind'' 361 [(''fd'', 4), (''umyaddr'', 4), (''addrlen'', 4)],
     SYSCALL ''brk'' 45 [(''brk'', 4)],
     SYSCALL ''capget'' 184 [(''header'', 4), (''dataptr'', 4)],
     SYSCALL ''capset'' 185 [(''header'', 4), (''data'', 4)],
     SYSCALL ''chdir'' 12 [(''filename'', 4)],
     SYSCALL ''chmod'' 15 [(''filename'', 4), (''mode'', 2)],
     SYSCALL ''chown'' 212 [(''filename'', 4), (''user'', 4), (''group'', 4)],
     SYSCALL ''chown16'' 182 [(''filename'', 4), (''user'', 2), (''group'', 2)],
     SYSCALL ''chroot'' 61 [(''filename'', 4)],
     SYSCALL ''clock_adjtime'' 343 [(''which_clock'', 4), (''utx'', 4)],
     SYSCALL ''clock_getres'' 266 [(''which_clock'', 4), (''tp'', 4)],
     SYSCALL ''clock_gettime'' 265 [(''which_clock'', 4), (''tp'', 4)]]"

definition i386_syscall_list_2 :: "syscall_descriptor list" where
  "i386_syscall_list_2 = [
     SYSCALL ''clock_nanosleep'' 267 [(''which_clock'', 4), (''flags'', 4), (''rqtp'', 4),
       (''rmtp'', 4)],
     SYSCALL ''clock_settime'' 264 [(''which_clock'', 4), (''tp'', 4)],
     SYSCALL ''clone'' 120 [(''clone_flags'', 4), (''newsp'', 4), (''parent_tidptr'', 4),
       (''tls'', 4), (''child_tidptr'', 4)],
     SYSCALL ''close'' 6 [(''fd'', 4)],
     SYSCALL ''connect'' 362 [(''fd'', 4), (''uservaddr'', 4), (''addrlen'', 4)],
     SYSCALL ''copy_file_range'' 377 [(''fd_in'', 4), (''off_in'', 4), (''fd_out'', 4),
       (''off_out'', 4), (''len'', 4), (''flags'', 4)],
     SYSCALL ''creat'' 8 [(''pathname'', 4), (''mode'', 2)],
     SYSCALL ''delete_module'' 129 [(''name_user'', 4), (''flags'', 4)],
     SYSCALL ''dup'' 41 [(''fildes'', 4)],
     SYSCALL ''dup2'' 63 [(''oldfd'', 4), (''newfd'', 4)],
     SYSCALL ''dup3'' 330 [(''oldfd'', 4), (''newfd'', 4), (''flags'', 4)],
     SYSCALL ''epoll_create'' 254 [(''size'', 4)],
     SYSCALL ''epoll_create1'' 329 [(''flags'', 4)],
     SYSCALL ''epoll_ctl'' 255 [(''epfd'', 4), (''op'', 4), (''fd'', 4), (''event'', 4)],
     SYSCALL ''epoll_pwait'' 319 [(''epfd'', 4), (''events'', 4), (''maxevents'', 4),
       (''timeout'', 4), (''sigmask'', 4), (''sigsetsize'', 4)],
     SYSCALL ''epoll_wait'' 256 [(''epfd'', 4), (''events'', 4), (''maxevents'', 4),
       (''timeout'', 4)],
     SYSCALL ''eventfd'' 323 [(''count'', 4)],
     SYSCALL ''eventfd2'' 328 [(''count'', 4), (''flags'', 4)],
     SYSCALL ''execve'' 11 [(''filename'', 4), (''argv'', 4), (''envp'', 4)]]"

definition i386_syscall_list_3 :: "syscall_descriptor list" where
  "i386_syscall_list_3 = [
     SYSCALL ''execveat'' 358 [(''fd'', 4), (''filename'', 4), (''argv'', 4), (''envp'', 4),
       (''flags'', 4)],
     SYSCALL ''exit'' 1 [(''error_code'', 4)],
     SYSCALL ''exit_group'' 252 [(''error_code'', 4)],
     SYSCALL ''faccessat'' 307 [(''dfd'', 4), (''filename'', 4), (''mode'', 4)],
     SYSCALL ''fadvise64'' 250 [(''fd'', 4), (''offset'', 8), (''len'', 4), (''advice'', 4)],
     SYSCALL ''fadvise64_64'' 272 [(''fd'', 4), (''offset'', 8), (''len'', 8), (''advice'', 4)],
     SYSCALL ''fallocate'' 324 [(''fd'', 4), (''mode'', 4), (''offset'', 8), (''len'', 8)],
     SYSCALL ''fanotify_init'' 338 [(''flags'', 4), (''event_f_flags'', 4)],
     SYSCALL ''fanotify_mark'' 339 [(''fanotify_fd'', 4), (''flags'', 4), (''mask'', 8),
       (''dfd'', 4), (''pathname'', 4)],
     SYSCALL ''fchdir'' 133 [(''fd'', 4)],
     SYSCALL ''fchmod'' 94 [(''fd'', 4), (''mode'', 2)],
     SYSCALL ''fchmodat'' 306 [(''dfd'', 4), (''filename'', 4), (''mode'', 2)],
     SYSCALL ''fchown'' 207 [(''fd'', 4), (''user'', 4), (''group'', 4)],
     SYSCALL ''fchown16'' 95 [(''fd'', 4), (''user'', 2), (''group'', 2)],
     SYSCALL ''fchownat'' 298 [(''dfd'', 4), (''filename'', 4), (''user'', 4), (''group'', 4),
       (''flag'', 4)],
     SYSCALL ''fcntl'' 55 [(''fd'', 4), (''cmd'', 4), (''arg'', 4)],
     SYSCALL ''fcntl64'' 221 [(''fd'', 4), (''cmd'', 4), (''arg'', 4)],
     SYSCALL ''fdatasync'' 148 [(''fd'', 4)]]"

definition i386_syscall_list_4 :: "syscall_descriptor list" where
  "i386_syscall_list_4 = [
     SYSCALL ''fgetxattr'' 231 [(''fd'', 4), (''name'', 4), (''value'', 4), (''size'', 4)],
     SYSCALL ''finit_module'' 350 [(''fd'', 4), (''uargs'', 4), (''flags'', 4)],
     SYSCALL ''flistxattr'' 234 [(''fd'', 4), (''list'', 4), (''size'', 4)],
     SYSCALL ''flock'' 143 [(''fd'', 4), (''cmd'', 4)],
     SYSCALL ''fork'' 2 [],
     SYSCALL ''fremovexattr'' 237 [(''fd'', 4), (''name'', 4)],
     SYSCALL ''fsetxattr'' 228 [(''fd'', 4), (''name'', 4), (''value'', 4), (''size'', 4),
       (''flags'', 4)],
     SYSCALL ''fstat'' 28 [(''fd'', 4), (''statbuf'', 4)],
     SYSCALL ''fstat64'' 197 [(''fd'', 4), (''statbuf'', 4)],
     SYSCALL ''fstatat64'' 300 [(''dfd'', 4), (''filename'', 4), (''statbuf'', 4), (''flag'',
       4)],
     SYSCALL ''fstatfs'' 100 [(''fd'', 4), (''buf'', 4)],
     SYSCALL ''fstatfs64'' 269 [(''fd'', 4), (''sz'', 4), (''buf'', 4)],
     SYSCALL ''fsync'' 118 [(''fd'', 4)],
     SYSCALL ''ftruncate'' 93 [(''fd'', 4), (''length'', 4)],
     SYSCALL ''ftruncate64'' 194 [(''fd'', 4), (''length'', 8)],
     SYSCALL ''futex'' 240 [(''uaddr'', 4), (''op'', 4), (''val'', 4), (''utime'', 4),
       (''uaddr2'', 4), (''val3'', 4)],
     SYSCALL ''futimesat'' 299 [(''dfd'', 4), (''filename'', 4), (''utimes'', 4)],
     SYSCALL ''getcpu'' 318 [(''cpup'', 4), (''nodep'', 4), (''unused'', 4)],
     SYSCALL ''getcwd'' 183 [(''buf'', 4), (''size'', 4)],
     SYSCALL ''getdents'' 141 [(''fd'', 4), (''dirent'', 4), (''count'', 4)]]"

definition i386_syscall_list_5 :: "syscall_descriptor list" where
  "i386_syscall_list_5 = [
     SYSCALL ''getdents64'' 220 [(''fd'', 4), (''dirent'', 4), (''count'', 4)],
     SYSCALL ''getegid'' 202 [],
     SYSCALL ''getegid16'' 50 [],
     SYSCALL ''geteuid'' 201 [],
     SYSCALL ''geteuid16'' 49 [],
     SYSCALL ''getgid'' 200 [],
     SYSCALL ''getgid16'' 47 [],
     SYSCALL ''getgroups'' 205 [(''gidsetsize'', 4), (''grouplist'', 4)],
     SYSCALL ''getgroups16'' 80 [(''gidsetsize'', 4), (''grouplist'', 4)],
     SYSCALL ''getitimer'' 105 [(''which'', 4), (''value'', 4)],
     SYSCALL ''getpeername'' 368 [(''fd'', 4), (''usockaddr'', 4), (''usockaddr_len'', 4)],
     SYSCALL ''getpgid'' 132 [(''pid'', 4)],
     SYSCALL ''getpgrp'' 65 [],
     SYSCALL ''getpid'' 20 [],
     SYSCALL ''getppid'' 64 [],
     SYSCALL ''getpriority'' 96 [(''which'', 4), (''who'', 4)],
     SYSCALL ''getrandom'' 355 [(''buf'', 4), (''count'', 4), (''flags'', 4)],
     SYSCALL ''getresgid'' 211 [(''rgidp'', 4), (''egidp'', 4), (''sgidp'', 4)],
     SYSCALL ''getresgid16'' 171 [(''rgidp'', 4), (''egidp'', 4), (''sgidp'', 4)],
     SYSCALL ''getresuid'' 209 [(''ruidp'', 4), (''euidp'', 4), (''suidp'', 4)],
     SYSCALL ''getresuid16'' 165 [(''ruidp'', 4), (''euidp'', 4), (''suidp'', 4)],
     SYSCALL ''getrlimit'' 191 [(''resource'', 4), (''rlim'', 4)],
     SYSCALL ''get_robust_list'' 312 [(''pid'', 4), (''head_ptr'', 4), (''len_ptr'', 4)],
     SYSCALL ''getrusage'' 77 [(''who'', 4), (''ru'', 4)],
     SYSCALL ''getsid'' 147 [(''pid'', 4)],
     SYSCALL ''getsockname'' 367 [(''fd'', 4), (''usockaddr'', 4), (''usockaddr_len'', 4)],
     SYSCALL ''getsockopt'' 365 [(''fd'', 4), (''level'', 4), (''optname'', 4), (''optval'', 4),
       (''optlen'', 4)]]"

definition i386_syscall_list_6 :: "syscall_descriptor list" where
  "i386_syscall_list_6 = [
     SYSCALL ''get_thread_area'' 244 [(''u_info'', 4)],
     SYSCALL ''gettid'' 224 [],
     SYSCALL ''gettimeofday'' 78 [(''tv'', 4), (''tz'', 4)],
     SYSCALL ''getuid'' 199 [],
     SYSCALL ''getuid16'' 24 [],
     SYSCALL ''getxattr'' 229 [(''pathname'', 4), (''name'', 4), (''value'', 4), (''size'', 4)],
     SYSCALL ''init_module'' 128 [(''umod'', 4), (''len'', 4), (''uargs'', 4)],
     SYSCALL ''inotify_add_watch'' 292 [(''fd'', 4), (''pathname'', 4), (''mask'', 4)],
     SYSCALL ''inotify_init'' 291 [],
     SYSCALL ''inotify_init1'' 332 [(''flags'', 4)],
     SYSCALL ''inotify_rm_watch'' 293 [(''fd'', 4), (''wd'', 4)],
     SYSCALL ''io_cancel'' 249 [(''ctx_id'', 4), (''iocb'', 4), (''result'', 4)],
     SYSCALL ''ioctl'' 54 [(''fd'', 4), (''cmd'', 4), (''arg'', 4)],
     SYSCALL ''io_destroy'' 246 [(''ctx'', 4)],
     SYSCALL ''io_getevents'' 247 [(''ctx_id'', 4), (''min_nr'', 4), (''nr'', 4), (''events'',
       4), (''timeout'', 4)],
     SYSCALL ''ioperm'' 101 [(''from'', 4), (''num'', 4), (''turn_on'', 4)],
     SYSCALL ''iopl'' 110 [(''level'', 4)],
     SYSCALL ''ioprio_get'' 290 [(''which'', 4), (''who'', 4)],
     SYSCALL ''ioprio_set'' 289 [(''which'', 4), (''who'', 4), (''ioprio'', 4)],
     SYSCALL ''io_setup'' 245 [(''nr_events'', 4), (''ctxp'', 4)],
     SYSCALL ''io_submit'' 248 [(''ctx_id'', 4), (''nr'', 4), (''iocbpp'', 4)],
     SYSCALL ''ipc'' 117 [(''call'', 4), (''first'', 4), (''second'', 4), (''third'', 4),
       (''ptr'', 4), (''fifth'', 4)]]"

definition i386_syscall_list_7 :: "syscall_descriptor list" where
  "i386_syscall_list_7 = [
     SYSCALL ''kexec_load'' 283 [(''entry'', 4), (''nr_segments'', 4), (''segments'', 4),
       (''flags'', 4)],
     SYSCALL ''keyctl'' 288 [(''option'', 4), (''arg2'', 4), (''arg3'', 4), (''arg4'', 4),
       (''arg5'', 4)],
     SYSCALL ''kill'' 37 [(''pid'', 4), (''sig'', 4)],
     SYSCALL ''lchown'' 198 [(''filename'', 4), (''user'', 4), (''group'', 4)],
     SYSCALL ''lchown16'' 16 [(''filename'', 4), (''user'', 2), (''group'', 2)],
     SYSCALL ''lgetxattr'' 230 [(''pathname'', 4), (''name'', 4), (''value'', 4), (''size'', 4)],
     SYSCALL ''link'' 9 [(''oldname'', 4), (''newname'', 4)],
     SYSCALL ''linkat'' 303 [(''olddfd'', 4), (''oldname'', 4), (''newdfd'', 4), (''newname'',
       4), (''flags'', 4)],
     SYSCALL ''listen'' 363 [(''fd'', 4), (''backlog'', 4)],
     SYSCALL ''listxattr'' 232 [(''pathname'', 4), (''list'', 4), (''size'', 4)],
     SYSCALL ''llistxattr'' 233 [(''pathname'', 4), (''list'', 4), (''size'', 4)],
     SYSCALL ''llseek'' 140 [(''fd'', 4), (''offset_high'', 4), (''offset_low'', 4), (''result'',
       4), (''whence'', 4)],
     SYSCALL ''lookup_dcookie'' 253 [(''cookie64'', 8), (''buf'', 4), (''len'', 4)],
     SYSCALL ''lremovexattr'' 236 [(''pathname'', 4), (''name'', 4)],
     SYSCALL ''lseek'' 19 [(''fd'', 4), (''offset'', 4), (''whence'', 4)],
     SYSCALL ''lsetxattr'' 227 [(''pathname'', 4), (''name'', 4), (''value'', 4), (''size'', 4),
       (''flags'', 4)],
     SYSCALL ''lstat'' 84 [(''filename'', 4), (''statbuf'', 4)],
     SYSCALL ''lstat64'' 196 [(''filename'', 4), (''statbuf'', 4)]]"

definition i386_syscall_list_8 :: "syscall_descriptor list" where
  "i386_syscall_list_8 = [
     SYSCALL ''madvise'' 219 [(''start'', 4), (''len_in'', 4), (''behavior'', 4)],
     SYSCALL ''membarrier'' 375 [(''cmd'', 4), (''flags'', 4)],
     SYSCALL ''memfd_create'' 356 [(''uname'', 4), (''flags'', 4)],
     SYSCALL ''mincore'' 218 [(''start'', 4), (''len'', 4), (''vec'', 4)],
     SYSCALL ''mkdir'' 39 [(''pathname'', 4), (''mode'', 2)],
     SYSCALL ''mkdirat'' 296 [(''dfd'', 4), (''pathname'', 4), (''mode'', 2)],
     SYSCALL ''mknod'' 14 [(''filename'', 4), (''mode'', 2), (''dev'', 4)],
     SYSCALL ''mknodat'' 297 [(''dfd'', 4), (''filename'', 4), (''mode'', 2), (''dev'', 4)],
     SYSCALL ''mlock'' 150 [(''start'', 4), (''len'', 4)],
     SYSCALL ''mlock2'' 376 [(''start'', 4), (''len'', 4), (''flags'', 4)],
     SYSCALL ''mlockall'' 152 [(''flags'', 4)],
     SYSCALL ''mmap_pgoff'' 192 [(''addr'', 4), (''len'', 4), (''prot'', 4), (''flags'', 4),
       (''fd'', 4), (''pgoff'', 4)],
     SYSCALL ''modify_ldt'' 123 [(''func'', 4), (''ptr'', 4), (''bytecount'', 4)],
     SYSCALL ''mount'' 21 [(''dev_name'', 4), (''dir_name'', 4), (''type'', 4), (''flags'', 4),
       (''data'', 4)],
     SYSCALL ''mprotect'' 125 [(''start'', 4), (''len'', 4), (''prot'', 4)],
     SYSCALL ''mq_getsetattr'' 282 [(''mqdes'', 4), (''u_mqstat'', 4), (''u_omqstat'', 4)],
     SYSCALL ''mq_notify'' 281 [(''mqdes'', 4), (''u_notification'', 4)],
     SYSCALL ''mq_open'' 277 [(''u_name'', 4), (''oflag'', 4), (''mode'', 2), (''u_attr'', 4)]]"

definition i386_syscall_list_9 :: "syscall_descriptor list" where
  "i386_syscall_list_9 = [
     SYSCALL ''mq_timedreceive'' 280 [(''mqdes'', 4), (''u_msg_ptr'', 4), (''msg_len'', 4),
       (''u_msg_prio'', 4), (''u_abs_timeout'', 4)],
     SYSCALL ''mq_timedsend'' 279 [(''mqdes'', 4), (''u_msg_ptr'', 4), (''msg_len'', 4),
       (''msg_prio'', 4), (''u_abs_timeout'', 4)],
     SYSCALL ''mq_unlink'' 278 [(''u_name'', 4)],
     SYSCALL ''mremap'' 163 [(''addr'', 4), (''old_len'', 4), (''new_len'', 4), (''flags'', 4),
       (''new_addr'', 4)],
     SYSCALL ''msync'' 144 [(''start'', 4), (''len'', 4), (''flags'', 4)],
     SYSCALL ''munlock'' 151 [(''start'', 4), (''len'', 4)],
     SYSCALL ''munlockall'' 153 [],
     SYSCALL ''munmap'' 91 [(''addr'', 4), (''len'', 4)],
     SYSCALL ''name_to_handle_at'' 341 [(''dfd'', 4), (''name'', 4), (''handle'', 4),
       (''mnt_id'', 4), (''flag'', 4)],
     SYSCALL ''nanosleep'' 162 [(''rqtp'', 4), (''rmtp'', 4)],
     SYSCALL ''newfstat'' 108 [(''fd'', 4), (''statbuf'', 4)],
     SYSCALL ''newlstat'' 107 [(''filename'', 4), (''statbuf'', 4)],
     SYSCALL ''newstat'' 106 [(''filename'', 4), (''statbuf'', 4)],
     SYSCALL ''newuname'' 122 [(''name'', 4)],
     SYSCALL ''nice'' 34 [(''increment'', 4)],
     SYSCALL ''old_getrlimit'' 76 [(''resource'', 4), (''rlim'', 4)],
     SYSCALL ''old_mmap'' 90 [(''arg'', 4)],
     SYSCALL ''old_readdir'' 89 [(''fd'', 4), (''dirent'', 4), (''count'', 4)],
     SYSCALL ''old_select'' 82 [(''arg'', 4)],
     SYSCALL ''oldumount'' 22 [(''name'', 4)],
     SYSCALL ''olduname'' 59 [(''name'', 4)]]"

definition i386_syscall_list_10 :: "syscall_descriptor list" where
  "i386_syscall_list_10 = [
     SYSCALL ''open'' 5 [(''filename'', 4), (''flags'', 4), (''mode'', 2)],
     SYSCALL ''openat'' 295 [(''dfd'', 4), (''filename'', 4), (''flags'', 4), (''mode'', 2)],
     SYSCALL ''open_by_handle_at'' 342 [(''mountdirfd'', 4), (''handle'', 4), (''flags'', 4)],
     SYSCALL ''pause'' 29 [],
     SYSCALL ''perf_event_open'' 336 [(''attr_uptr'', 4), (''pid'', 4), (''cpu'', 4),
       (''group_fd'', 4), (''flags'', 4)],
     SYSCALL ''personality'' 136 [(''personality'', 4)],
     SYSCALL ''pipe'' 42 [(''fildes'', 4)],
     SYSCALL ''pipe2'' 331 [(''fildes'', 4), (''flags'', 4)],
     SYSCALL ''pivot_root'' 217 [(''new_root'', 4), (''put_old'', 4)],
     SYSCALL ''poll'' 168 [(''ufds'', 4), (''nfds'', 4), (''timeout_msecs'', 4)],
     SYSCALL ''ppoll'' 309 [(''ufds'', 4), (''nfds'', 4), (''tsp'', 4), (''sigmask'', 4),
       (''sigsetsize'', 4)],
     SYSCALL ''prctl'' 172 [(''option'', 4), (''arg2'', 4), (''arg3'', 4), (''arg4'', 4),
       (''arg5'', 4)],
     SYSCALL ''pread64'' 180 [(''fd'', 4), (''buf'', 4), (''count'', 4), (''pos'', 8)],
     SYSCALL ''preadv'' 333 [(''fd'', 4), (''vec'', 4), (''vlen'', 4), (''pos_l'', 4),
       (''pos_h'', 4)],
     SYSCALL ''preadv2'' 378 [(''fd'', 4), (''vec'', 4), (''vlen'', 4), (''pos_l'', 4),
       (''pos_h'', 4), (''flags'', 4)],
     SYSCALL ''prlimit64'' 340 [(''pid'', 4), (''resource'', 4), (''new_rlim'', 4),
       (''old_rlim'', 4)],
     SYSCALL ''process_vm_readv'' 347 [(''pid'', 4), (''lvec'', 4), (''liovcnt'', 4), (''rvec'',
       4), (''riovcnt'', 4), (''flags'', 4)]]"

definition i386_syscall_list_11 :: "syscall_descriptor list" where
  "i386_syscall_list_11 = [
     SYSCALL ''process_vm_writev'' 348 [(''pid'', 4), (''lvec'', 4), (''liovcnt'', 4), (''rvec'',
       4), (''riovcnt'', 4), (''flags'', 4)],
     SYSCALL ''pselect6'' 308 [(''n'', 4), (''inp'', 4), (''outp'', 4), (''exp'', 4), (''tsp'',
       4), (''sig'', 4)],
     SYSCALL ''ptrace'' 26 [(''request'', 4), (''pid'', 4), (''addr'', 4), (''data'', 4)],
     SYSCALL ''pwrite64'' 181 [(''fd'', 4), (''buf'', 4), (''count'', 4), (''pos'', 8)],
     SYSCALL ''pwritev'' 334 [(''fd'', 4), (''vec'', 4), (''vlen'', 4), (''pos_l'', 4),
       (''pos_h'', 4)],
     SYSCALL ''pwritev2'' 379 [(''fd'', 4), (''vec'', 4), (''vlen'', 4), (''pos_l'', 4),
       (''pos_h'', 4), (''flags'', 4)],
     SYSCALL ''quotactl'' 131 [(''cmd'', 4), (''special'', 4), (''id'', 4), (''addr'', 4)],
     SYSCALL ''read'' 3 [(''fd'', 4), (''buf'', 4), (''count'', 4)],
     SYSCALL ''readahead'' 225 [(''fd'', 4), (''offset'', 8), (''count'', 4)],
     SYSCALL ''readlink'' 85 [(''path'', 4), (''buf'', 4), (''bufsiz'', 4)],
     SYSCALL ''readlinkat'' 305 [(''dfd'', 4), (''pathname'', 4), (''buf'', 4), (''bufsiz'', 4)],
     SYSCALL ''readv'' 145 [(''fd'', 4), (''vec'', 4), (''vlen'', 4)],
     SYSCALL ''reboot'' 88 [(''magic1'', 4), (''magic2'', 4), (''cmd'', 4), (''arg'', 4)],
     SYSCALL ''recvfrom'' 371 [(''fd'', 4), (''ubuf'', 4), (''size'', 4), (''flags'', 4),
       (''addr'', 4), (''addr_len'', 4)],
     SYSCALL ''recvmmsg'' 337 [(''fd'', 4), (''mmsg'', 4), (''vlen'', 4), (''flags'', 4),
       (''timeout'', 4)],
     SYSCALL ''recvmsg'' 372 [(''fd'', 4), (''msg'', 4), (''flags'', 4)]]"

definition i386_syscall_list_12 :: "syscall_descriptor list" where
  "i386_syscall_list_12 = [
     SYSCALL ''remap_file_pages'' 257 [(''start'', 4), (''size'', 4), (''prot'', 4), (''pgoff'',
       4), (''flags'', 4)],
     SYSCALL ''removexattr'' 235 [(''pathname'', 4), (''name'', 4)],
     SYSCALL ''rename'' 38 [(''oldname'', 4), (''newname'', 4)],
     SYSCALL ''renameat'' 302 [(''olddfd'', 4), (''oldname'', 4), (''newdfd'', 4), (''newname'',
       4)],
     SYSCALL ''renameat2'' 353 [(''olddfd'', 4), (''oldname'', 4), (''newdfd'', 4), (''newname'',
       4), (''flags'', 4)],
     SYSCALL ''request_key'' 287 [(''_type'', 4), (''_description'', 4), (''_callout_info'', 4),
       (''destringid'', 4)],
     SYSCALL ''restart_syscall'' 0 [],
     SYSCALL ''rmdir'' 40 [(''pathname'', 4)],
     SYSCALL ''rt_sigaction'' 174 [(''sig'', 4), (''act'', 4), (''oact'', 4), (''sigsetsize'',
       4)],
     SYSCALL ''rt_sigpending'' 176 [(''uset'', 4), (''sigsetsize'', 4)],
     SYSCALL ''rt_sigprocmask'' 175 [(''how'', 4), (''nset'', 4), (''oset'', 4), (''sigsetsize'',
       4)],
     SYSCALL ''rt_sigqueueinfo'' 178 [(''pid'', 4), (''sig'', 4), (''uinfo'', 4)],
     SYSCALL ''rt_sigsuspend'' 179 [(''unewset'', 4), (''sigsetsize'', 4)],
     SYSCALL ''rt_sigtimedwait'' 177 [(''uthese'', 4), (''uinfo'', 4), (''uts'', 4),
       (''sigsetsize'', 4)],
     SYSCALL ''rt_tgsigqueueinfo'' 335 [(''tgid'', 4), (''pid'', 4), (''sig'', 4), (''uinfo'',
       4)],
     SYSCALL ''sched_getaffinity'' 242 [(''pid'', 4), (''len'', 4), (''user_mask_ptr'', 4)],
     SYSCALL ''sched_getattr'' 352 [(''pid'', 4), (''uattr'', 4), (''size'', 4), (''flags'', 4)],
     SYSCALL ''sched_getparam'' 155 [(''pid'', 4), (''param'', 4)],
     SYSCALL ''sched_get_priority_max'' 159 [(''policy'', 4)]]"

definition i386_syscall_list_13 :: "syscall_descriptor list" where
  "i386_syscall_list_13 = [
     SYSCALL ''sched_get_priority_min'' 160 [(''policy'', 4)],
     SYSCALL ''sched_getscheduler'' 157 [(''pid'', 4)],
     SYSCALL ''sched_rr_get_interval'' 161 [(''pid'', 4), (''interval'', 4)],
     SYSCALL ''sched_setaffinity'' 241 [(''pid'', 4), (''len'', 4), (''user_mask_ptr'', 4)],
     SYSCALL ''sched_setattr'' 351 [(''pid'', 4), (''uattr'', 4), (''flags'', 4)],
     SYSCALL ''sched_setparam'' 154 [(''pid'', 4), (''param'', 4)],
     SYSCALL ''sched_setscheduler'' 156 [(''pid'', 4), (''policy'', 4), (''param'', 4)],
     SYSCALL ''sched_yield'' 158 [],
     SYSCALL ''seccomp'' 354 [(''op'', 4), (''flags'', 4), (''uargs'', 4)],
     SYSCALL ''select'' 142 [(''n'', 4), (''inp'', 4), (''outp'', 4), (''exp'', 4), (''tvp'',
       4)],
     SYSCALL ''sendfile'' 187 [(''out_fd'', 4), (''in_fd'', 4), (''offset'', 4), (''count'', 4)],
     SYSCALL ''sendfile64'' 239 [(''out_fd'', 4), (''in_fd'', 4), (''offset'', 4), (''count'',
       4)],
     SYSCALL ''sendmmsg'' 345 [(''fd'', 4), (''mmsg'', 4), (''vlen'', 4), (''flags'', 4)],
     SYSCALL ''sendmsg'' 370 [(''fd'', 4), (''msg'', 4), (''flags'', 4)],
     SYSCALL ''sendto'' 369 [(''fd'', 4), (''buff'', 4), (''len'', 4), (''flags'', 4), (''addr'',
       4), (''addr_len'', 4)],
     SYSCALL ''setdomainname'' 121 [(''name'', 4), (''len'', 4)],
     SYSCALL ''setfsgid'' 216 [(''gid'', 4)],
     SYSCALL ''setfsgid16'' 139 [(''gid'', 2)],
     SYSCALL ''setfsuid'' 215 [(''uid'', 4)],
     SYSCALL ''setfsuid16'' 138 [(''uid'', 2)]]"

definition i386_syscall_list_14 :: "syscall_descriptor list" where
  "i386_syscall_list_14 = [
     SYSCALL ''setgid'' 214 [(''gid'', 4)],
     SYSCALL ''setgid16'' 46 [(''gid'', 2)],
     SYSCALL ''setgroups'' 206 [(''gidsetsize'', 4), (''grouplist'', 4)],
     SYSCALL ''setgroups16'' 81 [(''gidsetsize'', 4), (''grouplist'', 4)],
     SYSCALL ''sethostname'' 74 [(''name'', 4), (''len'', 4)],
     SYSCALL ''setitimer'' 104 [(''which'', 4), (''value'', 4), (''ovalue'', 4)],
     SYSCALL ''setns'' 346 [(''fd'', 4), (''nstype'', 4)],
     SYSCALL ''setpgid'' 57 [(''pid'', 4), (''pgid'', 4)],
     SYSCALL ''setpriority'' 97 [(''which'', 4), (''who'', 4), (''niceval'', 4)],
     SYSCALL ''setregid'' 204 [(''rgid'', 4), (''egid'', 4)],
     SYSCALL ''setregid16'' 71 [(''rgid'', 2), (''egid'', 2)],
     SYSCALL ''setresgid'' 210 [(''rgid'', 4), (''egid'', 4), (''sgid'', 4)],
     SYSCALL ''setresgid16'' 170 [(''rgid'', 2), (''egid'', 2), (''sgid'', 2)],
     SYSCALL ''setresuid'' 208 [(''ruid'', 4), (''euid'', 4), (''suid'', 4)],
     SYSCALL ''setresuid16'' 164 [(''ruid'', 2), (''euid'', 2), (''suid'', 2)],
     SYSCALL ''setreuid'' 203 [(''ruid'', 4), (''euid'', 4)],
     SYSCALL ''setreuid16'' 70 [(''ruid'', 2), (''euid'', 2)],
     SYSCALL ''setrlimit'' 75 [(''resource'', 4), (''rlim'', 4)],
     SYSCALL ''set_robust_list'' 311 [(''head'', 4), (''len'', 4)],
     SYSCALL ''setsid'' 66 [],
     SYSCALL ''setsockopt'' 366 [(''fd'', 4), (''level'', 4), (''optname'', 4), (''optval'', 4),
       (''optlen'', 4)]]"

definition i386_syscall_list_15 :: "syscall_descriptor list" where
  "i386_syscall_list_15 = [
     SYSCALL ''set_thread_area'' 243 [(''u_info'', 4)],
     SYSCALL ''set_tid_address'' 258 [(''tidptr'', 4)],
     SYSCALL ''settimeofday'' 79 [(''tv'', 4), (''tz'', 4)],
     SYSCALL ''setuid'' 213 [(''uid'', 4)],
     SYSCALL ''setuid16'' 23 [(''uid'', 2)],
     SYSCALL ''setxattr'' 226 [(''pathname'', 4), (''name'', 4), (''value'', 4), (''size'', 4),
       (''flags'', 4)],
     SYSCALL ''sgetmask'' 68 [],
     SYSCALL ''shutdown'' 373 [(''fd'', 4), (''how'', 4)],
     SYSCALL ''sigaction'' 67 [(''sig'', 4), (''act'', 4), (''oact'', 4)],
     SYSCALL ''sigaltstack'' 186 [(''uss'', 4), (''uoss'', 4)],
     SYSCALL ''signal'' 48 [(''sig'', 4), (''handler'', 4)],
     SYSCALL ''signalfd'' 321 [(''ufd'', 4), (''user_mask'', 4), (''sizemask'', 4)],
     SYSCALL ''signalfd4'' 327 [(''ufd'', 4), (''user_mask'', 4), (''sizemask'', 4), (''flags'',
       4)],
     SYSCALL ''sigpending'' 73 [(''set'', 4)],
     SYSCALL ''sigprocmask'' 126 [(''how'', 4), (''nset'', 4), (''oset'', 4)],
     SYSCALL ''sigsuspend'' 72 [(''unused1'', 4), (''unused2'', 4), (''mask'', 4)],
     SYSCALL ''socket'' 359 [(''family'', 4), (''type'', 4), (''protocol'', 4)],
     SYSCALL ''socketcall'' 102 [(''call'', 4), (''args'', 4)],
     SYSCALL ''socketpair'' 360 [(''family'', 4), (''type'', 4), (''protocol'', 4),
       (''usockvec'', 4)],
     SYSCALL ''splice'' 313 [(''fd_in'', 4), (''off_in'', 4), (''fd_out'', 4), (''off_out'', 4),
       (''len'', 4), (''flags'', 4)]]"

definition i386_syscall_list_16 :: "syscall_descriptor list" where
  "i386_syscall_list_16 = [
     SYSCALL ''ssetmask'' 69 [(''newmask'', 4)],
     SYSCALL ''stat'' 18 [(''filename'', 4), (''statbuf'', 4)],
     SYSCALL ''stat64'' 195 [(''filename'', 4), (''statbuf'', 4)],
     SYSCALL ''statfs'' 99 [(''pathname'', 4), (''buf'', 4)],
     SYSCALL ''statfs64'' 268 [(''pathname'', 4), (''sz'', 4), (''buf'', 4)],
     SYSCALL ''statx'' 383 [(''dfd'', 4), (''filename'', 4), (''flags'', 4), (''mask'', 4),
       (''buffer'', 4)],
     SYSCALL ''stime'' 25 [(''tptr'', 4)],
     SYSCALL ''swapoff'' 115 [(''specialfile'', 4)],
     SYSCALL ''swapon'' 87 [(''specialfile'', 4), (''swap_flags'', 4)],
     SYSCALL ''symlink'' 83 [(''oldname'', 4), (''newname'', 4)],
     SYSCALL ''symlinkat'' 304 [(''oldname'', 4), (''newdfd'', 4), (''newname'', 4)],
     SYSCALL ''sync'' 36 [],
     SYSCALL ''sync_file_range'' 314 [(''fd'', 4), (''offset'', 8), (''nbytes'', 8), (''flags'',
       4)],
     SYSCALL ''syncfs'' 344 [(''fd'', 4)],
     SYSCALL ''sysctl'' 149 [(''args'', 4)],
     SYSCALL ''sysfs'' 135 [(''option'', 4), (''arg1'', 4), (''arg2'', 4)],
     SYSCALL ''sysinfo'' 116 [(''info'', 4)],
     SYSCALL ''syslog'' 103 [(''type'', 4), (''buf'', 4), (''len'', 4)],
     SYSCALL ''tee'' 315 [(''fdin'', 4), (''fdout'', 4), (''len'', 4), (''flags'', 4)],
     SYSCALL ''tgkill'' 270 [(''tgid'', 4), (''pid'', 4), (''sig'', 4)],
     SYSCALL ''time'' 13 [(''tloc'', 4)]]"

definition i386_syscall_list_17 :: "syscall_descriptor list" where
  "i386_syscall_list_17 = [
     SYSCALL ''timer_create'' 259 [(''which_clock'', 4), (''timer_event_spec'', 4),
       (''created_timer_id'', 4)],
     SYSCALL ''timer_delete'' 263 [(''timer_id'', 4)],
     SYSCALL ''timerfd_create'' 322 [(''clockid'', 4), (''flags'', 4)],
     SYSCALL ''timerfd_gettime'' 326 [(''ufd'', 4), (''otmr'', 4)],
     SYSCALL ''timerfd_settime'' 325 [(''ufd'', 4), (''flags'', 4), (''utmr'', 4), (''otmr'',
       4)],
     SYSCALL ''timer_getoverrun'' 262 [(''timer_id'', 4)],
     SYSCALL ''timer_gettime'' 261 [(''timer_id'', 4), (''setting'', 4)],
     SYSCALL ''timer_settime'' 260 [(''timer_id'', 4), (''flags'', 4), (''new_setting'', 4),
       (''old_setting'', 4)],
     SYSCALL ''times'' 43 [(''tbuf'', 4)],
     SYSCALL ''tkill'' 238 [(''pid'', 4), (''sig'', 4)],
     SYSCALL ''truncate'' 92 [(''path'', 4), (''length'', 4)],
     SYSCALL ''truncate64'' 193 [(''path'', 4), (''length'', 8)],
     SYSCALL ''umask'' 60 [(''mask'', 4)],
     SYSCALL ''umount'' 52 [(''name'', 4), (''flags'', 4)],
     SYSCALL ''uname'' 109 [(''name'', 4)],
     SYSCALL ''unlink'' 10 [(''pathname'', 4)],
     SYSCALL ''unlinkat'' 301 [(''dfd'', 4), (''pathname'', 4), (''flag'', 4)],
     SYSCALL ''unshare'' 310 [(''unshare_flags'', 4)],
     SYSCALL ''ustat'' 62 [(''dev'', 4), (''ubuf'', 4)],
     SYSCALL ''utime'' 30 [(''filename'', 4), (''times'', 4)],
     SYSCALL ''utimensat'' 320 [(''dfd'', 4), (''filename'', 4), (''utimes'', 4), (''flags'',
       4)]]"

definition i386_syscall_list_18 :: "syscall_descriptor list" where
  "i386_syscall_list_18 = [
     SYSCALL ''utimes'' 271 [(''filename'', 4), (''utimes'', 4)],
     SYSCALL ''vfork'' 190 [],
     SYSCALL ''vhangup'' 111 [],
     SYSCALL ''vm86'' 166 [(''cmd'', 4), (''arg'', 4)],
     SYSCALL ''vm86old'' 113 [(''user_vm86'', 4)],
     SYSCALL ''vmsplice'' 316 [(''fd'', 4), (''iov'', 4), (''nr_segs'', 4), (''flags'', 4)],
     SYSCALL ''wait4'' 114 [(''upid'', 4), (''stat_addr'', 4), (''options'', 4), (''ru'', 4)],
     SYSCALL ''waitid'' 284 [(''which'', 4), (''upid'', 4), (''infop'', 4), (''options'', 4),
       (''ru'', 4)],
     SYSCALL ''waitpid'' 7 [(''pid'', 4), (''stat_addr'', 4), (''options'', 4)],
     SYSCALL ''write'' 4 [(''fd'', 4), (''buf'', 4), (''count'', 4)],
     SYSCALL ''writev'' 146 [(''fd'', 4), (''vec'', 4), (''vlen'', 4)]]"

definition i386_syscall_list :: "syscall_descriptor list" where
  "i386_syscall_list = concat [
     i386_syscall_list_1,
     i386_syscall_list_2,
     i386_syscall_list_3,
     i386_syscall_list_4,
     i386_syscall_list_5,
     i386_syscall_list_6,
     i386_syscall_list_7,
     i386_syscall_list_8,
     i386_syscall_list_9,
     i386_syscall_list_10,
     i386_syscall_list_11,
     i386_syscall_list_12,
     i386_syscall_list_13,
     i386_syscall_list_14,
     i386_syscall_list_15,
     i386_syscall_list_16,
     i386_syscall_list_17,
     i386_syscall_list_18]"

lemmas i386_syscall_defs =
  i386_syscall_list_def
  i386_syscall_list_1_def
  i386_syscall_list_2_def
  i386_syscall_list_3_def
  i386_syscall_list_4_def
  i386_syscall_list_5_def
  i386_syscall_list_6_def
  i386_syscall_list_7_def
  i386_syscall_list_8_def
  i386_syscall_list_9_def
  i386_syscall_list_10_def
  i386_syscall_list_11_def
  i386_syscall_list_12_def
  i386_syscall_list_13_def
  i386_syscall_list_14_def
  i386_syscall_list_15_def
  i386_syscall_list_16_def
  i386_syscall_list_17_def
  i386_syscall_list_18_def

end
