(* ===== verification/Syscalldb_Tables.thy ===== *)
theory Syscalldb_Tables
  imports Syscalldb_Total Syscalls_Arm Syscalls_Aarch64 Syscalls_Amd64 Syscalls_Mipso32
    Syscalls_Mips64 Syscalls_I386
begin

text \<open>
  The tables that are shipped with the library, \<open>syscall_lists\<close> of
  \<open>kafel/src/syscalls/syscalldb_generator.c\<close>, satisfy what the generator needs of its input. One
  pass over a table checks its entries, counts the words and the characters its entries may take
  in the database, and sees that no name comes twice: without their underscores the names of
  every table are in ascending order. The pass is evaluated by rewriting, with one equation per
  entry.
\<close>

definition syscall_lists :: "syscall_list list" where
  "syscall_lists =
     [\<lparr>list_arch_mask = SYSCALLDB_ARCH_ARM_FLAG, list_pointer_size = 4,
       list_syscalls = arm_syscall_list\<rparr>,
      \<lparr>list_arch_mask = SYSCALLDB_ARCH_AARCH64_FLAG, list_pointer_size = 8,
       list_syscalls = aarch64_syscall_list\<rparr>,
      \<lparr>list_arch_mask = SYSCALLDB_ARCH_X86_64_FLAG, list_pointer_size = 8,
       list_syscalls = amd64_syscall_list\<rparr>,
      \<lparr>list_arch_mask = SYSCALLDB_ARCH_MIPS_FLAG, list_pointer_size = 4,
       list_syscalls = mipso32_syscall_list\<rparr>,
      \<lparr>list_arch_mask = SYSCALLDB_ARCH_MIPS64_FLAG, list_pointer_size = 8,
       list_syscalls = mips64_syscall_list\<rparr>,
      \<lparr>list_arch_mask = SYSCALLDB_ARCH_I386_FLAG, list_pointer_size = 4,
       list_syscalls = i386_syscall_list\<rparr>]"

section \<open>A pass over a table\<close>

definition plain :: "string \<Rightarrow> string" where
  "plain s = filter (\<lambda>c. c \<noteq> CHR ''_'') s"

definition printable :: "string \<Rightarrow> bool" where
  "printable s \<longleftrightarrow> CHR 0x00 \<notin> set s"

definition good_size :: "int \<Rightarrow> bool" where
  "good_size s \<longleftrightarrow> 0 < s \<and> s \<le> SYSCALLDB_MAX_ARGTYPE"

fun earlier :: "string \<Rightarrow> string \<Rightarrow> bool" where
  "earlier [] ys \<longleftrightarrow> ys \<noteq> []"
| "earlier (x # xs) [] \<longleftrightarrow> False"
| "earlier (x # xs) (y # ys) \<longleftrightarrow>
     (if x = y then earlier xs ys else (of_char x :: nat) < of_char y)"

fun good_args :: "(string \<times> int) list \<Rightarrow> bool" where
  "good_args [] \<longleftrightarrow> True"
| "good_args ((a, s) # as) \<longleftrightarrow> printable a \<and> good_size s \<and> good_args as"

fun pool_use :: "nat \<Rightarrow> (string \<times> int) list \<Rightarrow> nat" where
  "pool_use n [] = n"
| "pool_use n (([], s) # as) = pool_use (n + 1) as"
| "pool_use n ((x # a, s) # as) = pool_use (n + 1) ((a, s) # as)"

fun survey :: "string \<Rightarrow> nat \<Rightarrow> nat \<Rightarrow> nat \<Rightarrow> nat \<Rightarrow> syscall_descriptor list \<Rightarrow> bool" where
  "survey prev w c nw nc [] \<longleftrightarrow> w = nw \<and> c = nc"
| "survey prev w c nw nc (d # ds) \<longleftrightarrow>
     earlier prev (plain (dname d)) \<and> desc_ok d \<and> desc_sized d \<and>
     survey (plain (dname d)) (w + desc_words d) (c + desc_chars d) nw nc ds"

definition survey_step ::
  "string \<Rightarrow> string \<Rightarrow> nat \<Rightarrow> nat \<Rightarrow> nat \<Rightarrow> nat \<Rightarrow> syscall_descriptor list \<Rightarrow> bool" where
  "survey_step prev key w c nw nc ds \<longleftrightarrow>
     earlier prev key \<and> survey key w c nw nc ds"

lemma plain_simps:
  "plain [] = []" "plain (CHR ''_'' # s) = plain s"
  "plain (Char b0 b1 b2 b3 b4 True b6 b7 # s) = Char b0 b1 b2 b3 b4 True b6 b7 # plain s"
  by (simp_all add: plain_def)

lemma printable_simps:
  "printable []" "printable (Char b0 b1 b2 b3 b4 b5 True b7 # s) = printable s"
  "printable (Char b0 b1 b2 b3 b4 True b6 b7 # s) = printable s"
  by (simp_all add: printable_def)

lemma good_size_simps: "good_size 1" "good_size 2" "good_size 4" "good_size 8"
  by (simp_all add: good_size_def)

lemma good_args_iff:
  "good_args as \<longleftrightarrow> (\<forall>(a, s) \<in> set as. CHR 0x00 \<notin> set a \<and> 0 < s \<and> s \<le> 8)"
  by (induction as rule: good_args.induct) (auto simp: printable_def good_size_def)

lemma pool_use_sum: "pool_use n as = n + (\<Sum>(a, s)\<leftarrow>as. Suc (length a))"
  by (induction n as rule: pool_use.induct) auto

lemma sentinel_simps:
  "Char b0 b1 b2 b3 b4 b5 False False # n \<le> sentinel"
  "Char b0 b1 b2 b3 False b5 b6 False # n \<le> sentinel"
  "Char b0 b1 b2 False b4 b5 b6 False # n \<le> sentinel"
  "Char b0 b1 False b3 b4 b5 b6 False # n \<le> sentinel"
  "Char b0 False b2 b3 b4 b5 b6 False # n \<le> sentinel"
  "Char False b1 b2 b3 b4 b5 b6 False # n \<le> sentinel"
  "Char b0 b1 b2 b3 b4 False b6 False # n \<le> sentinel"
  by (simp_all add: sentinel_def less_char_def of_char_def split: bool.split)

lemma SYSCALL_row:
  "dname (SYSCALL n m as) = n"
  "desc_ok (SYSCALL n m as) \<and> desc_sized (SYSCALL n m as) \<longleftrightarrow>
     n \<le> sentinel \<and> length as \<le> 6 \<and> good_args as"
  "desc_words (SYSCALL n m as) = 3 + 2 * length as"
  "desc_chars (SYSCALL n m as) = (\<Sum>(a, s)\<leftarrow>as. Suc (length a))"
  by (auto simp: desc_ok_def desc_sized_def good_args_iff SYSCALL_def image_iff split_def
      desc_words_def desc_chars_def map_filter_def o_def)

lemma survey_row:
  "survey prev w c nw nc (SYSCALL n m as # ds) \<longleftrightarrow>
     n \<le> sentinel \<and> length as \<le> 6 \<and> good_args as \<and>
     survey_step prev (plain n) (w + (3 + 2 * length as)) (pool_use c as) nw nc ds"
  using SYSCALL_row(2) [of n m as]
  by (auto simp: survey_step_def SYSCALL_row(1,3,4) pool_use_sum)

lemmas survey_simps = survey_row survey_step_def plain_simps printable_simps good_size_simps
  sentinel_simps
lemma survey_arm: "survey [] 0 0 3030 5864 arm_syscall_list"
  unfolding arm_syscall_defs concat.simps append.simps
  by (simp add: survey_simps del: survey.simps(2))

lemma survey_aarch64: "survey [] 0 0 2361 4716 aarch64_syscall_list"
  unfolding aarch64_syscall_defs concat.simps append.simps
  by (simp add: survey_simps del: survey.simps(2))

lemma survey_amd64: "survey [] 0 0 2735 5381 amd64_syscall_list"
  unfolding amd64_syscall_defs concat.simps append.simps
  by (simp add: survey_simps del: survey.simps(2))

lemma survey_mipso32: "survey [] 0 0 2673 5211 mipso32_syscall_list"
  unfolding mipso32_syscall_defs concat.simps append.simps
  by (simp add: survey_simps del: survey.simps(2))

lemma survey_mips64: "survey [] 0 0 2361 4716 mips64_syscall_list"
  unfolding mips64_syscall_defs concat.simps append.simps
  by (simp add: survey_simps del: survey.simps(2))

lemma survey_i386: "survey [] 0 0 2847 5514 i386_syscall_list"
  unfolding i386_syscall_defs concat.simps append.simps
  by (simp add: survey_simps del: survey.simps(2))


section \<open>What the pass shows\<close>

lemma earlier_less: "earlier s t \<longleftrightarrow> s < t"
proof (induction s t rule: earlier.induct)
  case (1 ys)
  then show ?case by (cases ys) auto
qed (auto simp: less_char_def)

lemma survey_sound:
  "survey prev w c nw nc ds \<Longrightarrow>
     sorted_wrt (<) (prev # map (plain \<circ> dname) ds) \<and>
     (\<forall>d \<in> set ds. desc_ok d \<and> desc_sized d) \<and>
     w + (\<Sum>d\<leftarrow>ds. desc_words d) = nw \<and> c + (\<Sum>d\<leftarrow>ds. desc_chars d) = nc"
proof (induction prev w c nw nc ds rule: survey.induct)
  case (2 prev w c nw nc d ds)
  then show ?case by (auto simp: earlier_less add.assoc dest: order.strict_trans)
qed simp

lemma surveyD:
  assumes "survey [] 0 0 nw nc ds"
  shows "distinct (map dname ds)" and "\<forall>d \<in> set ds. desc_ok d" and "\<forall>d \<in> set ds. desc_sized d"
    and "(\<Sum>d\<leftarrow>ds. desc_words d) = nw" and "(\<Sum>d\<leftarrow>ds. desc_chars d) = nc"
proof -
  note s = survey_sound [OF assms]
  then have "distinct (map plain (map dname ds))" by (simp add: strict_sorted_iff)
  then show "distinct (map dname ds)" by (simp only: distinct_map)
qed (use survey_sound [OF assms] in auto)

lemmas shipped_surveys = survey_arm survey_aarch64 survey_amd64 survey_mipso32 survey_mips64
  survey_i386

lemma shipped_tables:
  "tables_ok syscall_lists" "table_words syscall_lists = 16007" "table_chars syscall_lists = 31402"
  "\<forall>l \<in> set syscall_lists. popcount (list_arch_mask l) = 1 \<and>
     distinct (map dname (list_syscalls l)) \<and> (\<forall>d \<in> set (list_syscalls l). desc_sized d)"
proof -
  note facts = shipped_surveys [THEN surveyD(1)] shipped_surveys [THEN surveyD(2)]
    shipped_surveys [THEN surveyD(3)] shipped_surveys [THEN surveyD(4)]
    shipped_surveys [THEN surveyD(5)]
  show "tables_ok syscall_lists"
    unfolding tables_ok_def syscall_lists_def using facts by simp
  show "table_words syscall_lists = 16007" "table_chars syscall_lists = 31402"
    unfolding table_words_def table_chars_def syscall_lists_def using facts by simp_all
  have "popcount 0x01 = 1" "popcount 0x02 = 1" "popcount 0x04 = 1" "popcount 0x08 = 1"
    "popcount 0x10 = 1" "popcount 0x20 = 1" by code_simp+
  then show "\<forall>l \<in> set syscall_lists. popcount (list_arch_mask l) = 1 \<and>
     distinct (map dname (list_syscalls l)) \<and> (\<forall>d \<in> set (list_syscalls l). desc_sized d)"
    unfolding syscall_lists_def using facts by simp
qed

lemma shipped_generator: "\<exists>out. generator_main syscall_lists = Some out"
  by (rule generator_total [OF shipped_tables(1) _ _ shipped_tables(4)])
     (simp_all add: shipped_tables)

end
