(* ===== verification/Syscalldb_Shipped.thy ===== *)
theory Syscalldb_Shipped
  imports Syscalldb_Tables
begin

text \<open>
  The properties of the system call database: what the generator accepts and refuses, and that
  the lookups of \<open>syscall.c\<close> and \<open>syscalldb.inl\<close> in the generated database give back the tables.
\<close>

lemma accepted:
  assumes "generator_main ls = Some out"
  shows "\<forall>l \<in> set ls. distinct (map dname (list_syscalls l)) \<and> popcount (list_arch_mask l) = 1"
    and "distinct (map list_arch_mask ls)"
proof -
  obtain c as as' where "init ls = Some c" and as: "those (map init_arch ls) = Some as"
    and sort: "qsort_unique arch_ctx_arch_mask_cmp as = Some as'"
    using assms by (auto simp: generator_main_def init_def elim!: bind_SomeE)
  then have all: "list_all2 (\<lambda>l a. init_arch l = Some a) ls as" by (simp add: those_list_all2)
  then show "\<forall>l \<in> set ls. distinct (map dname (list_syscalls l)) \<and> popcount (list_arch_mask l) = 1"
    by (induction rule: list_all2_induct)
       (auto simp: init_arch_def qsort_unique_iff [of syscall_descriptor_name_cmp dname, OF name_cmp(1)]
         elim!: bind_SomeE split: if_splits)
  have "map arch_mask as = map list_arch_mask ls"
    using all by (induction rule: list_all2_induct) (auto dest: init_archE(2))
  then show "distinct (map list_arch_mask ls)"
    using sort qsort_unique_iff [of arch_ctx_arch_mask_cmp arch_mask as, OF mask_cmp(1)]
    by (auto split: if_splits)
qed

lemma row_unique:
  assumes "distinct (map dname (list_syscalls l))" and "\<forall>d \<in> set (list_syscalls l). desc_ok d"
    and "d \<in> set (list_syscalls l)" and "desc_name d = Some name"
  shows "row l name = Some d"
proof -
  have "distinct (map dname xs) \<Longrightarrow> \<forall>d \<in> set xs. desc_ok d \<Longrightarrow> d \<in> set xs \<Longrightarrow>
      find (\<lambda>d. desc_name d = Some name) xs = Some d" for xs
    using assms(4) by (induction xs) (auto simp: desc_ok_def image_iff)
  then show ?thesis using assms(1-3) .
qed

abbreviation "i386_list \<equiv> \<lparr>list_arch_mask = SYSCALLDB_ARCH_I386_FLAG, list_pointer_size = 4,
  list_syscalls = i386_syscall_list\<rparr>"
abbreviation "access_call \<equiv> SYSCALL ''access'' 33 [(''filename'', 4), (''mode'', 4)]"

lemma i386_list: "i386_list \<in> set syscall_lists" by (simp add: syscall_lists_def)

lemma access_call:
  "row i386_list ''access'' = Some access_call" "access_call \<in> set i386_syscall_list"
  "desc_nr access_call = 33"
  by (simp_all add: i386_syscall_list_def i386_syscall_list_1_def SYSCALL_def)

lemma access_number:
  assumes "case r of None \<Rightarrow> \<forall>d \<in> set (list_syscalls i386_list). desc_nr d \<noteq> 33 | Some name \<Rightarrow> P name"
  shows "\<exists>name. r = Some name \<and> P name"
proof (cases r)
  case None
  then have "desc_nr access_call \<noteq> 33" using assms access_call(2) by simp
  then show ?thesis using access_call(3) by simp
qed (use assms in simp)

section \<open>The database of the shipped tables\<close>

text \<open>C18: The generator accepts the tables shipped for the six architectures, and the database made
  from its output answers every lookup as the tables do: for each architecture and each name,
  \<open>syscall_lookup\<close> returns the number and the arguments of the row with that name, and nothing if
  the table has no such row. No lookup reads outside of the arrays.
\<close>

theorem shipped_lookup:
  assumes "gperf_ok gperf"
  shows "\<exists>out. generator_main syscall_lists = Some out \<and>
    (\<forall>l \<in> set syscall_lists. \<forall>name.
       syscall_lookup (syscalldb_of gperf out) (list_arch_mask l) name =
         Some (map_option stripped (row l name)))"
  using shipped_generator shipped_tables(1,2) syscall_lookup_rows [OF _ _ _ assms] by fastforce

theorem shipped_lookup_witness:
  "gperf_ok list_gperf \<and> (\<exists>out. generator_main syscall_lists = Some out \<and>
     syscall_lookup (syscalldb_of list_gperf out) SYSCALLDB_ARCH_I386_FLAG ''access'' =
       Some (Some (stripped access_call)))"
proof -
  obtain out where out: "generator_main syscall_lists = Some out"
    and look: "\<forall>l \<in> set syscall_lists. \<forall>name.
       syscall_lookup (syscalldb_of list_gperf out) (list_arch_mask l) name =
         Some (map_option stripped (row l name))"
    using shipped_lookup [OF list_gperf_ok] by blast
  show ?thesis
    using list_gperf_ok out access_call(1) bspec [OF look i386_list] by simp
qed

text \<open>C19: In the database of the shipped tables the name that \<open>syscalldb_reverse_lookup\<close> finds for a
  number of an architecture is the name of a row with that number, and it finds none exactly when
  the table has no such row.
\<close>

theorem shipped_reverse_lookup:
  assumes "gperf_ok gperf"
  shows "\<exists>out. generator_main syscall_lists = Some out \<and>
    (\<forall>l \<in> set syscall_lists. \<forall>n.
       \<exists>r. syscalldb_reverse_lookup (syscalldb_of gperf out) (list_arch_mask l) n = Some r \<and>
         (case r of None \<Rightarrow> \<forall>d \<in> set (list_syscalls l). desc_nr d \<noteq> n
          | Some name \<Rightarrow> \<exists>d \<in> set (list_syscalls l). desc_name d = Some name \<and> desc_nr d = n))"
proof -
  obtain out where out: "generator_main syscall_lists = Some out" using shipped_generator by blast
  have "table_words syscall_lists < 0xffff" by (simp add: shipped_tables)
  from reverse_lookup_rows [OF out shipped_tables(1) this assms] show ?thesis using out by blast
qed

theorem shipped_reverse_lookup_witness:
  "gperf_ok list_gperf \<and> (\<exists>out name d. generator_main syscall_lists = Some out \<and>
     syscalldb_reverse_lookup (syscalldb_of list_gperf out) SYSCALLDB_ARCH_I386_FLAG 33 =
       Some (Some name) \<and> d \<in> set i386_syscall_list \<and> desc_name d = Some name \<and> desc_nr d = 33)"
proof -
  obtain out where out: "generator_main syscall_lists = Some out"
    and rev: "\<forall>l \<in> set syscall_lists. \<forall>n.
       \<exists>r. syscalldb_reverse_lookup (syscalldb_of list_gperf out) (list_arch_mask l) n = Some r \<and>
         (case r of None \<Rightarrow> \<forall>d \<in> set (list_syscalls l). desc_nr d \<noteq> n
          | Some name \<Rightarrow> \<exists>d \<in> set (list_syscalls l). desc_name d = Some name \<and> desc_nr d = n)"
    using shipped_reverse_lookup [OF list_gperf_ok] by blast
  then obtain r where
    r: "syscalldb_reverse_lookup (syscalldb_of list_gperf out) (list_arch_mask i386_list) 33 = Some r"
    and "case r of None \<Rightarrow> \<forall>d \<in> set (list_syscalls i386_list). desc_nr d \<noteq> 33
      | Some name \<Rightarrow> \<exists>d \<in> set (list_syscalls i386_list). desc_name d = Some name \<and> desc_nr d = 33"
    using i386_list by blast
  from access_number [OF this(2)] r show ?thesis using list_gperf_ok out by auto
qed

section \<open>The database of any tables\<close>

text \<open>C20: For tables that the generator accepts, given by ascending masks of the architectures, with
  well-formed rows (a name, six argument slots, not beyond the sentinel of the merge) and less than
  0xffff words of packed definitions in all: a number looked up in the database and the name found
  for it looked up again give a description with that number. The generator checks none of these
  three conditions itself; offsets into the definitions have 16 bits.
\<close>

theorem reverse_lookup_lookup:
  assumes "generator_main ls = Some out" and "tables_ok ls" and "table_words ls < 0xffff"
    and "gperf_ok gperf" and "l \<in> set ls"
    and "syscalldb_reverse_lookup (syscalldb_of gperf out) (list_arch_mask l) n = Some (Some name)"
  shows "\<exists>d. syscall_lookup (syscalldb_of gperf out) (list_arch_mask l) name = Some (Some d) \<and>
    desc_nr d = n"
proof -
  obtain d where d: "d \<in> set (list_syscalls l)" "desc_name d = Some name" "desc_nr d = n"
    using reverse_lookup_rows [OF assms(1-5), of n] assms(6) by auto
  then have "row l name = Some d"
    using accepted(1) [OF assms(1)] assms(2,5) by (intro row_unique) (auto simp: tables_ok_def)
  then show ?thesis
    using syscall_lookup_rows [OF assms(1-5), of name] d by (simp add: stripped_def)
qed

theorem reverse_lookup_lookup_witness:
  "\<exists>out name d. generator_main syscall_lists = Some out \<and> tables_ok syscall_lists \<and>
     table_words syscall_lists < 0xffff \<and> gperf_ok list_gperf \<and> i386_list \<in> set syscall_lists \<and>
     syscalldb_reverse_lookup (syscalldb_of list_gperf out) (list_arch_mask i386_list) 33 =
       Some (Some name) \<and>
     syscall_lookup (syscalldb_of list_gperf out) (list_arch_mask i386_list) name = Some (Some d) \<and>
     desc_nr d = 33"
proof -
  obtain out where out: "generator_main syscall_lists = Some out" using shipped_generator by blast
  have words: "table_words syscall_lists < 0xffff" by (simp add: shipped_tables)
  obtain r where
    r: "syscalldb_reverse_lookup (syscalldb_of list_gperf out) (list_arch_mask i386_list) 33 = Some r"
    and "case r of None \<Rightarrow> \<forall>d \<in> set (list_syscalls i386_list). desc_nr d \<noteq> 33
      | Some name \<Rightarrow> \<exists>d \<in> set (list_syscalls i386_list). desc_name d = Some name \<and> desc_nr d = 33"
    using reverse_lookup_rows [OF out shipped_tables(1) words list_gperf_ok i386_list] by blast
  from access_number [OF this(2)] obtain name where "r = Some name" by blast
  with r show ?thesis
    using reverse_lookup_lookup [OF out shipped_tables(1) words list_gperf_ok i386_list]
      out shipped_tables(1) words list_gperf_ok i386_list by blast
qed

text \<open>C21: The generator stops with an error when a table has two rows with the same name, when two
  tables are for the same architecture, and when a table's mask does not have exactly one bit.
\<close>

theorem generator_rejects:
  assumes "l \<in> set ls \<and> (\<not> distinct (map dname (list_syscalls l)) \<or> popcount (list_arch_mask l) \<noteq> 1)
    \<or> \<not> distinct (map list_arch_mask ls)"
  shows "generator_main ls = None"
proof (rule ccontr)
  assume "generator_main ls \<noteq> None"
  then obtain out where "generator_main ls = Some out" by blast
  from accepted [OF this] show False using assms by blast
qed

theorem generator_rejects_witness:
  "generator_main [\<lparr>list_arch_mask = 0x01, list_pointer_size = 4,
       list_syscalls = [SYSCALL ''read'' 0 [], SYSCALL ''write'' 1 [], SYSCALL ''read'' 2 []]\<rparr>] = None"
  by (rule generator_rejects [of "\<lparr>list_arch_mask = 0x01, list_pointer_size = 4,
       list_syscalls = [SYSCALL ''read'' 0 [], SYSCALL ''write'' 1 [], SYSCALL ''read'' 2 []]\<rparr>"])
     (simp add: SYSCALL_def)

end
