(* ===== verification/Sandals_Base.thy ===== *)
theory Sandals_Base
  imports Prelude
begin

text \<open>
  Ground of the sandals components (\<open>src/src\<close>): strings of bytes, the statuses of \<open>fail.c\<close>, and
  results of code that may call \<open>fail\<close>, which sends a response and exits. \<open>None\<close> is undefined
  behaviour of C, \<open>Inl\<close> a call of \<open>fail\<close> with the status and the formatted message.
\<close>

section \<open>Strings\<close>

type_synonym bytes = "u8 list"

definition bytes_of :: "string \<Rightarrow> bytes" where
  "bytes_of s = map (\<lambda>c. of_nat (of_char c)) s"

lemma bytes_of_simps [simp]:
  "bytes_of [] = []" "bytes_of (c # s) = of_nat (of_char c) # bytes_of s"
  "bytes_of (s @ t) = bytes_of s @ bytes_of t" "length (bytes_of s) = length s"
  by (simp_all add: bytes_of_def)

text \<open>The bytes of memory from \<open>p\<close> up to a null byte, \<open>None\<close> if there is none.\<close>

definition c_str :: "bytes \<Rightarrow> nat \<Rightarrow> bytes option" where
  "c_str s p = (if 0 \<in> set (drop p s) then Some (takeWhile (\<lambda>c. c \<noteq> 0) (drop p s)) else None)"

text \<open>Writing of consecutive bytes.\<close>

fun put :: "bytes \<Rightarrow> nat \<Rightarrow> bytes \<Rightarrow> bytes option" where
  "put m p [] = Some m"
| "put m p (b # bs) = do { m' \<leftarrow> write_at m p b; put m' (p + 1) bs }"

lemma put_run:
  "p + length bs \<le> length m \<Longrightarrow>
     put m p bs = Some (take p m @ bs @ drop (p + length bs) m)"
proof (induction bs arbitrary: m p)
  case (Cons b bs)
  then have "put m p (b # bs) = Some (take (p + 1) (m[p := b]) @ bs @ drop (p + 1 + length bs) (m[p := b]))"
    by (simp add: write_at_less)
  moreover have "take (p + 1) (m[p := b]) = take p m @ [b]"
    using Cons.prems by (simp add: take_Suc_conv_app_nth)
  ultimately show ?case by simp
qed simp

abbreviation "PIPE_BUF \<equiv> (4096 :: nat)"

text \<open>The decimal digits of an integer, as \<open>printf\<close> writes them.\<close>

fun decimal :: "nat \<Rightarrow> bytes" where
  "decimal n = (if n < 10 then [of_nat (0x30 + n)] else decimal (n div 10) @ [of_nat (0x30 + n mod 10)])"

declare decimal.simps [simp del]

definition format_d :: "int \<Rightarrow> bytes" where
  "format_d i = (if i < 0 then 0x2d # decimal (nat (- i)) else decimal (nat i))"

section \<open>Statuses\<close>

datatype status =
  kStatusExited | kStatusKilled | kStatusMemoryLimit | kStatusPidsLimit | kStatusTimeLimit
| kStatusOutputLimit | kStatusInternalError | kStatusRequestInvalid | kStatusResponseTooBig

fun status_text :: "status \<Rightarrow> bytes" where
  "status_text kStatusExited = bytes_of ''exited''"
| "status_text kStatusKilled = bytes_of ''killed''"
| "status_text kStatusMemoryLimit = bytes_of ''memoryLimit''"
| "status_text kStatusPidsLimit = bytes_of ''pidsLimit''"
| "status_text kStatusTimeLimit = bytes_of ''timeLimit''"
| "status_text kStatusOutputLimit = bytes_of ''outputLimit''"
| "status_text kStatusInternalError = bytes_of ''internalError''"
| "status_text kStatusRequestInvalid = bytes_of ''requestInvalid''"
| "status_text kStatusResponseTooBig = bytes_of ''responseTooBig''"

datatype failure = Fail status "bytes option"

section \<open>Results\<close>

type_synonym 'a result = "(failure + 'a) option"

definition ok :: "'a \<Rightarrow> 'a result" where
  "ok x = Some (Inr x)"

definition failed :: "status \<Rightarrow> bytes option \<Rightarrow> 'a result" where
  "failed s msg = Some (Inl (Fail s msg))"

definition andthen :: "'a result \<Rightarrow> ('a \<Rightarrow> 'b result) \<Rightarrow> 'b result" where
  "andthen m f = (case m of None \<Rightarrow> None | Some (Inl e) \<Rightarrow> Some (Inl e) | Some (Inr x) \<Rightarrow> f x)"

lemma andthen_simps [simp]:
  "andthen (ok x) f = f x" "andthen (failed s m) f = failed s m" "andthen None f = None"
  "andthen (Some (Inr x)) f = f x" "andthen (Some (Inl e)) f = Some (Inl e)"
  by (simp_all add: andthen_def ok_def failed_def)

lemma result_simps [simp]:
  "ok x = ok y \<longleftrightarrow> x = y" "failed s m = failed s' m' \<longleftrightarrow> s = s' \<and> m = m'"
  "ok x \<noteq> failed s m" "failed s m \<noteq> ok x" "ok x \<noteq> None" "failed s m \<noteq> None" "None \<noteq> ok x" "None \<noteq> failed s m"
  by (simp_all add: ok_def failed_def)

lemma andthen_okE:
  assumes "andthen m f = ok y"
  obtains x where "m = ok x" and "f x = ok y"
  using assms by (auto simp: andthen_def ok_def split: option.splits sum.splits)

lemma andthen_assoc: "andthen (andthen m f) g = andthen m (\<lambda>x. andthen (f x) g)"
  by (auto simp: andthen_def split: option.splits sum.splits)

end
