(* ===== verification/Sandals_Io.thy ===== *)
theory Sandals_Io
  imports Sandals_Base "HOL-Library.Sublist"
begin

text \<open>
  Programs that call the kernel. A program is a tree: it returns, calls \<open>fail\<close>, exits, or makes a
  system call and goes on with the kernel's answer. \<open>Undefined\<close> is undefined behaviour of C. The
  loops of the code that only the kernel's answers end have a bound on their iterations as an
  argument; \<open>Waiting\<close> is a program that has reached it. A statement for every bound speaks of
  every finite run.

  An execution goes along a path of the tree; \<open>fits\<close> says which answers the kernel gives to a
  call. The weakest precondition \<open>wp\<close> speaks of all executions and of the calls on their way.
\<close>

section \<open>Calls and answers\<close>

text \<open>Error numbers: those the code compares with, and all others with their message.\<close>

datatype errno = EINTR | EAGAIN | ENOENT | EINVAL | EBUSY | ENOTSOCK | Errno bytes

fun strerror :: "errno \<Rightarrow> bytes" where
  "strerror EINTR = bytes_of ''Interrupted system call''"
| "strerror EAGAIN = bytes_of ''Resource temporarily unavailable''"
| "strerror ENOENT = bytes_of ''No such file or directory''"
| "strerror EINVAL = bytes_of ''Invalid argument''"
| "strerror EBUSY = bytes_of ''Device or resource busy''"
| "strerror ENOTSOCK = bytes_of ''Socket operation on non-socket''"
| "strerror (Errno t) = t"

type_synonym fd = int

abbreviation (input) "STDIN_FILENO \<equiv> (0 :: fd)"
abbreviation (input) "STDOUT_FILENO \<equiv> (1 :: fd)"
abbreviation (input) "STDERR_FILENO \<equiv> (2 :: fd)"
abbreviation (input) "AT_FDCWD \<equiv> (- 100 :: fd)"

datatype oflag = O_RDONLY | O_WRONLY | O_RDWR | O_CREAT | O_EXCL | O_TRUNC | O_CLOEXEC | O_NOCTTY
  | O_NONBLOCK | O_PATH | O_DIRECTORY

datatype mflag = MS_BIND | MS_REC | MS_REMOUNT | MS_RDONLY

datatype namespace = CLONE_NEWUSER | CLONE_NEWPID | CLONE_NEWNET | CLONE_NEWUTS | CLONE_NEWNS
  | CLONE_NEWIPC | CLONE_NEWCGROUP

datatype sock_domain = AF_INET_STREAM | AF_UNIX_DGRAM

datatype pollevent = POLLIN | POLLPRI

datatype file_call =
  Open bytes "oflag list" nat | Openat fd bytes "oflag list" nat | Close fd
| Read fd nat | Pread fd nat nat | Write fd bytes
| Mkdir bytes nat | Mkdirat fd bytes nat | Rmdir bytes | Mkfifo bytes nat | Stat bytes
| Opendir bytes | Readdir int | Closedir int | Pipe2 "oflag list" | Fcntl_SETFL fd "oflag list"

datatype sock_call =
  Socket sock_domain | Socketpair | Bind fd bytes | Connect fd bytes | Getsockopt_RCVBUF fd
| Sendmsg fd bytes "fd list" | Recvmsg fd nat nat | Recvfrom fd nat | Splice fd fd int
| Gifflags fd bytes | Sifflags fd bytes nat | Proxyfd fd nat fd
| Timerfd_create | Timerfd_settime fd int int | Poll "(fd \<times> pollevent) list"

datatype conf_call =
  Mount bytes bytes bytes "mflag list" bytes | Chroot bytes | Chdir bytes
| Sethostname bytes | Setdomainname bytes | Personality bool
| Set_pdeathsig | Set_dumpable nat | Set_seccomp "(u16 \<times> u8 \<times> u8 \<times> u32) list"
| Unshare "namespace list" | Setsid | Ignore_sigpipe | Dup3 fd fd

datatype proc_call =
  Clone "namespace list" | Fork | Getpid | Wait | Kill int
| Execvpe bytes "bytes list" "bytes list" | Mmap_shared | Peek_errno | Malloc nat | Log bytes

datatype call = File file_call | Sock sock_call | Conf conf_call | Proc proc_call

datatype answer =
  Err errno | Ok int | Data bytes | Two int int | Packet bytes bytes | Message bytes "fd list option"
| Events "bool list" | No_entry

section \<open>Programs\<close>

datatype 'a io = Returns 'a | Fails failure | Exits int | Undefined | Waiting | Sys call "answer \<Rightarrow> 'a io"

primrec bind_io :: "'a io \<Rightarrow> ('a \<Rightarrow> 'b io) \<Rightarrow> 'b io" where
  "bind_io (Returns x) f = f x"
| "bind_io (Fails e) f = Fails e"
| "bind_io (Exits n) f = Exits n"
| "bind_io Undefined f = Undefined"
| "bind_io Waiting f = Waiting"
| "bind_io (Sys c k) f = Sys c (\<lambda>a. bind_io (k a) f)"

text \<open>Code that makes no calls, as a program.\<close>

definition lift_io :: "'a result \<Rightarrow> 'a io" where
  "lift_io m = (case m of None \<Rightarrow> Undefined | Some (Inl e) \<Rightarrow> Fails e | Some (Inr x) \<Rightarrow> Returns x)"

definition fails :: "status \<Rightarrow> bytes \<Rightarrow> 'a io" where
  "fails status msg = Fails (Fail status (Some msg))"

text \<open>A call whose answer is a number or an error.\<close>

definition call_int :: "call \<Rightarrow> (errno \<Rightarrow> 'a io) \<Rightarrow> (int \<Rightarrow> 'a io) \<Rightarrow> 'a io" where
  "call_int c err k = Sys c (\<lambda>a. case a of Err e \<Rightarrow> err e | Ok n \<Rightarrow> k n | _ \<Rightarrow> Undefined)"

text \<open>A call whose answer does not matter.\<close>

definition call_any :: "call \<Rightarrow> 'a io \<Rightarrow> 'a io" where
  "call_any c k = Sys c (\<lambda>_. k)"

lemma bind_io_assoc: "bind_io (bind_io m f) g = bind_io m (\<lambda>x. bind_io (f x) g)"
  by (induction m) simp_all

lemma bind_Return [simp]: "bind_io m Returns = m"
  by (induction m) simp_all

lemma lift_io_simps [simp]:
  "lift_io (ok x) = Returns x" "lift_io (failed s m) = Fails (Fail s m)" "lift_io None = Undefined"
  "lift_io (Some (Inr x)) = Returns x" "lift_io (Some (Inl e)) = Fails e"
  by (simp_all add: lift_io_def ok_def failed_def)

lemma bind_fails [simp]: "bind_io (fails s m) f = fails s m"
  by (simp add: fails_def)

lemma bind_call_int [simp]:
  "bind_io (call_int c err k) f = call_int c (\<lambda>e. bind_io (err e) f) (\<lambda>n. bind_io (k n) f)"
  by (auto simp: call_int_def fun_eq_iff split: answer.splits)

lemma bind_call_any [simp]: "bind_io (call_any c k) f = call_any c (bind_io k f)"
  by (simp add: call_any_def)

section \<open>What the kernel answers\<close>

text \<open>
  Documented behaviour of the calls: the kind of answer, and that transfers do not exceed their
  length. Errors are possible for every call; a call whose answer does not matter may answer
  anything.
\<close>

definition fits :: "call \<Rightarrow> answer \<Rightarrow> bool" where
  "fits c a \<longleftrightarrow> (\<exists>e. a = Err e) \<or>
     (case c of
        File (Read fd n) \<Rightarrow> \<exists>d. a = Data d \<and> length d \<le> n
      | File (Pread fd n off) \<Rightarrow> \<exists>d. a = Data d \<and> length d \<le> n
      | File (Write fd d) \<Rightarrow> \<exists>n. a = Ok n \<and> 0 \<le> n \<and> n \<le> int (length d)
      | File (Readdir d) \<Rightarrow> a = No_entry \<or> (\<exists>n. a = Data n)
      | File (Pipe2 fl) \<Rightarrow> \<exists>r w. a = Two r w
      | Sock Socketpair \<Rightarrow> \<exists>r w. a = Two r w
      | Sock (Splice f g n) \<Rightarrow> \<exists>d. a = Data d \<and> int (length d) \<le> n
      | Sock (Recvmsg fd n m) \<Rightarrow> \<exists>d fds. a = Message d fds \<and> length d \<le> n \<and> (\<forall>l. fds = Some l \<longrightarrow> length l \<le> m)
      | Sock (Recvfrom fd n) \<Rightarrow> \<exists>d addr. a = Packet d addr \<and> length d \<le> n
      | Sock (Poll fds) \<Rightarrow> \<exists>l. a = Events l \<and> length l = length fds
      | Proc Wait \<Rightarrow> \<exists>pid status. a = Two pid status
      | _ \<Rightarrow> \<exists>n. a = Ok n)"

section \<open>Executions\<close>

type_synonym trace = "(call \<times> answer) list"

inductive exec :: "'a io \<Rightarrow> trace \<Rightarrow> 'a io \<Rightarrow> bool" where
  exec_refl: "exec m [] m"
| exec_call: "fits c a \<Longrightarrow> exec (k a) tr m \<Longrightarrow> exec (Sys c k) ((c, a) # tr) m"

inductive_simps exec_Nil [simp]: "exec m [] m'"
inductive_simps exec_Return [simp]: "exec (Returns x) tr m"
inductive_simps exec_Fails [simp]: "exec (Fails f) tr m"
inductive_simps exec_Exits [simp]: "exec (Exits n) tr m"
inductive_simps exec_Undefined [simp]: "exec Undefined tr m"
inductive_simps exec_Waiting [simp]: "exec Waiting tr m"
inductive_simps exec_Cons [simp]: "exec m (e # tr) m'"

text \<open>Following a path: executable for given answers.\<close>

fun run :: "answer list \<Rightarrow> 'a io \<Rightarrow> trace \<times> 'a io" where
  "run (a # as) (Sys c k) = (case run as (k a) of (tr, m) \<Rightarrow> ((c, a) # tr, m))"
| "run as m = ([], m)"

lemma run_exec: "run as m = (tr, m') \<Longrightarrow> \<forall>(c, a) \<in> set tr. fits c a \<Longrightarrow> exec m tr m'"
  by (induction as m arbitrary: tr rule: run.induct) (auto split: prod.splits)

text \<open>
  All executions after the history \<open>h\<close> make only calls that the guarantee \<open>G\<close> allows, and where
  they end, \<open>Q\<close> holds of the end and of the history.
\<close>

primrec wp :: "'a io \<Rightarrow> (trace \<Rightarrow> call \<Rightarrow> bool) \<Rightarrow> ('a io \<Rightarrow> trace \<Rightarrow> bool) \<Rightarrow> trace \<Rightarrow> bool" where
  "wp (Returns x) G Q h = Q (Returns x) h"
| "wp (Fails f) G Q h = Q (Fails f) h"
| "wp (Exits n) G Q h = Q (Exits n) h"
| "wp Undefined G Q h = Q Undefined h"
| "wp Waiting G Q h = Q Waiting h"
| "wp (Sys c k) G Q h = (G h c \<and> (\<forall>a. fits c a \<longrightarrow> wp (k a) G Q (h @ [(c, a)])))"

definition halted :: "'a io \<Rightarrow> bool" where
  "halted m \<longleftrightarrow> (\<nexists>c k. m = Sys c k)"

lemma halted_simps [simp]:
  "halted (Returns x)" "halted (Fails e)" "halted (Exits n)" "halted Undefined" "halted Waiting" "\<not> halted (Sys c k)"
  by (simp_all add: halted_def)

text \<open>The end of a program as the end of another one that goes on after it.\<close>

fun recast :: "'a io \<Rightarrow> 'b io" where
  "recast (Fails e) = Fails e"
| "recast (Exits n) = Exits n"
| "recast Waiting = Waiting"
| "recast _ = Undefined"

lemma wp_bind:
  "wp (bind_io m f) G Q h =
     wp m G (\<lambda>r h. case r of Returns x \<Rightarrow> wp (f x) G Q h | _ \<Rightarrow> Q (recast r) h) h"
  by (induction m arbitrary: h) simp_all

lemma wp_mono:
  "wp m G Q h \<Longrightarrow> (\<And>h c. G h c \<Longrightarrow> G' h c) \<Longrightarrow> (\<And>r h. halted r \<Longrightarrow> Q r h \<Longrightarrow> Q' r h) \<Longrightarrow> wp m G' Q' h"
  by (induction m arbitrary: h) auto

lemma wp_bindI:
  assumes "wp m G Q' h" and "\<And>x h. Q' (Returns x) h \<Longrightarrow> wp (f x) G Q h"
    and "\<And>r h. halted r \<Longrightarrow> (\<nexists>x. r = Returns x) \<Longrightarrow> Q' r h \<Longrightarrow> Q (recast r) h"
  shows "wp (bind_io m f) G Q h"
  unfolding wp_bind using assms(1)
proof (rule wp_mono)
  fix r h
  assume "halted r" and "Q' r h"
  then show "case r of Returns x \<Rightarrow> wp (f x) G Q h | _ \<Rightarrow> Q (recast r) h"
    using assms(2) assms(3) [of r h] by (cases r) simp_all
qed

lemma wp_exec:
  "wp m G Q h \<Longrightarrow> exec m tr m' \<Longrightarrow>
     (\<forall>t c a t'. tr = t @ (c, a) # t' \<longrightarrow> G (h @ t) c) \<and> (halted m' \<longrightarrow> Q m' (h @ tr))"
proof (induction m arbitrary: h tr)
  case (Sys c k)
  show ?case
  proof (cases tr)
    case Nil
    then show ?thesis using Sys.prems by auto
  next
    case (Cons e tr')
    then obtain a where e: "e = (c, a)" "fits c a" "exec (k a) tr' m'" using Sys.prems(2) by auto
    then have "wp (k a) G Q (h @ [(c, a)])" using Sys.prems(1) by simp
    from Sys.IH [OF rangeI this e(3)] show ?thesis
      using Sys.prems(1) Cons e by (auto simp: Cons_eq_append_conv)
  qed
qed auto

section \<open>Writing\<close>

text \<open>What reaches the file behind a descriptor.\<close>

definition accepted :: "fd \<Rightarrow> call \<times> answer \<Rightarrow> bytes" where
  "accepted fd e =
     (case e of (File (Write f d), Ok n) \<Rightarrow> if f = fd then take (nat n) d else []
      | (Sock (Splice f g n), Data d) \<Rightarrow> if g = fd then d else []
      | _ \<Rightarrow> [])"

definition written :: "fd \<Rightarrow> trace \<Rightarrow> bytes" where
  "written fd tr = concat (map (accepted fd) tr)"

lemma written_simps [simp]:
  "written fd [] = []" "written fd (e # tr) = accepted fd e @ written fd tr"
  "written fd (tr @ tr') = written fd tr @ written fd tr'"
  by (simp_all add: written_def)

text \<open>
  The loop that writes a buffer and starts over when it is interrupted, as \<open>response_send\<close> and
  \<open>sink_push\<close> have it.
\<close>

primrec write_loop :: "nat \<Rightarrow> fd \<Rightarrow> bytes \<Rightarrow> (errno \<Rightarrow> 'a io) \<Rightarrow> 'a io \<Rightarrow> 'a io" where
  "write_loop 0 fd data err k = Waiting"
| "write_loop (Suc n) fd data err k =
     (if data = [] then k
      else call_int (File (Write fd data))
        (\<lambda>e. if e = EINTR then write_loop n fd data err k else err e)
        (\<lambda>rc. write_loop n fd (drop (nat rc) data) err k))"

definition writes :: "fd \<Rightarrow> trace \<Rightarrow> bytes \<Rightarrow> bool" where
  "writes fd tr p \<longleftrightarrow> (\<forall>(c, a) \<in> set tr. \<exists>d. c = File (Write fd d)) \<and> written fd tr = p"

lemma writes_Nil [simp]: "writes fd [] p \<longleftrightarrow> p = []"
  by (auto simp: writes_def)

lemma writes_Cons:
  "writes fd ((File (Write fd d), a) # tr) p \<longleftrightarrow> (\<exists>q. writes fd tr q \<and> p = accepted fd (File (Write fd d), a) @ q)"
  by (auto simp: writes_def)

lemma fits_write [simp]: "fits (File (Write fd d)) a \<longleftrightarrow>
    (\<exists>e. a = Err e) \<or> (\<exists>n. a = Ok n \<and> 0 \<le> n \<and> n \<le> int (length d))"
  by (simp add: fits_def)

lemma accepted_write [simp]:
  "accepted fd (File (Write fd d), Ok n) = take (nat n) d" "accepted fd (File c, Err e) = []"
  by (auto simp: accepted_def split: file_call.splits)

text \<open>
  Where the loop halted: with an error after a part of the data, when all is written, or at its
  bound.
\<close>

lemma write_loop_wp:
  assumes "\<And>t p e. writes fd t p \<Longrightarrow> prefix p data \<Longrightarrow> e \<noteq> EINTR \<Longrightarrow> (File (Write fd (drop (length p) data)), Err e) \<in> set t \<Longrightarrow>
      wp (err e) G Q (h @ t)"
    and "\<And>t. writes fd t data \<Longrightarrow> wp k G Q (h @ t)"
    and "\<And>t p. writes fd t p \<Longrightarrow> prefix p data \<Longrightarrow> Q Waiting (h @ t)"
    and "\<And>t d. G (h @ t) (File (Write fd d))"
  shows "wp (write_loop n fd data err k) G Q h"
  using assms
proof (induction n arbitrary: data h)
  case 0
  then show ?case using "0"(3) [of "[]" "[]"] by simp
next
  case (Suc n)
  show ?case
  proof (cases "data = []")
    case True
    then show ?thesis using Suc.prems(2) [of "[]"] by simp
  next
    case False
    let ?w = "File (Write fd data)"
    have "wp (if e = EINTR then write_loop n fd data err k else err e) G Q (h @ [(?w, Err e)])" for e
    proof (cases "e = EINTR")
      case True
      have "wp (write_loop n fd data err k) G Q (h @ [(?w, Err e)])"
      proof (rule Suc.IH, goal_cases)
        case (1 t p e')
        then show ?case using Suc.prems(1) [of "(?w, Err e) # t" p e'] by (simp add: writes_Cons)
      next
        case (2 t)
        then show ?case using Suc.prems(2) [of "(?w, Err e) # t"] by (simp add: writes_Cons)
      next
        case (3 t p)
        then show ?case using Suc.prems(3) [of "(?w, Err e) # t" p] by (simp add: writes_Cons)
      next
        case (4 t d)
        then show ?case using Suc.prems(4) [of "(?w, Err e) # t" d] by simp
      qed
      then show ?thesis using True by simp
    next
      case False
      then show ?thesis using Suc.prems(1) [of "[(?w, Err e)]" "[]" e] by (simp add: writes_Cons)
    qed
    moreover have "wp (write_loop n fd (drop (nat m) data) err k) G Q (h @ [(?w, Ok m)])"
      if m: "0 \<le> m" "m \<le> int (length data)" for m
    proof (rule Suc.IH, goal_cases)
      case (1 t p e)
      then have "prefix (take (nat m) data @ p) data" by (metis append_take_drop_id same_prefix_prefix)
      moreover have "length (take (nat m) data @ p) = nat m + length p" using m by simp
      ultimately show ?case
        using 1 Suc.prems(1) [of "(?w, Ok m) # t" "take (nat m) data @ p" e] by (simp add: writes_Cons add.commute)
    next
      case (2 t)
      then have "writes fd ((?w, Ok m) # t) data"
        unfolding writes_Cons by (intro exI [of _ "drop (nat m) data"]) simp
      from Suc.prems(2) [OF this] show ?case by simp
    next
      case (3 t p)
      then have "prefix (take (nat m) data @ p) data" by (metis append_take_drop_id same_prefix_prefix)
      then show ?case using 3 Suc.prems(3) [of "(?w, Ok m) # t" "take (nat m) data @ p"] by (simp add: writes_Cons)
    next
      case (4 t d)
      then show ?case using Suc.prems(4) [of "(?w, Ok m) # t" d] by simp
    qed
    ultimately show ?thesis
      using False Suc.prems(4) [of "[]" data] by (auto simp: call_int_def)
  qed
qed

end
