(* ===== verification/Jstr.thy ===== *)
theory Jstr
  imports Prelude
begin

text \<open>
  The JSON tokenizer (\<open>jstr/jstr.c\<close>, \<open>jstr.h\<close>). It turns a null-terminated text into an array of
  tokens, a tree in preorder: an array or object token holds the number of tokens of its
  subtree, the others point to a string in the text, which the parser decodes in place and ends
  with a null byte.

  The text and the token array are lists, a pointer into them is an index; an access outside of
  them, or a read of a token that was not written, is \<open>None\<close>. The labels of \<open>jstr_parse\<close> are the
  values of a datatype: one function per label does what the code does up to the next \<open>goto\<close>,
  and \<open>jstr_run\<close> follows the jumps. The inner \<open>option\<close> of the functions on strings is the parse
  error \<open>JSTR_INVAL\<close>.
\<close>

declare read_at_Some [simp] read_at_less [simp] write_at_Some [simp] write_at_less [simp]

section \<open>Tokens\<close>

datatype jstr_type_t =
  JSTR_OBJECT | JSTR_ARRAY | JSTR_STRING | JSTR_NUMBER | JSTR_TRUE | JSTR_FALSE | JSTR_NULL

record jstr_token_t =
  token_type :: jstr_type_t
  token_value :: nat

type_synonym tokens = "jstr_token_t option list"

definition read_token :: "tokens \<Rightarrow> nat \<Rightarrow> jstr_token_t option" where
  "read_token ts i = Option.bind (read_at ts i) id"

definition token_init :: "tokens \<Rightarrow> nat \<Rightarrow> jstr_type_t \<Rightarrow> nat \<Rightarrow> tokens option" where
  "token_init ts i type value = write_at ts i (Some \<lparr>token_type = type, token_value = value\<rparr>)"

definition jstr_type :: "tokens \<Rightarrow> nat \<Rightarrow> jstr_type_t option" where
  "jstr_type ts i = map_option token_type (read_token ts i)"

definition jstr_value :: "tokens \<Rightarrow> nat \<Rightarrow> nat option" where
  "jstr_value ts i = map_option token_value (read_token ts i)"

definition jstr_next :: "tokens \<Rightarrow> nat \<Rightarrow> nat option" where
  "jstr_next ts i =
     do { t \<leftarrow> read_token ts i;
          Some (i + (if token_type t \<in> {JSTR_OBJECT, JSTR_ARRAY} then token_value t else 1)) }"

record jstr_parser_t =
  parse_pos :: nat
  cur_offset :: nat
  parent_offset :: nat

definition jstr_init :: jstr_parser_t where
  "jstr_init = \<lparr>parse_pos = 0, cur_offset = 0, parent_offset = 0\<rparr>"

abbreviation (input) "JSTR_INVAL \<equiv> (- 1 :: int)"
abbreviation (input) "JSTR_NOMEM \<equiv> (- 2 :: int)"

section \<open>Characters\<close>

definition ws :: "u8 list" where
  "ws = (replicate 8 0)[1 := 9, 2 := 0xa, 5 := 0xd, 0 := 0x20]"

definition WS :: "u8 \<Rightarrow> bool" where
  "WS v \<longleftrightarrow> ws ! unat (v AND 7) = v"

definition digit :: "u8 \<Rightarrow> bool" where
  "digit c \<longleftrightarrow> (ucast c :: u32) - 0x30 \<le> 9"

definition lower :: "u8 \<Rightarrow> bool" where
  "lower c \<longleftrightarrow> (ucast c :: u32) - 0x61 \<le> 0x7a - 0x61"

text \<open>\<open>while (f(*p)) ++p;\<close>\<close>

function skip_while :: "(u8 \<Rightarrow> bool) \<Rightarrow> u8 list \<Rightarrow> nat \<Rightarrow> nat option" where
  "skip_while f s p =
     do { c \<leftarrow> read_at s p;
          if f c then skip_while f s (p + 1) else Some p }"
  by auto
termination
  by (relation "measure (\<lambda>(f, s, p). length s - p)") auto

declare skip_while.simps [simp del]

section \<open>Strings\<close>

definition ltab :: "nat list" where
  "ltab = [0, 0, 0, 0, 1, 1, 2]"

text \<open>The loop over the bytes that follow the first byte of a UTF-8 sequence.\<close>

function utf8_loop :: "u8 list \<Rightarrow> nat \<Rightarrow> nat \<Rightarrow> u32 \<Rightarrow> (u8 list \<times> nat \<times> nat \<times> u32) option option" where
  "utf8_loop s p out code =
     (if code \<le> 0x1fffff then
        do { c \<leftarrow> read_at s p;
             if (ucast c :: u32) - 0x80 > 0xbf - 0x80 then Some None
             else do { s' \<leftarrow> write_at s out c;
                       utf8_loop s' (p + 1) (out + 1) (push_bit 6 code OR ucast (c AND 0x3f)) } }
      else Some (Some (s, p, out, code)))"
  by auto
termination
  by (relation "measure (\<lambda>(s, p, out, code). length s - p)") auto

declare utf8_loop.simps [simp del]

definition parse_utf8 :: "u8 list \<Rightarrow> nat \<Rightarrow> nat \<Rightarrow> u8 \<Rightarrow> (u8 list \<times> nat \<times> nat) option option" where
  "parse_utf8 s p out c =
     do { len \<leftarrow> read_at ltab (unat (drop_bit 3 c AND 7));
          let code = (ucast c AND drop_bit len 0x1f) OR push_bit ((3 - len) * 6) 1;
          s' \<leftarrow> write_at s out c;
          r \<leftarrow> utf8_loop s' (p + 1) (out + 1) code;
          case r of None \<Rightarrow> Some None
          | Some (s', p', out', code) \<Rightarrow>
              let code = code AND 0x1fffff in
              if code AND push_bit (len * 5) 0x7c0 = 0 \<or> code - 0xd800 \<le> 0xdfff - 0xd800
                \<or> code > 0x10ffff
              then Some None else Some (Some (s', p', out')) }"

definition ESCIDX :: "nat \<Rightarrow> nat" where
  "ESCIDX v = (v * 7 div 16) mod 16"

definition escmap :: "(u8 \<times> u8) list" where
  "escmap = (replicate 16 (0, 0))
     [ESCIDX 0x22 := (0x22, 0x22), ESCIDX 0x5c := (0x5c, 0x5c), ESCIDX 0x2f := (0x2f, 0x2f),
      ESCIDX 0x62 := (0x62, 0x08), ESCIDX 0x66 := (0x66, 0x0c), ESCIDX 0x6e := (0x6e, 0x0a),
      ESCIDX 0x72 := (0x72, 0x0d), ESCIDX 0x74 := (0x74, 0x09)]"

text \<open>The loop over the hexadecimal digits of an escaped code unit.\<close>

function hex_loop :: "u8 list \<Rightarrow> nat \<Rightarrow> u32 \<Rightarrow> (nat \<times> u32) option option" where
  "hex_loop s p code =
     (if code \<le> 0xffff then
        do { c \<leftarrow> read_at s p;
             if digit c then hex_loop s (p + 1) (push_bit 4 code OR (ucast c - 0x30))
             else if (ucast (c OR 0x20) :: u32) - 0x61 \<le> 0x66 - 0x61
             then hex_loop s (p + 1) (push_bit 4 code OR (ucast (c OR 0x20) - 0x61 + 10))
             else Some None }
      else Some (Some (p, code)))"
  by auto
termination
  by (relation "measure (\<lambda>(s, p, code). length s - p)") auto

declare hex_loop.simps [simp del]

definition write_code :: "u8 list \<Rightarrow> nat \<Rightarrow> u32 \<Rightarrow> (u8 list \<times> nat) option" where
  "write_code s out code =
     (if code \<le> 0x7f then do { s' \<leftarrow> write_at s out (ucast code); Some (s', out + 1) }
      else let len = (if code \<le> 0x7ff then 2 else if code \<le> 0xffff then 3 else 4);
               code = push_bit (6 * (4 - len)) code in
        do { s1 \<leftarrow> write_at s out (ucast (push_bit (4 - len) 0xf0 OR drop_bit 18 code));
             s2 \<leftarrow> write_at s1 (out + 1) (ucast (0x80 OR (drop_bit 12 code AND 0x3f)));
             s3 \<leftarrow> write_at s2 (out + 2) (ucast (0x80 OR (drop_bit 6 code AND 0x3f)));
             s4 \<leftarrow> write_at s3 (out + 3) (ucast (0x80 OR (code AND 0x3f)));
             Some (s4, out + len) })"

text \<open>The replacement character that is written for a high surrogate without a low one.\<close>

definition write_replacement :: "u8 list \<Rightarrow> nat \<Rightarrow> u8 list option" where
  "write_replacement s out =
     do { s1 \<leftarrow> write_at s out 0xef;
          s2 \<leftarrow> write_at s1 (out + 1) 0xbf;
          write_at s2 (out + 2) 0xbd }"

lemma hex_loop_progress:
  "hex_loop s p code = Some (Some (p', code')) \<Longrightarrow> p \<le> p' \<and> code' > 0xffff"
  by (induction s p code rule: hex_loop.induct)
     (subst (asm) (2) hex_loop.simps, fastforce split: if_splits elim!: bind_SomeE)
text \<open>
  From the label \<open>parse_u_escape\<close>: \<open>codehi\<close> is the contribution of a high surrogate before, or 0.
  First one code unit is read and combined with the high surrogate.
\<close>

definition u_unit ::
  "u8 list \<Rightarrow> nat \<Rightarrow> nat \<Rightarrow> u32 \<Rightarrow> (u8 list \<times> nat \<times> nat \<times> u32) option option" where
  "u_unit s p out codehi =
     do { r \<leftarrow> hex_loop s (p + 2) 1;
          case r of None \<Rightarrow> Some None
          | Some (p', code) \<Rightarrow>
              let code = code AND 0xffff in
              if codehi = 0 then Some (Some (s, p', out, code))
              else if code - 0xdc00 \<le> 0x3ff
              then Some (Some (s, p', out, codehi OR (code - 0xdc00)))
              else do { s' \<leftarrow> write_replacement s out; Some (Some (s', p', out + 3, code)) } }"

definition u_write ::
  "u8 list \<Rightarrow> nat \<Rightarrow> nat \<Rightarrow> u32 \<Rightarrow> (u8 list \<times> nat \<times> nat) option option" where
  "u_write s p out code =
     do { (s', out') \<leftarrow>
            write_code s out (if code = 0 \<or> code - 0xdc00 \<le> 0x3ff then 0xfffd else code);
          Some (Some (s', p, out')) }"

lemma write_replacement_length: "write_replacement s out = Some s' \<Longrightarrow> length s' = length s"
  by (auto simp: write_replacement_def elim!: bind_SomeE)

lemma write_code_length: "write_code s out code = Some (s', out') \<Longrightarrow> length s' = length s"
  by (auto simp: write_code_def Let_def split: if_splits elim!: bind_SomeE)

lemma u_unit_progress:
  "u_unit s p out codehi = Some (Some (s', p', out', code)) \<Longrightarrow> p < p' \<and> length s' = length s"
  by (auto simp: u_unit_def Let_def split: if_splits option.splits elim!: bind_SomeE
      dest!: hex_loop_progress write_replacement_length)

lemma u_write_progress:
  "u_write s p out code = Some (Some (s', p', out')) \<Longrightarrow> p' = p \<and> length s' = length s"
  by (auto simp: u_write_def elim!: bind_SomeE dest: write_code_length)

function u_escape :: "u8 list \<Rightarrow> nat \<Rightarrow> nat \<Rightarrow> u32 \<Rightarrow> (u8 list \<times> nat \<times> nat) option option" where
  "u_escape s p out codehi =
     do { r \<leftarrow> u_unit s p out codehi;
          case r of None \<Rightarrow> Some None
          | Some (s', p', out', code) \<Rightarrow>
              if code - 0xd800 \<le> 0x3ff
              then do { c0 \<leftarrow> read_at s' p';
                        c1 \<leftarrow> (if c0 = 0x5c then read_at s' (p' + 1) else Some 0);
                        if c0 = 0x5c \<and> c1 = 0x75
                        then u_escape s' p' out' (0x10000 + push_bit 10 (code - 0xd800))
                        else u_write s' p' out' 0xfffd }
              else u_write s' p' out' code }"
  by auto
termination
  by (relation "measure (\<lambda>(s, p, out, codehi). length s - p)") (auto dest!: u_unit_progress)

declare u_escape.simps [simp del]

definition parse_escape :: "u8 list \<Rightarrow> nat \<Rightarrow> nat \<Rightarrow> (u8 list \<times> nat \<times> nat) option option" where
  "parse_escape s p out =
     do { c \<leftarrow> read_at s (p + 1);
          e \<leftarrow> read_at escmap (ESCIDX (unat c));
          if c = fst e then do { s' \<leftarrow> write_at s out (snd e); Some (Some (s', p + 2, out + 1)) }
          else if c = 0x75 then u_escape s p out 0
          else Some None }"

lemma u_escape_progress:
  "u_escape s p out codehi = Some (Some (s', p', out')) \<Longrightarrow> p < p' \<and> length s' = length s"
proof (induction s p out codehi rule: u_escape.induct)
  case (1 s p out codehi)
  obtain s1 p1 out1 code where u: "u_unit s p out codehi = Some (Some (s1, p1, out1, code))"
    using "1.prems" by (subst (asm) u_escape.simps) (auto split: option.splits elim!: bind_SomeE)
  then show ?case
    using "1.prems" "1.IH" [OF u refl refl refl refl] u_unit_progress [OF u]
    by (subst (asm) u_escape.simps)
       (fastforce split: if_splits elim!: bind_SomeE dest!: u_write_progress)
qed

lemma parse_escape_progress:
  "parse_escape s p out = Some (Some (s', p', out')) \<Longrightarrow> p < p' \<and> length s' = length s"
  using u_escape_progress by (fastforce simp: parse_escape_def split: if_splits elim!: bind_SomeE)

lemma utf8_loop_progress:
  "utf8_loop s p out code = Some (Some (s', p', out', code')) \<Longrightarrow> p \<le> p' \<and> length s' = length s"
proof (induction s p out code rule: utf8_loop.induct)
  case (1 s p out code)
  then show ?case
    by (subst (asm) utf8_loop.simps) (fastforce split: if_splits elim!: bind_SomeE)
qed

lemma parse_utf8_progress:
  "parse_utf8 s p out c = Some (Some (s', p', out')) \<Longrightarrow> p < p' \<and> length s' = length s"
  by (auto simp: parse_utf8_def Let_def split: if_splits option.splits elim!: bind_SomeE
      dest!: utf8_loop_progress)


text \<open>
  From the label \<open>parse_char\<close>: one character of a string other than the quote that ends it, and
  the loop to the end of the string.
\<close>

definition parse_char :: "u8 list \<Rightarrow> nat \<Rightarrow> nat \<Rightarrow> u8 \<Rightarrow> (u8 list \<times> nat \<times> nat) option option" where
  "parse_char s p out c =
     (if (ucast c :: u32) - 0x20 \<le> 0x7f - 0x20 then
        if c = 0x5c then parse_escape s p out
        else do { s' \<leftarrow> write_at s out c; Some (Some (s', p + 1, out + 1)) }
      else if (ucast c :: u32) - 0xc2 \<le> 0xf4 - 0xc2 then parse_utf8 s p out c
      else Some None)"

lemma parse_char_progress:
  "parse_char s p out c = Some (Some (s', p', out')) \<Longrightarrow> p < p' \<and> length s' = length s"
  by (auto simp: parse_char_def split: if_splits elim!: bind_SomeE
      dest!: parse_escape_progress parse_utf8_progress)

function string_loop :: "u8 list \<Rightarrow> nat \<Rightarrow> nat \<Rightarrow> (u8 list \<times> nat) option option" where
  "string_loop s p out =
     do { c \<leftarrow> read_at s p;
          if c = 0x22 then do { s' \<leftarrow> write_at s out 0; Some (Some (s', p + 1)) }
          else do { r \<leftarrow> parse_char s p out c;
                    case r of None \<Rightarrow> Some None
                    | Some (s', p', out') \<Rightarrow> string_loop s' p' out' } }"
  by auto
termination
  by (relation "measure (\<lambda>(s, p, out). length s - p)") (auto dest!: parse_char_progress)

declare string_loop.simps [simp del]

section \<open>Numbers and keywords\<close>

definition number_frac :: "u8 list \<Rightarrow> nat \<Rightarrow> nat option option" where
  "number_frac s p =
     do { c \<leftarrow> read_at s p;
          if c = 0x2e then
            do { d \<leftarrow> read_at s (p + 1);
                 if \<not> digit d then Some None else map_option Some (skip_while digit s (p + 2)) }
          else Some (Some p) }"

definition number_exp :: "u8 list \<Rightarrow> nat \<Rightarrow> nat option option" where
  "number_exp s p =
     do { c \<leftarrow> read_at s p;
          if c OR 0x20 = 0x65 then
            do { c' \<leftarrow> read_at s (p + 1);
                 let p' = (if c' = 0x2d \<or> c' = 0x2b then p + 2 else p + 1);
                 d \<leftarrow> read_at s p';
                 if \<not> digit d then Some None else map_option Some (skip_while digit s p') }
          else Some (Some p) }"

definition parse_number :: "u8 list \<Rightarrow> nat \<Rightarrow> nat option option" where
  "parse_number s p =
     do { c \<leftarrow> read_at s p;
          let p = (if c = 0x2d then p + 1 else p);
          c \<leftarrow> read_at s p;
          d \<leftarrow> (if c = 0x30 then read_at s (p + 1) else Some 0);
          if c = 0x30 \<and> digit d then Some None
          else do { p \<leftarrow> skip_while digit s p;
                    r \<leftarrow> number_frac s p;
                    case r of None \<Rightarrow> Some None | Some p \<Rightarrow> number_exp s p } }"

definition type_code :: "jstr_type_t \<Rightarrow> nat" where
  "type_code t = (case t of JSTR_OBJECT \<Rightarrow> 0x01 | JSTR_ARRAY \<Rightarrow> 0x02 | JSTR_STRING \<Rightarrow> 0x04
     | JSTR_NUMBER \<Rightarrow> 0x08 | JSTR_TRUE \<Rightarrow> 0x10 | JSTR_FALSE \<Rightarrow> 0x20 | JSTR_NULL \<Rightarrow> 0x40)"

definition kw_char :: "u32 \<Rightarrow> u8 \<Rightarrow> u32" where
  "kw_char a b = push_bit 5 a OR (ucast b - 0x61)"

definition kw :: "u32 list" where
  "kw = [kw_char (kw_char (kw_char (kw_char 31 0x74) 0x72) 0x75) 0x65,
         kw_char (kw_char (kw_char (kw_char (kw_char 31 0x66) 0x61) 0x6c) 0x73) 0x65,
         kw_char (kw_char (kw_char (kw_char 31 0x6e) 0x75) 0x6c) 0x6c]"

function keyword_loop :: "u8 list \<Rightarrow> nat \<Rightarrow> u32 \<Rightarrow> (nat \<times> u32) option" where
  "keyword_loop s p v =
     do { c \<leftarrow> read_at s p;
          let v = kw_char v c;
          d \<leftarrow> read_at s (p + 1);
          if lower d then keyword_loop s (p + 1) v else Some (p + 1, v) }"
  by auto
termination
  by (relation "measure (\<lambda>(s, p, v). length s - p)") auto

declare keyword_loop.simps [simp del]

section \<open>The parser\<close>

datatype parse_state = TOP | OBJECT_VALUE | ARRAY_ITEM | OBJECT_KEY

record jstr_state =
  jtext :: "u8 list"
  jtokens :: tokens
  jpos :: nat
  token_cur :: nat
  token_parent :: nat
  jcs :: parse_state

datatype label =
  PARSE_GENERIC | PARSE_STRING | PARSE_TRUE_FALSE_OR_NULL | PARSE_OBJECT_KEY | COMMIT_TOKEN
| POP_CONTEXT

datatype jump = Goto label jstr_state | Return int jstr_state

text \<open>
  The type of an array or object token as a state of the parser; the code never takes the type
  of another token for one.
\<close>

definition cs_of_type :: "jstr_type_t \<Rightarrow> parse_state option" where
  "cs_of_type t = (case t of JSTR_OBJECT \<Rightarrow> Some OBJECT_VALUE | JSTR_ARRAY \<Rightarrow> Some ARRAY_ITEM
     | _ \<Rightarrow> None)"

definition push_token :: "jstr_type_t \<Rightarrow> nat \<Rightarrow> jstr_state \<Rightarrow> jstr_state option" where
  "push_token type value st =
     do { ts \<leftarrow> token_init (jtokens st) (token_cur st) type value;
          Some (st\<lparr>jtokens := ts, token_cur := token_cur st + 1\<rparr>) }"

definition open_context ::
  "jstr_type_t \<Rightarrow> parse_state \<Rightarrow> u8 \<Rightarrow> label \<Rightarrow> jstr_state \<Rightarrow> jump option" where
  "open_context type state close first st =
     do { st' \<leftarrow> push_token type (token_cur st - token_parent st) st;
          p \<leftarrow> skip_while WS (jtext st) (jpos st + 1);
          c \<leftarrow> read_at (jtext st) p;
          let st' = st'\<lparr>token_parent := token_cur st, jcs := state, jpos := p\<rparr>;
          Some (if c = close then Goto POP_CONTEXT (st'\<lparr>jpos := p + 1\<rparr>) else Goto first st') }"

text \<open>The \<open>switch\<close> on the first character of a value.\<close>

definition parse_value :: "u8 \<Rightarrow> jstr_state \<Rightarrow> jump option" where
  "parse_value c st =
     (if c = 0x5b then open_context JSTR_ARRAY ARRAY_ITEM 0x5d PARSE_GENERIC st
      else if c = 0x7b then open_context JSTR_OBJECT OBJECT_KEY 0x7d PARSE_OBJECT_KEY st
      else if c = 0x2d \<or> 0x30 \<le> c \<and> c \<le> 0x39 then
        do { st' \<leftarrow> push_token JSTR_NUMBER (jpos st) st;
             r \<leftarrow> parse_number (jtext st) (jpos st);
             Some (case r of None \<Rightarrow> Return JSTR_INVAL st'
                   | Some p' \<Rightarrow> Goto COMMIT_TOKEN (st'\<lparr>jpos := p'\<rparr>)) }
      else if c = 0x22 then Some (Goto PARSE_STRING st)
      else if c = 0x74 then map_option (Goto PARSE_TRUE_FALSE_OR_NULL) (push_token JSTR_TRUE (jpos st) st)
      else if c = 0x66 then map_option (Goto PARSE_TRUE_FALSE_OR_NULL) (push_token JSTR_FALSE (jpos st) st)
      else if c = 0x6e then map_option (Goto PARSE_TRUE_FALSE_OR_NULL) (push_token JSTR_NULL (jpos st) st)
      else Some (Return JSTR_INVAL st))"

definition parse_generic :: "jstr_state \<Rightarrow> jump option" where
  "parse_generic st =
     (if int (length (jtokens st)) - int (token_cur st) < 2 then Some (Return JSTR_NOMEM st)
      else do { p \<leftarrow> skip_while WS (jtext st) (jpos st);
                c \<leftarrow> read_at (jtext st) p;
                parse_value c (st\<lparr>jpos := p\<rparr>) })"

definition parse_string :: "jstr_state \<Rightarrow> jump option" where
  "parse_string st =
     do { let p = jpos st + 1;
          st' \<leftarrow> push_token JSTR_STRING p st;
          r \<leftarrow> string_loop (jtext st) p p;
          Some (case r of None \<Rightarrow> Return JSTR_INVAL st'
                | Some (s', p') \<Rightarrow> Goto COMMIT_TOKEN (st'\<lparr>jtext := s', jpos := p'\<rparr>)) }"

definition parse_true_false_or_null :: "jstr_state \<Rightarrow> jump option" where
  "parse_true_false_or_null st =
     do { (p, v) \<leftarrow> keyword_loop (jtext st) (jpos st) 31;
          t \<leftarrow> jstr_type (jtokens st) (token_cur st - 1);
          k \<leftarrow> read_at kw (type_code t div 2 ^ 5);
          Some (if v = k then Goto COMMIT_TOKEN (st\<lparr>jpos := p\<rparr>) else Return JSTR_INVAL st) }"

definition parse_object_key :: "jstr_state \<Rightarrow> jump option" where
  "parse_object_key st =
     do { p \<leftarrow> skip_while WS (jtext st) (jpos st);
          c \<leftarrow> read_at (jtext st) p;
          Some (if c \<noteq> 0x22 then Return JSTR_INVAL st else Goto PARSE_STRING (st\<lparr>jpos := p\<rparr>)) }"

text \<open>\<open>while (WS(c)) c=*p++;\<close>\<close>

function commit_loop :: "u8 list \<Rightarrow> u8 \<Rightarrow> nat \<Rightarrow> (u8 \<times> nat) option" where
  "commit_loop s c p =
     (if WS c then do { c' \<leftarrow> read_at s p; commit_loop s c' (p + 1) } else Some (c, p))"
  by auto
termination
  by (relation "measure (\<lambda>(s, c, p). length s - p)") auto

declare commit_loop.simps [simp del]

text \<open>The \<open>switch\<close> on the state of the parser, with \<open>c\<close> the first character after the token.\<close>

definition commit_switch :: "u8 \<Rightarrow> jstr_state \<Rightarrow> jump" where
  "commit_switch c st = (case jcs st of
     TOP \<Rightarrow> if c \<noteq> 0 then Return JSTR_INVAL st else Return (int (jpos st) - 1) st
   | OBJECT_KEY \<Rightarrow>
       if c \<noteq> 0x3a then Return JSTR_INVAL st else Goto PARSE_GENERIC (st\<lparr>jcs := OBJECT_VALUE\<rparr>)
   | OBJECT_VALUE \<Rightarrow>
       if c = 0x7d then Goto POP_CONTEXT st
       else if c \<noteq> 0x2c then Return JSTR_INVAL st
       else Goto PARSE_OBJECT_KEY (st\<lparr>jcs := OBJECT_KEY\<rparr>)
   | ARRAY_ITEM \<Rightarrow>
       if c = 0x5d then Goto POP_CONTEXT st
       else if c \<noteq> 0x2c then Return JSTR_INVAL st else Goto PARSE_GENERIC st)"

definition commit_token :: "jstr_state \<Rightarrow> jump option" where
  "commit_token st =
     do { c \<leftarrow> read_at (jtext st) (jpos st);
          s \<leftarrow> write_at (jtext st) (jpos st) 0;
          (c, p) \<leftarrow> commit_loop s c (jpos st + 1);
          Some (commit_switch c (st\<lparr>jtext := s, jpos := p\<rparr>)) }"

definition pop_context :: "jstr_state \<Rightarrow> jump option" where
  "pop_context st =
     do { t \<leftarrow> read_token (jtokens st) (token_parent st);
          grandparent \<leftarrow> (if token_value t \<le> token_parent st
            then Some (token_parent st - token_value t) else None);
          ts \<leftarrow> token_init (jtokens st) (token_parent st) (token_type t)
            (token_cur st - token_parent st);
          state \<leftarrow> (if token_parent st = grandparent then Some TOP
            else Option.bind (jstr_type ts grandparent) cs_of_type);
          Some (Goto COMMIT_TOKEN
            (st\<lparr>jtokens := ts, token_parent := grandparent, jcs := state\<rparr>)) }"

definition jstr_step :: "label \<Rightarrow> jstr_state \<Rightarrow> jump option" where
  "jstr_step l = (case l of PARSE_GENERIC \<Rightarrow> parse_generic | PARSE_STRING \<Rightarrow> parse_string
     | PARSE_TRUE_FALSE_OR_NULL \<Rightarrow> parse_true_false_or_null | PARSE_OBJECT_KEY \<Rightarrow> parse_object_key
     | COMMIT_TOKEN \<Rightarrow> commit_token | POP_CONTEXT \<Rightarrow> pop_context)"

definition rank :: "label \<Rightarrow> nat" where
  "rank l = (if l \<in> {PARSE_GENERIC, PARSE_OBJECT_KEY, POP_CONTEXT} then 1 else 0)"

lemma skip_while_bounds: "skip_while f s p = Some p' \<Longrightarrow> p \<le> p' \<and> p' < length s \<and> \<not> f (s ! p')"
  by (induction f s p rule: skip_while.induct)
     (subst (asm) (2) skip_while.simps, fastforce split: if_splits elim!: bind_SomeE)

lemma keyword_loop_bounds: "keyword_loop s p v = Some (p', v') \<Longrightarrow> p < p' \<and> p' < length s"
  by (induction s p v rule: keyword_loop.induct)
     (subst (asm) (2) keyword_loop.simps, fastforce simp: Let_def split: if_splits elim!: bind_SomeE)

lemma commit_loop_bounds: "commit_loop s c p = Some (c', p') \<Longrightarrow> p \<le> length s \<Longrightarrow> p \<le> p' \<and> p' \<le> length s"
  by (induction s c p rule: commit_loop.induct)
     (subst (asm) (2) commit_loop.simps, fastforce split: if_splits elim!: bind_SomeE)

lemma string_loop_bounds:
  "string_loop s p out = Some (Some (s', p')) \<Longrightarrow> p < p' \<and> p' \<le> length s \<and> length s' = length s"
proof (induction s p out rule: string_loop.induct)
  case (1 s p out)
  show ?case
  proof (cases "p < length s \<and> s ! p = 0x22")
    case True
    then show ?thesis using "1.prems" by (auto simp: string_loop.simps [of s p] elim!: bind_SomeE)
  next
    case False
    then obtain s1 p1 out1 where p: "p < length s" "s ! p \<noteq> 0x22"
      and c: "parse_char s p out (s ! p) = Some (Some (s1, p1, out1))"
      and rest: "string_loop s1 p1 out1 = Some (Some (s', p'))"
      using "1.prems" by (auto simp: string_loop.simps [of s p] split: option.splits elim!: bind_SomeE)
    have "p1 < p' \<and> p' \<le> length s1 \<and> length s' = length s1"
      using p c rest by (intro "1.IH") simp_all
    then show ?thesis using parse_char_progress [OF c] by simp
  qed
qed

lemma number_frac_bounds: "number_frac s p = Some (Some p') \<Longrightarrow> p \<le> p' \<and> p' < length s"
  by (auto simp: number_frac_def split: if_splits elim!: bind_SomeE dest!: skip_while_bounds)

lemma number_exp_bounds: "number_exp s p = Some (Some p') \<Longrightarrow> p \<le> p' \<and> p' < length s"
  by (auto simp: number_exp_def Let_def split: if_splits elim!: bind_SomeE dest!: skip_while_bounds)

lemma parse_number_bounds:
  assumes "parse_number s p = Some (Some p')"
  shows "p \<le> p' \<and> p' < length s"
proof -
  define q where "q = (if s ! p = 0x2d then p + 1 else p)"
  have "do { p \<leftarrow> skip_while digit s q; r \<leftarrow> number_frac s p;
             case r of None \<Rightarrow> Some None | Some p \<Rightarrow> number_exp s p } = Some (Some p')"
    using assms unfolding q_def parse_number_def Let_def by (auto split: if_splits elim!: bind_SomeE)
  then obtain q1 q2 where "skip_while digit s q = Some q1" "number_frac s q1 = Some (Some q2)"
    "number_exp s q2 = Some (Some p')"
    by (auto split: option.splits elim!: bind_SomeE)
  moreover have "p \<le> q" by (simp add: q_def)
  ultimately show ?thesis using skip_while_bounds number_frac_bounds number_exp_bounds by fastforce
qed

lemma push_token_simps:
  "push_token type value st = Some st' \<Longrightarrow>
     jtext st' = jtext st \<and> jpos st' = jpos st \<and> token_cur st' = token_cur st + 1 \<and>
     token_parent st' = token_parent st \<and> jcs st' = jcs st \<and> token_cur st < length (jtokens st) \<and>
     jtokens st' = (jtokens st)[token_cur st := Some \<lparr>token_type = type, token_value = value\<rparr>]"
  by (auto simp: push_token_def token_init_def elim!: bind_SomeE)

abbreviation progress :: "label \<Rightarrow> jstr_state \<Rightarrow> label \<Rightarrow> jstr_state \<Rightarrow> bool" where
  "progress l st l' st' \<equiv> length (jtext st') = length (jtext st) \<and>
    (jpos st < jpos st' \<and> jpos st < length (jtext st) \<or> jpos st \<le> jpos st' \<and> rank l' < rank l)"

lemma open_context_progress:
  "open_context type state close l st = Some (Goto l' st') \<Longrightarrow>
     length (jtext st') = length (jtext st) \<and> jpos st < jpos st' \<and> jpos st < length (jtext st)"
  by (auto simp: open_context_def Let_def split: if_splits elim!: bind_SomeE
      dest!: push_token_simps skip_while_bounds)

lemma parse_generic_progress:
  assumes "parse_generic st = Some (Goto l' st')"
  shows "progress PARSE_GENERIC st l' st'"
proof -
  note [dest!] = open_context_progress push_token_simps parse_number_bounds
  obtain p where p: "skip_while WS (jtext st) (jpos st) = Some p"
    and rest: "p < length (jtext st)"
    using assms by (auto simp: parse_generic_def split: if_splits elim!: bind_SomeE)
  then show ?thesis
    using assms skip_while_bounds [OF p]
    by (auto simp: parse_generic_def parse_value_def rank_def split: if_splits option.splits elim!: bind_SomeE)
qed

lemma jstr_step_progress:
  assumes "jstr_step l st = Some (Goto l' st')"
  shows "progress l st l' st'"
proof (cases l)
  case PARSE_GENERIC
  then show ?thesis using assms parse_generic_progress by (simp add: jstr_step_def)
next
  case PARSE_STRING
  then show ?thesis
    using assms by (auto simp: jstr_step_def parse_string_def Let_def split: option.splits
        elim!: bind_SomeE dest!: push_token_simps string_loop_bounds)
next
  case PARSE_TRUE_FALSE_OR_NULL
  then show ?thesis
    using assms by (auto simp: jstr_step_def parse_true_false_or_null_def split: if_splits
        elim!: bind_SomeE dest!: keyword_loop_bounds)
next
  case PARSE_OBJECT_KEY
  then show ?thesis
    using assms by (auto simp: jstr_step_def parse_object_key_def rank_def split: if_splits
        elim!: bind_SomeE dest!: skip_while_bounds)
next
  case COMMIT_TOKEN
  then obtain c c' p where "jpos st < length (jtext st)"
    and "commit_loop ((jtext st)[jpos st := 0]) c (jpos st + 1) = Some (c', p)"
    and "length (jtext st') = length (jtext st)" and "jpos st' = p"
    using assms by (auto simp: jstr_step_def commit_token_def commit_switch_def
        split: if_splits parse_state.splits elim!: bind_SomeE)
  then show ?thesis using commit_loop_bounds by fastforce
next
  case POP_CONTEXT
  then show ?thesis
    using assms by (auto simp: jstr_step_def pop_context_def rank_def split: if_splits
        elim!: bind_SomeE)
qed

function jstr_run :: "label \<Rightarrow> jstr_state \<Rightarrow> (int \<times> jstr_state) option" where
  "jstr_run l st =
     do { j \<leftarrow> jstr_step l st;
          case j of Return rc st' \<Rightarrow> Some (rc, st') | Goto l' st' \<Rightarrow> jstr_run l' st' }"
  by auto
termination
proof (relation "measure (\<lambda>(l, st). 2 * (length (jtext st) - jpos st) + rank l)", goal_cases)
  case (2 l st j l' st')
  then have "jstr_step l st = Some (Goto l' st')" by simp
  from jstr_step_progress [OF this] show ?case by (auto simp: rank_def)
qed simp


declare jstr_run.simps [simp del]

definition jstr_parse ::
  "jstr_parser_t \<Rightarrow> u8 list \<Rightarrow> tokens \<Rightarrow> (int \<times> jstr_parser_t \<times> u8 list \<times> tokens) option" where
  "jstr_parse parser str token =
     do { state \<leftarrow> (if parent_offset parser = cur_offset parser then Some TOP
            else Option.bind (jstr_type token (parent_offset parser)) cs_of_type);
          (rc, st) \<leftarrow> jstr_run PARSE_GENERIC
            \<lparr>jtext = str, jtokens = token, jpos = parse_pos parser, token_cur = cur_offset parser,
             token_parent = parent_offset parser, jcs = state\<rparr>;
          Some (rc,
            if rc = JSTR_NOMEM
            then \<lparr>parse_pos = jpos st, cur_offset = token_cur st, parent_offset = token_parent st\<rparr>
            else parser, jtext st, jtokens st) }"

end
