(* ===== verification/Json.thy ===== *)
theory Json
  imports Prelude
begin

text \<open>
  JSON texts (RFC 8259), the specification of the tokenizer. A text is a list of bytes. Strings
  are lists of code points; the characters outside of ASCII are written in UTF-8 (RFC 3629).

  Two choices are the tokenizer's. An escaped surrogate that is not half of a pair, and an
  escaped null character, stand for the replacement character. A number may lack the digits
  before the point if it has a minus sign; the numbers of the RFC are those with such digits.
\<close>

section \<open>Characters\<close>

definition surrogate :: "nat \<Rightarrow> bool" where
  "surrogate cp \<longleftrightarrow> 0xd800 \<le> cp \<and> cp \<le> 0xdfff"

definition scalar :: "nat \<Rightarrow> bool" where
  "scalar cp \<longleftrightarrow> cp \<le> 0x10ffff \<and> \<not> surrogate cp"

definition utf8 :: "nat \<Rightarrow> u8 list" where
  "utf8 cp =
     (if cp < 0x80 then [of_nat cp]
      else if cp < 0x800 then [of_nat (0xc0 + cp div 64), of_nat (0x80 + cp mod 64)]
      else if cp < 0x10000 then
        [of_nat (0xe0 + cp div 4096), of_nat (0x80 + cp div 64 mod 64), of_nat (0x80 + cp mod 64)]
      else
        [of_nat (0xf0 + cp div 262144), of_nat (0x80 + cp div 4096 mod 64),
         of_nat (0x80 + cp div 64 mod 64), of_nat (0x80 + cp mod 64)])"

abbreviation (input) "REPLACEMENT \<equiv> (0xfffd :: nat)"

definition white :: "u8 list \<Rightarrow> bool" where
  "white t \<longleftrightarrow> set t \<subseteq> {0x20, 0x09, 0x0a, 0x0d}"

definition digits :: "u8 list \<Rightarrow> bool" where
  "digits t \<longleftrightarrow> (\<forall>c \<in> set t. 0x30 \<le> c \<and> c \<le> 0x39)"

definition hex_value :: "u8 \<Rightarrow> nat option" where
  "hex_value c =
     (if 0x30 \<le> c \<and> c \<le> 0x39 then Some (unat c - 0x30)
      else if 0x41 \<le> c \<and> c \<le> 0x46 then Some (unat c - 0x41 + 10)
      else if 0x61 \<le> c \<and> c \<le> 0x66 then Some (unat c - 0x61 + 10)
      else None)"

section \<open>Strings\<close>

text \<open>The characters with an escape of two characters.\<close>

definition short_escapes :: "(u8 \<times> nat) list" where
  "short_escapes = [(0x22, 0x22), (0x5c, 0x5c), (0x2f, 0x2f), (0x62, 0x08), (0x66, 0x0c),
     (0x6e, 0x0a), (0x72, 0x0d), (0x74, 0x09)]"

text \<open>An escaped 16-bit code unit.\<close>

definition unit_text :: "nat \<Rightarrow> u8 list \<Rightarrow> bool" where
  "unit_text h t \<longleftrightarrow> (\<exists>a b c d w x y z. t = [0x5c, 0x75, a, b, c, d] \<and> hex_value a = Some w \<and>
     hex_value b = Some x \<and> hex_value c = Some y \<and> hex_value d = Some z \<and>
     h = ((w * 16 + x) * 16 + y) * 16 + z)"

abbreviation "high_surrogate h \<equiv> 0xd800 \<le> h \<and> h \<le> (0xdbff :: nat)"
abbreviation "low_surrogate h \<equiv> 0xdc00 \<le> h \<and> h \<le> (0xdfff :: nat)"

definition pairable :: "u8 list \<Rightarrow> bool" where
  "pairable t \<longleftrightarrow> (\<exists>l u t'. low_surrogate l \<and> unit_text l u \<and> t = u @ t')"

text \<open>One character with its text, before the rest of the string.\<close>

inductive string_item :: "nat \<Rightarrow> u8 list \<Rightarrow> u8 list \<Rightarrow> bool" where
  item_char: "scalar cp \<Longrightarrow> 0x20 \<le> cp \<Longrightarrow> cp \<noteq> 0x22 \<Longrightarrow> cp \<noteq> 0x5c \<Longrightarrow> string_item cp (utf8 cp) rest"
| item_short: "(c, cp) \<in> set short_escapes \<Longrightarrow> string_item cp [0x5c, c] rest"
| item_unit: "unit_text h u \<Longrightarrow> \<not> surrogate h \<Longrightarrow> h \<noteq> 0 \<Longrightarrow> string_item h u rest"
| item_pair: "unit_text h u \<Longrightarrow> high_surrogate h \<Longrightarrow> unit_text l u' \<Longrightarrow> low_surrogate l \<Longrightarrow>
    string_item (0x10000 + (h - 0xd800) * 0x400 + (l - 0xdc00)) (u @ u') rest"
| item_lone: "unit_text h u \<Longrightarrow> h = 0 \<or> low_surrogate h \<or> high_surrogate h \<and> \<not> pairable rest \<Longrightarrow>
    string_item REPLACEMENT u rest"

inductive string_text :: "nat list \<Rightarrow> u8 list \<Rightarrow> bool" where
  string_Nil: "string_text [] []"
| string_Cons: "string_item cp u t \<Longrightarrow> string_text cps t \<Longrightarrow> string_text (cp # cps) (u @ t)"

section \<open>Numbers\<close>

definition int_text :: "u8 list \<Rightarrow> bool" where
  "int_text t \<longleftrightarrow> digits t \<and> (hd t = 0x30 \<longrightarrow> length t \<le> 1)"

definition frac_text :: "u8 list \<Rightarrow> bool" where
  "frac_text t \<longleftrightarrow> t = [] \<or> hd t = 0x2e \<and> tl t \<noteq> [] \<and> digits (tl t)"

definition exp_text :: "u8 list \<Rightarrow> bool" where
  "exp_text t \<longleftrightarrow> t = [] \<or> (\<exists>e sgn ds. t = e # sgn @ ds \<and> e \<in> {0x45, 0x65} \<and>
     sgn \<in> {[], [0x2b], [0x2d]} \<and> ds \<noteq> [] \<and> digits ds)"

definition rfc_number :: "u8 list \<Rightarrow> bool" where
  "rfc_number t \<longleftrightarrow> (\<exists>sgn i f e. t = sgn @ i @ f @ e \<and> sgn \<in> {[], [0x2d]} \<and> i \<noteq> [] \<and>
     int_text i \<and> frac_text f \<and> exp_text e)"

definition number_text :: "u8 list \<Rightarrow> bool" where
  "number_text t \<longleftrightarrow> rfc_number t \<or> (\<exists>f e. t = 0x2d # f @ e \<and> frac_text f \<and> exp_text e)"

section \<open>Values\<close>

datatype json =
  JObject "(nat list \<times> json) list" | JArray "json list" | JString "nat list"
| JNumber "u8 list" | JTrue | JFalse | JNull

definition quoted :: "u8 list \<Rightarrow> u8 list" where
  "quoted t = 0x22 # t @ [0x22]"

inductive json_text :: "json \<Rightarrow> u8 list \<Rightarrow> bool"
  and elements_text :: "json list \<Rightarrow> u8 list \<Rightarrow> bool"
  and members_text :: "(nat list \<times> json) list \<Rightarrow> u8 list \<Rightarrow> bool" where
  json_true: "json_text JTrue [0x74, 0x72, 0x75, 0x65]"
| json_false: "json_text JFalse [0x66, 0x61, 0x6c, 0x73, 0x65]"
| json_null: "json_text JNull [0x6e, 0x75, 0x6c, 0x6c]"
| json_number: "number_text t \<Longrightarrow> json_text (JNumber t) t"
| json_string: "string_text cps t \<Longrightarrow> json_text (JString cps) (quoted t)"
| json_array_empty: "white w \<Longrightarrow> json_text (JArray []) (0x5b # w @ [0x5d])"
| json_array: "elements_text vs t \<Longrightarrow> json_text (JArray vs) (0x5b # t @ [0x5d])"
| json_object_empty: "white w \<Longrightarrow> json_text (JObject []) (0x7b # w @ [0x7d])"
| json_object: "members_text ms t \<Longrightarrow> json_text (JObject ms) (0x7b # t @ [0x7d])"
| elements_one: "white a \<Longrightarrow> json_text v t \<Longrightarrow> white b \<Longrightarrow> elements_text [v] (a @ t @ b)"
| elements_more: "white a \<Longrightarrow> json_text v t \<Longrightarrow> white b \<Longrightarrow> elements_text vs u \<Longrightarrow>
    elements_text (v # vs) (a @ t @ b @ 0x2c # u)"
| members_one: "white a \<Longrightarrow> string_text k s \<Longrightarrow> white b \<Longrightarrow> white c \<Longrightarrow> json_text v t \<Longrightarrow> white d \<Longrightarrow>
    members_text [(k, v)] (a @ quoted s @ b @ 0x3a # c @ t @ d)"
| members_more: "white a \<Longrightarrow> string_text k s \<Longrightarrow> white b \<Longrightarrow> white c \<Longrightarrow> json_text v t \<Longrightarrow> white d \<Longrightarrow>
    members_text ms u \<Longrightarrow>
    members_text ((k, v) # ms) (a @ quoted s @ b @ 0x3a # c @ t @ d @ 0x2c # u)"

definition json_document :: "json \<Rightarrow> u8 list \<Rightarrow> bool" where
  "json_document v s \<longleftrightarrow> (\<exists>a t b. s = a @ t @ b \<and> white a \<and> json_text v t \<and> white b)"

text \<open>The number of tokens of a value: one for each value and one for each key.\<close>

fun jsize :: "json \<Rightarrow> nat" where
  "jsize (JObject ms) = 1 + (\<Sum>(k, v)\<leftarrow>ms. 1 + jsize v)"
| "jsize (JArray vs) = 1 + (\<Sum>v\<leftarrow>vs. jsize v)"
| "jsize _ = 1"
end
