(* ===== verification/Jstr_Chars.thy ===== *)
theory Jstr_Chars
  imports Jstr Json
begin

text \<open>
  The tokenizer's tests on characters and its arithmetic on codes, in terms of numbers.
\<close>

section \<open>Ranges and bits\<close>

lemma word_range: "lo \<le> hi \<Longrightarrow> x - lo \<le> hi - lo \<longleftrightarrow> lo \<le> x \<and> x \<le> hi" for x lo hi :: u32
  using unsigned_less [of hi, where 'a = nat]
  by (auto simp: word_le_nat_alt unat_sub_if_size word_size)

lemma unat_up [simp]: "unat (ucast c :: u32) = unat c" for c :: u8
  using unsigned_less [of c, where 'a = nat] by (simp add: unsigned_ucast_eq take_bit_nat_eq_self)

lemma char_range: "lo \<le> hi \<Longrightarrow> (ucast c :: u32) - lo \<le> hi - lo \<longleftrightarrow> unat lo \<le> unat c \<and> unat c \<le> unat hi"
  for c :: u8
  by (simp only: word_range) (simp add: word_le_nat_alt)

lemma digit_iff: "digit c \<longleftrightarrow> 0x30 \<le> c \<and> c \<le> 0x39"
  using char_range [of "0x30" "0x39" c] by (simp add: digit_def word_le_nat_alt)

lemma lower_iff: "lower c \<longleftrightarrow> 0x61 \<le> c \<and> c \<le> 0x7a"
  using char_range [of "0x61" "0x7a" c] by (simp add: lower_def word_le_nat_alt)

lemma WS_iff: "WS c \<longleftrightarrow> c \<in> {0x20, 0x09, 0x0a, 0x0d}"
proof
  have "length ws = 8" by (simp add: ws_def)
  moreover have "unat (c AND 7) < 8"
    using word_and_le1 [of c 7] by (simp add: word_le_nat_alt)
  ultimately have "ws ! unat (c AND 7) \<in> set ws" by (intro nth_mem) simp
  moreover assume "WS c"
  ultimately have "c \<in> set ws" by (simp add: WS_def)
  moreover have "c \<noteq> 0" using \<open>WS c\<close> by (auto simp: WS_def ws_def)
  ultimately show "c \<in> {0x20, 0x09, 0x0a, 0x0d}" by (auto simp: ws_def numeral_eq_Suc)
qed (auto simp: WS_def ws_def)

lemma or_bit_5: "unat (c OR 0x20) = unat c + (if odd (unat c div 32) then 0 else 32)" for c :: u8
proof -
  have "unat (c OR 0x20) = unat c OR 2 ^ 5" by (simp add: unsigned_or_eq)
  also have "\<dots> = set_bit 5 (unat c)" by (simp add: set_bit_eq_or)
  also have "\<dots> = unat c + (if odd (unat c div 32) then 0 else 32)"
    by (simp add: set_bit_eq bit_iff_odd)
  finally show ?thesis .
qed

lemma lower_case_hex:
  fixes c :: u8
  shows "(ucast (c OR 0x20) :: u32) - 0x61 \<le> 5 \<longleftrightarrow>
      0x41 \<le> c \<and> c \<le> 0x46 \<or> 0x61 \<le> c \<and> c \<le> 0x66"
    and "0x41 \<le> c \<and> c \<le> 0x46 \<Longrightarrow> unat (c OR 0x20) = unat c + 32"
    and "0x61 \<le> c \<and> c \<le> 0x66 \<Longrightarrow> unat (c OR 0x20) = unat c"
proof -
  have up: "unat c div 32 = 2" if "0x41 \<le> unat c" "unat c \<le> 0x46"
    using that by (intro div_nat_eqI) auto
  have low: "unat c div 32 = 3" if "0x61 \<le> unat c" "unat c \<le> 0x66"
    using that by (intro div_nat_eqI) auto
  have "(ucast (c OR 0x20) :: u32) - 0x61 \<le> 5 \<longleftrightarrow> 0x61 \<le> unat (c OR 0x20) \<and> unat (c OR 0x20) \<le> 0x66"
    using char_range [of "0x61" "0x66" "c OR 0x20"] by simp
  then show "(ucast (c OR 0x20) :: u32) - 0x61 \<le> 5 \<longleftrightarrow>
      0x41 \<le> c \<and> c \<le> 0x46 \<or> 0x61 \<le> c \<and> c \<le> 0x66"
    unfolding or_bit_5 using up low by (auto simp: word_le_nat_alt split: if_splits)
  show "0x41 \<le> c \<and> c \<le> 0x46 \<Longrightarrow> unat (c OR 0x20) = unat c + 32"
    "0x61 \<le> c \<and> c \<le> 0x66 \<Longrightarrow> unat (c OR 0x20) = unat c"
    unfolding or_bit_5 using up low by (simp_all add: word_le_nat_alt)
qed

lemma or_low:
  fixes a b :: nat
  assumes "b < 2 ^ n"
  shows "push_bit n a OR b = a * 2 ^ n + b"
proof -
  have "take_bit n b = b" using assms by (rule take_bit_nat_eq_self)
  then have low: "bit b i \<Longrightarrow> i < n" for i by (metis bit_take_bit_iff)
  have "push_bit n a + b = push_bit n a OR b"
    by (intro disjunctive_add) (auto simp: bit_push_bit_iff dest!: low)
  then show ?thesis by (simp add: push_bit_nat_def)
qed

lemma shift_or:
  fixes x y :: u32
  assumes "unat x * 2 ^ n < 2 ^ 32" and "unat y < 2 ^ n"
  shows "unat (push_bit n x OR y) = unat x * 2 ^ n + unat y"
  using assms or_low [OF assms(2), of "unat x"]
  by (simp add: unsigned_or_eq unsigned_push_bit_eq push_bit_nat_def take_bit_nat_eq_self)

section \<open>Text in memory\<close>

lemma drop_read:
  assumes "drop p s = c # t"
  shows "read_at s p = Some c \<and> p < length s \<and> drop (p + 1) s = t"
proof -
  have "p < length s" using assms by (cases "p < length s") simp_all
  then show ?thesis using assms Cons_nth_drop_Suc [of p s] by simp
qed

lemma read_drop: "read_at s p = Some c \<Longrightarrow> drop p s = c # drop (p + 1) s"
  by (simp add: Cons_nth_drop_Suc)

lemma skip_while_run:
  "drop p s = w @ c # t \<Longrightarrow> \<forall>x \<in> set w. f x \<Longrightarrow> \<not> f c \<Longrightarrow> skip_while f s p = Some (p + length w)"
proof (induction w arbitrary: p)
  case Nil
  then show ?case using drop_read [of p s c t] by (simp add: skip_while.simps)
next
  case (Cons x w)
  then show ?case using drop_read [of p s x "w @ c # t"] by (simp add: skip_while.simps [of f s p])
qed

text \<open>
  \<open>bs\<close> is written at \<open>out\<close>. What is behind it, up to \<open>p\<close>, may have changed; the text from \<open>p\<close> on and
  what is before \<open>out\<close> has not.
\<close>

definition wrote :: "u8 list \<Rightarrow> u8 list \<Rightarrow> nat \<Rightarrow> u8 list \<Rightarrow> nat \<Rightarrow> bool" where
  "wrote s s' out bs p \<longleftrightarrow> length s' = length s \<and> out + length bs \<le> p \<and> p \<le> length s \<and>
     take (out + length bs) s' = take out s @ bs \<and> drop p s' = drop p s"

lemma drop_later: "drop p s = drop p s' \<Longrightarrow> p \<le> p' \<Longrightarrow> drop p' s = drop p' s'"
  by (metis drop_drop le_add_diff_inverse2)

lemma wrote_trans:
  assumes "wrote s s1 out bs p" and "wrote s1 s2 (out + length bs) bs' p'" and "p \<le> p'"
  shows "wrote s s2 out (bs @ bs') p'"
proof -
  have "drop p' s1 = drop p' s"
    using drop_later [of p s1 s p'] assms(1,3) by (simp add: wrote_def)
  then show ?thesis using assms by (simp add: wrote_def add.assoc)
qed

lemma wrote_Nil: "out \<le> p \<Longrightarrow> p \<le> length s \<Longrightarrow> wrote s s out [] p"
  by (simp add: wrote_def)

lemma wrote_one: "out < p \<Longrightarrow> p \<le> length s \<Longrightarrow> wrote s (s[out := c]) out [c] p"
  by (simp add: wrote_def take_Suc_conv_app_nth)

lemma wrote_snoc:
  assumes "wrote s s' out bs p" and "i = out + length bs" and "i < p"
  shows "wrote s (s'[i := c]) out (bs @ [c]) p"
  using wrote_trans [OF assms(1) wrote_one [of "out + length bs" p s' c]] assms
  by (simp add: wrote_def)

lemma wrote_later: "wrote s s' out bs p \<Longrightarrow> p \<le> p' \<Longrightarrow> p' \<le> length s \<Longrightarrow> wrote s s' out bs p'"
  using drop_later [of p s' s p'] by (simp add: wrote_def)

lemma wrote_junk:
  "wrote s s' out bs p \<Longrightarrow> out + length bs \<le> i \<Longrightarrow> i < p \<Longrightarrow> wrote s (s'[i := c]) out bs p"
  by (simp add: wrote_def)

section \<open>Escaped code units\<close>

lemma hex_value_less: "hex_value c = Some x \<Longrightarrow> x < 16"
  by (auto simp: hex_value_def word_le_nat_alt split: if_splits)

lemma shift_hex:
  assumes "code \<le> 0xffff" and "unat y = x" and "x < 16"
  shows "push_bit 4 code OR y = (of_nat (unat code * 16 + x) :: u32)"
proof -
  have "unat (push_bit 4 code OR y) = unat code * 16 + x"
    using assms shift_or [of code 4 y] by (simp add: word_le_nat_alt)
  then have "of_nat (unat (push_bit 4 code OR y)) = (of_nat (unat code * 16 + x) :: u32)" by simp
  then show ?thesis by simp
qed

lemma hex_loop_step:
  assumes "code \<le> 0xffff" and "read_at s p = Some c"
  shows "hex_loop s p code = (case hex_value c of None \<Rightarrow> Some None
    | Some x \<Rightarrow> hex_loop s (p + 1) (of_nat (unat code * 16 + x)))"
proof (cases "hex_value c")
  case None
  then have "\<not> digit c" and "\<not> (ucast (c OR 0x20) :: u32) - 0x61 \<le> 0x66 - 0x61"
    using lower_case_hex(1) [of c] by (auto simp: hex_value_def digit_iff split: if_splits)
  then show ?thesis using assms None by (simp add: hex_loop.simps [of s p])
next
  case (Some x)
  show ?thesis
  proof (cases "digit c")
    case True
    then have "unat (ucast c - 0x30 :: u32) = x"
      using Some by (auto simp: hex_value_def digit_iff unat_sub word_le_nat_alt)
    then show ?thesis
      using assms Some True shift_hex [OF assms(1) _ hex_value_less [OF Some]]
      by (simp add: hex_loop.simps [of s p])
  next
    case False
    then have l: "0x41 \<le> c \<and> c \<le> 0x46 \<or> 0x61 \<le> c \<and> c \<le> 0x66"
      and x: "x = unat (c OR 0x20) - 0x61 + 10"
      using Some lower_case_hex(2,3) [of c] by (auto simp: hex_value_def digit_iff split: if_splits)
    then have "0x61 \<le> unat (c OR 0x20)" and "unat (c OR 0x20) \<le> 0x66"
      using lower_case_hex(2,3) [of c] by (auto simp: word_le_nat_alt)
    then have "unat (ucast (c OR 0x20) - 0x61 + 10 :: u32) = x"
      using x by (simp add: unat_word_ariths unat_sub word_le_nat_alt)
    then show ?thesis
      using assms Some False l shift_hex [OF assms(1) _ hex_value_less [OF Some]] lower_case_hex(1) [of c]
      by (simp add: hex_loop.simps [of s p])
  qed
qed

lemma unat_small [simp]: "n < 2 ^ 32 \<Longrightarrow> unat (of_nat n :: u32) = n"
  by (simp add: unsigned_of_nat take_bit_nat_eq_self)

lemma of_nat_le_iff_u32: "n < 2 ^ 32 \<Longrightarrow> (of_nat n :: u32) \<le> w \<longleftrightarrow> n \<le> unat w"
  by (simp add: word_le_nat_alt)

lemma hex_step:
  assumes "n \<le> 0xffff" and "read_at s p = Some c"
  shows "hex_loop s p (of_nat n) = (case hex_value c of None \<Rightarrow> Some None
    | Some x \<Rightarrow> hex_loop s (p + 1) (of_nat (n * 16 + x)))"
proof -
  have le: "(of_nat n :: u32) \<le> 0xffff" and n: "unat (of_nat n :: u32) = n"
    using assms(1) by (simp_all add: of_nat_le_iff_u32)
  show ?thesis using hex_loop_step [OF le assms(2)] unfolding n .
qed

lemma hex_done: "0xffff < n \<Longrightarrow> n < 2 ^ 32 \<Longrightarrow> hex_loop s p (of_nat n) = Some (Some (p, of_nat n))"
  by (simp add: hex_loop.simps [of s p] of_nat_le_iff_u32)

definition hex4 :: "u8 list \<Rightarrow> nat option" where
  "hex4 t = do { w \<leftarrow> hex_value (t ! 0); x \<leftarrow> hex_value (t ! 1); y \<leftarrow> hex_value (t ! 2);
     z \<leftarrow> hex_value (t ! 3); Some (((w * 16 + x) * 16 + y) * 16 + z) }"

lemma hex4_less: "hex4 t = Some h \<Longrightarrow> h < 0x10000"
  by (auto simp: hex4_def elim!: bind_SomeE dest!: hex_value_less)

lemma hex_loop_unit:
  assumes "drop p s = [a, b, c, d] @ rest" and "hex4 [a, b, c, d] = Some h"
  shows "hex_loop s p 1 = Some (Some (p + 4, of_nat (0x10000 + h)))"
proof -
  obtain w x y z where v: "hex_value a = Some w" "hex_value b = Some x" "hex_value c = Some y"
    "hex_value d = Some z" and h: "h = ((w * 16 + x) * 16 + y) * 16 + z"
    using assms(2) by (auto simp: hex4_def elim!: bind_SomeE)
  have less: "w < 16" "x < 16" "y < 16" "z < 16" using v hex_value_less by blast+
  have r: "read_at s p = Some a" "read_at s (p + 1) = Some b" "read_at s (p + 1 + 1) = Some c"
    "read_at s (p + 1 + 1 + 1) = Some d"
    using assms(1) drop_read [of p s a] drop_read [of "p + 1" s b] drop_read [of "p + 1 + 1" s c]
      drop_read [of "p + 1 + 1 + 1" s d] by auto
  have "hex_loop s p (of_nat 1) = hex_loop s (p + 1) (of_nat (16 + w))"
    using hex_step [OF _ r(1), of 1] v by simp
  also have "\<dots> = hex_loop s (p + 1 + 1) (of_nat ((16 + w) * 16 + x))"
    using hex_step [OF _ r(2), of "16 + w"] v less by simp
  also have "\<dots> = hex_loop s (p + 1 + 1 + 1) (of_nat (((16 + w) * 16 + x) * 16 + y))"
    using hex_step [OF _ r(3), of "(16 + w) * 16 + x"] v less by simp
  also have "\<dots> = hex_loop s (p + 1 + 1 + 1 + 1) (of_nat ((((16 + w) * 16 + x) * 16 + y) * 16 + z))"
    using hex_step [OF _ r(4), of "((16 + w) * 16 + x) * 16 + y"] v less by simp
  also have "\<dots> = Some (Some (p + 4, of_nat ((((16 + w) * 16 + x) * 16 + y) * 16 + z)))"
    by (subst hex_done) (use less in simp_all)
  also have "(((16 + w) * 16 + x) * 16 + y) * 16 + z = 0x10000 + h" using h by simp
  finally show ?thesis by simp
qed

lemma hex_loop_sound:
  assumes "hex_loop s p 1 = Some (Some (p', code))"
  shows "\<exists>a b c d rest h. drop p s = [a, b, c, d] @ rest \<and> hex4 [a, b, c, d] = Some h"
proof -
  have more: "\<exists>c x. read_at s q = Some c \<and> hex_value c = Some x \<and>
      hex_loop s (q + 1) (of_nat (n * 16 + x)) = Some (Some (p', code))"
    if run: "hex_loop s q (of_nat n) = Some (Some (p', code))" and n: "n \<le> 0xffff" for q n
  proof -
    have "(of_nat n :: u32) \<le> 0xffff" using n by (simp add: of_nat_le_iff_u32)
    then obtain c where c: "read_at s q = Some c"
      using run by (subst (asm) hex_loop.simps) (auto elim!: bind_SomeE)
    then show ?thesis using run hex_step [OF n c] by (auto split: option.splits)
  qed
  from assms more [of p 1] obtain a w where a: "read_at s p = Some a" "hex_value a = Some w"
    and 1: "hex_loop s (p + 1) (of_nat (16 + w)) = Some (Some (p', code))" by auto
  then obtain b x where b: "read_at s (p + 1) = Some b" "hex_value b = Some x"
    and 2: "hex_loop s (p + 1 + 1) (of_nat ((16 + w) * 16 + x)) = Some (Some (p', code))"
    using more [OF 1] hex_value_less [OF a(2)] by auto
  then obtain c y where c: "read_at s (p + 1 + 1) = Some c" "hex_value c = Some y"
    and 3: "hex_loop s (p + 1 + 1 + 1) (of_nat (((16 + w) * 16 + x) * 16 + y)) = Some (Some (p', code))"
    using more [OF 2] hex_value_less [OF a(2)] hex_value_less [OF b(2)] by auto
  then obtain d z where d: "read_at s (p + 1 + 1 + 1) = Some d" "hex_value d = Some z"
    using more [OF 3] hex_value_less [OF a(2)] hex_value_less [OF b(2)] hex_value_less [OF c(2)]
    by auto
  have "drop p s = [a, b, c, d] @ drop (p + 1 + 1 + 1 + 1) s"
    using read_drop [OF a(1)] read_drop [OF b(1)] read_drop [OF c(1)] read_drop [OF d(1)] by simp
  then show ?thesis using a b c d by (auto simp: hex4_def)
qed

end
