(* ===== verification/Jstr_Number.thy ===== *)
theory Jstr_Number
  imports Jstr_Chars
begin

text \<open>
  The numbers and keywords of the JSON tokenizer. \<open>parse_number\<close> takes the longest prefix that is a
  number, and the hash of the keywords has no collisions.
\<close>

section \<open>Loops over characters\<close>

lemma drop_past: "drop p s = w @ u \<Longrightarrow> drop (p + length w) s = u"
  by (metis add.commute append_eq_conv_conj drop_drop)

lemma skip_while_total:
  assumes "x \<in> set (drop p s)" and "\<not> f x"
  obtains w c t where "drop p s = w @ c # t" and "\<forall>y \<in> set w. f y" and "\<not> f c"
    and "skip_while f s p = Some (p + length w)" and "drop (p + length w) s = c # t"
proof -
  obtain w c t where wct: "drop p s = w @ c # t" "\<not> f c" "\<forall>y \<in> set w. f y"
    using split_list_first_prop [of "drop p s" "\<lambda>y. \<not> f y"] assms by blast
  then have "drop (p + length w) s = c # t" by (intro drop_past)
  then show thesis using that wct skip_while_run by blast
qed

lemma digit_simps [simp]: "\<not> digit 0" "digit 0x30" "\<not> digit 0x2d" "\<not> digit 0x2e"
  by (simp_all add: digit_iff)

lemma not_WS_0 [simp]: "\<not> WS 0"
  by (simp add: WS_iff)

lemma not_lower_0 [simp]: "\<not> lower 0"
  by (simp add: lower_iff)

lemma digits_iff: "digits t \<longleftrightarrow> (\<forall>c \<in> set t. digit c)"
  by (simp add: digits_def digit_iff)

lemma white_iff: "white t \<longleftrightarrow> (\<forall>c \<in> set t. WS c)"
  by (auto simp: white_def WS_iff)

lemma digits_skip:
  assumes "drop p s = ds @ c # rest" and "digits ds" and "\<not> digit c"
  shows "skip_while digit s p = Some (p + length ds)"
  using assms skip_while_run [of p s ds c rest digit] by (simp add: digits_iff)

section \<open>Numbers\<close>

lemma or_e: "c OR 0x20 = 0x65 \<longleftrightarrow> c = 0x45 \<or> c = 0x65" for c :: u8
proof
  assume "c OR 0x20 = 0x65"
  then have "unat c + (if odd (unat c div 32) then 0 else 32) = 0x65"
    using or_bit_5 [of c] by simp
  then have "unat c = 0x45 \<or> unat c = 0x65" by (auto split: if_splits)
  then show "c = 0x45 \<or> c = 0x65" by (auto simp: word_unat_eq_iff)
qed auto

lemma number_frac_run:
  assumes "frac_text f" and "drop p s = f @ c # rest" and "\<not> digit c" and "c \<noteq> 0x2e"
  shows "number_frac s p = Some (Some (p + length f))"
proof (cases f)
  case Nil
  then show ?thesis using assms drop_read [of p s c rest] by (simp add: number_frac_def)
next
  case (Cons a t)
  then obtain d ds where f: "f = 0x2e # d # ds" "digit d" "digits ds"
    using assms(1) by (cases t) (auto simp: frac_text_def digits_iff)
  have r: "read_at s p = Some 0x2e" "drop (p + 1) s = d # ds @ c # rest"
    using assms(2) f(1) drop_read [of p s "0x2e"] by auto
  then have "read_at s (p + 1) = Some d" "drop (p + 2) s = ds @ c # rest"
    using drop_read [of "p + 1" s d] by auto
  then show ?thesis
    using r(1) f digits_skip [of "p + 2" s ds c rest] assms(3) by (simp add: number_frac_def)
qed

lemma number_exp_run:
  assumes "exp_text e" and "drop p s = e @ c # rest" and "\<not> digit c" and "c OR 0x20 \<noteq> 0x65"
  shows "number_exp s p = Some (Some (p + length e))"
proof (cases "e = []")
  case True
  then show ?thesis using assms drop_read [of p s c rest] by (simp add: number_exp_def)
next
  case False
  then obtain x sgn d ds where e: "e = x # sgn @ d # ds" "x OR 0x20 = 0x65" "sgn \<in> {[], [0x2b], [0x2d]}"
    "digits (d # ds)"
    using assms(1) by (auto simp: exp_text_def or_e neq_Nil_conv)
  have d: "digit d" "d \<noteq> 0x2b" "d \<noteq> 0x2d" using e(4) by (auto simp: digits_iff digit_iff)
  have r: "read_at s p = Some x" "drop (p + 1) s = sgn @ (d # ds) @ c # rest"
    using assms(2) e(1) drop_read [of p s x] by auto
  then have "drop (p + 1 + length sgn) s = (d # ds) @ c # rest" by (intro drop_past)
  then have q: "read_at s (p + 1 + length sgn) = Some d"
    "skip_while digit s (p + 1 + length sgn) = Some (p + length e)"
    using drop_read [of "p + 1 + length sgn" s d] digits_skip [OF _ e(4) assms(3)] e(1) by simp_all
  have "read_at s (p + 1) = Some (hd (sgn @ [d]))"
    using r(2) drop_read [of "p + 1" s] e(3) by auto
  then show ?thesis using r(1) q d e(2,3) by (auto simp: number_exp_def)
qed

text \<open>The parts of a number.\<close>

lemma number_text_parts:
  "number_text t \<longleftrightarrow> (\<exists>sgn i f e. t = sgn @ i @ f @ e \<and> sgn \<in> {[], [0x2d]} \<and> int_text i \<and>
     (i = [] \<longrightarrow> sgn \<noteq> []) \<and> frac_text f \<and> exp_text e)"
proof -
  have "int_text []" by (simp add: int_text_def digits_def)
  show ?thesis
  proof
    assume "number_text t"
    then consider "rfc_number t" | f e where "t = [0x2d] @ [] @ f @ e" "frac_text f" "exp_text e"
      by (auto simp: number_text_def)
    then show "\<exists>sgn i f e. t = sgn @ i @ f @ e \<and> sgn \<in> {[], [0x2d]} \<and> int_text i \<and>
      (i = [] \<longrightarrow> sgn \<noteq> []) \<and> frac_text f \<and> exp_text e"
    proof cases
      case 1
      then show ?thesis unfolding rfc_number_def by blast
    next
      case 2
      then show ?thesis using \<open>int_text []\<close> by blast
    qed
  next
    assume "\<exists>sgn i f e. t = sgn @ i @ f @ e \<and> sgn \<in> {[], [0x2d]} \<and> int_text i \<and>
      (i = [] \<longrightarrow> sgn \<noteq> []) \<and> frac_text f \<and> exp_text e"
    then obtain sgn i f e where t: "t = sgn @ i @ f @ e" "sgn \<in> {[], [0x2d]}" "int_text i"
      "i = [] \<longrightarrow> sgn \<noteq> []" "frac_text f" "exp_text e" by blast
    show "number_text t"
    proof (cases "i = []")
      case True
      then show ?thesis using t by (auto simp: number_text_def)
    next
      case False
      then show ?thesis using t unfolding number_text_def rfc_number_def by blast
    qed
  qed
qed

lemma frac_head: "frac_text f \<Longrightarrow> \<exists>d r. f @ c # rest = d # r \<and> (d = c \<or> d = 0x2e)"
  by (cases f) (auto simp: frac_text_def)

lemma exp_head: "exp_text e \<Longrightarrow> \<exists>d r. e @ c # rest = d # r \<and> (d = c \<or> d OR 0x20 = 0x65)"
  by (auto simp: exp_text_def or_e)

lemma number_head: "number_text t \<Longrightarrow> \<exists>d r. t = d # r \<and> (d = 0x2d \<or> digit d)"
  by (fastforce simp: number_text_parts int_text_def digits_iff neq_Nil_conv)

lemma parse_number_run:
  assumes "number_text t" and d: "drop p s = t @ c # rest"
    and c: "\<not> digit c" "c \<noteq> 0x2e" "c OR 0x20 \<noteq> 0x65"
  shows "parse_number s p = Some (Some (p + length t))"
proof -
  obtain sgn i f e where t: "t = sgn @ i @ f @ e" and parts: "sgn \<in> {[], [0x2d]}" "int_text i"
    "i = [] \<longrightarrow> sgn \<noteq> []" "frac_text f" "exp_text e"
    using assms(1) unfolding number_text_parts by blast
  obtain c1 r1 where c1: "e @ c # rest = c1 # r1" "c1 = c \<or> c1 OR 0x20 = 0x65"
    using exp_head [OF parts(5)] by blast
  have c1': "\<not> digit c1" "c1 \<noteq> 0x2e" using c1(2) c by (auto simp: or_e digit_iff)
  obtain c2 r2 where c2: "f @ c1 # r1 = c2 # r2" "c2 = c1 \<or> c2 = 0x2e"
    using frac_head [OF parts(4)] by blast
  have c2': "\<not> digit c2" using c2(2) c1' by (auto simp: digit_iff)
  define q where "q = p + length sgn"
  have q: "drop q s = i @ c2 # r2" unfolding q_def using d t c1(1) c2(1) by (intro drop_past) simp
  then have f: "drop (q + length i) s = f @ c1 # r1" using c2(1) by (simp add: drop_past)
  then have e: "drop (q + length i + length f) s = e @ c # rest" using c1(1) by (simp add: drop_past)
  have run: "skip_while digit s q = Some (q + length i)"
    "number_frac s (q + length i) = Some (Some (q + length i + length f))"
    "number_exp s (q + length i + length f) = Some (Some (p + length t))"
    using digits_skip [OF q _ c2'] number_frac_run [OF parts(4) f c1'] parts(2)
      number_exp_run [OF parts(5) e c(1,3)] t by (simp_all add: int_text_def q_def)
  obtain x where x: "read_at s p = Some x" "(if x = 0x2d then p + 1 else p) = q"
  proof (cases i)
    case Nil
    then show ?thesis using that [of "0x2d"] d t parts(1,3) drop_read [of p s] by (auto simp: q_def)
  next
    case (Cons y i')
    then have "y \<noteq> 0x2d" using parts(2) by (auto simp: int_text_def digits_iff)
    then show ?thesis
      using that [of "hd (sgn @ [y])"] Cons d t parts(1) drop_read [of p s] by (auto simp: q_def)
  qed
  obtain y where y: "read_at s q = Some y"
    "y = 0x30 \<longrightarrow> (\<exists>z. read_at s (q + 1) = Some z \<and> \<not> digit z)"
  proof (cases i)
    case Nil
    have "c2 \<noteq> 0x30" using c2' by auto
    then show ?thesis using that [of c2] q Nil drop_read [of q s c2] by simp
  next
    case (Cons y i')
    have "y = 0x30 \<Longrightarrow> i' = []" using parts(2) Cons by (simp add: int_text_def)
    then show ?thesis
      using that [of y] q Cons c2' drop_read [of q s y] drop_read [of "q + 1" s c2 r2] by auto
  qed
  show ?thesis using x y run by (auto simp: parse_number_def Let_def)
qed

section \<open>Every number the parser accepts\<close>

text \<open>
  The text from \<open>p\<close> is \<open>t\<close> and then the text from \<open>p'\<close>, which still has a null byte.
\<close>

definition consumed :: "u8 list \<Rightarrow> nat \<Rightarrow> u8 list \<Rightarrow> nat \<Rightarrow> bool" where
  "consumed s p t p' \<longleftrightarrow> drop p s = t @ drop p' s \<and> p' = p + length t \<and> 0 \<in> set (drop p' s)"

lemma consumed_Nil: "consumed s p [] p \<longleftrightarrow> 0 \<in> set (drop p s)"
  by (simp add: consumed_def)

lemma consumed_trans: "consumed s p t p' \<Longrightarrow> consumed s p' u p'' \<Longrightarrow> consumed s p (t @ u) p''"
  by (auto simp: consumed_def add.assoc)

lemma consumed_one:
  assumes "0 \<in> set (drop p s)" and "read_at s p = Some c" and "c \<noteq> 0"
  shows "consumed s p [c] (p + 1)"
  using assms read_drop [OF assms(2)] by (auto simp: consumed_def)

lemma consumed_read: "consumed s p t p' \<Longrightarrow> \<exists>c. read_at s p' = Some c"
  by (cases "p' < length s") (auto simp: consumed_def)

lemma consumed_skip:
  assumes "0 \<in> set (drop p s)" and "\<not> f 0"
  obtains w c where "skip_while f s p = Some (p + length w)" and "consumed s p w (p + length w)"
    and "\<forall>x \<in> set w. f x" and "read_at s (p + length w) = Some c" and "\<not> f c"
proof -
  obtain w c t where w: "drop p s = w @ c # t" "\<forall>y \<in> set w. f y" "\<not> f c"
    "skip_while f s p = Some (p + length w)" "drop (p + length w) s = c # t"
    by (rule skip_while_total [where f = f, OF assms])
  have "0 \<in> set (c # t)" using assms w(1,2) by auto
  then have "consumed s p w (p + length w)" unfolding consumed_def w(5) using w(1) by simp
  moreover have "read_at s (p + length w) = Some c" using drop_read [OF w(5)] by simp
  ultimately show thesis by (rule that [OF w(4) _ w(2) _ w(3)])
qed

lemma consumed_nul: "consumed s p t p' \<Longrightarrow> 0 \<in> set (drop p' s)"
  unfolding consumed_def by blast

text \<open>A digit, and the digits after it.\<close>

lemma consumed_digits:
  assumes "0 \<in> set (drop p s)" and "read_at s p = Some d" and "digit d"
  obtains p' w where "skip_while digit s (p + 1) = Some p'" and "consumed s p (d # w) p'" and "digits (d # w)"
proof -
  have "d \<noteq> 0" using assms(3) by auto
  then have one: "consumed s p [d] (p + 1)" using assms by (intro consumed_one)
  obtain w where "skip_while digit s (p + 1) = Some (p + 1 + length w)"
    "consumed s (p + 1) w (p + 1 + length w)" "\<forall>x \<in> set w. digit x"
    by (rule consumed_skip [where f = digit, OF consumed_nul [OF one] digit_simps(1)])
  then show thesis using that [of _ w] consumed_trans [OF one] assms(3) by (simp add: digits_iff)
qed

text \<open>The result of a scan from \<open>p\<close>: an error, or the end of a text with the property \<open>P\<close>.\<close>

definition scanned :: "u8 list \<Rightarrow> nat \<Rightarrow> (u8 list \<Rightarrow> bool) \<Rightarrow> nat option option \<Rightarrow> bool" where
  "scanned s p P r \<longleftrightarrow>
     (\<exists>r'. r = Some r' \<and> (\<forall>p'. r' = Some p' \<longrightarrow> (\<exists>t. consumed s p t p' \<and> P t)))"

lemma scanned_error: "scanned s p P (Some None)"
  by (simp add: scanned_def)

lemma scannedI: "consumed s p t p' \<Longrightarrow> P t \<Longrightarrow> scanned s p P (Some (Some p'))"
  by (auto simp: scanned_def)

lemma number_frac_sound:
  assumes nul: "0 \<in> set (drop p s)"
  shows "scanned s p frac_text (number_frac s p)"
proof -
  obtain c where c: "read_at s p = Some c" using consumed_read nul consumed_Nil by blast
  show ?thesis
  proof (cases "c = 0x2e")
    case False
    then show ?thesis using c nul scannedI [of s p "[]" p frac_text]
      by (simp add: number_frac_def consumed_Nil frac_text_def)
  next
    case True
    have one: "consumed s p [0x2e] (p + 1)" using nul c True by (intro consumed_one) simp_all
    then obtain d where d: "read_at s (p + 1) = Some d" using consumed_read by blast
    show ?thesis
    proof (cases "digit d")
      case False
      then show ?thesis using c d True by (simp add: number_frac_def scanned_error)
    next
      case digit: True
      obtain p' w where w: "skip_while digit s (p + 2) = Some p'" "consumed s (p + 1) (d # w) p'"
        "digits (d # w)"
        by (rule consumed_digits [OF consumed_nul [OF one] d digit, unfolded add.assoc one_add_one])
      have "frac_text ([0x2e] @ d # w)" using w(3) by (simp add: frac_text_def)
      from scannedI [of _ _ _ _ frac_text, OF consumed_trans [OF one w(2)] this] show ?thesis
        using c d True digit w(1) by (simp add: number_frac_def)
    qed
  qed
qed

lemma number_exp_sound:
  assumes nul: "0 \<in> set (drop p s)"
  shows "scanned s p exp_text (number_exp s p)"
proof -
  obtain c where c: "read_at s p = Some c" using consumed_read nul consumed_Nil by blast
  show ?thesis
  proof (cases "c OR 0x20 = 0x65")
    case False
    then show ?thesis using c nul scannedI [of s p "[]" p exp_text]
      by (simp add: number_exp_def consumed_Nil exp_text_def)
  next
    case True
    have one: "consumed s p [c] (p + 1)" using nul c True by (intro consumed_one) auto
    then obtain g where g: "read_at s (p + 1) = Some g" using consumed_read by blast
    define sgn where "sgn = (if g = 0x2d \<or> g = 0x2b then [g] else [])"
    have two: "consumed s p (c # sgn) (p + 1 + length sgn)"
    proof (cases "sgn = []")
      case False
      then have "consumed s (p + 1) [g] (p + 2)"
        using consumed_one [OF consumed_nul [OF one] g] by (auto simp: sgn_def split: if_splits)
      then show ?thesis using consumed_trans [OF one, of "[g]"] False by (auto simp: sgn_def split: if_splits)
    qed (use one in simp)
    then obtain d where d: "read_at s (p + 1 + length sgn) = Some d" using consumed_read by blast
    have q: "(if g = 0x2d \<or> g = 0x2b then p + 2 else p + 1) = p + 1 + length sgn" by (simp add: sgn_def)
    show ?thesis
    proof (cases "digit d")
      case False
      then show ?thesis using c d g True by (simp add: number_exp_def Let_def q scanned_error)
    next
      case digit: True
      obtain p' w where w: "skip_while digit s (p + 1 + length sgn + 1) = Some p'"
        "consumed s (p + 1 + length sgn) (d # w) p'" "digits (d # w)"
        by (rule consumed_digits [OF consumed_nul [OF two] d digit])
      have "exp_text ((c # sgn) @ d # w)" 
        unfolding exp_text_def using True w(3) sgn_def
        by (intro disjI2 exI [of _ c] exI [of _ sgn] exI [of _ "d # w"]) (simp add: or_e)
      from scannedI [of _ _ _ _ exp_text, OF consumed_trans [OF two w(2)] this] show ?thesis
        using c d g True digit w(1)
        by (simp add: number_exp_def Let_def q skip_while.simps [of digit s "Suc (p + length sgn)"])
    qed
  qed
qed

text \<open>What follows the sign.\<close>

definition number_body :: "u8 list \<Rightarrow> nat \<Rightarrow> nat option option" where
  "number_body s p =
     do { c \<leftarrow> read_at s p;
          d \<leftarrow> (if c = 0x30 then read_at s (p + 1) else Some 0);
          if c = 0x30 \<and> digit d then Some None
          else do { p \<leftarrow> skip_while digit s p;
                    r \<leftarrow> number_frac s p;
                    case r of None \<Rightarrow> Some None | Some p \<Rightarrow> number_exp s p } }"

lemma parse_number_body:
  "parse_number s p = do { c \<leftarrow> read_at s p; number_body s (if c = 0x2d then p + 1 else p) }"
  unfolding parse_number_def number_body_def Let_def by (rule refl)

definition body_text :: "u8 \<Rightarrow> u8 list \<Rightarrow> bool" where
  "body_text x t \<longleftrightarrow> (\<exists>i f e. t = i @ f @ e \<and> int_text i \<and> (i = [] \<longrightarrow> \<not> digit x) \<and> frac_text f \<and> exp_text e)"

lemma scanned_after:
  assumes "scanned s q P r" and "consumed s p u q" and "\<And>t. P t \<Longrightarrow> Q (u @ t)"
  shows "scanned s p Q r"
proof -
  obtain r' where r: "r = Some r'" and t: "\<And>p'. r' = Some p' \<Longrightarrow> \<exists>t. consumed s q t p' \<and> P t"
    using assms(1) by (auto simp: scanned_def)
  have "\<exists>t. consumed s p t p' \<and> Q t" if "r' = Some p'" for p'
    using t [OF that] assms(3) consumed_trans [OF assms(2)] by blast
  then show ?thesis using r by (simp add: scanned_def)
qed

lemma number_body_sound:
  assumes nul: "0 \<in> set (drop q s)" and x: "read_at s q = Some x"
  shows "scanned s q (body_text x) (number_body s q)"
proof -
  obtain i y where i: "skip_while digit s q = Some (q + length i)" "consumed s q i (q + length i)"
    "\<forall>x \<in> set i. digit x" and stop: "read_at s (q + length i) = Some y" "\<not> digit y"
    by (rule consumed_skip [where f = digit, OF nul digit_simps(1)])
  have dx: "x # drop (q + 1) s = i @ drop (q + length i) s"
    using i(2) unfolding consumed_def read_drop [OF x] by blast
  have hd: "i = [] \<longrightarrow> \<not> digit x" using stop x by auto
  have "\<exists>z. read_at s (q + 1) = Some z" if "x = 0x30"
    using consumed_read [OF consumed_one [OF nul x]] that by simp
  then obtain z where z: "x = 0x30 \<Longrightarrow> read_at s (q + 1) = Some z" by blast
  show ?thesis
  proof (cases "x = 0x30 \<and> digit z")
    case True
    then show ?thesis using x z by (simp add: number_body_def scanned_error)
  next
    case False
    have "length i \<le> 1" if "hd i = 0x30"
    proof (rule ccontr)
      assume "\<not> length i \<le> 1"
      then obtain a b j where ij: "i = a # b # j" by (cases i rule: remdups_adj.cases) auto
      then have "x = 0x30" "drop (q + 1) s = b # j @ drop (q + length i) s" using dx that by auto
      then have "read_at s (q + 1) = Some b" using drop_read [of "q + 1" s b] by simp
      then show False using False z \<open>x = 0x30\<close> ij i(3) by auto
    qed
    then have int: "int_text i" using i(3) by (auto simp: int_text_def digits_iff)
    obtain r where r: "number_frac s (q + length i) = Some r" and
      f: "\<And>p'. r = Some p' \<Longrightarrow> \<exists>f. consumed s (q + length i) f p' \<and> frac_text f"
      using number_frac_sound [OF consumed_nul [OF i(2)]] by (auto simp: scanned_def)
    have run: "number_body s q = (case r of None \<Rightarrow> Some None | Some p \<Rightarrow> number_exp s p)"
      using x z False i(1) r by (cases "x = 0x30") (simp_all add: number_body_def)
    show ?thesis
    proof (cases r)
      case (Some p')
      obtain f where f: "consumed s (q + length i) f p'" "frac_text f" using f [OF Some] by blast
      have "body_text x (i @ f @ e)" if "exp_text e" for e
        unfolding body_text_def using that int hd f(2)
        by (intro exI [of _ i] exI [of _ f] exI [of _ e] conjI) simp_all
      then have "scanned s q (body_text x) (number_exp s p')"
        using scanned_after [OF number_exp_sound [OF consumed_nul [OF f(1)]] consumed_trans [OF i(2) f(1)]]
        by simp
      then show ?thesis using run Some by simp
    qed (use run in \<open>simp add: scanned_error\<close>)
  qed
qed

lemma parse_number_sound:
  assumes nul: "0 \<in> set (drop p s)" and c: "read_at s p = Some c" "c = 0x2d \<or> digit c"
  shows "scanned s p number_text (parse_number s p)"
proof -
  define sgn where "sgn = (if c = 0x2d then [c] else [])"
  define q where "q = (if c = 0x2d then p + 1 else p)"
  have one: "consumed s p sgn q"
    using nul consumed_one [OF nul c(1)] by (auto simp: q_def sgn_def consumed_Nil)
  obtain x where x: "read_at s q = Some x" using consumed_read [OF one] by blast
  have ok: "number_text (sgn @ t)" if body: "body_text x t" for t
  proof -
    obtain i f e where t: "t = i @ f @ e" "int_text i" "i = [] \<longrightarrow> \<not> digit x" "frac_text f" "exp_text e"
      using body unfolding body_text_def by (elim exE conjE)
    have "sgn = [] \<Longrightarrow> digit x"
      using c x by (cases "c = 0x2d") (simp_all add: sgn_def q_def)
    then have "i = [] \<longrightarrow> sgn \<noteq> []" using t(3) by blast
    moreover have "sgn \<in> {[], [0x2d]}" by (simp add: sgn_def)
    ultimately show ?thesis unfolding number_text_parts using t
      by (intro exI [of _ sgn] exI [of _ i] exI [of _ f] exI [of _ e] conjI) simp_all
  qed
  have "parse_number s p = number_body s q" using c(1) by (simp add: parse_number_body q_def)
  then show ?thesis
    using scanned_after [where Q = number_text, OF number_body_sound [OF consumed_nul [OF one] x] one ok] by (simp only:)
qed

section \<open>Keywords\<close>

text \<open>The hash of a word, without and with the wrap-around of 32 bits.\<close>

definition word_code :: "u8 list \<Rightarrow> nat" where
  "word_code w = foldl (\<lambda>a c. a * 32 + (unat c - 0x61)) 31 w"

definition word_hash :: "u8 list \<Rightarrow> u32" where
  "word_hash w = foldl kw_char 31 w"

lemma lower_nat: "lower c \<longleftrightarrow> 0x61 \<le> unat c \<and> unat c \<le> 0x7a"
  by (simp add: lower_iff word_le_nat_alt)

lemma letter_code: "lower c \<Longrightarrow> unat (ucast c - 0x61 :: u32) = unat c - 0x61 \<and> unat c - 0x61 \<le> 25"
  using unat_up [of c] by (auto simp: lower_nat unat_sub word_le_nat_alt simp del: unat_up)

lemma shift_mod: "k < 32 \<Longrightarrow> (x * 32 + k) mod 2 ^ 32 = (x mod 2 ^ 27) * 32 + k" for x k :: nat
  using mod_mult2_eq [of "x * 32 + k" 32 "2 ^ 27"] by simp

lemma kw_char_nat:
  assumes "lower c"
  shows "unat (kw_char a c) = (unat a * 32 + (unat c - 0x61)) mod 2 ^ 32"
proof -
  have "unat (push_bit 5 a) = push_bit 5 (unat a mod 2 ^ 27)"
    using shift_mod [of 0 "unat a"] by (simp add: unsigned_push_bit_eq push_bit_nat_def take_bit_eq_mod)
  then show ?thesis
    using letter_code [OF assms] or_low [of "unat c - 0x61" 5 "unat a mod 2 ^ 27"]
      shift_mod [of "unat c - 0x61" "unat a"]
    by (simp add: kw_char_def unsigned_or_eq)
qed

lemma word_hash_snoc:
  "lower c \<Longrightarrow> unat (word_hash (w @ [c])) = (unat (word_hash w) * 32 + (unat c - 0x61)) mod 2 ^ 32"
  by (simp add: word_hash_def kw_char_nat)

lemma word_code_less: "\<forall>c \<in> set w. lower c \<Longrightarrow> word_code w < 32 ^ (length w + 1)"
proof (induction w rule: rev_induct)
  case (snoc c w)
  then show ?case using letter_code [of c] by (auto simp: word_code_def)
qed (simp add: word_code_def)

lemma word_hash_code:
  "\<forall>c \<in> set w. lower c \<Longrightarrow> length w \<le> 5 \<Longrightarrow> unat (word_hash w) = word_code w"
proof (induction w rule: rev_induct)
  case (snoc c w)
  have "word_code (w @ [c]) < 32 ^ (length w + 2)" using word_code_less [of "w @ [c]"] snoc.prems by simp
  also have "\<dots> \<le> 32 ^ 6" using snoc.prems by (intro power_increasing) simp_all
  finally show ?case using snoc word_hash_snoc [of c w] by (simp add: word_code_def)
qed (simp add: word_code_def word_hash_def)


text \<open>
  The five bits of a letter are never all set, so the hash of another word differs from the hash
  of a keyword in the digit that stands for the start of the word, or before.
\<close>

lemma word_hash_inj:
  assumes "\<forall>c \<in> set w. lower c" and "\<forall>c \<in> set k. lower c" and "length k \<le> 5"
    and "unat (word_hash w) mod 32 ^ (length k + 1) = word_code k"
  shows "w = k"
  using assms
proof (induction k arbitrary: w rule: rev_induct)
  case Nil
  show ?case
  proof (cases w rule: rev_exhaust)
    case (snoc w' c)
    have "(2 ^ 32 :: nat) = 32 * 2 ^ 27" by simp
    then have "unat (word_hash w) mod 32 = (unat c - 0x61) mod 32"
      using snoc Nil.prems(1) word_hash_snoc [of c w'] by (simp add: mod_mod_cancel)
    then show ?thesis using snoc Nil.prems letter_code [of c] by (simp add: word_code_def)
  qed simp
next
  case (snoc d k)
  have d: "lower d" "word_code (k @ [d]) = word_code k * 32 + (unat d - 0x61)"
    using snoc.prems by (simp_all add: word_code_def)
  show ?case
  proof (cases w rule: rev_exhaust)
    case Nil
    have "31 mod 32 ^ (length (k @ [d]) + 1) = (31 :: nat)"
      by (rule mod_less) (simp add: less_le_trans [of _ "32 :: nat"])
    then have "31 = word_code k * 32 + (unat d - 0x61)"
      using Nil snoc.prems(4) d(2) by (simp add: word_hash_def)
    then show ?thesis using letter_code [OF d(1)] by presburger
  next
    case w: (snoc w' c)
    have c: "lower c" using w snoc.prems(1) by simp
    have "(32 :: nat) ^ (length k + 2) = 2 ^ (5 * (length k + 2))" unfolding power_mult by simp
    also have "\<dots> dvd 2 ^ 32" using snoc.prems(3) by (intro le_imp_power_dvd) simp
    finally have dvd: "(32 :: nat) ^ (length k + 2) dvd 2 ^ 32" .
    have "unat (word_hash w) mod 32 ^ (length k + 2) =
        (unat (word_hash w') * 32 + (unat c - 0x61)) mod (32 * 32 ^ (length k + 1))"
      using word_hash_snoc [OF c, of w'] w mod_mod_cancel [OF dvd] by simp
    also have "\<dots> = unat (word_hash w') mod 32 ^ (length k + 1) * 32 + (unat c - 0x61)"
      using letter_code [OF c] by (simp add: mod_mult2_eq del: power_Suc)
    finally have eq: "unat (word_hash w') mod 32 ^ (length k + 1) * 32 + (unat c - 0x61) =
        word_code k * 32 + (unat d - 0x61)" using snoc.prems(4) d(2) by simp
    have "unat c - 0x61 = unat d - 0x61" 
      using arg_cong [OF eq, of "\<lambda>n. n mod 32"] letter_code [OF c] letter_code [OF d(1)] by simp
    then have "c = d" using c d(1) by (auto simp: lower_nat word_unat_eq_iff)
    moreover have "w' = k"
      using eq \<open>c = d\<close> w snoc.prems(1,2,3) by (intro snoc.IH) simp_all
    ultimately show ?thesis using w by simp
  qed
qed

lemma word_hash_iff:
  assumes "\<forall>c \<in> set w. lower c" and "\<forall>c \<in> set k. lower c" and "length k \<le> 5"
  shows "word_hash w = word_hash k \<longleftrightarrow> w = k"
proof -
  have "unat (word_hash k) mod 32 ^ (length k + 1) = word_code k"
    using word_hash_code [of k] word_code_less [of k] assms by simp
  then show ?thesis using word_hash_inj [OF assms] by auto
qed

lemma keyword_loop_run:
  "drop p s = c # w @ d # rest \<Longrightarrow> \<forall>x \<in> set w. lower x \<Longrightarrow> \<not> lower d \<Longrightarrow>
     keyword_loop s p v = Some (p + 1 + length w, foldl kw_char v (c # w))"
proof (induction w arbitrary: p c v)
  case Nil
  then have "read_at s p = Some c" "read_at s (p + 1) = Some d"
    using drop_read [of p s c] drop_read [of "p + 1" s d] by auto
  then show ?case using Nil by (simp add: keyword_loop.simps)
next
  case (Cons x w)
  then have r: "read_at s p = Some c" "drop (p + 1) s = x # w @ d # rest" "read_at s (p + 1) = Some x"
    using drop_read [of p s c] drop_read [of "p + 1" s x] by auto
  then show ?case using Cons.IH [OF r(2)] Cons.prems by (subst keyword_loop.simps) simp
qed

definition keyword :: "jstr_type_t \<Rightarrow> u8 list" where
  "keyword t = (case t of JSTR_TRUE \<Rightarrow> [0x74, 0x72, 0x75, 0x65]
     | JSTR_FALSE \<Rightarrow> [0x66, 0x61, 0x6c, 0x73, 0x65] | _ \<Rightarrow> [0x6e, 0x75, 0x6c, 0x6c])"

lemma keyword_lower: "\<forall>c \<in> set (keyword t). lower c" "length (keyword t) \<le> 5"
  by (cases t; simp add: keyword_def lower_iff)+

lemma kw_read:
  "t \<in> {JSTR_TRUE, JSTR_FALSE, JSTR_NULL} \<Longrightarrow> read_at kw (type_code t div 2 ^ 5) = Some (word_hash (keyword t))"
  by (auto simp: kw_def type_code_def word_hash_def keyword_def)

text \<open>The loop over a word, and what its hash tells.\<close>

lemma keyword_loop_total:
  assumes nul: "0 \<in> set (drop p s)" and c: "read_at s p = Some c" and "lower c"
  obtains w p' where "keyword_loop s p 31 = Some (p', word_hash w)" and "consumed s p w p'"
    and "\<forall>t. word_hash w = word_hash (keyword t) \<longleftrightarrow> w = keyword t" and "w \<noteq> []"
proof -
  have "c \<noteq> 0" using assms(3) by auto
  then have one: "consumed s p [c] (p + 1)" using nul c by (intro consumed_one)
  obtain w d where w: "skip_while lower s (p + 1) = Some (p + 1 + length w)"
    "consumed s (p + 1) w (p + 1 + length w)" "\<forall>x \<in> set w. lower x"
    "read_at s (p + 1 + length w) = Some d" "\<not> lower d"
    by (rule consumed_skip [where f = lower, OF consumed_nul [OF one] not_lower_0])
  have two: "consumed s p (c # w) (p + 1 + length w)" using consumed_trans [OF one w(2)] by simp
  then have "drop p s = c # w @ d # drop (p + 1 + length w + 1) s"
    unfolding consumed_def read_drop [OF w(4)] by simp
  then have "keyword_loop s p 31 = Some (p + 1 + length w, word_hash (c # w))"
    using keyword_loop_run w(3,5) unfolding word_hash_def by blast
  then show thesis
    using that two word_hash_iff [OF _ keyword_lower] w(3) assms(3) by auto
qed

end
