(* ===== verification/Jstr_Grammar.thy ===== *)
theory Jstr_Grammar
  imports Jstr_Number
begin

text \<open>
  Prefixes of JSON texts. The tokenizer holds its open arrays and objects in a stack of the types
  and token indices; \<open>hole stk u\<close> says that a value may follow \<open>u\<close> in the innermost of them, and
  \<open>keyhole stk u\<close> that a key may. The lemmas say what the characters that end a value make of
  such a prefix.
\<close>

type_synonym context_stack = "(jstr_type_t \<times> nat) list"

lemma white_append [simp]: "white (a @ b) \<longleftrightarrow> white a \<and> white b"
  by (auto simp: white_def)

lemma white_Nil [simp]: "white []"
  by (simp add: white_def)

lemma quoted_simps: "quoted t @ r = 0x22 # t @ 0x22 # r"
  by (simp add: quoted_def)

lemma elements_snoc:
  "elements_text vs t \<Longrightarrow> white a \<Longrightarrow> json_text v u \<Longrightarrow> white b \<Longrightarrow>
     elements_text (vs @ [v]) (t @ 0x2c # a @ u @ b)"
proof (induction vs arbitrary: t)
  case Nil
  then show ?case by (auto elim: elements_text.cases)
next
  case (Cons x vs)
  from Cons.prems(1) show ?case
  proof (cases rule: elements_text.cases)
    case (elements_one a' t' b')
    then show ?thesis
      using elements_more [OF elements_one(3-5) json_text_elements_text_members_text.elements_one [OF Cons.prems(2-4)]]
      by simp
  next
    case (elements_more a' t' b' u')
    then show ?thesis
      using json_text_elements_text_members_text.elements_more [OF elements_more(2-4) Cons.IH [OF elements_more(5) Cons.prems(2-4)]]
      by simp
  qed
qed

definition member_text :: "nat list \<Rightarrow> json \<Rightarrow> u8 list \<Rightarrow> bool" where
  "member_text k v m \<longleftrightarrow> (\<exists>a s b c t d. m = a @ quoted s @ b @ 0x3a # c @ t @ d \<and> white a \<and>
     string_text k s \<and> white b \<and> white c \<and> json_text v t \<and> white d)"

lemma member_one: "member_text k v m \<Longrightarrow> members_text [(k, v)] m"
  unfolding member_text_def by (auto intro: members_one)

lemma member_more:
  assumes "member_text k v m" and "members_text ms u"
  shows "members_text ((k, v) # ms) (m @ 0x2c # u)"
proof -
  obtain a s b c t d where m: "m = a @ quoted s @ b @ 0x3a # c @ t @ d" "white a" "string_text k s"
    "white b" "white c" "json_text v t" "white d"
    using assms(1) unfolding member_text_def by (elim exE conjE)
  show ?thesis using members_more [OF m(2-7) assms(2)] m(1) by simp
qed

lemma members_text_member:
  assumes "members_text ((k, v) # ms) t"
  obtains "ms = []" and "member_text k v t"
  | m u where "t = m @ 0x2c # u" and "member_text k v m" and "members_text ms u"
  using assms
proof (cases rule: members_text.cases)
  case (members_one a s b c t' d)
  then have "member_text k v t" unfolding member_text_def by blast
  then show thesis using that(1) members_one by blast
next
  case (members_more a s b c t' d u)
  then have "member_text k v (a @ quoted s @ b @ 0x3a # c @ t' @ d)" unfolding member_text_def by blast
  then show thesis using that(2) [of "a @ quoted s @ b @ 0x3a # c @ t' @ d" u] members_more by simp
qed

lemma members_snoc:
  "members_text ms t \<Longrightarrow> member_text k v m \<Longrightarrow> members_text (ms @ [(k, v)]) (t @ 0x2c # m)"
proof (induction ms arbitrary: t)
  case Nil
  then show ?case by (auto elim: members_text.cases)
next
  case (Cons x ms)
  obtain k' v' where x: "x = (k', v')" by (cases x)
  from Cons.prems(1) [unfolded x] show ?case
  proof (cases rule: members_text_member)
    case 1
    then show ?thesis using member_more [OF 1(2) member_one [OF Cons.prems(2)]] x by simp
  next
    case (2 m' u)
    then show ?thesis using member_more [OF 2(2) Cons.IH [OF 2(3) Cons.prems(2)]] x by simp
  qed
qed

section \<open>Open arrays and objects\<close>

text \<open>
  An opening character and the items so far, which satisfy \<open>P\<close>, before the next item: a value of
  an array, a key of an object.
\<close>

definition before :: "u8 \<Rightarrow> (u8 list \<Rightarrow> bool) \<Rightarrow> u8 list \<Rightarrow> bool" where
  "before c P t \<longleftrightarrow> (\<exists>w. white w \<and> (t = c # w \<or> (\<exists>e. P e \<and> t = c # e @ 0x2c # w)))"

abbreviation "before_item \<equiv> before 0x5b (\<lambda>e. \<exists>vs. elements_text vs e)"
abbreviation "before_key \<equiv> before 0x7b (\<lambda>e. \<exists>ms. members_text ms e)"

definition key_text :: "nat list \<Rightarrow> u8 list \<Rightarrow> bool" where
  "key_text k t \<longleftrightarrow> (\<exists>m s b c. t = m @ quoted s @ b @ 0x3a # c \<and> before_key m \<and> string_text k s \<and>
     white b \<and> white c)"

definition opened :: "jstr_type_t \<Rightarrow> u8 list \<Rightarrow> bool" where
  "opened type t = (case type of JSTR_ARRAY \<Rightarrow> before_item t | JSTR_OBJECT \<Rightarrow> \<exists>k. key_text k t | _ \<Rightarrow> False)"

lemma before_first: "white w \<Longrightarrow> before c P (c # w)"
  unfolding before_def by blast

lemma before_white:
  assumes "before c P t" and "white w"
  shows "before c P (t @ w)"
proof -
  obtain v where v: "white v" "t = c # v \<or> (\<exists>e. P e \<and> t = c # e @ 0x2c # v)"
    using assms(1) unfolding before_def by blast
  then show ?thesis using assms(2) unfolding before_def by (intro exI [of _ "v @ w"]) auto
qed

lemma before_more: "P e \<Longrightarrow> before c P (c # e @ [0x2c])"
  unfolding before_def by (intro exI [of _ "[]"]) auto

text \<open>With one more item the items so far are again a list of items.\<close>

lemma before_item_value:
  assumes "before_item t" and "json_text v u" and "white b"
  obtains e vs where "t @ u @ b = 0x5b # e" and "elements_text vs e"
proof -
  obtain w where w: "white w" and t: "t = 0x5b # w \<or> (\<exists>e vs. elements_text vs e \<and> t = 0x5b # e @ 0x2c # w)"
    using assms(1) unfolding before_def by blast
  from t show thesis
  proof (elim disjE exE conjE)
    assume "t = 0x5b # w"
    then show thesis using that elements_one [OF w assms(2,3)] by simp
  next
    fix e vs assume "elements_text vs e" "t = 0x5b # e @ 0x2c # w"
    then show thesis
      using that [of "e @ 0x2c # w @ u @ b", OF _ elements_snoc [OF _ w assms(2,3)]] by simp
  qed
qed

lemma key_value:
  assumes "key_text k t" and "json_text v u" and "white d"
  obtains e ms where "t @ u @ d = 0x7b # e" and "members_text ms e"
proof -
  obtain m s b c where t: "t = m @ quoted s @ b @ 0x3a # c" "before_key m" "string_text k s" "white b" "white c"
    using assms(1) unfolding key_text_def by (elim exE conjE)
  obtain w where w: "white w" and m: "m = 0x7b # w \<or> (\<exists>e ms. members_text ms e \<and> m = 0x7b # e @ 0x2c # w)"
    using t(2) unfolding before_def by blast
  have member: "member_text k v (w @ quoted s @ b @ 0x3a # c @ u @ d)"
    unfolding member_text_def using w t(3-5) assms(2,3) by blast
  from m show thesis
  proof (elim disjE exE conjE)
    assume "m = 0x7b # w"
    then show thesis using that member_one [OF member] t(1) by simp
  next
    fix e ms assume "members_text ms e" "m = 0x7b # e @ 0x2c # w"
    then show thesis using that [of "e @ 0x2c # _", OF _ members_snoc [OF _ member]] t(1) by simp
  qed
qed

lemma key_text_white:
  assumes "key_text k t" and "white w"
  shows "key_text k (t @ w)"
proof -
  obtain m s b c where "t = m @ quoted s @ b @ 0x3a # c" "before_key m" "string_text k s" "white b" "white c"
    using assms(1) unfolding key_text_def by (elim exE conjE)
  then show ?thesis using assms(2) unfolding key_text_def
    by (intro exI [of _ m] exI [of _ s] exI [of _ b] exI [of _ "c @ w"]) simp
qed

fun hole :: "context_stack \<Rightarrow> u8 list \<Rightarrow> bool" where
  "hole [] u \<longleftrightarrow> white u"
| "hole ((type, i) # stk) u \<longleftrightarrow> (\<exists>u0 t. u = u0 @ t \<and> hole stk u0 \<and> opened type t)"

fun keyhole :: "context_stack \<Rightarrow> u8 list \<Rightarrow> bool" where
  "keyhole [] u \<longleftrightarrow> False"
| "keyhole ((type, i) # stk) u \<longleftrightarrow> type = JSTR_OBJECT \<and> (\<exists>u0 t. u = u0 @ t \<and> hole stk u0 \<and> before_key t)"

definition keyed :: "context_stack \<Rightarrow> u8 list \<Rightarrow> bool" where
  "keyed stk u \<longleftrightarrow> (\<exists>m k t. u = m @ quoted t \<and> keyhole stk m \<and> string_text k t)"

text \<open>The text up to the end of a value that stands where the stack has its hole.\<close>

definition filled :: "context_stack \<Rightarrow> u8 list \<Rightarrow> bool" where
  "filled stk u \<longleftrightarrow> (\<exists>u0 v t. u = u0 @ t \<and> hole stk u0 \<and> json_text v t)"

lemma opened_white: "opened type t \<Longrightarrow> white w \<Longrightarrow> opened type (t @ w)"
  by (auto simp: opened_def before_white intro: key_text_white split: jstr_type_t.splits)

lemma holeI: "hole stk u \<Longrightarrow> opened type t \<Longrightarrow> hole ((type, i) # stk) (u @ t)"
  by auto

lemma keyholeI: "hole stk u \<Longrightarrow> before_key t \<Longrightarrow> keyhole ((JSTR_OBJECT, i) # stk) (u @ t)"
  by auto

lemma hole_white:
  assumes "hole stk u" and "white w"
  shows "hole stk (u @ w)"
proof (cases stk)
  case (Cons x stk')
  then obtain u0 t where "u = u0 @ t" "hole stk' u0" "opened (fst x) t"
    using assms(1) by (cases x) auto
  then show ?thesis
    using Cons holeI [of stk' u0 "fst x" "t @ w" "snd x"] opened_white [OF _ assms(2)] by simp
qed (use assms in simp)

lemma keyhole_white:
  assumes "keyhole stk u" and "white w"
  shows "keyhole stk (u @ w)"
proof (cases stk)
  case (Cons x stk')
  then obtain u0 t where "u = u0 @ t" "hole stk' u0" "before_key t" "fst x = JSTR_OBJECT"
    using assms(1) by (cases x) auto
  then show ?thesis
    using Cons keyholeI [of stk' u0 "t @ w" "snd x"] before_white [OF _ assms(2)] by (cases x) simp
qed (use assms in simp)

section \<open>The characters after a value\<close>

lemma filled_value: "hole stk u \<Longrightarrow> json_text v t \<Longrightarrow> filled stk (u @ t)"
  unfolding filled_def by blast

lemma filled_top: "filled [] u \<Longrightarrow> white w \<Longrightarrow> \<exists>v. json_document v (u @ w)"
  unfolding filled_def json_document_def by force

lemma hole_array_first: "hole stk u \<Longrightarrow> white w \<Longrightarrow> hole ((JSTR_ARRAY, i) # stk) (u @ 0x5b # w)"
  using before_first by (fastforce simp: opened_def)

lemma keyhole_first: "hole stk u \<Longrightarrow> white w \<Longrightarrow> keyhole ((JSTR_OBJECT, i) # stk) (u @ 0x7b # w)"
  using before_first by fastforce

lemma array_empty: "hole stk u \<Longrightarrow> white w \<Longrightarrow> filled stk (u @ 0x5b # w @ [0x5d])"
  unfolding filled_def using json_array_empty by blast

lemma object_empty: "hole stk u \<Longrightarrow> white w \<Longrightarrow> filled stk (u @ 0x7b # w @ [0x7d])"
  unfolding filled_def using json_object_empty by blast

lemma array_item:
  assumes "filled ((JSTR_ARRAY, i) # stk) u" and "white w"
  shows "filled stk (u @ w @ [0x5d])" and "hole ((JSTR_ARRAY, i) # stk) (u @ w @ [0x2c])"
proof -
  obtain u0 t v t' where u: "u = u0 @ t @ t'" "hole stk u0" "before_item t" "json_text v t'"
    using assms(1) by (auto simp: filled_def opened_def)
  obtain e vs where e: "t @ t' @ w = 0x5b # e" "elements_text vs e"
    using before_item_value [OF u(3,4) assms(2)] .
  have eq: "u @ w @ r = u0 @ 0x5b # e @ r" for r
    using u(1) e(1) by (metis append.assoc append_Cons)
  show "filled stk (u @ w @ [0x5d])"
    unfolding eq using filled_value [OF u(2) json_array [OF e(2)]] by simp
  show "hole ((JSTR_ARRAY, i) # stk) (u @ w @ [0x2c])"
    unfolding eq using u(2) before_more [of "\<lambda>e. \<exists>vs. elements_text vs e"] e(2)
    by (force simp: opened_def)
qed

lemma object_value:
  assumes "filled ((JSTR_OBJECT, i) # stk) u" and "white w"
  shows "filled stk (u @ w @ [0x7d])" and "keyhole ((JSTR_OBJECT, i) # stk) (u @ w @ [0x2c])"
proof -
  obtain u0 t v t' k where u: "u = u0 @ t @ t'" "hole stk u0" "key_text k t" "json_text v t'"
    using assms(1) by (auto simp: filled_def opened_def)
  obtain e ms where e: "t @ t' @ w = 0x7b # e" "members_text ms e"
    using key_value [OF u(3,4) assms(2)] .
  have eq: "u @ w @ r = u0 @ 0x7b # e @ r" for r
    using u(1) e(1) by (metis append.assoc append_Cons)
  show "filled stk (u @ w @ [0x7d])"
    unfolding eq using filled_value [OF u(2) json_object [OF e(2)]] by simp
  show "keyhole ((JSTR_OBJECT, i) # stk) (u @ w @ [0x2c])"
    unfolding eq using u(2) before_more [of "\<lambda>e. \<exists>ms. members_text ms e"] e(2) by force
qed

lemma keyedI: "keyhole stk u \<Longrightarrow> string_text k s \<Longrightarrow> keyed stk (u @ quoted s)"
  unfolding keyed_def by blast

lemma object_key:
  assumes "keyed stk u" and "white w"
  shows "hole stk (u @ w @ [0x3a])"
proof -
  obtain m k s where m: "u = m @ quoted s" "keyhole stk m" "string_text k s"
    using assms(1) unfolding keyed_def by blast
  then obtain i stk' u0 t where u: "stk = (JSTR_OBJECT, i) # stk'" "m = u0 @ t" "hole stk' u0" "before_key t"
    by (cases stk) auto
  have "key_text k (t @ quoted s @ w @ [0x3a])"
    unfolding key_text_def using u(4) assms(2) m(3)
    by (intro exI [of _ t] exI [of _ s] exI [of _ w] exI [of _ "[]"]) simp
  then show ?thesis using u(1,2,3) m(1) by (force simp: opened_def)
qed
end
