(* ===== verification/Jstr_Utf8.thy ===== *)
theory Jstr_Utf8
  imports Jstr_Chars
begin

text \<open>
  Reading and writing characters in UTF-8: the tokenizer accepts the sequences that encode a
  code point, and writes the encoding of an escaped one.
\<close>

lemma ucast_of_nat: "(ucast w :: u8) = of_nat (unat w)" for w :: u32
  by (simp add: word_unat_eq_iff unsigned_ucast_eq unsigned_of_nat)

lemma and_mask_nat: "unat (w AND mask n) = unat w mod 2 ^ n" for w :: "'a :: len word"
proof -
  have "unat (w AND mask n) = take_bit n (unat w)"
    by (simp add: take_bit_eq_mask [symmetric] unsigned_take_bit_eq)
  then show ?thesis by (simp add: take_bit_eq_mod)
qed

lemma and_3f: "unat (w AND 0x3f) = unat w mod 64" for w :: "'a :: len word"
  using and_mask_nat [of w 6] by (simp add: mask_eq_exp_minus_1)

lemma unat_push: "unat w * 2 ^ n < 2 ^ 32 \<Longrightarrow> unat (push_bit n w) = unat w * 2 ^ n" for w :: u32
  by (simp add: unsigned_push_bit_eq push_bit_nat_def take_bit_nat_eq_self)

lemma unat_drop: "unat (drop_bit n w) = unat w div 2 ^ n" for w :: u32
  by (simp add: unat_drop_bit_eq drop_bit_nat_def)

lemma continuation: "(ucast (0x80 OR (w AND 0x3f)) :: u8) = of_nat (0x80 + unat w mod 64)" for w :: u32
  using shift_or [of 1 7 "w AND 0x3f"] by (simp add: ucast_of_nat and_3f push_bit_eq_mult del: of_nat_add)

lemma lead_byte:
  fixes y :: u32
  assumes "unat y < 2 ^ (4 + n)" and "n \<le> 2"
  shows "(ucast (push_bit n 0xf0 OR y) :: u8) = of_nat (15 * 2 ^ (4 + n) + unat y)"
proof -
  have "n = 0 \<or> n = 1 \<or> n = 2" using assms(2) by linarith
  then have "15 * 2 ^ (4 + n) < (2 :: nat) ^ 32" and "push_bit n 0xf0 = push_bit (4 + n) (15 :: u32)"
    by (auto simp: push_bit_eq_mult)
  then show ?thesis
    using shift_or [of 15 "4 + n" y] assms(1) by (simp add: ucast_of_nat del: of_nat_add push_bit_numeral)
qed

lemma write_code_one:
  assumes "cp < 0x80" and "out < p" and "p \<le> length s"
  shows "\<exists>s'. write_code s out (of_nat cp) = Some (s', out + 1) \<and> wrote s s' out [of_nat cp] p"
proof -
  have "(of_nat cp :: u32) \<le> 0x7f" and "(ucast (of_nat cp :: u32) :: u8) = of_nat cp"
    using assms(1) by (simp_all add: of_nat_le_iff_u32 ucast_of_nat)
  then show ?thesis using assms(2,3) wrote_one [of out p s "of_nat cp"] by (simp add: write_code_def)
qed

lemma wrote_shorter:
  assumes "wrote s s' out (bs @ cs) p"
  shows "wrote s s' out bs p"
proof -
  have w: "take (out + length (bs @ cs)) s' = take out s @ bs @ cs" and out: "out \<le> length s"
    using assms by (auto simp: wrote_def)
  have "take (out + length bs) s' = take (out + length bs) (take (out + length (bs @ cs)) s')"
    by (simp add: min_def)
  also have "\<dots> = take out s @ bs" unfolding w using out by simp
  finally show ?thesis using assms by (simp add: wrote_def)
qed

text \<open>The four writes leave the bytes of the character and, if they are fewer, some more.\<close>

lemma write_four:
  assumes "out + 4 \<le> p" and "p \<le> length s"
  shows "wrote s (s[out := a, out + 1 := b, out + 2 := c, out + 3 := d]) out [a, b, c, d] p"
proof -
  have "wrote s (s[out := a]) out [a] p" using assms by (intro wrote_one) auto
  from wrote_snoc [OF this, of "out + 1" b]
  have "wrote s (s[out := a, out + 1 := b]) out [a, b] p" using assms by simp
  from wrote_snoc [OF this, of "out + 2" c]
  have "wrote s (s[out := a, out + 1 := b, out + 2 := c]) out [a, b, c] p" using assms by simp
  from wrote_snoc [OF this, of "out + 3" d] show ?thesis using assms by simp
qed

lemma write_code_many:
  assumes "\<not> w \<le> 0x7f" and "len = (if w \<le> 0x7ff then 2 else if w \<le> 0xffff then 3 else 4)"
    and "code = push_bit (6 * (4 - len)) w" and "out + 4 \<le> p" and "p \<le> length s"
  shows "\<exists>s'. write_code s out w = Some (s', out + len) \<and> wrote s s' out
    [ucast (push_bit (4 - len) 0xf0 OR drop_bit 18 code), ucast (0x80 OR (drop_bit 12 code AND 0x3f)),
     ucast (0x80 OR (drop_bit 6 code AND 0x3f)), ucast (0x80 OR (code AND 0x3f))] p"
proof (intro exI conjI)
  show "write_code s out w = Some (s[out := ucast (push_bit (4 - len) 0xf0 OR drop_bit 18 code),
     out + 1 := ucast (0x80 OR (drop_bit 12 code AND 0x3f)),
     out + 2 := ucast (0x80 OR (drop_bit 6 code AND 0x3f)), out + 3 := ucast (0x80 OR (code AND 0x3f))],
     out + len)"
    using assms by (simp add: write_code_def Let_def)
qed (rule write_four [OF assms(4,5)])

lemma write_code_utf8:
  assumes "cp \<le> 0x10ffff" and "out + 4 \<le> p" and "p \<le> length s"
  shows "\<exists>s'. write_code s out (of_nat cp) = Some (s', out + length (utf8 cp)) \<and>
    wrote s s' out (utf8 cp) p"
proof -
  let ?w = "of_nat cp :: u32"
  have cp: "unat ?w = cp" using assms(1) by simp
  note many = write_code_many [OF _ _ refl assms(2,3), of ?w]
  consider "cp < 0x80" | "0x80 \<le> cp" "cp < 0x800" | "0x800 \<le> cp" "cp < 0x10000" | "0x10000 \<le> cp"
    by linarith
  then show ?thesis
  proof cases
    case 1
    then show ?thesis using write_code_one [of cp out p s] assms(2,3) by (simp add: utf8_def)
  next
    case 2
    have c: "unat (push_bit 12 ?w) = cp * 4096" using unat_push [of ?w 12] 2 cp by simp
    have b: "(ucast (push_bit 2 0xf0 OR drop_bit 18 (push_bit 12 ?w)) :: u8) = of_nat (0xc0 + cp div 64)"
      "(ucast (0x80 OR (drop_bit 12 (push_bit 12 ?w) AND 0x3f)) :: u8) = of_nat (0x80 + cp mod 64)"
      using lead_byte [of "drop_bit 18 (push_bit 12 ?w)" 2] continuation [of "drop_bit 12 (push_bit 12 ?w)"]
        2 c by (simp_all add: unat_drop)
    have "\<not> ?w \<le> 0x7f" "?w \<le> 0x7ff" using 2 by (simp_all add: of_nat_le_iff_u32)
    with many [of 2] obtain s' x y where "write_code s out ?w = Some (s', out + 2)"
      "wrote s s' out ([of_nat (0xc0 + cp div 64), of_nat (0x80 + cp mod 64)] @ [x, y]) p"
      using b by (auto simp del: of_nat_add)
    then show ?thesis using 2 wrote_shorter by (fastforce simp: utf8_def)
  next
    case 3
    have c: "unat (push_bit 6 ?w) = cp * 64" using unat_push [of ?w 6] 3 cp by simp
    have b: "(ucast (push_bit 1 0xf0 OR drop_bit 18 (push_bit 6 ?w)) :: u8) = of_nat (0xe0 + cp div 4096)"
      "(ucast (0x80 OR (drop_bit 12 (push_bit 6 ?w) AND 0x3f)) :: u8) = of_nat (0x80 + cp div 64 mod 64)"
      "(ucast (0x80 OR (drop_bit 6 (push_bit 6 ?w) AND 0x3f)) :: u8) = of_nat (0x80 + cp mod 64)"
      using lead_byte [of "drop_bit 18 (push_bit 6 ?w)" 1] continuation [of "drop_bit 12 (push_bit 6 ?w)"]
        continuation [of "drop_bit 6 (push_bit 6 ?w)"] 3 c by (simp_all add: unat_drop)
    have "\<not> ?w \<le> 0x7f" "\<not> ?w \<le> 0x7ff" "?w \<le> 0xffff" using 3 by (simp_all add: of_nat_le_iff_u32)
    with many [of 3] obtain s' x where "write_code s out ?w = Some (s', out + 3)"
      "wrote s s' out ([of_nat (0xe0 + cp div 4096), of_nat (0x80 + cp div 64 mod 64),
        of_nat (0x80 + cp mod 64)] @ [x]) p"
      using b by (auto simp del: of_nat_add)
    then show ?thesis using 3 wrote_shorter by (fastforce simp: utf8_def)
  next
    case 4
    have b: "(ucast (push_bit 0 0xf0 OR drop_bit 18 ?w) :: u8) = of_nat (0xf0 + cp div 262144)"
      "(ucast (0x80 OR (drop_bit 12 ?w AND 0x3f)) :: u8) = of_nat (0x80 + cp div 4096 mod 64)"
      "(ucast (0x80 OR (drop_bit 6 ?w AND 0x3f)) :: u8) = of_nat (0x80 + cp div 64 mod 64)"
      "(ucast (0x80 OR (?w AND 0x3f)) :: u8) = of_nat (0x80 + cp mod 64)"
      using lead_byte [of "drop_bit 18 ?w" 0] continuation [of "drop_bit 12 ?w"]
        continuation [of "drop_bit 6 ?w"] continuation [of ?w] assms(1) cp
      by (simp_all add: unat_drop)
    have "\<not> ?w \<le> 0x7f" "\<not> ?w \<le> 0x7ff" "\<not> ?w \<le> 0xffff"
      using 4 assms(1) by (simp_all add: of_nat_le_iff_u32)
    with many [of 4] obtain s' where "write_code s out ?w = Some (s', out + 4)"
      "wrote s s' out [of_nat (0xf0 + cp div 262144), of_nat (0x80 + cp div 4096 mod 64),
        of_nat (0x80 + cp div 64 mod 64), of_nat (0x80 + cp mod 64)] p"
      using b by (auto simp del: of_nat_add)
    then show ?thesis using 4 by (auto simp: utf8_def)
  qed
qed

definition cont :: "u8 \<Rightarrow> bool" where
  "cont c \<longleftrightarrow> 0x80 \<le> unat c \<and> unat c \<le> 0xbf"

definition accumulate :: "nat \<Rightarrow> u8 list \<Rightarrow> nat" where
  "accumulate n bs = foldl (\<lambda>n c. n * 64 + (unat c - 0x80)) n bs"

lemma accumulate_simps [simp]:
  "accumulate n [] = n" "accumulate n (c # bs) = accumulate (n * 64 + (unat c - 0x80)) bs"
  by (simp_all add: accumulate_def)

lemma accumulate_add: "accumulate (m + n) bs = m * 64 ^ length bs + accumulate n bs"
proof (induction bs arbitrary: m n)
  case (Cons c bs)
  then show ?case using Cons.IH [of "m * 64" "n * 64 + (unat c - 0x80)"] by (simp add: add_mult_distrib)
qed simp

lemma utf8_step:
  assumes "n \<le> 0x1fffff" and "read_at s p = Some c" and "out < length s"
  shows "utf8_loop s p out (of_nat n) = (if cont c
    then utf8_loop (s[out := c]) (p + 1) (out + 1) (of_nat (n * 64 + (unat c - 0x80))) else Some None)"
proof -
  have le: "(of_nat n :: u32) \<le> 0x1fffff" using assms(1) by (simp add: of_nat_le_iff_u32)
  have range: "(ucast c :: u32) - 0x80 > 0xbf - 0x80 \<longleftrightarrow> \<not> cont c"
    using char_range [of "0x80" "0xbf" c] by (simp add: cont_def not_le [symmetric])
  have code: "push_bit 6 (of_nat n) OR ucast (c AND 0x3f) = (of_nat (n * 64 + (unat c - 0x80)) :: u32)"
    if "cont c"
  proof -
    have "unat c mod 64 = unat c - 0x80"
      using that mod_add_self2 [of "unat c - 0x80" 128] by (auto simp: cont_def le_mod_geq)
    then have "unat (push_bit 6 (of_nat n) OR ucast (c AND 0x3f) :: u32) = n * 64 + (unat c - 0x80)"
      using assms(1) shift_or [of "of_nat n" 6 "ucast (c AND 0x3f)"] by (simp add: and_3f)
    then have "of_nat (unat (push_bit 6 (of_nat n) OR ucast (c AND 0x3f) :: u32))
        = (of_nat (n * 64 + (unat c - 0x80)) :: u32)" by simp
    then show ?thesis by simp
  qed
  show ?thesis
    by (subst utf8_loop.simps) (use le range code assms(2,3) in \<open>simp del: of_nat_add of_nat_mult\<close>)
qed

lemma utf8_stop:
  "0x1fffff < n \<Longrightarrow> n < 2 ^ 32 \<Longrightarrow> utf8_loop s p out (of_nat n) = Some (Some (s, p, out, of_nat n))"
  by (simp add: utf8_loop.simps [of s p] of_nat_le_iff_u32)

lemma utf8_loop_run:
  "drop p s = bs @ rest \<Longrightarrow> \<forall>c \<in> set bs. cont c \<Longrightarrow> out \<le> p \<Longrightarrow> p \<le> length s \<Longrightarrow>
     2 ^ (24 - 6 * length bs) \<le> n \<Longrightarrow> n < 2 ^ (25 - 6 * length bs) \<Longrightarrow> length bs \<le> 3 \<Longrightarrow>
     \<exists>s'. utf8_loop s p out (of_nat n) = Some (Some (s', p + length bs, out + length bs,
            of_nat (accumulate n bs))) \<and> wrote s s' out bs (p + length bs)"
proof (induction bs arbitrary: s p out n)
  case Nil
  then show ?case using utf8_stop [of n s p out] wrote_Nil [of out p s] by simp
next
  case (Cons c bs)
  let ?n = "n * 64 + (unat c - 0x80)"
  have r: "read_at s p = Some c" and p: "p < length s" and rest: "drop (p + 1) s = bs @ rest"
    using Cons.prems(1) drop_read [of p s c "bs @ rest"] by simp_all
  have "unat c - 0x80 < 64" using Cons.prems(2) by (auto simp: cont_def)
  moreover have "length bs \<le> 2" using Cons.prems(7) by simp
  then have "length bs = 0 \<or> length bs = 1 \<or> length bs = 2" by linarith
  ultimately have n: "n \<le> 0x1fffff" "2 ^ (24 - 6 * length bs) \<le> ?n" "?n < 2 ^ (25 - 6 * length bs)"
    using Cons.prems(5,6) by auto
  have w: "wrote s (s[out := c]) out [c] (p + 1)" using Cons.prems(3) p by (intro wrote_one) auto
  obtain s' where s': "utf8_loop (s[out := c]) (p + 1) (out + 1) (of_nat ?n) =
      Some (Some (s', p + 1 + length bs, out + 1 + length bs, of_nat (accumulate ?n bs)))"
    "wrote (s[out := c]) s' (out + 1) bs (p + 1 + length bs)"
    using Cons.IH [of "p + 1" "s[out := c]" "out + 1" ?n] rest n Cons.prems(2,3,7) p by auto
  show ?case
    using utf8_step [OF n(1) r, of out] Cons.prems(2,3) p s'(1) wrote_trans [OF w, of s' bs] s'(2)
    by auto
qed

lemma utf8_loop_sound:
  "utf8_loop s p out (of_nat n) = Some (Some r) \<Longrightarrow> 2 ^ (24 - 6 * m) \<le> n \<Longrightarrow>
     n < 2 ^ (25 - 6 * m) \<Longrightarrow> m \<le> 3 \<Longrightarrow> out \<le> p \<Longrightarrow>
     \<exists>bs rest. drop p s = bs @ rest \<and> length bs = m \<and> (\<forall>c \<in> set bs. cont c)"
proof (induction m arbitrary: s p out n)
  case (Suc m)
  have "m = 0 \<or> m = 1 \<or> m = 2" using Suc.prems(4) by linarith
  then have n: "n \<le> 0x1fffff" using Suc.prems(3) by auto
  have "(of_nat n :: u32) \<le> 0x1fffff" using n by (simp add: of_nat_le_iff_u32)
  then obtain c where c: "read_at s p = Some c"
    using Suc.prems(1) by (subst (asm) utf8_loop.simps) (auto elim!: bind_SomeE)
  then have p: "p < length s" by simp
  let ?n = "n * 64 + (unat c - 0x80)"
  have run: "cont c" "utf8_loop (s[out := c]) (p + 1) (out + 1) (of_nat ?n) = Some (Some r)"
    using Suc.prems(1,5) p utf8_step [OF n c, of out] by (simp_all split: if_splits)
  have "unat c - 0x80 < 64" using run(1) by (auto simp: cont_def)
  then have "2 ^ (24 - 6 * m) \<le> ?n" "?n < 2 ^ (25 - 6 * m)"
    using \<open>m = 0 \<or> m = 1 \<or> m = 2\<close> Suc.prems(2,3) by auto
  then obtain bs rest where "drop (p + 1) (s[out := c]) = bs @ rest" "length bs = m" "\<forall>c \<in> set bs. cont c"
    using Suc.IH [OF run(2)] Suc.prems(4,5) by auto
  then have "drop p s = (c # bs) @ rest \<and> length (c # bs) = Suc m \<and> (\<forall>c \<in> set (c # bs). cont c)"
    using read_drop [OF c] run(1) Suc.prems(5) by simp
  then show ?case by blast
qed simp

text \<open>The number of bytes that follow the first byte of a sequence.\<close>

definition followers :: "u8 \<Rightarrow> nat" where
  "followers c = (if unat c < 0xe0 then 1 else if unat c < 0xf0 then 2 else 3)"

abbreviation (input) "lead c \<equiv> 0xc2 \<le> unat c \<and> unat c \<le> 0xf4"

lemma lead_ltab:
  assumes "lead c"
  shows "read_at ltab (unat (drop_bit 3 c AND 7)) = Some (followers c - 1)"
proof -
  have i: "unat (drop_bit 3 c AND 7) = unat c div 8 mod 8"
    using and_mask_nat [of "drop_bit 3 c" 3] by (simp add: mask_eq_exp_minus_1 unat_drop_bit_eq drop_bit_nat_def)
  consider "unat c < 0xe0" | "0xe0 \<le> unat c" "unat c < 0xf0" | "0xf0 \<le> unat c" by linarith
  then show ?thesis
  proof cases
    case 1
    then have "unat c div 8 \<in> {24, 25, 26, 27}" using assms by (auto simp: div_nat_eqI)
    then show ?thesis unfolding i using 1 by (auto simp: ltab_def followers_def read_at_def)
  next
    case 2
    then have "unat c div 8 \<in> {28, 29}" by auto
    then show ?thesis unfolding i using 2 by (auto simp: ltab_def followers_def read_at_def)
  next
    case 3
    then have "unat c div 8 = 30" using assms by (intro div_nat_eqI) auto
    then show ?thesis unfolding i using 3 by (simp add: ltab_def followers_def read_at_def)
  qed
qed

lemma or_marker:
  fixes x :: u32
  assumes "unat x < 2 ^ n" and "n < 32"
  shows "x OR push_bit n 1 = of_nat (2 ^ n + unat x)"
proof -
  have "(2 :: nat) ^ n < 2 ^ 32" using assms(2) by (intro power_strict_increasing) auto
  then have "unat (x OR push_bit n 1) = 2 ^ n + unat x"
    using shift_or [of 1 n x] assms(1) by (simp add: or.commute)
  then have "of_nat (unat (x OR push_bit n 1)) = (of_nat (2 ^ n + unat x) :: u32)" by simp
  then show ?thesis by simp
qed

lemma lead_code:
  fixes c :: u8
  assumes "m = 1 \<or> m = 2 \<or> m = 3"
  shows "(ucast c AND drop_bit (m - 1) 0x1f) OR push_bit ((3 - (m - 1)) * 6) (1 :: u32)
    = of_nat (2 ^ (24 - 6 * m) + unat c mod 2 ^ (6 - m))"
proof -
  have mask: "(drop_bit (m - 1) 0x1f :: u32) = mask (6 - m)" and e: "(3 - (m - 1)) * 6 = 24 - 6 * m"
    using assms by (auto simp: mask_eq_exp_minus_1)
  have "unat ((ucast c :: u32) AND mask (6 - m)) = unat c mod 2 ^ (6 - m)"
    by (simp add: and_mask_nat)
  moreover have "unat c mod 2 ^ (6 - m) < 2 ^ (24 - 6 * m)"
    using assms by (auto intro: order.strict_trans2 [OF mod_less_divisor])
  ultimately show ?thesis
    unfolding mask e using or_marker [of "ucast c AND mask (6 - m)" "24 - 6 * m"] assms by auto
qed


lemma and_shifted_mask:
  fixes w :: u32
  assumes "n \<le> 16"
  shows "w AND push_bit n (mask 5) = 0 \<longleftrightarrow> unat w div 2 ^ n mod 32 = 0"
proof -
  have "w AND push_bit n (mask 5) = push_bit n (drop_bit n w AND mask 5)"
    by (intro bit_word_eqI) (auto simp: bit_simps)
  moreover have "unat (drop_bit n w AND mask 5) = unat w div 2 ^ n mod 32"
    by (simp add: and_mask_nat unat_drop)
  moreover have "unat w div 2 ^ n mod 32 * 2 ^ n < 2 ^ 32"
  proof -
    have "unat w div 2 ^ n mod 32 * 2 ^ n < 32 * 2 ^ n" by simp
    also have "\<dots> \<le> 32 * 2 ^ 16" using assms by (intro mult_le_mono2 power_increasing) auto
    finally show ?thesis by simp
  qed
  ultimately have "unat (w AND push_bit n (mask 5)) = unat w div 2 ^ n mod 32 * 2 ^ n"
    using unat_push [of "drop_bit n w AND mask 5" n] by simp
  then show ?thesis by (simp add: unat_eq_zero [symmetric])
qed

lemma accumulate_bound: "\<forall>c \<in> set bs. cont c \<Longrightarrow> accumulate n bs < (n + 1) * 64 ^ length bs"
proof (induction bs arbitrary: n)
  case (Cons c bs)
  have "accumulate (n * 64 + (unat c - 0x80)) bs < (n * 64 + (unat c - 0x80) + 1) * 64 ^ length bs"
    using Cons by simp
  also have "\<dots> \<le> ((n + 1) * 64) * 64 ^ length bs"
    using Cons.prems by (intro mult_le_mono1) (auto simp: cont_def)
  finally show ?case by (simp add: algebra_simps)
qed simp

lemma parse_utf8_bytes:
  assumes "drop p s = c # bs @ rest" and "lead c" and "length bs = followers c"
    and "\<forall>c \<in> set bs. cont c" and "out \<le> p"
    and cp: "cp = accumulate (unat c mod 2 ^ (6 - followers c)) bs"
  shows "\<exists>s'. parse_utf8 s p out c = Some (if 2 ^ (1 + 5 * followers c) \<le> cp \<and> scalar cp
      then Some (s', p + 1 + length bs, out + 1 + length bs) else None) \<and>
    wrote s s' out (c # bs) (p + 1 + length bs)"
proof -
  let ?m = "followers c"
  have m: "?m = 1 \<or> ?m = 2 \<or> ?m = 3" by (simp add: followers_def)
  have p: "p < length s" and rest: "drop (p + 1) s = bs @ rest"
    using drop_read [OF assms(1)] by simp_all
  let ?n = "2 ^ (24 - 6 * ?m) + unat c mod 2 ^ (6 - ?m)"
  have d: "unat c mod 2 ^ (6 - ?m) < 2 ^ (6 - ?m)" by simp
  have "(2 :: nat) ^ (6 - ?m) \<le> 2 ^ (24 - 6 * ?m)" using m by auto
  with d have n: "2 ^ (24 - 6 * ?m) \<le> ?n" "?n < 2 ^ (25 - 6 * ?m)" using m by auto
  have acc: "accumulate ?n bs = 2 ^ 24 + cp"
    unfolding accumulate_add cp using m assms(3) by auto
  have "cp < 2 ^ (6 - ?m) * 64 ^ ?m"
    using accumulate_bound [OF assms(4), of "unat c mod 2 ^ (6 - ?m)"] d assms(3)
      mult_le_mono1 [OF Suc_leI [OF d], of "64 ^ ?m"] by (simp add: cp)
  then have bound: "cp < 2 ^ (6 + 5 * ?m)" using m by auto
  then have small: "cp < 2 ^ 21" using m by auto
  obtain s' where s': "utf8_loop (s[out := c]) (p + 1) (out + 1) (of_nat ?n) =
      Some (Some (s', p + 1 + length bs, out + 1 + length bs, of_nat (2 ^ 24 + cp)))"
    and w: "wrote (s[out := c]) s' (out + 1) bs (p + 1 + length bs)"
    using utf8_loop_run [of "p + 1" "s[out := c]" bs rest "out + 1" ?n] rest p n m assms(3-5)
    unfolding acc by auto
  have code: "(of_nat (2 ^ 24 + cp) :: u32) AND 0x1fffff = of_nat cp"
  proof -
    have "unat ((of_nat (2 ^ 24 + cp) :: u32) AND mask 21) = cp"
      using small unfolding and_mask_nat by (subst unat_small) (simp_all add: mod_add_left_eq [symmetric])
    then have "of_nat (unat ((of_nat (2 ^ 24 + cp) :: u32) AND mask 21)) = (of_nat cp :: u32)" by simp
    then show ?thesis by (simp add: mask_eq_exp_minus_1)
  qed
  have mask: "push_bit ((?m - 1) * 5) (0x7c0 :: u32) = push_bit (1 + 5 * ?m) (mask 5)"
    using m by (auto simp: mask_eq_exp_minus_1)
  have "cp div 2 ^ (1 + 5 * ?m) mod 32 = cp div 2 ^ (1 + 5 * ?m)"
    using bound by (intro mod_less) (simp add: less_mult_imp_div_less power_add)
  then have long: "(of_nat cp :: u32) AND push_bit ((?m - 1) * 5) 0x7c0 = 0 \<longleftrightarrow> cp < 2 ^ (1 + 5 * ?m)"
    unfolding mask using and_shifted_mask [of "1 + 5 * ?m" "of_nat cp"] m small
    by (auto simp: div_eq_0_iff)
  have sur: "(of_nat cp :: u32) - 0xd800 \<le> 0xdfff - 0xd800 \<longleftrightarrow> surrogate cp"
    using word_range [of "0xd800" "0xdfff" "of_nat cp"] small
    by (simp add: surrogate_def word_le_nat_alt)
  have big: "(of_nat cp :: u32) > 0x10ffff \<longleftrightarrow> cp > 0x10ffff"
    using small by (simp add: not_le [symmetric] of_nat_le_iff_u32)
  have "parse_utf8 s p out c = Some (if 2 ^ (1 + 5 * ?m) \<le> cp \<and> scalar cp
      then Some (s', p + 1 + length bs, out + 1 + length bs) else None)"
    unfolding parse_utf8_def lead_ltab [OF assms(2)] bind.bind_lunit Let_def lead_code [OF m]
    using assms(5) p s' code long sur big by (auto simp: scalar_def not_less not_le)
  moreover have "wrote s s' out ([c] @ bs) (p + 1 + length bs)"
    using wrote_trans [OF wrote_one [of out "p + 1" s c], of s' bs] w assms(5) p by simp
  ultimately show ?thesis by auto
qed

lemma unat_byte [simp]: "n < 256 \<Longrightarrow> unat (of_nat n :: u8) = n"
  by (simp add: unsigned_of_nat take_bit_nat_eq_self)

lemma of_nat_unat_byte: "unat c = n \<Longrightarrow> (of_nat n :: u8) = c"
  by auto

lemma lead_mod:
  "q < 32 \<Longrightarrow> (0xc0 + q) mod 32 = q" "q < 16 \<Longrightarrow> (0xe0 + q) mod 16 = q" "q < 8 \<Longrightarrow> (0xf0 + q) mod 8 = q"
  for q :: nat
  using mod_mult_self4 [of 32 6 q] mod_mult_self4 [of 16 14 q] mod_mult_self4 [of 8 30 q] by simp_all

lemma split_digits:
  "cp div 64 div 64 = cp div 4096" "cp div 64 div 64 div 64 = cp div 262144" for cp :: nat
  by (simp_all add: div_mult2_eq [symmetric])

lemma cp_digits:
  "cp div 64 * 64 + cp mod 64 = cp" "cp div 4096 * 64 + cp div 64 mod 64 = cp div 64"
  "cp div 262144 * 64 + cp div 4096 mod 64 = cp div 4096" for cp :: nat
  using div_mult_mod_eq [of "cp div 64" 64] div_mult_mod_eq [of "cp div 4096" 64]
  by (simp_all add: div_mult2_eq [symmetric])

lemma cont_digit: "cont (of_nat (0x80 + n mod 64))" "unat (of_nat (0x80 + n mod 64) :: u8) - 0x80 = n mod 64"
proof -
  have "unat (of_nat (0x80 + n mod 64) :: u8) = 0x80 + n mod 64" by (intro unat_byte) simp
  then show "cont (of_nat (0x80 + n mod 64))" "unat (of_nat (0x80 + n mod 64) :: u8) - 0x80 = n mod 64"
    by (simp_all add: cont_def del: of_nat_add)
qed

lemma utf8_lead:
  assumes "scalar cp" and "0x80 \<le> cp"
  obtains c bs where "utf8 cp = c # bs" and "lead c" and "length bs = followers c"
    and "\<forall>c \<in> set bs. cont c" and "accumulate (unat c mod 2 ^ (6 - followers c)) bs = cp"
    and "2 ^ (1 + 5 * followers c) \<le> cp"
proof -
  have "cp \<le> 0x10ffff" using assms by (simp add: scalar_def)
  then consider "cp < 0x800" | "0x800 \<le> cp" "cp < 0x10000" | "0x10000 \<le> cp" "cp \<le> 0x10ffff"
    by linarith
  then show thesis
  proof cases
    case 1
    define c b where "c = (of_nat (0xc0 + cp div 64) :: u8)" and "b = (of_nat (0x80 + cp mod 64) :: u8)"
    have q: "cp div 64 < 32" "2 \<le> cp div 64" using 1 assms(2) by auto
    have c: "unat c = 0xc0 + cp div 64" unfolding c_def using q by (intro unat_byte) auto
    have b: "cont b" "unat b - 0x80 = cp mod 64" unfolding b_def by (rule cont_digit)+
    have "utf8 cp = [c, b]" using 1 assms(2) by (simp only: utf8_def c_def b_def) simp
    moreover have "followers c = 1" using c q by (simp add: followers_def)
    moreover have "accumulate (unat c mod 2 ^ (6 - 1)) [b] = cp"
      using lead_mod(1) [OF q(1)] cp_digits(1) by (simp add: c b)
    ultimately show thesis using that [of c "[b]"] b(1) c q 1 assms(2) by simp
  next
    case 2
    define c b b' where "c = (of_nat (0xe0 + cp div 4096) :: u8)"
      and "b = (of_nat (0x80 + cp div 64 mod 64) :: u8)" and "b' = (of_nat (0x80 + cp mod 64) :: u8)"
    have q: "cp div 4096 < 16" using 2 by auto
    have c: "unat c = 0xe0 + cp div 4096" unfolding c_def using q by (intro unat_byte) auto
    have b: "cont b" "unat b - 0x80 = cp div 64 mod 64" "cont b'" "unat b' - 0x80 = cp mod 64"
      unfolding b_def b'_def by (rule cont_digit)+
    have "utf8 cp = [c, b, b']" using 2 by (simp only: utf8_def c_def b_def b'_def) simp
    moreover have "followers c = 2" using c q by (simp add: followers_def)
    moreover have "accumulate (unat c mod 2 ^ (6 - 2)) [b, b'] = cp"
      using lead_mod(2) [OF q] cp_digits(1,2) by (simp add: c b)
    ultimately show thesis using that [of c "[b, b']"] b(1,3) c q 2 by simp
  next
    case 3
    define c b b' b'' where "c = (of_nat (0xf0 + cp div 262144) :: u8)"
      and "b = (of_nat (0x80 + cp div 4096 mod 64) :: u8)"
      and "b' = (of_nat (0x80 + cp div 64 mod 64) :: u8)" and "b'' = (of_nat (0x80 + cp mod 64) :: u8)"
    have q: "cp div 262144 < 5" using 3 by auto
    have c: "unat c = 0xf0 + cp div 262144" unfolding c_def using q by (intro unat_byte) auto
    have b: "cont b" "unat b - 0x80 = cp div 4096 mod 64" "cont b'" "unat b' - 0x80 = cp div 64 mod 64"
      "cont b''" "unat b'' - 0x80 = cp mod 64"
      unfolding b_def b'_def b''_def by (rule cont_digit)+
    have "utf8 cp = [c, b, b', b'']" using 3 by (simp only: utf8_def c_def b_def b'_def b''_def) simp
    moreover have "followers c = 3" using c by (simp add: followers_def)
    moreover have "accumulate (unat c mod 2 ^ (6 - 3)) [b, b', b''] = cp"
      using lead_mod(3) [of "cp div 262144"] q cp_digits(1,2,3) by (simp add: c b)
    ultimately show thesis using that [of c "[b, b', b'']"] b(1,3,5) c q 3 by simp
  qed
qed

lemma digits_of:
  fixes q x y z :: nat
  assumes "x < 64" and "y < 64" and "z < 64"
  shows "(q * 64 + x) div 64 = q" "(q * 64 + x) mod 64 = x"
    "((q * 64 + x) * 64 + y) div 4096 = q" "((q * 64 + x) * 64 + y) div 64 = q * 64 + x"
    "(((q * 64 + x) * 64 + y) * 64 + z) div 262144 = q"
    "(((q * 64 + x) * 64 + y) * 64 + z) div 4096 = q * 64 + x"
proof -
  have one: "(n * 64 + m) div 64 = n" if "m < 64" for n m :: nat using that by simp
  have two: "n div 4096 = n div 64 div 64" "n div 262144 = n div 64 div 64 div 64" for n :: nat
    by (simp_all add: div_mult2_eq [symmetric])
  show "(q * 64 + x) div 64 = q" "(q * 64 + x) mod 64 = x"
    "((q * 64 + x) * 64 + y) div 4096 = q" "((q * 64 + x) * 64 + y) div 64 = q * 64 + x"
    "(((q * 64 + x) * 64 + y) * 64 + z) div 262144 = q"
    "(((q * 64 + x) * 64 + y) * 64 + z) div 4096 = q * 64 + x"
    unfolding two using one assms by simp_all
qed

lemma cont_byte: "cont b \<Longrightarrow> of_nat (0x80 + (unat b - 0x80)) = b" "cont b \<Longrightarrow> unat b - 0x80 < 64"
  by (auto simp: cont_def simp del: of_nat_add)

lemma utf8_bytes:
  assumes "lead c" and len: "length bs = followers c" and bs: "\<forall>c \<in> set bs. cont c"
    and cp: "cp = accumulate (unat c mod 2 ^ (6 - followers c)) bs"
    and long: "2 ^ (1 + 5 * followers c) \<le> cp"
  shows "utf8 cp = c # bs \<and> 0x80 \<le> cp"
proof -
  consider "unat c < 0xe0" | "0xe0 \<le> unat c" "unat c < 0xf0" | "0xf0 \<le> unat c" by linarith
  then show ?thesis
  proof cases
    case 1
    then obtain b where b: "bs = [b]" "cont b"
      using len bs by (auto simp: followers_def length_Suc_conv)
    define q x where "q = unat c - 0xc0" and "x = unat b - 0x80"
    have q: "q < 32" "2 \<le> q" "of_nat (0xc0 + q) = c" "unat c = 0xc0 + q"
      using 1 assms(1) by (auto simp: q_def simp del: of_nat_add)
    have x: "x < 64" "of_nat (0x80 + x) = b" using cont_byte b by (auto simp: x_def)
    have "cp = q * 64 + x"
      using cp 1 b lead_mod(1) [OF q(1)] q(4) by (simp add: followers_def x_def)
    moreover have "0x80 \<le> q * 64 + x" "q * 64 + x < 0x800" using q x by auto
    moreover have "cp div 64 = q" "cp mod 64 = x" using digits_of(1,2) [OF x(1), of 0 0 q] calculation by simp_all
    ultimately show ?thesis by (simp only: utf8_def b q(3) x(2)) simp
  next
    case 2
    then obtain b b' where b: "bs = [b, b']" "cont b" "cont b'"
      using len bs by (auto simp: followers_def length_Suc_conv numeral_2_eq_2)
    define q x y where "q = unat c - 0xe0" and "x = unat b - 0x80" and "y = unat b' - 0x80"
    have q: "q < 16" "of_nat (0xe0 + q) = c" "unat c = 0xe0 + q"
      using 2 by (auto simp: q_def simp del: of_nat_add)
    have x: "x < 64" "of_nat (0x80 + x) = b" "y < 64" "of_nat (0x80 + y) = b'"
      using cont_byte b by (auto simp: x_def y_def)
    have "cp = (q * 64 + x) * 64 + y"
      using cp 2 b lead_mod(2) [OF q(1)] q(3) by (simp add: followers_def x_def y_def)
    moreover have "0x800 \<le> cp" using long 2 by (simp add: followers_def)
    moreover have "(q * 64 + x) * 64 + y < 0x10000" using q x by auto
    moreover have "cp div 4096 = q" "cp div 64 mod 64 = x" "cp mod 64 = y"
      using digits_of(2-4) [OF x(1,3), of 0 q] digits_of(2) [OF x(3), of 0 0 "q * 64 + x"] calculation(1)
      by simp_all
    ultimately show ?thesis by (simp only: utf8_def b q(2) x(2,4)) simp
  next
    case 3
    then obtain b b' b'' where b: "bs = [b, b', b'']" "cont b" "cont b'" "cont b''"
      using len bs by (auto simp: followers_def length_Suc_conv numeral_3_eq_3)
    define q x y z where "q = unat c - 0xf0" and "x = unat b - 0x80" and "y = unat b' - 0x80"
      and "z = unat b'' - 0x80"
    have q: "q < 8" "of_nat (0xf0 + q) = c" "unat c = 0xf0 + q"
      using 3 assms(1) by (auto simp: q_def simp del: of_nat_add)
    have x: "x < 64" "of_nat (0x80 + x) = b" "y < 64" "of_nat (0x80 + y) = b'" "z < 64"
      "of_nat (0x80 + z) = b''"
      using cont_byte b by (auto simp: x_def y_def z_def)
    have "cp = ((q * 64 + x) * 64 + y) * 64 + z"
      using cp 3 b lead_mod(3) [OF q(1)] q(3) by (simp add: followers_def x_def y_def z_def)
    moreover have "0x10000 \<le> cp" using long 3 by (simp add: followers_def)
    moreover have "cp div 262144 = q" "cp div 4096 mod 64 = x" "cp div 64 mod 64 = y" "cp mod 64 = z"
      using digits_of(2,5,6) [OF x(1,3,5), of q] digits_of(2,4) [OF x(3,5), of 0 "q * 64 + x"]
        digits_of(2) [OF x(5), of 0 0 "(q * 64 + x) * 64 + y"] calculation(1) by simp_all
    ultimately show ?thesis by (simp only: utf8_def b q(2) x(2,4,6)) simp
  qed
qed

end
