(* ===== verification/Jstr_String.thy ===== *)
theory Jstr_String
  imports Jstr_Utf8
begin

text \<open>
  The tokenizer's string loop reads the strings of the grammar and writes the bytes of their
  characters over their text.
\<close>

section \<open>Escapes of two characters\<close>

lemma escmap_list:
  "escmap = [(0x6e, 0x0a), (0x72, 0x0d), (0x74, 0x09), (0, 0), (0x2f, 0x2f), (0, 0), (0, 0), (0, 0),
     (0x5c, 0x5c), (0, 0), (0x62, 0x08), (0, 0), (0x66, 0x0c), (0, 0), (0x22, 0x22), (0, 0)]"
  by code_simp

lemma escmap_read: "read_at escmap (ESCIDX n) = Some (escmap ! ESCIDX n)"
  by (simp add: escmap_def ESCIDX_def)

lemma short_escape_found:
  assumes "(c, cp) \<in> set short_escapes"
  shows "escmap ! ESCIDX (unat c) = (c, of_nat cp) \<and> cp < 0x80 \<and> utf8 cp = [of_nat cp]"
  using assms by (auto simp: short_escapes_def escmap_def ESCIDX_def utf8_def)

lemma short_escape_sound:
  assumes "fst (escmap ! ESCIDX (unat c)) = c"
  shows "(c, unat (snd (escmap ! ESCIDX (unat c)))) \<in> set short_escapes"
proof -
  have "escmap ! ESCIDX (unat c) \<in> set escmap"
    by (intro nth_mem) (simp add: escmap_def ESCIDX_def)
  moreover have "set escmap \<subseteq> insert (0, 0) (set (map (\<lambda>(c, cp). (c, of_nat cp)) short_escapes))"
    by (simp add: escmap_list short_escapes_def)
  moreover have "c \<noteq> 0" using assms by (auto simp: escmap_def ESCIDX_def)
  ultimately obtain cp where "(c, cp) \<in> set short_escapes"
    and "escmap ! ESCIDX (unat c) = (c, of_nat cp)"
    using assms by (auto simp: image_iff)
  then show ?thesis using short_escape_found by fastforce
qed

section \<open>Code units\<close>

lemma unit_text_hex4: "unit_text h u \<longleftrightarrow> (\<exists>a b c d. u = [0x5c, 0x75, a, b, c, d] \<and> hex4 [a, b, c, d] = Some h)"
  by (auto simp: unit_text_def hex4_def elim!: bind_SomeE)

lemma unit_less: "unit_text h u \<Longrightarrow> h < 0x10000 \<and> length u = 6"
  by (auto simp: unit_text_hex4 dest: hex4_less)

lemma unit_unique: "unit_text h u \<Longrightarrow> unit_text h' u \<Longrightarrow> h = h'"
  by (auto simp: unit_text_hex4)

lemma hex_loop_cong:
  "drop p s = drop p s' \<Longrightarrow> length s = length s' \<Longrightarrow> hex_loop s p code = hex_loop s' p code"
proof (induction s p code arbitrary: s' rule: hex_loop.induct)
  case (1 s p code)
  show ?case
  proof (cases "p < length s")
    case True
    then have "s ! p = s' ! p" using "1.prems" by (metis hd_drop_conv_nth)
    moreover have "drop (p + 1) s = drop (p + 1) s'" using drop_later [OF "1.prems"(1)] by simp
    ultimately show ?thesis
      using "1.IH"(1) [of "s ! p" s'] "1.IH"(2) [of "s ! p" s'] "1.prems"(2) True
      by (simp add: hex_loop.simps [of s p] hex_loop.simps [of s' p])
  next
    case False
    then have "read_at s p = None" "read_at s' p = None" using "1.prems"(2) by (simp_all add: read_at_def)
    then show ?thesis by (simp add: hex_loop.simps [of s p] hex_loop.simps [of s' p])
  qed
qed

lemma hex_loop_unit_text:
  assumes "drop p s = u @ rest" and "unit_text h u"
  shows "hex_loop s (p + 2) 1 = Some (Some (p + 6, of_nat (0x10000 + h)))"
proof -
  obtain a b c d where u: "u = [0x5c, 0x75, a, b, c, d]" "hex4 [a, b, c, d] = Some h"
    using assms(2) by (auto simp: unit_text_hex4)
  have "drop (p + 2) s = drop 2 (drop p s)" by (simp add: add.commute)
  also have "\<dots> = [a, b, c, d] @ rest" using assms(1) u by simp
  finally show ?thesis using hex_loop_unit [OF _ u(2)] by (simp del: of_nat_add)
qed

lemma and_ffff: "h < 0x10000 \<Longrightarrow> (of_nat (0x10000 + h) AND 0xffff :: u32) = of_nat h"
proof -
  assume "h < 0x10000"
  then have "unat (of_nat (0x10000 + h) AND mask 16 :: u32) = h"
    unfolding and_mask_nat by (subst unat_small) (simp_all add: mod_add_left_eq [symmetric])
  then have "of_nat (unat (of_nat (0x10000 + h) AND mask 16 :: u32)) = (of_nat h :: u32)" by simp
  then show ?thesis by (simp add: mask_eq_exp_minus_1)
qed

lemma surrogate_words:
  "h < 2 ^ 32 \<Longrightarrow> (of_nat h :: u32) - 0xd800 \<le> 0x3ff \<longleftrightarrow> high_surrogate h"
  "h < 2 ^ 32 \<Longrightarrow> (of_nat h :: u32) - 0xdc00 \<le> 0x3ff \<longleftrightarrow> low_surrogate h"
  using word_range [of "0xd800" "0xdbff" "of_nat h"] word_range [of "0xdc00" "0xdfff" "of_nat h"]
  by (simp_all add: word_le_nat_alt)
definition codehi_of :: "nat \<Rightarrow> u32" where
  "codehi_of h = 0x10000 + push_bit 10 (of_nat h - 0xd800)"

lemma codehi_nat:
  assumes "high_surrogate h"
  shows "codehi_of h = of_nat (0x10000 + (h - 0xd800) * 0x400)" and "codehi_of h \<noteq> 0"
    and "low_surrogate l \<Longrightarrow> codehi_of h OR (of_nat l - 0xdc00)
      = of_nat (0x10000 + (h - 0xd800) * 0x400 + (l - 0xdc00))"
proof -
  obtain x where h: "h = 0xd800 + x" and x: "x < 0x400"
    using assms le_Suc_ex [of "0xd800" h] by auto
  show hi: "codehi_of h = of_nat (0x10000 + (h - 0xd800) * 0x400)"
    by (simp add: codehi_of_def h push_bit_eq_mult)
  have "unat (codehi_of h) \<noteq> 0" unfolding hi using h x by (subst unat_small) auto
  then show "codehi_of h \<noteq> 0" by auto
  assume "low_surrogate l"
  then obtain y where l: "l = 0xdc00 + y" and y: "y < 0x400" using le_Suc_ex [of "0xdc00" l] by auto
  have "codehi_of h = push_bit 10 (of_nat (64 + x))" by (simp add: codehi_of_def h push_bit_eq_mult)
  moreover have "unat (push_bit 10 (of_nat (64 + x)) OR of_nat y :: u32) = (64 + x) * 2 ^ 10 + y"
    by (subst shift_or) (use x y in \<open>simp_all del: of_nat_add\<close>)
  ultimately have "of_nat (unat (codehi_of h OR of_nat y)) = (of_nat ((64 + x) * 2 ^ 10 + y) :: u32)"
    by (simp only:)
  then show "codehi_of h OR (of_nat l - 0xdc00) = of_nat (0x10000 + (h - 0xd800) * 0x400 + (l - 0xdc00))"
    by (simp add: h l algebra_simps)
qed

lemma u_unit_first:
  assumes "drop p s = u @ rest" and "unit_text h u"
  shows "u_unit s p out 0 = Some (Some (s, p + 6, out, of_nat h))"
  using hex_loop_unit_text [OF assms] and_ffff [of h] unit_less [OF assms(2)]
  by (simp add: u_unit_def del: of_nat_add)

lemma u_unit_low:
  assumes "drop p s = u @ rest" and "unit_text l u" and "low_surrogate l" and "high_surrogate h"
  shows "u_unit s p out (codehi_of h) =
    Some (Some (s, p + 6, out, of_nat (0x10000 + (h - 0xd800) * 0x400 + (l - 0xdc00))))"
  using hex_loop_unit_text [OF assms(1,2)] and_ffff [of l] unit_less [OF assms(2)] assms(3)
    codehi_nat(2,3) [OF assms(4)] surrogate_words(2) [of l]
  by (simp add: u_unit_def del: of_nat_add of_nat_mult)

lemma write_replacement_wrote:
  assumes "out + 3 \<le> p" and "p \<le> length s"
  obtains s' where "write_replacement s out = Some s'" and "wrote s s' out (utf8 REPLACEMENT) p"
proof
  have "wrote s (s[out := 0xef]) out [0xef] p" using assms by (intro wrote_one) auto
  from wrote_snoc [OF this, of "out + 1" "0xbf"]
  have "wrote s (s[out := 0xef, out + 1 := 0xbf]) out [0xef, 0xbf] p" using assms by simp
  from wrote_snoc [OF this, of "out + 2" "0xbd"]
  show "wrote s (s[out := 0xef, out + 1 := 0xbf, out + 2 := 0xbd]) out (utf8 REPLACEMENT) p"
    using assms by (simp add: utf8_def)
qed (use assms in \<open>simp add: write_replacement_def\<close>)

lemma u_escape_unpaired:
  assumes "codehi \<noteq> 0" and "write_replacement s out = Some s'" and "drop p s' = drop p s"
    and "length s' = length s"
    and "\<And>p' code. hex_loop s (p + 2) 1 = Some (Some (p', code)) \<Longrightarrow> \<not> (code AND 0xffff) - 0xdc00 \<le> 0x3ff"
  shows "u_escape s p out codehi = u_escape s' p (out + 3) 0"
proof -
  have "hex_loop s' (p + 2) 1 = hex_loop s (p + 2) 1"
    using drop_later [OF assms(3), of "p + 2"] assms(4) by (intro hex_loop_cong) auto
  then have "u_unit s p out codehi = u_unit s' p (out + 3) 0"
    using assms(1,2,5) by (cases "hex_loop s (p + 2) 1") (auto simp: u_unit_def Let_def split: option.splits)
  then show ?thesis by (simp add: u_escape.simps [of s p] u_escape.simps [of s' p])
qed

lemma u_write_wrote:
  assumes "cp \<le> 0x10ffff" and "out + 4 \<le> p" and "p \<le> length s"
    and "cp' = (if cp = 0 \<or> low_surrogate cp then REPLACEMENT else cp)"
  obtains s' where "u_write s p out (of_nat cp) = Some (Some (s', p, out + length (utf8 cp')))"
    and "wrote s s' out (utf8 cp') p"
proof -
  have eq: "(if (of_nat cp :: u32) = 0 \<or> of_nat cp - 0xdc00 \<le> (0x3ff :: u32) then 0xfffd else of_nat cp)
      = (of_nat cp' :: u32)"
    using assms(1,4) surrogate_words(2) [of cp] unat_small [of cp]
    by (auto simp: unat_eq_zero [symmetric] simp del: unat_small)
  have "cp' \<le> 0x10ffff" using assms(1,4) by auto
  then obtain s' where "write_code s out (of_nat cp') = Some (s', out + length (utf8 cp'))"
    and "wrote s s' out (utf8 cp') p"
    using write_code_utf8 assms(2,3) by blast
  then show thesis using that eq by (simp add: u_write_def)
qed

section \<open>One character\<close>

definition string_rest :: "(u8 list \<times> nat \<times> nat) option \<Rightarrow> (u8 list \<times> nat) option option" where
  "string_rest r = (case r of None \<Rightarrow> Some None | Some (s, p, out) \<Rightarrow> string_loop s p out)"

lemma string_rest_simps [simp]:
  "string_rest None = Some None" "string_rest (Some (s, p, out)) = string_loop s p out"
  by (simp_all add: string_rest_def)

lemma string_loop_char:
  "read_at s p = Some c \<Longrightarrow> c \<noteq> 0x22 \<Longrightarrow>
     string_loop s p out = Option.bind (parse_char s p out c) string_rest"
  unfolding string_rest_def by (subst string_loop.simps) simp

lemma string_loop_u:
  assumes "drop p s = 0x5c # 0x75 # t"
  shows "string_loop s p out = Option.bind (u_escape s p out 0) string_rest"
proof -
  have p: "read_at s p = Some 0x5c" "read_at s (p + 1) = Some 0x75"
    using drop_read [OF assms] drop_read [of "p + 1" s "0x75" t] by simp_all
  have "parse_char s p out 0x5c = u_escape s p out 0"
    unfolding parse_char_def parse_escape_def p bind.bind_lunit escmap_read
    by (simp add: escmap_list ESCIDX_def)
  then show ?thesis using string_loop_char [OF p(1)] by simp
qed

definition item_done :: "u8 list \<Rightarrow> nat \<Rightarrow> nat \<Rightarrow> nat \<Rightarrow> nat \<Rightarrow> bool" where
  "item_done s p out n cp \<longleftrightarrow>
     (\<exists>s'. string_loop s p out = string_loop s' (p + n) (out + length (utf8 cp)) \<and>
       wrote s s' out (utf8 cp) (p + n))"

lemma item_doneI:
  "string_loop s p out = Option.bind r string_rest \<Longrightarrow> r = Some (Some (s', p + n, out + length (utf8 cp))) \<Longrightarrow>
     wrote s s' out (utf8 cp) (p + n) \<Longrightarrow> item_done s p out n cp"
  unfolding item_done_def by (rule exI [of _ s']) simp

lemma item_done_char:
  assumes "read_at s p = Some c" and "c \<noteq> 0x22"
    and "parse_char s p out c = Some (Some (s', p + n, out + length (utf8 cp)))"
    and "wrote s s' out (utf8 cp) (p + n)"
  shows "item_done s p out n cp"
  using item_doneI [OF string_loop_char [OF assms(1,2)] assms(3,4)] .

lemma item_ascii:
  assumes "drop p s = [of_nat cp] @ rest" and "0x20 \<le> cp" and "cp < 0x80" and "cp \<noteq> 0x22" and "cp \<noteq> 0x5c"
    and "out \<le> p"
  shows "item_done s p out 1 cp"
proof -
  let ?c = "of_nat cp :: u8"
  have c: "unat ?c = cp" using assms(3) by simp
  have r: "read_at s p = Some ?c" "p < length s" using drop_read [of p s ?c] assms(1) by simp_all
  have "?c \<noteq> 0x22" "?c \<noteq> 0x5c" using assms(4,5) c by (auto simp: word_unat_eq_iff)
  moreover have "(ucast ?c :: u32) - 0x20 \<le> 0x7f - 0x20"
    using char_range [of "0x20" "0x7f" ?c] assms(2,3) c by simp
  moreover have "utf8 cp = [?c]" using assms(3) by (simp add: utf8_def)
  ultimately show ?thesis
    using r assms(6) wrote_one [of out "p + 1" s ?c]
    by (intro item_done_char [OF r(1)]) (simp_all add: parse_char_def)
qed

lemma item_utf8:
  assumes "drop p s = utf8 cp @ rest" and "scalar cp" and "0x80 \<le> cp" and "out \<le> p"
  shows "item_done s p out (length (utf8 cp)) cp"
proof -
  obtain c bs where u: "utf8 cp = c # bs" and c: "lead c" and len: "length bs = followers c"
    and bs: "\<forall>c \<in> set bs. cont c" and cp: "accumulate (unat c mod 2 ^ (6 - followers c)) bs = cp"
    and long: "2 ^ (1 + 5 * followers c) \<le> cp"
    by (rule utf8_lead [OF assms(2,3)])
  have d: "drop p s = c # bs @ rest" using assms(1) u by simp
  have r: "read_at s p = Some c" using drop_read [OF d] by simp
  obtain s' where s': "parse_utf8 s p out c = Some (Some (s', p + 1 + length bs, out + 1 + length bs))"
    "wrote s s' out (c # bs) (p + 1 + length bs)"
    using parse_utf8_bytes [OF d c len bs assms(4) cp [symmetric]] long assms(2) by auto
  have "\<not> (ucast c :: u32) - 0x20 \<le> 0x7f - 0x20" "(ucast c :: u32) - 0xc2 \<le> 0xf4 - 0xc2"
    using char_range [of "0x20" "0x7f" c] char_range [of "0xc2" "0xf4" c] c by simp_all
  then have "parse_char s p out c = parse_utf8 s p out c" by (simp add: parse_char_def)
  moreover have "c \<noteq> 0x22" using c by auto
  ultimately show ?thesis using s' u by (intro item_done_char [OF r]) simp_all
qed

lemma item_short_done:
  assumes "drop p s = [0x5c, c] @ rest" and "(c, cp) \<in> set short_escapes" and "out \<le> p"
  shows "item_done s p out 2 cp"
proof -
  have r: "read_at s p = Some 0x5c" "read_at s (p + 1) = Some c" "p + 1 < length s"
    using drop_read [of p s "0x5c" "c # rest"] drop_read [of "p + 1" s c rest] assms(1) by simp_all
  note e = short_escape_found [OF assms(2)]
  have "parse_char s p out 0x5c = Some (Some (s[out := of_nat cp], p + 2, out + 1))"
    unfolding parse_char_def parse_escape_def r(2) bind.bind_lunit escmap_read
    using e r(3) assms(3) by simp
  moreover have "wrote s (s[out := of_nat cp]) out [of_nat cp] (p + 2)"
    using r(3) assms(3) by (intro wrote_one) auto
  ultimately show ?thesis using e by (intro item_done_char [OF r(1)]) simp_all
qed

lemma unit_starts: "unit_text h u \<Longrightarrow> \<exists>t. u = 0x5c # 0x75 # t"
  by (auto simp: unit_text_hex4)

lemma string_loop_unit:
  assumes "drop p s = u @ rest" and "unit_text h u"
  shows "string_loop s p out = Option.bind (u_escape s p out 0) string_rest"
  using unit_starts [OF assms(2)] assms(1) by (auto intro: string_loop_u)

lemma drop_behind: "drop p s = u @ rest \<Longrightarrow> rest \<noteq> [] \<Longrightarrow> p + length u < length s \<and> drop (p + length u) s = rest"
  by (metis add.commute append_eq_conv_conj drop_drop drop_eq_Nil2 not_less)

lemma u_escape_write:
  assumes "u_unit s p out codehi = Some (Some (s, p', out, of_nat cp))" and "\<not> high_surrogate cp"
    and "cp < 2 ^ 32"
  shows "u_escape s p out codehi = u_write s p' out (of_nat cp)"
  using assms surrogate_words(1) [of cp] by (auto simp: u_escape.simps [of s p])

lemma item_single:
  assumes "drop p s = u @ rest" and "unit_text h u" and "\<not> high_surrogate h" and "out \<le> p" and "rest \<noteq> []"
    and "cp = (if h = 0 \<or> low_surrogate h then REPLACEMENT else h)"
  shows "item_done s p out (length u) cp"
proof -
  have u: "length u = 6" "h < 0x10000" using unit_less [OF assms(2)] by auto
  have "p + 6 < length s" using drop_behind [OF assms(1,5)] u by simp
  then obtain s' where "u_write s (p + 6) out (of_nat h) = Some (Some (s', p + 6, out + length (utf8 cp)))"
    and w: "wrote s s' out (utf8 cp) (p + 6)"
    using u_write_wrote [of h out "p + 6" s cp] assms(4,6) u by auto
  then have "u_escape s p out 0 = Some (Some (s', p + 6, out + length (utf8 cp)))"
    using u_escape_write [OF u_unit_first [OF assms(1,2)] assms(3)] u by simp
  then show ?thesis using item_doneI [OF string_loop_unit [OF assms(1,2)]] w u by simp
qed

lemma u_escape_high:
  assumes "drop p s = u @ rest" and "unit_text h u" and "high_surrogate h"
  shows "rest = 0x5c # 0x75 # t \<Longrightarrow> u_escape s p out 0 = u_escape s (p + 6) out (codehi_of h)"
    and "rest = c # t \<Longrightarrow> c \<noteq> 0x5c \<Longrightarrow> u_escape s p out 0 = u_write s (p + 6) out 0xfffd"
    and "rest = 0x5c # c # t \<Longrightarrow> c \<noteq> 0x75 \<Longrightarrow> u_escape s p out 0 = u_write s (p + 6) out 0xfffd"
proof -
  have u: "length u = 6" "h < 0x10000" using unit_less [OF assms(2)] by auto
  have d: "rest \<noteq> [] \<Longrightarrow> drop (p + 6) s = rest" using drop_behind [OF assms(1)] u by auto
  have code: "(of_nat h :: u32) - 0xd800 \<le> 0x3ff" using surrogate_words(1) [of h] u assms(3) by simp
  note unfold = u_escape.simps [of s p out 0, unfolded u_unit_first [OF assms(1,2)] bind.bind_lunit]
  have r0: "read_at s (p + 6) = Some x" if "rest = x # y" for x y
    using that d drop_read [of "p + 6" s x] by auto
  have r1: "read_at s (p + 6 + 1) = Some y" if "rest = x # y # z" for x y z
    using that d drop_read [of "p + 6" s x "y # z"] drop_read [of "p + 6 + 1" s y z] by simp
  show "u_escape s p out 0 = u_escape s (p + 6) out (codehi_of h)" if "rest = 0x5c # 0x75 # t"
    unfolding unfold using r0 [OF that] r1 [OF that] code by (simp add: codehi_of_def)
  show "u_escape s p out 0 = u_write s (p + 6) out 0xfffd" if "rest = c # t" "c \<noteq> 0x5c"
    unfolding unfold using r0 [OF that(1)] that(2) code by auto
  show "u_escape s p out 0 = u_write s (p + 6) out 0xfffd" if "rest = 0x5c # c # t" "c \<noteq> 0x75"
    unfolding unfold using r0 [OF that(1)] r1 [OF that(1)] that(2) code by auto
qed

lemma item_pair_done:
  assumes "drop p s = (u @ u') @ rest" and "unit_text h u" and "high_surrogate h"
    and "unit_text l u'" and "low_surrogate l" and "out \<le> p" and "rest \<noteq> []"
  shows "item_done s p out (length (u @ u')) (0x10000 + (h - 0xd800) * 0x400 + (l - 0xdc00))"
proof -
  let ?cp = "0x10000 + (h - 0xd800) * 0x400 + (l - 0xdc00)"
  have d: "drop p s = u @ u' @ rest" using assms(1) by simp
  obtain t where t: "u' = 0x5c # 0x75 # t" using unit_starts [OF assms(4)] by auto
  have len: "length u = 6" "length u' = 6" using unit_less assms(2,4) by auto
  have d': "drop (p + 6) s = u' @ rest" using drop_behind [OF d] t len by simp
  have p: "p + 12 < length s" using drop_behind [OF assms(1,7)] len by simp
  have cp: "?cp \<le> 0x10ffff" "0x10000 \<le> ?cp" using assms(3,5) by auto
  obtain s' where w: "u_write s (p + 12) out (of_nat ?cp) = Some (Some (s', p + 12, out + length (utf8 ?cp)))"
    "wrote s s' out (utf8 ?cp) (p + 12)"
    using u_write_wrote [of ?cp out "p + 12" s ?cp] p assms(6) cp by auto
  have "u_escape s p out 0 = u_escape s (p + 6) out (codehi_of h)"
    using u_escape_high(1) [OF d assms(2,3)] t by simp
  also have "\<dots> = u_write s (p + 12) out (of_nat ?cp)"
    using u_escape_write [OF u_unit_low [OF d' assms(4,5,3)]] cp by (simp add: add.commute)
  finally show ?thesis
    using item_doneI [OF string_loop_unit [OF d assms(2)]] w len by (simp add: add.commute)
qed

lemma no_low_unit:
  assumes "drop p s = 0x5c # 0x75 # t" and "\<not> pairable (0x5c # 0x75 # t)"
    and "hex_loop s (p + 2) 1 = Some (Some (p', code))"
  shows "\<not> (code AND 0xffff) - 0xdc00 \<le> 0x3ff"
proof -
  have d: "drop (p + 2) s = t"
    using drop_read [OF assms(1)] drop_read [of "p + 1" s "0x75" t] by simp
  obtain a b c e rest l where t: "t = [a, b, c, e] @ rest" and l: "hex4 [a, b, c, e] = Some l"
    using hex_loop_sound [OF assms(3)] d by auto
  then have unit: "unit_text l [0x5c, 0x75, a, b, c, e]" by (simp add: unit_text_hex4)
  then have "\<not> low_surrogate l"
    using assms(2) t unfolding pairable_def by (metis append_Cons)
  moreover have "code AND 0xffff = of_nat l"
    using hex_loop_unit [OF d [unfolded t] l] assms(3) and_ffff [of l] hex4_less [OF l]
    by (simp del: of_nat_add)
  ultimately show ?thesis using surrogate_words(2) [of l] hex4_less [OF l] by simp
qed

lemma item_lone_high:
  assumes d: "drop p s = u @ rest" and "unit_text h u" and "high_surrogate h"
    and "\<not> pairable rest" and "0 \<in> set rest" and "out \<le> p"
  shows "item_done s p out (length u) REPLACEMENT"
proof -
  have u: "length u = 6" using unit_less [OF assms(2)] by simp
  have rest: "rest \<noteq> []" using assms(5) by auto
  then have p: "p + 6 < length s" and d': "drop (p + 6) s = rest" using drop_behind [OF d] u by simp_all
  note start = string_loop_unit [OF d assms(2), of out]
  show ?thesis
  proof (cases "\<exists>t. rest = 0x5c # 0x75 # t")
    case True
    then obtain t where t: "rest = 0x5c # 0x75 # t" by blast
    obtain s' where s': "write_replacement s out = Some s'" "wrote s s' out (utf8 REPLACEMENT) (p + 6)"
      using write_replacement_wrote [of out "p + 6" s] p assms(6) by auto
    then have same: "drop (p + 6) s' = drop (p + 6) s" "length s' = length s" by (auto simp: wrote_def)
    have "u_escape s p out 0 = u_escape s (p + 6) out (codehi_of h)"
      using u_escape_high(1) [OF d assms(2,3) t] .
    also have "\<dots> = u_escape s' (p + 6) (out + 3) 0"
      using codehi_nat(2) [OF assms(3)] s'(1) same no_low_unit [OF d' [unfolded t]] assms(4) t
      by (intro u_escape_unpaired) auto
    finally have "string_loop s p out = string_loop s' (p + 6) (out + 3)"
      using start string_loop_u [of "p + 6" s' t "out + 3"] same d' t by simp
    moreover have "length (utf8 REPLACEMENT) = 3" by (simp add: utf8_def)
    ultimately show ?thesis unfolding item_done_def u using s'(2) by auto
  next
    case False
    obtain c t where c: "rest = c # t" using rest by (cases rest) auto
    have "u_escape s p out 0 = u_write s (p + 6) out 0xfffd"
    proof (cases "c = 0x5c")
      case True
      then obtain c1 t1 where "t = c1 # t1" using c assms(5) by (cases t) auto
      then show ?thesis using True False c u_escape_high(3) [OF d assms(2,3)] by auto
    next
      case neq: False
      then show ?thesis using c u_escape_high(2) [OF d assms(2,3)] by auto
    qed
    moreover obtain s' where "u_write s (p + 6) out 0xfffd = Some (Some (s', p + 6, out + length (utf8 REPLACEMENT)))"
      and "wrote s s' out (utf8 REPLACEMENT) (p + 6)"
      using u_write_wrote [of REPLACEMENT out "p + 6" s REPLACEMENT] p assms(6) by auto
    ultimately show ?thesis using item_doneI [OF start] u by simp
  qed
qed

lemma item_step:
  assumes "string_item cp u rest" and "drop p s = u @ rest" and "0 \<in> set rest" and "out \<le> p"
  shows "item_done s p out (length u) cp"
proof -
  have rest: "rest \<noteq> []" using assms(3) by auto
  from assms(1) show ?thesis
  proof cases
    case item_char
    show ?thesis
    proof (cases "cp < 0x80")
      case True
      then have "u = [of_nat cp]" using item_char by (simp add: utf8_def)
      then show ?thesis using item_ascii [of p s cp rest out] item_char True assms by simp
    next
      case False
      then show ?thesis using item_utf8 [of p s cp rest out] item_char assms by simp
    qed
  next
    case (item_short c)
    then show ?thesis using item_short_done [of p s c rest cp out] assms by (simp add: numeral_2_eq_2)
  next
    case item_unit
    then show ?thesis
      using item_single [OF assms(2) item_unit(1) _ assms(4) rest, of cp]
      by (auto simp: surrogate_def)
  next
    case (item_pair h u1 l u2)
    then show ?thesis using item_pair_done [of p s u1 u2 rest h l out] assms rest by auto
  next
    case (item_lone h)
    show ?thesis
    proof (cases "high_surrogate h")
      case True
      then show ?thesis using item_lone item_lone_high [OF assms(2) item_lone(2)] assms(3,4) by auto
    next
      case False
      then show ?thesis using item_lone item_single [OF assms(2) item_lone(2) False assms(4) rest] by auto
    qed
  qed
qed

section \<open>Whole strings\<close>

definition utf8s :: "nat list \<Rightarrow> u8 list" where
  "utf8s cps = concat (map utf8 cps)"

lemma utf8s_simps [simp]: "utf8s [] = []" "utf8s (cp # cps) = utf8 cp @ utf8s cps"
  by (simp_all add: utf8s_def)

lemma pairableI: "unit_text l u \<Longrightarrow> low_surrogate l \<Longrightarrow> pairable (u @ t)"
  unfolding pairable_def by blast

lemma pairable_prefix: "pairable t \<Longrightarrow> pairable (t @ r)"
  unfolding pairable_def by (metis append_assoc)

lemma unit_no_quote: "unit_text h u \<Longrightarrow> 0x22 \<notin> set u \<and> 0 \<notin> set u"
  by (auto simp: unit_text_def hex_value_def)

lemma pairable_quote:
  assumes "pairable (t @ 0x22 # r)"
  shows "pairable t"
proof -
  obtain l u t' where l: "low_surrogate l" "unit_text l u" and eq: "u @ t' = t @ 0x22 # r"
    using assms by (metis pairable_def)
  from eq consider us where "u = t @ us" "us @ t' = 0x22 # r" | us where "u @ us = t"
    by (auto simp: append_eq_append_conv2)
  then show ?thesis
  proof cases
    case 1
    then have "us = []" using unit_no_quote [OF l(2)] by (cases us) auto
    then show ?thesis using 1 l pairableI [of l u "[]"] by simp
  next
    case 2
    then show ?thesis using l pairableI [of l u us] by simp
  qed
qed

lemma item_same_lookahead:
  assumes "string_item cp u t" and "pairable t' \<longleftrightarrow> pairable t"
  shows "string_item cp u t'"
  using assms(1)
proof cases
  case (item_pair h u1 l u2)
  then show ?thesis by (simp only: string_item.item_pair)
next
  case (item_lone h)
  then show ?thesis using assms(2) string_item.item_lone [of h u t'] by simp
qed (simp_all add: string_item.intros)

lemma item_lookahead: "string_item cp u (t @ 0x22 # r) \<longleftrightarrow> string_item cp u t"
  using item_same_lookahead pairable_quote pairable_prefix by metis

lemma string_text_run:
  "string_text cps t \<Longrightarrow> drop p s = t @ 0x22 # rest \<Longrightarrow> 0 \<in> set rest \<Longrightarrow> out \<le> p \<Longrightarrow>
     \<exists>s'. string_loop s p out = Some (Some (s', p + length t + 1)) \<and>
       wrote s s' out (utf8s cps @ [0]) (p + length t + 1)"
proof (induction cps t arbitrary: p s out rule: string_text.induct)
  case string_Nil
  then have "read_at s p = Some 0x22" "p < length s" using drop_read [of p s "0x22" rest] by simp_all
  then show ?case
    using string_Nil wrote_one [of out "p + 1" s 0] by (simp add: string_loop.simps [of s p])
next
  case (string_Cons cp u t cps)
  have d: "drop p s = u @ (t @ 0x22 # rest)" using string_Cons.prems by simp
  obtain s1 where s1: "string_loop s p out = string_loop s1 (p + length u) (out + length (utf8 cp))"
    "wrote s s1 out (utf8 cp) (p + length u)"
    using item_step [OF item_lookahead [THEN iffD2, OF string_Cons.hyps(1)] d] string_Cons.prems(2,3)
    by (auto simp: item_done_def)
  have "drop (p + length u) s1 = t @ 0x22 # rest"
    using s1(2) drop_behind [OF d] by (auto simp: wrote_def)
  then obtain s' where "string_loop s1 (p + length u) (out + length (utf8 cp)) =
      Some (Some (s', p + length u + length t + 1))"
    "wrote s1 s' (out + length (utf8 cp)) (utf8s cps @ [0]) (p + length u + length t + 1)"
    using string_Cons.IH [of "p + length u" s1 "out + length (utf8 cp)"] string_Cons.prems(2) s1(2)
    by (auto simp: wrote_def)
  then show ?case
    using s1(1) wrote_trans [OF s1(2), of s' "utf8s cps @ [0]"] by (auto simp: add.assoc)
qed

lemma utf8_nonzero:
  assumes "0 < cp" and "cp \<le> 0x10ffff"
  shows "0 \<notin> set (utf8 cp)"
proof -
  have byte: "(of_nat n :: u8) \<noteq> 0" if "0 < n" "n < 256" for n
    using unat_byte [OF that(2)] that(1) by (auto simp del: unat_byte)
  have b: "0x80 + n mod 64 < 256" for n :: nat using mod_less_divisor [of 64 n] by linarith
  have "cp div 262144 < 5" using assms(2) by auto
  moreover have "cp < 0x10000 \<Longrightarrow> cp div 4096 < 16" "cp < 0x800 \<Longrightarrow> cp div 64 < 32" by auto
  ultimately show ?thesis
    using assms(1) byte [of cp] byte [of "0xc0 + cp div 64"] byte [of "0xe0 + cp div 4096"]
      byte [of "0xf0 + cp div 262144"] byte [OF _ b, of cp] byte [OF _ b, of "cp div 64"]
      byte [OF _ b, of "cp div 4096"]
    unfolding utf8_def by (auto simp del: of_nat_add)
qed

lemma item_no_nul: "string_item cp u rest \<Longrightarrow> 0 \<notin> set u \<and> 0 < cp \<and> cp \<le> 0x10ffff"
proof (induction rule: string_item.induct)
  case (item_char cp rest)
  then show ?case using utf8_nonzero by (auto simp: scalar_def)
next
  case (item_unit h u rest)
  then show ?case using unit_no_quote unit_less by fastforce
next
  case (item_pair h u l u' rest)
  then show ?case using unit_no_quote by auto
next
  case (item_lone h u rest)
  then show ?case using unit_no_quote by auto
qed (auto simp: short_escapes_def)

lemma utf8_item_exists:
  assumes "read_at s p = Some c" and "lead c" and "parse_utf8 s p out c = Some (Some x)" and "out \<le> p"
  shows "\<exists>cp u rest. string_item cp u rest \<and> drop p s = u @ rest"
proof -
  let ?m = "followers c" and ?n = "2 ^ (24 - 6 * followers c) + unat c mod 2 ^ (6 - followers c)"
  have m: "?m = 1 \<or> ?m = 2 \<or> ?m = 3" by (simp add: followers_def)
  have "unat c mod 2 ^ (6 - ?m) < 2 ^ (6 - ?m)" by simp
  also have "(2 :: nat) ^ (6 - ?m) \<le> 2 ^ (24 - 6 * ?m)" using m by auto
  finally have n: "2 ^ (24 - 6 * ?m) \<le> ?n" "?n < 2 ^ (25 - 6 * ?m)" using m by auto
  obtain y where y: "utf8_loop (s[out := c]) (p + 1) (out + 1) (of_nat ?n) = Some (Some y)"
    using assms(3) unfolding parse_utf8_def lead_ltab [OF assms(2)] bind.bind_lunit Let_def lead_code [OF m]
    by (auto split: option.splits elim!: bind_SomeE)
  then obtain bs rest where "drop (p + 1) (s[out := c]) = bs @ rest" and len: "length bs = ?m"
    and bs: "\<forall>c \<in> set bs. cont c"
    using utf8_loop_sound [OF y n] m assms(4) by (auto simp: followers_def)
  then have d: "drop p s = c # bs @ rest" using read_drop [OF assms(1)] assms(4) by simp
  let ?cp = "accumulate (unat c mod 2 ^ (6 - ?m)) bs"
  have "2 ^ (1 + 5 * ?m) \<le> ?cp \<and> scalar ?cp"
    using parse_utf8_bytes [OF d assms(2) len bs assms(4) refl] assms(3) by (auto split: if_splits)
  then have u: "utf8 ?cp = c # bs" "0x80 \<le> ?cp" and scalar: "scalar ?cp"
    using utf8_bytes [OF assms(2) len bs refl] by blast+
  have "string_item ?cp (utf8 ?cp) rest" using u(2) by (intro string_item.item_char scalar) auto
  then show ?thesis using d u(1) by (metis append_Cons)
qed

lemma unit_item_exists:
  assumes d: "drop p s = u @ rest" and h: "unit_text h u"
  shows "\<exists>cp u rest. string_item cp u rest \<and> drop p s = u @ rest"
proof -
  consider "h \<noteq> 0" "\<not> surrogate h" | "h = 0 \<or> low_surrogate h \<or> high_surrogate h \<and> \<not> pairable rest"
    | "high_surrogate h" "pairable rest"
    unfolding surrogate_def by linarith
  then show ?thesis
  proof cases
    case 3
    then obtain l u' t where "low_surrogate l" "unit_text l u'" "rest = u' @ t" by (metis pairable_def)
    note l = this
    have "string_item (0x10000 + (h - 0xd800) * 0x400 + (l - 0xdc00)) (u @ u') t"
      by (rule string_item.item_pair [OF h 3(1) l(2,1)])
    moreover have "drop p s = (u @ u') @ t" using d l(3) by simp
    ultimately show ?thesis by blast
  next
    case 1
    then show ?thesis using d string_item.item_unit [OF h] by blast
  next
    case 2
    then show ?thesis using d string_item.item_lone [OF h] by blast
  qed
qed

lemma hex_loop_total: "0 \<in> set (drop p s) \<Longrightarrow> \<exists>r. hex_loop s p code = Some r"
proof (induction s p code rule: hex_loop.induct)
  case (1 s p code)
  obtain c where c: "read_at s p = Some c" using 1(3) by (cases "p < length s") auto
  have "\<not> digit 0" "\<not> (ucast (0 OR 0x20 :: u8) :: u32) - 0x61 \<le> 0x66 - 0x61" by (simp_all add: digit_iff)
  then show ?case
    using 1 c read_drop [OF c] by (subst hex_loop.simps) (cases "c = 0"; auto)
qed

lemma utf8_loop_total: "0 \<in> set (drop p s) \<Longrightarrow> out \<le> p \<Longrightarrow> \<exists>r. utf8_loop s p out code = Some r"
proof (induction s p out code rule: utf8_loop.induct)
  case (1 s p out code)
  obtain c where c: "read_at s p = Some c" using 1(2) by (cases "p < length s") auto
  then have "out < length s" using 1(3) by simp
  have "(ucast (0 :: u8) :: u32) - 0x80 > 0xbf - 0x80" by simp
  then show ?case
    using 1 c \<open>out < length s\<close> read_drop [OF c] by (subst utf8_loop.simps) (cases "c = 0"; auto)
qed

abbreviation "has_item s p \<equiv> \<exists>cp u rest. string_item cp u rest \<and> drop p s = u @ rest"

lemma escape_item_or_error:
  assumes "read_at s p = Some 0x5c" and "0 \<in> set (drop p s)"
  shows "has_item s p \<or> parse_escape s p out = Some None"
proof -
  have nul: "0 \<in> set (drop (p + 1) s)" using assms(2) read_drop [OF assms(1)] by simp
  then obtain c where c: "read_at s (p + 1) = Some c" by (cases "p + 1 < length s") auto
  have d: "drop p s = [0x5c, c] @ drop (p + 2) s" using read_drop [OF assms(1)] read_drop [OF c] by simp
  consider "fst (escmap ! ESCIDX (unat c)) = c" | "fst (escmap ! ESCIDX (unat c)) \<noteq> c" "c = 0x75"
    | "parse_escape s p out = Some None"
    using c unfolding parse_escape_def c bind.bind_lunit escmap_read
    by (cases "fst (escmap ! ESCIDX (unat c)) = c"; cases "c = 0x75") auto
  then show ?thesis
  proof cases
    case 1
    then show ?thesis using short_escape_sound [OF 1] d string_item.item_short by blast
  next
    case 2
    have "0 \<in> set (drop (p + 2) s)" using nul read_drop [OF c] 2(2) by simp
    then obtain r where r: "hex_loop s (p + 2) 1 = Some r" using hex_loop_total by blast
    show ?thesis
    proof (cases r)
      case None
      then have "parse_escape s p out = Some None"
        using c 2 r unfolding parse_escape_def c bind.bind_lunit escmap_read
        by (subst u_escape.simps) (simp add: u_unit_def)
      then show ?thesis ..
    next
      case (Some y)
      then obtain a b c' e rest h where "drop (p + 2) s = [a, b, c', e] @ rest" "hex4 [a, b, c', e] = Some h"
        using hex_loop_sound [of s "p + 2" "fst y" "snd y"] r by auto
      then have "drop p s = [0x5c, 0x75, a, b, c', e] @ rest" "unit_text h [0x5c, 0x75, a, b, c', e]"
        using d 2(2) by (auto simp: unit_text_hex4)
      then have "has_item s p" by (rule unit_item_exists)
      then show ?thesis ..
    qed
  qed simp
qed

lemma utf8_item_or_error:
  assumes "read_at s p = Some c" and "0 \<in> set (drop p s)" and "lead c" and "out \<le> p"
  shows "has_item s p \<or> parse_utf8 s p out c = Some None"
proof -
  have "c \<noteq> 0" using assms(3) by auto
  then have nul: "0 \<in> set (drop (p + 1) (s[out := c]))" and out: "write_at s out c = Some (s[out := c])"
    using assms read_drop [OF assms(1)] by auto
  have total: "\<exists>y. Option.bind (utf8_loop (s[out := c]) (p + 1) (out + 1) code)
      (case_option (Some None) f) = Some y" if "\<And>x. \<exists>y. f x = Some y" for code and f :: "_ \<Rightarrow> 'z option option"
    using utf8_loop_total [OF nul, of "out + 1" code] assms(4) that by (fastforce split: option.splits)
  have "\<exists>r. parse_utf8 s p out c = Some r"
    unfolding parse_utf8_def lead_ltab [OF assms(3)] bind.bind_lunit Let_def out
    by (intro total) (auto split: prod.splits)
  then obtain r where "parse_utf8 s p out c = Some r" ..
  then show ?thesis using utf8_item_exists [OF assms(1,3) _ assms(4)] by (cases r) auto
qed

lemma item_or_error:
  assumes "read_at s p = Some c" and "0 \<in> set (drop p s)" and "c \<noteq> 0x22" and "out \<le> p"
  shows "has_item s p \<or> parse_char s p out c = Some None"
proof -
  consider "c = 0x5c" | "0x20 \<le> unat c" "unat c \<le> 0x7f" "c \<noteq> 0x5c"
    | "lead c" "parse_char s p out c = parse_utf8 s p out c" | "parse_char s p out c = Some None"
    using char_range [of "0x20" "0x7f" c] char_range [of "0xc2" "0xf4" c]
    by (auto simp: parse_char_def)
  then show ?thesis
  proof cases
    case 1
    then have "parse_char s p out c = parse_escape s p out" by (simp add: parse_char_def)
    then show ?thesis using assms(1,2) 1 escape_item_or_error by simp
  next
    case 2
    have "unat c \<noteq> 0x22" "unat c \<noteq> 0x5c" using 2(3) assms(3) by (auto simp: word_unat_eq_iff)
    then have "string_item (unat c) (utf8 (unat c)) (drop (p + 1) s)"
      using 2 by (intro string_item.item_char) (auto simp: scalar_def surrogate_def)
    moreover have "utf8 (unat c) = [c]" using 2 by (simp add: utf8_def)
    ultimately show ?thesis using read_drop [OF assms(1)] by (metis append_Cons append_Nil)
  next
    case 3
    then show ?thesis using assms utf8_item_or_error by simp
  qed simp
qed

lemma item_text: "string_item cp u rest \<Longrightarrow> u \<noteq> []"
  by (cases rule: string_item.cases) (auto simp: utf8_def unit_text_hex4 split: if_splits)

lemma string_loop_total:
  "0 \<in> set (drop p s) \<Longrightarrow> out \<le> p \<Longrightarrow>
     string_loop s p out = Some None \<or> (\<exists>cps t rest. drop p s = t @ 0x22 # rest \<and> string_text cps t)"
proof (induction "length s - p" arbitrary: s p out rule: less_induct)
  case less
  obtain c where c: "read_at s p = Some c" using less.prems(1) by (cases "p < length s") auto
  consider "c = 0x22" | "c \<noteq> 0x22" "parse_char s p out c = Some None" | "has_item s p"
    using item_or_error [OF c less.prems(1) _ less.prems(2)] by blast
  then show ?case
  proof cases
    case 1
    then have "drop p s = [] @ 0x22 # drop (p + 1) s" using read_drop [OF c] by simp
    then show ?thesis using string_text.string_Nil by blast
  next
    case 2
    then show ?thesis using string_loop_char [OF c] by simp
  next
    case 3
    then obtain cp u rest where item: "string_item cp u rest" and d: "drop p s = u @ rest" by blast
    have nul: "0 \<in> set rest" using less.prems(1) item_no_nul [OF item] d by auto
    obtain s1 where s1: "string_loop s p out = string_loop s1 (p + length u) (out + length (utf8 cp))"
      "wrote s s1 out (utf8 cp) (p + length u)"
      using item_step [OF item d nul less.prems(2)] by (auto simp: item_done_def)
    have "rest \<noteq> []" using nul by auto
    then have rest: "drop (p + length u) s1 = rest" "p + length u < length s"
      using s1(2) drop_behind [OF d] by (simp_all add: wrote_def)
    have "length s1 - (p + length u) < length s - p"
      using s1(2) rest(2) item_text [OF item] by (cases u) (auto simp: wrote_def)
    from less.hyps [OF this, of "out + length (utf8 cp)"] consider "string_loop s p out = Some None"
      | cps t rest' where "rest = t @ 0x22 # rest'" "string_text cps t"
      using s1 rest(1) nul by (auto simp: wrote_def)
    then show ?thesis
    proof cases
      case 2
      then have "string_text (cp # cps) (u @ t)" "drop p s = (u @ t) @ 0x22 # rest'"
        using item item_lookahead d by (auto intro: string_text.string_Cons)
      then show ?thesis by blast
    qed simp
  qed
qed

text \<open>Either an error, or a text of the grammar with its characters written at \<open>out\<close>.\<close>

lemma string_loop_result:
  assumes "0 \<in> set (drop p s)" and "out \<le> p"
  obtains "string_loop s p out = Some None"
  | cps t rest s' where "drop p s = t @ 0x22 # rest" and "string_text cps t"
      and "string_loop s p out = Some (Some (s', p + length t + 1))" and "0 \<in> set rest"
      and "wrote s s' out (utf8s cps @ [0]) (p + length t + 1)"
proof (cases "string_loop s p out = Some None")
  case False
  then obtain cps t rest where t: "drop p s = t @ 0x22 # rest" "string_text cps t"
    using string_loop_total [OF assms] by blast
  have "0 \<notin> set t" using t(2) by (induction rule: string_text.induct) (auto dest: item_no_nul)
  then have "0 \<in> set rest" using assms(1) t(1) by auto
  then show thesis using that(2) t string_text_run [OF t(2,1) _ assms(2)] by blast
qed (rule that(1))

end
