(* ===== verification/Jstr_Sound.thy ===== *)
theory Jstr_Sound
  imports Jstr_Grammar Jstr_String
begin

text \<open>
  The invariant of the tokenizer. At every label of \<open>jstr_parse\<close> the text that was read is a prefix
  of a JSON text, and the tokens of the open arrays and objects are linked as a stack. So no step
  leaves the text or the token array, and a text that is accepted is a JSON text.
\<close>

section \<open>The invariant\<close>

definition top_of :: "context_stack \<Rightarrow> nat" where
  "top_of stk = (case stk of [] \<Rightarrow> 0 | (type, i) # _ \<Rightarrow> i)"

text \<open>
  The token of an open array or object holds its distance to the enclosing one. The first is at
  index 0 and is its own parent.
\<close>

fun links :: "tokens \<Rightarrow> nat \<Rightarrow> context_stack \<Rightarrow> bool" where
  "links ts n [] \<longleftrightarrow> True"
| "links ts n ((type, i) # stk) \<longleftrightarrow> i < n \<and> type \<in> {JSTR_ARRAY, JSTR_OBJECT} \<and>
     read_token ts i = Some \<lparr>token_type = type, token_value = i - top_of stk\<rparr> \<and>
     (stk = [] \<longrightarrow> i = 0) \<and> links ts i stk"

definition value_state :: "context_stack \<Rightarrow> parse_state" where
  "value_state stk = (case stk of [] \<Rightarrow> TOP
     | (type, i) # _ \<Rightarrow> if type = JSTR_OBJECT then OBJECT_VALUE else ARRAY_ITEM)"

text \<open>The text \<open>u\<close> has been read, and the rest of the text \<open>s\<close> is as it was.\<close>

definition reads :: "u8 list \<Rightarrow> jstr_state \<Rightarrow> u8 list \<Rightarrow> bool" where
  "reads s st u \<longleftrightarrow> length (jtext st) = length s \<and> drop (jpos st) (jtext st) = drop (jpos st) s \<and>
     0 \<in> set (drop (jpos st) s) \<and> take (jpos st) s = u"

definition base :: "context_stack \<Rightarrow> jstr_state \<Rightarrow> bool" where
  "base stk st \<longleftrightarrow> links (jtokens st) (token_cur st) stk \<and> token_parent st = top_of stk"

abbreviation room :: "nat \<Rightarrow> jstr_state \<Rightarrow> bool" where
  "room n st \<equiv> token_cur st + n \<le> length (jtokens st)"

definition at_value :: "context_stack \<Rightarrow> jstr_state \<Rightarrow> u8 list \<Rightarrow> bool" where
  "at_value stk st u \<longleftrightarrow> hole stk u \<and> jcs st = value_state stk"

definition at_key :: "context_stack \<Rightarrow> jstr_state \<Rightarrow> u8 list \<Rightarrow> bool" where
  "at_key stk st u \<longleftrightarrow> keyhole stk u \<and> jcs st = OBJECT_KEY"

definition at_label :: "label \<Rightarrow> context_stack \<Rightarrow> jstr_state \<Rightarrow> u8 list \<Rightarrow> bool" where
  "at_label l stk st u = (case l of
     PARSE_GENERIC \<Rightarrow> at_value stk st u \<and> room 0 st \<and> (stk = [] \<longrightarrow> token_cur st = 0) \<and> token_cur st \<le> jpos st
   | PARSE_STRING \<Rightarrow> (at_value stk st u \<and> room 2 st \<or> at_key stk st u \<and> room 1 st) \<and>
       token_cur st \<le> jpos st \<and> read_at (jtext st) (jpos st) = Some 0x22
   | PARSE_TRUE_FALSE_OR_NULL \<Rightarrow> at_value stk st u \<and> room 1 st \<and> token_cur st \<le> jpos st + 1 \<and>
       0 < token_cur st \<and> (\<exists>t \<in> {JSTR_TRUE, JSTR_FALSE, JSTR_NULL}.
         jstr_type (jtokens st) (token_cur st - 1) = Some t \<and>
         read_at (jtext st) (jpos st) = Some (hd (keyword t)))
   | PARSE_OBJECT_KEY \<Rightarrow> at_key stk st u \<and> room 1 st \<and> token_cur st \<le> jpos st
   | COMMIT_TOKEN \<Rightarrow> (filled stk u \<and> jcs st = value_state stk \<and> room 1 st \<or>
       keyed stk u \<and> jcs st = OBJECT_KEY \<and> room 0 st) \<and>
       token_cur st \<le> jpos st
   | POP_CONTEXT \<Rightarrow> stk \<noteq> [] \<and> filled (tl stk) u \<and> room 1 st \<and> token_cur st \<le> jpos st)"

definition invariant :: "u8 list \<Rightarrow> label \<Rightarrow> jstr_state \<Rightarrow> bool" where
  "invariant s l st \<longleftrightarrow> (\<exists>stk u. reads s st u \<and> base stk st \<and> at_label l stk st u)"

text \<open>What a return of the parser says about the text.\<close>

definition verdict :: "u8 list \<Rightarrow> int \<Rightarrow> jstr_state \<Rightarrow> bool" where
  "verdict s rc st \<longleftrightarrow>
     rc = JSTR_INVAL
   \<or> rc = JSTR_NOMEM \<and> invariant s PARSE_GENERIC st \<and> length (jtokens st) < token_cur st + 2
   \<or> (\<exists>n v. rc = int n \<and> json_document v (take n s) \<and> read_at s n = Some 0)"

fun lands :: "u8 list \<Rightarrow> jump \<Rightarrow> bool" where
  "lands s (Goto l st) = invariant s l st"
| "lands s (Return rc st) = verdict s rc st"

section \<open>Facts shared by the labels\<close>

lemma reads_consumed:
  assumes "reads s st u" and "consumed (jtext st) (jpos st) t p'"
  shows "reads s (st\<lparr>jpos := p'\<rparr>) (u @ t)"
proof -
  have d: "drop (jpos st) s = t @ drop p' s" "drop p' (jtext st) = drop p' s" "p' = jpos st + length t"
    using assms drop_later [of "jpos st" "jtext st" s p'] unfolding reads_def consumed_def by auto
  have "take p' s = take (jpos st) s @ t"
    using d(1,3) by (simp add: take_add)
  then show ?thesis using assms d unfolding reads_def consumed_def by simp
qed

lemma reads_nul: "reads s st u \<Longrightarrow> 0 \<in> set (drop (jpos st) (jtext st))"
  unfolding reads_def by simp

lemma links_write: "links ts n stk \<Longrightarrow> n \<le> k \<Longrightarrow> links (ts[k := x]) n stk"
  by (induction ts n stk rule: links.induct) (auto simp: read_token_def)

lemma links_more: "links ts n stk \<Longrightarrow> n \<le> m \<Longrightarrow> links ts m stk"
  by (cases stk) auto

lemma push_ok: "room 1 st \<Longrightarrow> \<exists>st'. push_token type value st = Some st'"
  by (simp add: push_token_def token_init_def)

lemma push_base: "push_token type value st = Some st' \<Longrightarrow> base stk st \<Longrightarrow> base stk st'"
  using links_more [OF links_write [of "jtokens st" "token_cur st" stk "token_cur st"]]
  by (auto simp: base_def dest!: push_token_simps)

lemma base_open:
  assumes "base stk st" and "stk = [] \<longrightarrow> token_cur st = 0" and "room 1 st"
    and "type \<in> {JSTR_ARRAY, JSTR_OBJECT}"
    and "push_token type (token_cur st - token_parent st) st = Some st'"
  shows "base ((type, token_cur st) # stk) (st'\<lparr>token_parent := token_cur st, jcs := c, jpos := p\<rparr>)"
  using assms links_write [of "jtokens st" "token_cur st" stk "token_cur st"] push_token_simps [OF assms(5)]
  by (auto simp: base_def read_token_def top_of_def)

lemma base_pos [simp]: "base stk (st\<lparr>jpos := p\<rparr>) \<longleftrightarrow> base stk st" "base stk (st\<lparr>jtext := t\<rparr>) \<longleftrightarrow> base stk st"
  "base stk (st\<lparr>jcs := c\<rparr>) \<longleftrightarrow> base stk st"
  by (simp_all add: base_def)

lemma reads_cong:
  "reads s st u \<Longrightarrow> jtext st' = jtext st \<Longrightarrow> jpos st' = jpos st \<Longrightarrow> reads s st' u"
  by (simp add: reads_def)

lemma landsI: "reads s st u \<Longrightarrow> base stk st \<Longrightarrow> at_label l stk st u \<Longrightarrow> lands s (Goto l st)"
  by (auto simp: invariant_def)

lemma open_context_lands:
  assumes st: "reads s st u" "base stk st" "room 2 st" "token_cur st \<le> jpos st" "stk = [] \<longrightarrow> token_cur st = 0"
    and char: "read_at (jtext st) (jpos st) = Some opening" "opening \<noteq> 0" "close \<noteq> 0"
    and type: "type \<in> {JSTR_ARRAY, JSTR_OBJECT}"
    and empty: "\<And>w. white w \<Longrightarrow> filled stk (u @ opening # w @ [close])"
    and more: "\<And>w st'. white w \<Longrightarrow> jcs st' = state \<Longrightarrow> room 1 st' \<Longrightarrow> token_cur st' \<le> jpos st' \<Longrightarrow>
      at_label l ((type, token_cur st) # stk) st' (u @ opening # w)"
  shows "\<exists>j. open_context type state close l st = Some j \<and> lands s j"
proof -
  let ?stk = "(type, token_cur st) # stk"
  have one: "consumed (jtext st) (jpos st) [opening] (jpos st + 1)"
    using reads_nul [OF st(1)] char by (intro consumed_one)
  obtain w c where w: "skip_while WS (jtext st) (jpos st + 1) = Some (jpos st + 1 + length w)"
    "consumed (jtext st) (jpos st + 1) w (jpos st + 1 + length w)" "\<forall>x \<in> set w. WS x"
    "read_at (jtext st) (jpos st + 1 + length w) = Some c" "\<not> WS c"
    by (rule consumed_skip [where f = WS, OF consumed_nul [OF one] not_WS_0])
  let ?p = "jpos st + 1 + length w"
  obtain st' where push: "push_token type (token_cur st - token_parent st) st = Some st'"
    using push_ok st(3) by fastforce
  have st': "token_cur st' = token_cur st + 1" "length (jtokens st') = length (jtokens st)" "jtext st' = jtext st"
    using push_token_simps [OF push] by simp_all
  define st1 where "st1 = st'\<lparr>token_parent := token_cur st, jcs := state, jpos := ?p\<rparr>"
  have two: "consumed (jtext st) (jpos st) (opening # w) ?p" using consumed_trans [OF one w(2)] by simp
  have white: "white w" using w(3) by (simp add: white_iff)
  have reads: "reads s st1 (u @ opening # w)"
    using reads_cong [OF reads_consumed [OF st(1) two]] st'(3) by (simp add: st1_def)
  have base: "base ?stk st1" unfolding st1_def
    using base_open [OF st(2,5) _ type push] st(3) by simp
  have run: "open_context type state close l st =
      Some (if c = close then Goto POP_CONTEXT (st1\<lparr>jpos := ?p + 1\<rparr>) else Goto l st1)"
    unfolding open_context_def push bind.bind_lunit w(1,4) Let_def st1_def ..
  show ?thesis
  proof (cases "c = close")
    case True
    have "consumed (jtext st1) (jpos st1) [close] (?p + 1)"
      using consumed_one [OF reads_nul [OF reads], of c] w(4) True char(3) st'(3) by (simp add: st1_def)
    then have "reads s (st1\<lparr>jpos := ?p + 1\<rparr>) (u @ opening # w @ [close])"
      using reads_consumed [OF reads] by simp
    moreover have "at_label POP_CONTEXT ?stk (st1\<lparr>jpos := ?p + 1\<rparr>) (u @ opening # w @ [close])"
      using empty [OF white] st(3,4) st' by (simp add: at_label_def st1_def)
    ultimately show ?thesis using run True base landsI by simp
  next
    case False
    have "at_label l ?stk st1 (u @ opening # w)"
      using white st(3,4) st' by (intro more) (simp_all add: st1_def)
    then show ?thesis using run False landsI [OF reads base] by simp
  qed
qed

lemma open_array_lands:
  assumes "reads s st u" "base stk st" "room 2 st" "token_cur st \<le> jpos st" "stk = [] \<longrightarrow> token_cur st = 0"
    and "read_at (jtext st) (jpos st) = Some 0x5b" "hole stk u"
  shows "\<exists>j. open_context JSTR_ARRAY ARRAY_ITEM 0x5d PARSE_GENERIC st = Some j \<and> lands s j"
  using assms(1-6)
proof (rule open_context_lands)
  fix w st' assume "white w" "jcs st' = ARRAY_ITEM" "room 1 st'" "token_cur st' \<le> jpos st'"
  then show "at_label PARSE_GENERIC ((JSTR_ARRAY, token_cur st) # stk) st' (u @ 0x5b # w)"
    using hole_array_first [OF assms(7)] by (simp add: at_label_def at_value_def value_state_def del: hole.simps)
qed (use array_empty [OF assms(7)] in simp_all)

lemma open_object_lands:
  assumes "reads s st u" "base stk st" "room 2 st" "token_cur st \<le> jpos st" "stk = [] \<longrightarrow> token_cur st = 0"
    and "read_at (jtext st) (jpos st) = Some 0x7b" "hole stk u"
  shows "\<exists>j. open_context JSTR_OBJECT OBJECT_KEY 0x7d PARSE_OBJECT_KEY st = Some j \<and> lands s j"
  using assms(1-6)
proof (rule open_context_lands)
  fix w st' assume "white w" "jcs st' = OBJECT_KEY" "room 1 st'" "token_cur st' \<le> jpos st'"
  then show "at_label PARSE_OBJECT_KEY ((JSTR_OBJECT, token_cur st) # stk) st' (u @ 0x7b # w)"
    using keyhole_first [OF assms(7)] by (simp add: at_label_def at_key_def del: keyhole.simps)
qed (use object_empty [OF assms(7)] in simp_all)


section \<open>The labels\<close>

lemma number_lands:
  assumes st: "reads s st u" "base stk st" "room 2 st" "token_cur st \<le> jpos st" "at_value stk st u"
    and c: "read_at (jtext st) (jpos st) = Some c" "c = 0x2d \<or> digit c"
  shows "\<exists>st' r. push_token JSTR_NUMBER (jpos st) st = Some st' \<and> parse_number (jtext st) (jpos st) = Some r \<and>
    lands s (case r of None \<Rightarrow> Return JSTR_INVAL st' | Some p' \<Rightarrow> Goto COMMIT_TOKEN (st'\<lparr>jpos := p'\<rparr>))"
proof -
  obtain st' where push: "push_token JSTR_NUMBER (jpos st) st = Some st'" using push_ok st(3) by fastforce
  have st': "token_cur st' = token_cur st + 1" "length (jtokens st') = length (jtokens st)"
    "jtext st' = jtext st" "jpos st' = jpos st" "jcs st' = jcs st"
    using push_token_simps [OF push] by simp_all
  obtain r where r: "parse_number (jtext st) (jpos st) = Some r"
    and ok: "\<And>p'. r = Some p' \<Longrightarrow> \<exists>t. consumed (jtext st) (jpos st) t p' \<and> number_text t"
    using parse_number_sound [OF reads_nul [OF st(1)] c] by (auto simp: scanned_def)
  have "lands s (Goto COMMIT_TOKEN (st'\<lparr>jpos := p'\<rparr>))" if p': "r = Some p'" for p'
  proof -
    obtain t where t: "consumed (jtext st) (jpos st) t p'" "number_text t" using ok [OF p'] by blast
    then have "reads s (st'\<lparr>jpos := p'\<rparr>) (u @ t)"
      using reads_cong [OF reads_consumed [OF st(1) t(1)]] st'(3) by simp
    moreover have "jpos st < p'" using t number_head [OF t(2)] by (auto simp: consumed_def)
    then have "at_label COMMIT_TOKEN stk (st'\<lparr>jpos := p'\<rparr>) (u @ t)"
      using st(3,4,5) st' filled_value [OF _ json_number [OF t(2)]] by (simp add: at_label_def at_value_def)
    ultimately show ?thesis using landsI push_base [OF push st(2)] by simp
  qed
  then show ?thesis using push r by (auto simp: verdict_def split: option.splits)
qed

lemma keyword_lands:
  assumes st: "reads s st u" "base stk st" "room 2 st" "token_cur st \<le> jpos st" "at_value stk st u"
    and c: "read_at (jtext st) (jpos st) = Some (hd (keyword t))" "t \<in> {JSTR_TRUE, JSTR_FALSE, JSTR_NULL}"
  shows "\<exists>j. map_option (Goto PARSE_TRUE_FALSE_OR_NULL) (push_token t (jpos st) st) = Some j \<and> lands s j"
proof -
  obtain st' where push: "push_token t (jpos st) st = Some st'" using push_ok st(3) by fastforce
  note st' = push_token_simps [OF push]
  have "at_label PARSE_TRUE_FALSE_OR_NULL stk st' u"
    using st st' c by (auto simp: at_label_def at_value_def jstr_type_def read_token_def)
  then show ?thesis using push landsI [OF reads_cong [OF st(1)] push_base [OF push st(2)]] st' by simp
qed

lemma parse_generic_lands:
  assumes "invariant s PARSE_GENERIC st"
  shows "\<exists>j. parse_generic st = Some j \<and> lands s j"
proof (cases "length (jtokens st) < token_cur st + 2")
  case True
  then show ?thesis using assms by (auto simp: parse_generic_def verdict_def)
next
  case False
  obtain stk u where st: "reads s st u" "base stk st" "at_value stk st u" "stk = [] \<longrightarrow> token_cur st = 0"
    "token_cur st \<le> jpos st"
    using assms by (auto simp: invariant_def at_label_def)
  obtain w c where w: "skip_while WS (jtext st) (jpos st) = Some (jpos st + length w)"
    "consumed (jtext st) (jpos st) w (jpos st + length w)" "\<forall>x \<in> set w. WS x"
    "read_at (jtext st) (jpos st + length w) = Some c" "\<not> WS c"
    by (rule consumed_skip [where f = WS, OF reads_nul [OF st(1)] not_WS_0])
  define st1 where "st1 = st\<lparr>jpos := jpos st + length w\<rparr>"
  have st1: "reads s st1 (u @ w)" "base stk st1" "room 2 st1" "token_cur st1 \<le> jpos st1" "at_value stk st1 (u @ w)"
    "read_at (jtext st1) (jpos st1) = Some c" "stk = [] \<longrightarrow> token_cur st1 = 0"
    using reads_consumed [OF st(1) w(2)] st w(3,4) False hole_white
    by (auto simp: st1_def at_value_def white_iff)
  have hole: "hole stk (u @ w)" using st1(5) by (simp add: at_value_def)
  have run: "parse_generic st = parse_value c st1"
    using False w(1,4) by (simp add: parse_generic_def st1_def)
  have "parse_value c st1 = Some (Return JSTR_INVAL st1)"
    if "c \<notin> {0x5b, 0x7b, 0x22, 0x74, 0x66, 0x6e}" "\<not> (c = 0x2d \<or> digit c)"
    using that unfolding parse_value_def digit_iff by auto
  moreover have "c \<in> {0x74, 0x66, 0x6e} \<longleftrightarrow>
      c = hd (keyword JSTR_TRUE) \<or> c = hd (keyword JSTR_FALSE) \<or> c = hd (keyword JSTR_NULL)"
    by (simp add: keyword_def)
  ultimately consider "c = 0x5b" | "c = 0x7b" | "c = 0x2d \<or> digit c" | "c = 0x22"
    | "c = hd (keyword JSTR_TRUE)" | "c = hd (keyword JSTR_FALSE)" | "c = hd (keyword JSTR_NULL)"
    | "parse_value c st1 = Some (Return JSTR_INVAL st1)"
    by blast
  then show ?thesis
  proof cases
    case 1
    then show ?thesis
      using open_array_lands [OF st1(1,2,3,4,7) _ hole] st1(6) run by (simp add: parse_value_def)
  next
    case 2
    then show ?thesis
      using open_object_lands [OF st1(1,2,3,4,7) _ hole] st1(6) run by (simp add: parse_value_def)
  next
    case 3
    then have "c \<noteq> 0x5b" "c \<noteq> 0x7b" by (auto simp: digit_iff)
    then show ?thesis
      using number_lands [OF st1(1-6) 3] run 3 by (auto simp: parse_value_def digit_iff)
  next
    case 4
    then show ?thesis using landsI [OF st1(1,2)] st1 run by (simp add: parse_value_def at_label_def)
  next
    case 5
    then show ?thesis
      using keyword_lands [OF st1(1-5), of JSTR_TRUE] st1(6) run by (simp add: parse_value_def keyword_def)
  next
    case 6
    then show ?thesis
      using keyword_lands [OF st1(1-5), of JSTR_FALSE] st1(6) run by (simp add: parse_value_def keyword_def)
  next
    case 7
    then show ?thesis
      using keyword_lands [OF st1(1-5), of JSTR_NULL] st1(6) run by (simp add: parse_value_def keyword_def)
  qed (simp add: run verdict_def)
qed

lemma parse_string_lands:
  assumes "invariant s PARSE_STRING st"
  shows "\<exists>j. parse_string st = Some j \<and> lands s j"
proof -
  obtain stk u where st: "reads s st u" "base stk st" "token_cur st \<le> jpos st"
    "at_value stk st u \<and> room 2 st \<or> at_key stk st u \<and> room 1 st"
    and c: "read_at (jtext st) (jpos st) = Some 0x22"
    using assms by (auto simp: invariant_def at_label_def)
  let ?p = "jpos st + 1"
  obtain st' where push: "push_token JSTR_STRING ?p st = Some st'"
    using push_ok st(4) by fastforce
  note st' = push_token_simps [OF push]
  have nul: "0 \<in> set (drop ?p (jtext st))" using reads_nul [OF st(1)] read_drop [OF c] by simp
  show ?thesis
    using nul order_refl
  proof (cases rule: string_loop_result)
    case 1
    then show ?thesis using push by (auto simp: parse_string_def verdict_def)
  next
    case (2 cps t rest s')
    let ?p' = "?p + length t + 1" and ?st = "st'\<lparr>jtext := s', jpos := jpos st + 1 + length t + 1\<rparr>"
    have rest: "drop ?p' (jtext st) = rest" using drop_past [of ?p "jtext st" "t @ [0x22]" rest] 2(1) by simp
    then have "consumed (jtext st) (jpos st) (quoted t) ?p'"
      using 2(1,4) read_drop [OF c] by (simp add: consumed_def quoted_def)
    from reads_consumed [OF st(1) this] have reads: "reads s ?st (u @ quoted t)"
      using 2(5) by (simp add: reads_def wrote_def)
    have "at_label COMMIT_TOKEN stk ?st (u @ quoted t)"
      using st(3,4) st' filled_value [OF _ json_string [OF 2(2)]] keyedI [OF _ 2(2)]
      by (auto simp: at_label_def at_value_def at_key_def)
    then have "lands s (Goto COMMIT_TOKEN ?st)" using landsI [OF reads] push_base [OF push st(2)] by simp
    then show ?thesis using push 2(3) by (simp add: parse_string_def)
  qed
qed

lemma parse_keyword_lands:
  assumes "invariant s PARSE_TRUE_FALSE_OR_NULL st"
  shows "\<exists>j. parse_true_false_or_null st = Some j \<and> lands s j"
proof -
  obtain stk u t where st: "reads s st u" "base stk st" "at_value stk st u" "room 1 st"
    "token_cur st \<le> jpos st + 1" and t: "t \<in> {JSTR_TRUE, JSTR_FALSE, JSTR_NULL}"
    "jstr_type (jtokens st) (token_cur st - 1) = Some t"
    and c: "read_at (jtext st) (jpos st) = Some (hd (keyword t))"
    using assms by (auto simp: invariant_def at_label_def)
  have "lower (hd (keyword t))" by (cases t) (simp_all add: keyword_def lower_iff)
  then obtain w p' where w: "keyword_loop (jtext st) (jpos st) 31 = Some (p', word_hash w)"
    "consumed (jtext st) (jpos st) w p'" "\<forall>t. word_hash w = word_hash (keyword t) \<longleftrightarrow> w = keyword t" "w \<noteq> []"
    by (rule keyword_loop_total [OF reads_nul [OF st(1)] c])
  have run: "parse_true_false_or_null st =
      Some (if w = keyword t then Goto COMMIT_TOKEN (st\<lparr>jpos := p'\<rparr>) else Return JSTR_INVAL st)"
    unfolding parse_true_false_or_null_def w(1) t(2) bind.bind_lunit prod.case kw_read [OF t(1)]
    using w(3) by simp
  have "\<exists>v. json_text v (keyword t)"
    using t(1) json_true json_false json_null by (auto simp: keyword_def)
  moreover have "jpos st < p'" using w(2,4) by (cases w) (auto simp: consumed_def)
  ultimately have "at_label COMMIT_TOKEN stk (st\<lparr>jpos := p'\<rparr>) (u @ w)" if "w = keyword t"
    using that st(3,4,5) filled_value by (auto simp: at_label_def at_value_def)
  then show ?thesis
    using run landsI [OF reads_consumed [OF st(1) w(2)]] st(2) by (simp add: verdict_def)
qed

lemma parse_object_key_lands:
  assumes "invariant s PARSE_OBJECT_KEY st"
  shows "\<exists>j. parse_object_key st = Some j \<and> lands s j"
proof -
  obtain stk u where st: "reads s st u" "base stk st" "at_key stk st u" "room 1 st" "token_cur st \<le> jpos st"
    using assms by (auto simp: invariant_def at_label_def)
  obtain w c where w: "skip_while WS (jtext st) (jpos st) = Some (jpos st + length w)"
    "consumed (jtext st) (jpos st) w (jpos st + length w)" "\<forall>x \<in> set w. WS x"
    "read_at (jtext st) (jpos st + length w) = Some c" "\<not> WS c"
    by (rule consumed_skip [where f = WS, OF reads_nul [OF st(1)] not_WS_0])
  have "at_label PARSE_STRING stk (st\<lparr>jpos := jpos st + length w\<rparr>) (u @ w)" if "c = 0x22"
    using st(3,4,5) w(3,4) keyhole_white that by (simp add: at_label_def at_key_def white_iff)
  then show ?thesis
    using w(1,4) landsI [OF reads_consumed [OF st(1) w(2)]] st(2)
    by (simp add: parse_object_key_def verdict_def)
qed


lemma commit_loop_run:
  "c # drop p s = w @ d # rest \<Longrightarrow> \<forall>x \<in> set w. WS x \<Longrightarrow> \<not> WS d \<Longrightarrow>
     commit_loop s c p = Some (d, p + length w)"
proof (induction w arbitrary: c p)
  case Nil
  then show ?case by (simp add: commit_loop.simps)
next
  case (Cons x w)
  then obtain y where y: "read_at s p = Some y" by (cases "p < length s") auto
  then have "y # drop (p + 1) s = w @ d # rest" using Cons.prems(1) read_drop [OF y] by simp
  from Cons.IH [OF this] show ?case using Cons.prems y by (simp add: commit_loop.simps [of s x])
qed

text \<open>
  The character \<open>d\<close> is the first after the value that is not white space. Where the byte behind
  the value is overwritten, it has been read before.
\<close>

lemma commit_reads:
  assumes "reads s st u"
  obtains w d c where "read_at (jtext st) (jpos st) = Some c" and "white w" and "take (jpos st + length w) s = u @ w"
    and "read_at s (jpos st + length w) = Some d"
    and "commit_loop ((jtext st)[jpos st := 0]) c (jpos st + 1) = Some (d, jpos st + length w + 1)"
    and "d \<noteq> 0 \<longrightarrow> reads s (st\<lparr>jtext := (jtext st)[jpos st := 0], jpos := jpos st + length w + 1\<rparr>) (u @ w @ [d])"
proof -
  let ?s = "jtext st" and ?p = "jpos st"
  obtain w d where w: "consumed ?s ?p w (?p + length w)" "\<forall>x \<in> set w. WS x"
    "read_at ?s (?p + length w) = Some d" "\<not> WS d"
    by (rule consumed_skip [where f = WS, OF reads_nul [OF assms] not_WS_0])
  obtain c where c: "read_at ?s ?p = Some c" using reads_nul [OF assms] by (cases "?p < length ?s") auto
  have "c # drop (?p + 1) ?s = w @ d # drop (?p + length w + 1) ?s"
    using w(1) read_drop [OF c] read_drop [OF w(3)] unfolding consumed_def by metis
  then have "commit_loop (?s[?p := 0]) c (?p + 1) = Some (d, ?p + length w + 1)"
    using commit_loop_run [OF _ w(2,4)] by (simp add: algebra_simps)
  moreover have reads: "reads s (st\<lparr>jpos := ?p + length w\<rparr>) (u @ w)" by (rule reads_consumed [OF assms w(1)])
  then have "drop (?p + length w) s = d # drop (?p + length w + 1) ?s" "take (?p + length w) s = u @ w"
    using read_drop [OF w(3)] unfolding reads_def by auto
  then have "read_at s (?p + length w) = Some d" "take (?p + length w) s = u @ w"
    using drop_read [of "?p + length w" s d] by simp_all
  moreover have "reads s (st\<lparr>jtext := ?s[?p := 0], jpos := ?p + length w + 1\<rparr>) (u @ w @ [d])" if "d \<noteq> 0"
  proof -
    have "consumed ?s (?p + length w) [d] (?p + length w + 1)"
      using consumed_one [OF consumed_nul [OF w(1)] w(3) that] .
    from reads_consumed [OF reads, of "[d]"] this show ?thesis by (simp add: reads_def)
  qed
  ultimately show thesis using that c w(2) by (simp add: white_iff)
qed

lemma value_state_cases:
  assumes "base stk st"
  shows "value_state stk = TOP \<Longrightarrow> stk = []"
    and "value_state stk = OBJECT_VALUE \<Longrightarrow> \<exists>i stk'. stk = (JSTR_OBJECT, i) # stk'"
    and "value_state stk = ARRAY_ITEM \<Longrightarrow> \<exists>i stk'. stk = (JSTR_ARRAY, i) # stk'"
    and "value_state stk \<noteq> OBJECT_KEY"
  using assms by (cases stk; auto simp: value_state_def base_def split: if_splits)+

lemma keyed_state: "keyed stk u \<Longrightarrow> stk \<noteq> [] \<and> value_state stk = OBJECT_VALUE"
  by (cases stk) (auto simp: keyed_def value_state_def)

lemma commit_token_lands:
  assumes "invariant s COMMIT_TOKEN st"
  shows "\<exists>j. commit_token st = Some j \<and> lands s j"
proof -
  obtain stk u where st: "reads s st u" "base stk st" "token_cur st \<le> jpos st"
    and at: "filled stk u \<and> jcs st = value_state stk \<and> room 1 st \<or> keyed stk u \<and> jcs st = OBJECT_KEY \<and> room 0 st"
    using assms by (auto simp: invariant_def at_label_def)
  obtain w d c where c: "read_at (jtext st) (jpos st) = Some c" and w: "white w"
    and upto: "take (jpos st + length w) s = u @ w" and d: "read_at s (jpos st + length w) = Some d"
    and loop: "commit_loop ((jtext st)[jpos st := 0]) c (jpos st + 1) = Some (d, jpos st + length w + 1)"
    and reads: "d \<noteq> 0 \<longrightarrow> reads s (st\<lparr>jtext := (jtext st)[jpos st := 0], jpos := jpos st + length w + 1\<rparr>) (u @ w @ [d])"
    by (rule commit_reads [OF st(1)])
  define st1 where "st1 = st\<lparr>jtext := (jtext st)[jpos st := 0], jpos := jpos st + length w + 1\<rparr>"
  have base: "base stk st1" using st(2) by (simp add: st1_def)
  have st1: "token_cur st1 = token_cur st" "jtokens st1 = jtokens st" "token_cur st1 \<le> jpos st1" "jcs st1 = jcs st"
    using st(3) by (simp_all add: st1_def)
  have run: "commit_token st = Some (commit_switch d st1)"
    using c loop by (simp add: commit_token_def st1_def)
  have reads: "reads s st1 (u @ w @ [d])" if "d \<noteq> 0" using reads that by (simp add: st1_def)
  show ?thesis
  proof (cases "jcs st")
    case TOP
    then have "stk = []" "filled stk u" using at value_state_cases(1) [OF st(2)] by auto
    then obtain v where "json_document v (u @ w)" using filled_top w by blast
    then have "verdict s (int (jpos st1) - 1) st1" if "d = 0"
      using that d upto by (auto simp: verdict_def st1_def intro!: exI [of _ "jpos st + length w"])
    then show ?thesis using run TOP st1(4) by (simp add: commit_switch_def verdict_def)
  next
    case OBJECT_KEY
    then have key: "keyed stk u" "room 0 st" using at value_state_cases(4) [OF st(2)] by auto
    have "lands s (Goto PARSE_GENERIC (st1\<lparr>jcs := OBJECT_VALUE\<rparr>))" if "d = 0x3a"
    proof (rule landsI)
      show "reads s (st1\<lparr>jcs := OBJECT_VALUE\<rparr>) (u @ w @ [d])" using reads that by (simp add: reads_def)
      show "at_label PARSE_GENERIC stk (st1\<lparr>jcs := OBJECT_VALUE\<rparr>) (u @ w @ [d])"
        using object_key [OF key(1) w] keyed_state [OF key(1)] key(2) st1 that
        by (simp add: at_label_def at_value_def)
    qed (use base in simp)
    then show ?thesis using run OBJECT_KEY st1(4) by (simp add: commit_switch_def verdict_def)
  next
    case OBJECT_VALUE
    then obtain i stk' where v: "stk = (JSTR_OBJECT, i) # stk'" "filled stk u" "room 1 st"
      using at value_state_cases(2) [OF st(2)] by auto
    note next_char = object_value [OF v(2) [unfolded v(1)] w]
    have "lands s (Goto POP_CONTEXT st1)" if "d = 0x7d"
      using landsI [OF reads base] next_char(1) v(1,3) st1 that by (simp add: at_label_def)
    moreover have "lands s (Goto PARSE_OBJECT_KEY (st1\<lparr>jcs := OBJECT_KEY\<rparr>))" if "d = 0x2c"
    proof (rule landsI)
      show "reads s (st1\<lparr>jcs := OBJECT_KEY\<rparr>) (u @ w @ [d])" using reads that by (simp add: reads_def)
      show "at_label PARSE_OBJECT_KEY stk (st1\<lparr>jcs := OBJECT_KEY\<rparr>) (u @ w @ [d])"
        using next_char(2) v(1,3) st1 that by (simp add: at_label_def at_key_def)
    qed (use base in simp)
    ultimately show ?thesis using run OBJECT_VALUE st1(4) by (simp add: commit_switch_def verdict_def)
  next
    case ARRAY_ITEM
    then obtain i stk' where v: "stk = (JSTR_ARRAY, i) # stk'" "filled stk u" "room 1 st"
      "jcs st = value_state stk"
      using at value_state_cases(3) [OF st(2)] by auto
    note next_char = array_item [OF v(2) [unfolded v(1)] w]
    have "lands s (Goto POP_CONTEXT st1)" if "d = 0x5d"
      using landsI [OF reads base] next_char(1) v(1,3) st1 that by (simp add: at_label_def)
    moreover have "lands s (Goto PARSE_GENERIC st1)" if "d = 0x2c"
      using landsI [OF reads base] next_char(2) v st1 that by (simp add: at_label_def at_value_def)
    ultimately show ?thesis using run ARRAY_ITEM st1(4) by (simp add: commit_switch_def verdict_def)
  qed
qed

lemma links_type:
  "links ts n stk \<Longrightarrow> stk \<noteq> [] \<Longrightarrow> Option.bind (jstr_type ts (top_of stk)) cs_of_type = Some (value_state stk)"
  by (cases stk) (auto simp: jstr_type_def top_of_def cs_of_type_def value_state_def)

lemma pop_context_lands:
  assumes "invariant s POP_CONTEXT st"
  shows "\<exists>j. pop_context st = Some j \<and> lands s j"
proof -
  obtain type i stk u where st: "reads s st u" "base ((type, i) # stk) st" "filled stk u" "room 1 st"
    "token_cur st \<le> jpos st"
    using assms by (auto simp: invariant_def at_label_def neq_Nil_conv)
  have i: "token_parent st = i" "i < token_cur st" "i < length (jtokens st)"
    "read_token (jtokens st) i = Some \<lparr>token_type = type, token_value = i - top_of stk\<rparr>"
    "stk = [] \<longrightarrow> i = 0" "links (jtokens st) i stk"
    using st(2,4) by (auto simp: base_def top_of_def)
  define ts where "ts = (jtokens st)[i := Some \<lparr>token_type = type, token_value = token_cur st - i\<rparr>]"
  have links: "links ts i stk" unfolding ts_def using i(6) by (rule links_write) simp
  have top: "stk \<noteq> [] \<Longrightarrow> top_of stk < i" "stk = [] \<Longrightarrow> top_of stk = 0" "i - (i - top_of stk) = top_of stk"
    using i(5,6) by (cases stk; auto simp: top_of_def)+
  have state: "(if i = top_of stk then Some TOP else Option.bind (jstr_type ts (top_of stk)) cs_of_type) =
      Some (value_state stk)"
    using top(1,2) i(5) links_type [OF links] by (cases "stk = []") (auto simp: value_state_def)
  define st1 where "st1 = st\<lparr>jtokens := ts, token_parent := top_of stk, jcs := value_state stk\<rparr>"
  have init: "token_init (jtokens st) i type (token_cur st - i) = Some ts"
    using i(3) by (simp add: token_init_def ts_def)
  have "pop_context st = Some (Goto COMMIT_TOKEN st1)"
    unfolding pop_context_def i(1,4) bind.bind_lunit
    by (simp only: jstr_token_t.simps diff_le_self if_True bind.bind_lunit top(3) init state st1_def)
  moreover have "base stk st1" using links_more [OF links, of "token_cur st"] i(2) by (simp add: base_def st1_def)
  moreover have "at_label COMMIT_TOKEN stk st1 u" using st(3,4,5) by (simp add: at_label_def st1_def ts_def)
  ultimately show ?thesis using landsI [OF reads_cong [OF st(1)]] by (simp add: st1_def)
qed

section \<open>Runs\<close>

lemma jstr_step_lands:
  assumes "invariant s l st"
  shows "\<exists>j. jstr_step l st = Some j \<and> lands s j"
  using assms parse_generic_lands parse_string_lands parse_keyword_lands parse_object_key_lands
    commit_token_lands pop_context_lands
  by (cases l) (simp_all add: jstr_step_def)

lemma jstr_run_verdict:
  "invariant s l st \<Longrightarrow> \<exists>rc st'. jstr_run l st = Some (rc, st') \<and> verdict s rc st'"
proof (induction l st rule: jstr_run.induct)
  case (1 l st)
  obtain j where j: "jstr_step l st = Some j" "lands s j" using jstr_step_lands [OF 1(2)] by blast
  show ?case
  proof (cases j)
    case (Goto l' st')
    then show ?thesis using 1(1) [OF j(1)] j by (subst jstr_run.simps) simp
  next
    case (Return rc st')
    then show ?thesis using j by (subst jstr_run.simps) simp
  qed
qed

end
