(* ===== verification/Jstr_Complete.thy ===== *)
theory Jstr_Complete
  imports Jstr_Sound
begin

text \<open>
  Every JSON text is accepted, given enough tokens, and the tokens describe its value: an array or
  object token holds the number of tokens of its value and is followed by those of its parts; the
  others point to a null-terminated string in the text.
\<close>

section \<open>Tokens of a value\<close>

definition cstring :: "u8 list \<Rightarrow> nat \<Rightarrow> nat \<Rightarrow> u8 list \<Rightarrow> bool" where
  "cstring s n a t \<longleftrightarrow> a + length t < n \<and> take (length t + 1) (drop a s) = t @ [0]"

definition leaf :: "u8 list \<Rightarrow> nat \<Rightarrow> tokens \<Rightarrow> nat \<Rightarrow> jstr_type_t \<Rightarrow> u8 list \<Rightarrow> bool" where
  "leaf s n ts i type t \<longleftrightarrow>
     (\<exists>a. read_token ts i = Some \<lparr>token_type = type, token_value = a\<rparr> \<and> cstring s n a t)"

fun describes :: "u8 list \<Rightarrow> nat \<Rightarrow> tokens \<Rightarrow> nat \<Rightarrow> json \<Rightarrow> bool"
  and describes_items :: "u8 list \<Rightarrow> nat \<Rightarrow> tokens \<Rightarrow> nat \<Rightarrow> json list \<Rightarrow> bool"
  and describes_members :: "u8 list \<Rightarrow> nat \<Rightarrow> tokens \<Rightarrow> nat \<Rightarrow> (nat list \<times> json) list \<Rightarrow> bool" where
  "describes s n ts i (JString cps) \<longleftrightarrow> leaf s n ts i JSTR_STRING (utf8s cps)"
| "describes s n ts i (JNumber t) \<longleftrightarrow> leaf s n ts i JSTR_NUMBER t"
| "describes s n ts i JTrue \<longleftrightarrow> leaf s n ts i JSTR_TRUE (keyword JSTR_TRUE)"
| "describes s n ts i JFalse \<longleftrightarrow> leaf s n ts i JSTR_FALSE (keyword JSTR_FALSE)"
| "describes s n ts i JNull \<longleftrightarrow> leaf s n ts i JSTR_NULL (keyword JSTR_NULL)"
| "describes s n ts i (JArray vs) \<longleftrightarrow>
     read_token ts i = Some \<lparr>token_type = JSTR_ARRAY, token_value = jsize (JArray vs)\<rparr> \<and>
     describes_items s n ts (i + 1) vs"
| "describes s n ts i (JObject ms) \<longleftrightarrow>
     read_token ts i = Some \<lparr>token_type = JSTR_OBJECT, token_value = jsize (JObject ms)\<rparr> \<and>
     describes_members s n ts (i + 1) ms"
| "describes_items s n ts i [] \<longleftrightarrow> True"
| "describes_items s n ts i (v # vs) \<longleftrightarrow> describes s n ts i v \<and> describes_items s n ts (i + jsize v) vs"
| "describes_members s n ts i [] \<longleftrightarrow> True"
| "describes_members s n ts i ((k, v) # ms) \<longleftrightarrow> leaf s n ts i JSTR_STRING (utf8s k) \<and>
     describes s n ts (i + 1) v \<and> describes_members s n ts (i + 1 + jsize v) ms"

abbreviation "isize vs \<equiv> \<Sum>v\<leftarrow>vs. jsize v"
abbreviation "msize ms \<equiv> \<Sum>(k, v)\<leftarrow>ms. 1 + jsize v"

lemma cstring_mono:
  assumes "cstring s n a t" and "take n s' = take n s" and "n \<le> n'"
  shows "cstring s' n' a t"
proof -
  have bound: "min (length t + 1) (n - a) = length t + 1" using assms(1) by (auto simp: cstring_def)
  have "take (length t + 1) (drop a x) = take (length t + 1) (drop a (take n x))" for x :: "u8 list"
    unfolding drop_take take_take bound ..
  then have "take (length t + 1) (drop a s') = take (length t + 1) (drop a s)" using assms(2) by metis
  then show ?thesis using assms(1,3) by (simp add: cstring_def)
qed

lemma jsize_pos: "0 < jsize v"
  by (cases v) simp_all

text \<open>The description depends on the text before \<open>n\<close> and on the tokens of the value only.\<close>

lemma leaf_mono:
  assumes "leaf s n ts i type t" and "take n s' = take n s" and "n \<le> n'" and "read_token ts' i = read_token ts i"
  shows "leaf s' n' ts' i type t"
  using assms cstring_mono by (auto simp: leaf_def)

lemma describes_mono:
  "describes s n ts i v \<Longrightarrow> take n s' = take n s \<Longrightarrow> n \<le> n' \<Longrightarrow>
     (\<And>j. i \<le> j \<Longrightarrow> j < i + jsize v \<Longrightarrow> read_token ts' j = read_token ts j) \<Longrightarrow> describes s' n' ts' i v"
  "describes_items s n ts i vs \<Longrightarrow> take n s' = take n s \<Longrightarrow> n \<le> n' \<Longrightarrow>
     (\<And>j. i \<le> j \<Longrightarrow> j < i + isize vs \<Longrightarrow> read_token ts' j = read_token ts j) \<Longrightarrow> describes_items s' n' ts' i vs"
  "describes_members s n ts i ms \<Longrightarrow> take n s' = take n s \<Longrightarrow> n \<le> n' \<Longrightarrow>
     (\<And>j. i \<le> j \<Longrightarrow> j < i + msize ms \<Longrightarrow> read_token ts' j = read_token ts j) \<Longrightarrow> describes_members s' n' ts' i ms"
  by (induction s n ts i v and s n ts i vs and s n ts i ms rule: describes_describes_items_describes_members.induct)
     (auto elim!: leaf_mono simp: jsize_pos)

section \<open>Steps over the text of a value\<close>

text \<open>
  From \<open>st\<close> to \<open>st'\<close> the text up to \<open>rest\<close> was read and \<open>n\<close> tokens were written; the text before it
  and the tokens before them are as they were.
\<close>

definition after :: "jstr_state \<Rightarrow> nat \<Rightarrow> jstr_state \<Rightarrow> u8 list \<Rightarrow> bool" where
  "after st n st' rest \<longleftrightarrow> length (jtext st') = length (jtext st) \<and> jpos st \<le> jpos st' \<and>
     drop (jpos st') (jtext st') = rest \<and> take (jpos st) (jtext st') = take (jpos st) (jtext st) \<and>
     length (jtokens st') = length (jtokens st) \<and> token_cur st' = token_cur st + n \<and>
     token_parent st' = token_parent st \<and>
     (\<forall>i < token_cur st. read_token (jtokens st') i = read_token (jtokens st) i)"

lemma take_shorter: "take n x = take n y \<Longrightarrow> m \<le> n \<Longrightarrow> take m x = take m y"
  by (drule arg_cong [of _ _ "take m"]) (simp add: min_absorb1)

lemma after_trans:
  assumes "after st n st' r" and "after st' m st'' rest"
  shows "after st (n + m) st'' rest"
proof -
  have 1: "jpos st \<le> jpos st'" "take (jpos st) (jtext st') = take (jpos st) (jtext st)"
    "token_cur st' = token_cur st + n" "\<And>i. i < token_cur st \<Longrightarrow> read_token (jtokens st') i = read_token (jtokens st) i"
    using assms(1) unfolding after_def by auto
  have 2: "take (jpos st') (jtext st'') = take (jpos st') (jtext st')"
    "\<And>i. i < token_cur st' \<Longrightarrow> read_token (jtokens st'') i = read_token (jtokens st') i"
    using assms(2) unfolding after_def by auto
  have "take (jpos st) (jtext st'') = take (jpos st) (jtext st)"
    using take_shorter [OF 2(1) 1(1)] 1(2) by (rule trans)
  moreover have "read_token (jtokens st'') i = read_token (jtokens st) i" if "i < token_cur st" for i
    using that 1(3,4) 2(2) by (metis trans_less_add1)
  ultimately show ?thesis using assms unfolding after_def by auto
qed

lemma jstr_run_goto: "jstr_step l st = Some (Goto l' st') \<Longrightarrow> jstr_run l st = jstr_run l' st'"
  by (subst jstr_run.simps) simp

lemma generic_start:
  assumes "drop (jpos st) (jtext st) = w @ c # r" and "white w" and "\<not> WS c" and "room 2 st"
  shows "parse_generic st = parse_value c (st\<lparr>jpos := jpos st + length w\<rparr>)"
    and "drop (jpos st + length w) (jtext st) = c # r"
proof -
  show d: "drop (jpos st + length w) (jtext st) = c # r" using assms(1) by (rule drop_past)
  have "skip_while WS (jtext st) (jpos st) = Some (jpos st + length w)"
    using assms(1,2,3) by (intro skip_while_run) (simp_all add: white_iff)
  then show "parse_generic st = parse_value c (st\<lparr>jpos := jpos st + length w\<rparr>)"
    using assms(4) drop_read [OF d] by (simp add: parse_generic_def)
qed

text \<open>The token that was pushed.\<close>

lemma push_token_run:
  assumes "room 1 st"
  obtains st' where "push_token type value st = Some st'"
    and "st' = st\<lparr>jtokens := (jtokens st)[token_cur st := Some \<lparr>token_type = type, token_value = value\<rparr>],
      token_cur := token_cur st + 1\<rparr>"
    and "read_token (jtokens st') (token_cur st) = Some \<lparr>token_type = type, token_value = value\<rparr>"
    and "\<forall>i < token_cur st. read_token (jtokens st') i = read_token (jtokens st) i"
proof -
  let ?st = "st\<lparr>jtokens := (jtokens st)[token_cur st := Some \<lparr>token_type = type, token_value = value\<rparr>],
    token_cur := token_cur st + 1\<rparr>"
  show thesis
    using assms by (intro that [of ?st]) (simp_all add: push_token_def token_init_def read_token_def)
qed

lemma cstring_commit:
  assumes "drop p s = t @ d # rest"
  shows "cstring (s[p + length t := 0]) (p + length t + 1) p t"
proof -
  have "drop p (s[p + length t := 0]) = t @ 0 # rest"
    using assms by (simp add: drop_update_swap)
  then show ?thesis by (simp add: cstring_def)
qed

lemma cstring_wrote:
  assumes "wrote s s' p (t @ [0]) q"
  shows "cstring (s'[q := 0]) (q + 1) p t"
proof -
  have eq: "take (p + (length t + 1)) (s'[q := 0]) = take p s @ t @ [0]" and q: "p + length t + 1 \<le> q"
    and p: "p \<le> length s"
    using assms by (auto simp: wrote_def)
  have "take (length t + 1) (drop p (s'[q := 0])) = drop p (take (p + (length t + 1)) (s'[q := 0]))"
    by (simp add: drop_take)
  also have "\<dots> = t @ [0]" unfolding eq using p by simp
  finally show ?thesis using q by (simp add: cstring_def)
qed

definition value_run :: "jstr_state \<Rightarrow> json \<Rightarrow> u8 list \<Rightarrow> bool" where
  "value_run st v rest \<longleftrightarrow> (\<exists>st'. jstr_run PARSE_GENERIC st = jstr_run COMMIT_TOKEN st' \<and>
     after st (jsize v) st' rest \<and> jcs st' = jcs st \<and>
     describes ((jtext st')[jpos st' := 0]) (jpos st' + 1) (jtokens st') (token_cur st) v)"

text \<open>The characters that may follow a value.\<close>

definition ends :: "u8 \<Rightarrow> bool" where
  "ends d \<longleftrightarrow> WS d \<or> d \<in> {0, 0x2c, 0x5d, 0x7d}"

lemma ends_not: "ends d \<Longrightarrow> \<not> digit d \<and> \<not> lower d \<and> d \<noteq> 0x2e \<and> d OR 0x20 \<noteq> 0x65"
  by (auto simp: ends_def WS_iff digit_iff lower_iff or_e)

lemma ends_list: "white b \<Longrightarrow> c \<in> {0, 0x2c, 0x5d, 0x7d} \<Longrightarrow> \<exists>d r'. b @ c # r = d # r' \<and> ends d"
  by (cases b) (auto simp: ends_def white_iff)

lemma leaf_run:
  assumes d: "drop (jpos st) (jtext st) = w @ t @ d # rest" and "room 1 st" and p: "p = jpos st + length w"
    and run: "\<And>st1. push_token type p (st\<lparr>jpos := p\<rparr>) = Some st1 \<Longrightarrow>
      jstr_run PARSE_GENERIC st = jstr_run COMMIT_TOKEN (st1\<lparr>jpos := p + length t\<rparr>)"
    and v: "\<And>s n ts i. leaf s n ts i type t \<Longrightarrow> describes s n ts i v" "jsize v = 1"
  shows "value_run st v (d # rest)"
proof -
  obtain st1 where push: "push_token type p (st\<lparr>jpos := p\<rparr>) = Some st1"
    and st1: "st1 = st\<lparr>jpos := p, jtokens := (jtokens st)[token_cur st := Some \<lparr>token_type = type, token_value = p\<rparr>],
      token_cur := token_cur st + 1\<rparr>"
    and tok: "read_token (jtokens st1) (token_cur st) = Some \<lparr>token_type = type, token_value = p\<rparr>"
      "\<forall>i < token_cur st. read_token (jtokens st1) i = read_token (jtokens st) i"
    using push_token_run [of "st\<lparr>jpos := p\<rparr>" type p] assms(2) by auto
  let ?st = "st1\<lparr>jpos := p + length t\<rparr>"
  have d': "drop p (jtext st) = t @ d # rest" using drop_past [OF d] p by simp
  then have "after st 1 ?st (d # rest)"
    using tok(2) drop_past [OF d'] p by (simp add: after_def st1)
  moreover have "leaf ((jtext ?st)[jpos ?st := 0]) (jpos ?st + 1) (jtokens ?st) (token_cur st) type t"
    using tok(1) cstring_commit [OF d'] by (simp add: leaf_def st1)
  moreover have "jcs ?st = jcs st" by (simp add: st1)
  ultimately show ?thesis unfolding value_run_def v(2) using v(1) run [OF push] by blast
qed

lemma number_run:
  assumes d: "drop (jpos st) (jtext st) = w @ t @ d # rest" and "white w" and "number_text t" and "room 2 st"
    and "ends d"
  shows "value_run st (JNumber t) (d # rest)"
proof -
  obtain c r where t: "t = c # r" "c = 0x2d \<or> digit c" using number_head [OF assms(3)] by blast
  then have "\<not> WS c" by (auto simp: WS_iff digit_iff)
  then have g: "parse_generic st = parse_value c (st\<lparr>jpos := jpos st + length w\<rparr>)"
    "drop (jpos st + length w) (jtext st) = t @ d # rest"
    using generic_start [of st w c "r @ d # rest"] assms(1,2,4) t(1) by simp_all
  have "parse_number (jtext st) (jpos st + length w) = Some (Some (jpos st + length w + length t))"
    using parse_number_run [OF assms(3) g(2)] ends_not [OF assms(5)] by blast
  then have "jstr_run PARSE_GENERIC st = jstr_run COMMIT_TOKEN (st1\<lparr>jpos := jpos st + length w + length t\<rparr>)"
    if "push_token JSTR_NUMBER (jpos st + length w) (st\<lparr>jpos := jpos st + length w\<rparr>) = Some st1" for st1
    using that g(1) t(2) by (intro jstr_run_goto) (auto simp: jstr_step_def parse_value_def digit_iff)
  then show ?thesis by (intro leaf_run [OF d _ refl]) (use assms(4) in simp_all)
qed

lemma keyword_run:
  assumes d: "drop (jpos st) (jtext st) = w @ keyword t @ d # rest" and "white w" and "room 2 st" and "ends d"
    and t: "t \<in> {JSTR_TRUE, JSTR_FALSE, JSTR_NULL}"
    and v: "\<And>s n ts i. leaf s n ts i t (keyword t) \<Longrightarrow> describes s n ts i v" "jsize v = 1"
  shows "value_run st v (d # rest)"
proof (rule leaf_run [OF d _ refl _ v])
  obtain c r where k: "keyword t = c # r" "lower c" "\<forall>x \<in> set r. lower x"
    using keyword_lower(1) [of t] by (cases "keyword t") (auto simp: keyword_def split: jstr_type_t.splits)
  then have "\<not> WS c" by (auto simp: WS_iff lower_iff)
  then have g: "parse_generic st = parse_value c (st\<lparr>jpos := jpos st + length w\<rparr>)"
    "drop (jpos st + length w) (jtext st) = c # r @ d # rest"
    using generic_start [of st w c "r @ d # rest"] assms(1,2,3) k(1) by simp_all
  fix st1 assume push: "push_token t (jpos st + length w) (st\<lparr>jpos := jpos st + length w\<rparr>) = Some st1"
  note st1 = push_token_simps [OF push]
  have "parse_value c (st\<lparr>jpos := jpos st + length w\<rparr>) = Some (Goto PARSE_TRUE_FALSE_OR_NULL st1)"
    using t k(1) push by (auto simp: parse_value_def keyword_def)
  moreover have "keyword_loop (jtext st) (jpos st + length w) 31 =
      Some (jpos st + length w + length (keyword t), word_hash (keyword t))"
    using keyword_loop_run [OF g(2) k(3)] ends_not [OF assms(4)] k(1) by (simp add: word_hash_def)
  then have "parse_true_false_or_null st1 = Some (Goto COMMIT_TOKEN (st1\<lparr>jpos := jpos st + length w + length (keyword t)\<rparr>))"
    using st1 kw_read [OF t] by (simp add: parse_true_false_or_null_def jstr_type_def read_token_def)
  ultimately show "jstr_run PARSE_GENERIC st =
      jstr_run COMMIT_TOKEN (st1\<lparr>jpos := jpos st + length w + length (keyword t)\<rparr>)"
    using g(1) jstr_run_goto [of PARSE_GENERIC st] jstr_run_goto [of PARSE_TRUE_FALSE_OR_NULL st1]
    by (simp add: jstr_step_def)
qed (use assms(3) in simp)


lemma after_start: "after (st\<lparr>jpos := p\<rparr>) n st' rest \<Longrightarrow> jpos st \<le> p \<Longrightarrow> after st n st' rest"
  by (auto simp: after_def intro: take_shorter)

lemma string_run:
  assumes d: "drop (jpos st) (jtext st) = quoted t @ rest" and "string_text cps t" and "room 1 st" and "0 \<in> set rest"
  obtains st' where "jstr_run PARSE_STRING st = jstr_run COMMIT_TOKEN st'" and "after st 1 st' rest"
    and "jcs st' = jcs st"
    and "leaf ((jtext st')[jpos st' := 0]) (jpos st' + 1) (jtokens st') (token_cur st) JSTR_STRING (utf8s cps)"
proof -
  let ?p = "jpos st + 1" and ?q = "jpos st + 1 + length t + 1"
  have d': "drop ?p (jtext st) = t @ 0x22 # rest" using drop_read [of "jpos st" "jtext st" "0x22"] d by (simp add: quoted_def)
  obtain s' where s': "string_loop (jtext st) ?p ?p = Some (Some (s', ?q))" "wrote (jtext st) s' ?p (utf8s cps @ [0]) ?q"
    using string_text_run [OF assms(2) d' assms(4)] by auto
  obtain st1 where push: "push_token JSTR_STRING ?p st = Some st1"
    and st1: "st1 = st\<lparr>jtokens := (jtokens st)[token_cur st := Some \<lparr>token_type = JSTR_STRING, token_value = ?p\<rparr>],
      token_cur := token_cur st + 1\<rparr>"
    and tok: "read_token (jtokens st1) (token_cur st) = Some \<lparr>token_type = JSTR_STRING, token_value = ?p\<rparr>"
      "\<forall>i < token_cur st. read_token (jtokens st1) i = read_token (jtokens st) i"
    by (rule push_token_run [OF assms(3)])
  let ?st = "st1\<lparr>jtext := s', jpos := ?q\<rparr>"
  have "jstr_run PARSE_STRING st = jstr_run COMMIT_TOKEN ?st"
    using push s'(1) by (intro jstr_run_goto) (simp add: jstr_step_def parse_string_def)
  moreover have "drop ?q (jtext st) = rest" using drop_past [of ?p "jtext st" "t @ [0x22]" rest] d' by simp
  moreover have "take ?p s' = take ?p (jtext st)"
  proof -
    have "take (?p + length (utf8s cps @ [0])) s' = take ?p (jtext st) @ utf8s cps @ [0]" "?p \<le> length (jtext st)"
      using s'(2) by (auto simp: wrote_def)
    from arg_cong [OF this(1), of "take ?p"] this(2) show ?thesis by (simp add: min_absorb1)
  qed
  then have "take (jpos st) s' = take (jpos st) (jtext st)" by (rule take_shorter) simp
  ultimately show thesis
    using s'(2) tok cstring_wrote [OF s'(2)]
    by (intro that [of ?st]) (simp_all add: after_def leaf_def wrote_def st1)
qed

lemma string_value_run:
  assumes d: "drop (jpos st) (jtext st) = w @ quoted t @ rest" and "white w" and "string_text cps t" and "room 2 st"
    and "0 \<in> set rest"
  shows "value_run st (JString cps) rest"
proof -
  let ?st = "st\<lparr>jpos := jpos st + length w\<rparr>"
  have "\<not> WS 0x22" by (simp add: WS_iff)
  then have g: "parse_generic st = parse_value 0x22 ?st"
    using generic_start [of st w "0x22" "t @ 0x22 # rest"] assms(1,2,4) by (simp add: quoted_def)
  have "drop (jpos ?st) (jtext ?st) = quoted t @ rest" using drop_past [OF d] by simp
  then obtain st' where st': "jstr_run PARSE_STRING ?st = jstr_run COMMIT_TOKEN st'" "after ?st 1 st' rest"
    "jcs st' = jcs ?st"
    "leaf ((jtext st')[jpos st' := 0]) (jpos st' + 1) (jtokens st') (token_cur ?st) JSTR_STRING (utf8s cps)"
    using string_run [of ?st t rest cps] assms(3,4,5) by auto
  have "jstr_run PARSE_GENERIC st = jstr_run PARSE_STRING ?st"
    using g by (intro jstr_run_goto) (simp add: jstr_step_def parse_value_def)
  then show ?thesis
    unfolding value_run_def using st' after_start [OF st'(2)] by (intro exI [of _ st']) simp
qed


section \<open>Arrays and objects\<close>

lemma commit_run:
  assumes "drop (jpos st) (jtext st) = b @ c # rest" and "white b" and "\<not> WS c"
  shows "commit_token st = Some (commit_switch c
      (st\<lparr>jtext := (jtext st)[jpos st := 0], jpos := jpos st + length b + 1\<rparr>))"
    and "drop (jpos st + length b + 1) ((jtext st)[jpos st := 0]) = rest"
proof -
  obtain x where x: "read_at (jtext st) (jpos st) = Some x"
    using assms(1) by (cases "jpos st < length (jtext st)") auto
  have "x # drop (jpos st + 1) ((jtext st)[jpos st := 0]) = b @ c # rest"
    using read_drop [OF x] assms(1) by simp
  then have "commit_loop ((jtext st)[jpos st := 0]) x (jpos st + 1) = Some (c, jpos st + 1 + length b)"
    by (rule commit_loop_run) (use assms(2,3) in \<open>simp_all add: white_iff\<close>)
  then show "commit_token st = Some (commit_switch c
      (st\<lparr>jtext := (jtext st)[jpos st := 0], jpos := jpos st + length b + 1\<rparr>))"
    using x by (simp add: commit_token_def)
  show "drop (jpos st + length b + 1) ((jtext st)[jpos st := 0]) = rest"
    using drop_past [of "jpos st" "jtext st" "b @ [c]" rest] assms(1) by simp
qed

text \<open>The state of the parser fits the token of the enclosing array or object.\<close>

definition context_ok :: "jstr_state \<Rightarrow> bool" where
  "context_ok st \<longleftrightarrow> token_parent st \<le> token_cur st \<and>
     (if token_parent st = token_cur st then Some TOP
      else Option.bind (jstr_type (jtokens st) (token_parent st)) cs_of_type) = Some (jcs st)"

text \<open>The state after the opening character of an array or object.\<close>

definition open_state :: "jstr_type_t \<Rightarrow> parse_state \<Rightarrow> nat \<Rightarrow> jstr_state \<Rightarrow> jstr_state" where
  "open_state type state p st = st\<lparr>jpos := p,
     jtokens := (jtokens st)[token_cur st :=
       Some \<lparr>token_type = type, token_value = token_cur st - token_parent st\<rparr>],
     token_cur := token_cur st + 1, token_parent := token_cur st, jcs := state\<rparr>"

lemma open_run:
  assumes "drop (jpos st) (jtext st) = c # w @ d # rest" and "white w" and "\<not> WS d" and "room 1 st"
  shows "open_context type state close l st = Some (if d = close
      then Goto POP_CONTEXT (open_state type state (jpos st + 1 + length w + 1) st)
      else Goto l (open_state type state (jpos st + 1 + length w) st))"
proof -
  have d: "drop (jpos st + 1) (jtext st) = w @ d # rest" using drop_read [OF assms(1)] by simp
  then have "skip_while WS (jtext st) (jpos st + 1) = Some (jpos st + 1 + length w)"
    using assms(2,3) by (intro skip_while_run) (simp_all add: white_iff)
  moreover have "read_at (jtext st) (jpos st + 1 + length w) = Some d"
    using drop_read [OF drop_past [OF d]] by simp
  ultimately show ?thesis
    using assms(4) by (simp add: open_context_def push_token_def token_init_def open_state_def)
qed

lemma read_token_update:
  "read_token (ts[i := x]) j = (if i = j \<and> i < length ts then x else read_token ts j)"
  by (auto simp: read_token_def read_at_def)

lemma close_run:
  assumes st: "context_ok st" "room 2 st" "jpos st \<le> p"
    and after: "after (open_state type state p st) n st3 rest"
  obtains st4 where "jstr_run POP_CONTEXT st3 = jstr_run COMMIT_TOKEN st4" and "after st (n + 1) st4 rest"
    and "jcs st4 = jcs st" and "jtext st4 = jtext st3" and "jpos st4 = jpos st3"
    and "read_token (jtokens st4) (token_cur st) = Some \<lparr>token_type = type, token_value = n + 1\<rparr>"
    and "\<forall>j > token_cur st. read_token (jtokens st4) j = read_token (jtokens st3) j"
proof -
  let ?c = "token_cur st" and ?q = "token_parent st"
  define ts where "ts = (jtokens st3)[?c := Some \<lparr>token_type = type, token_value = n + 1\<rparr>]"
  have st3: "token_parent st3 = ?c" "token_cur st3 = ?c + 1 + n" "length (jtokens st3) = length (jtokens st)"
    "read_token (jtokens st3) ?c = Some \<lparr>token_type = type, token_value = ?c - ?q\<rparr>"
    "\<And>i. i < ?c \<Longrightarrow> read_token (jtokens st3) i = read_token (jtokens st) i"
    using after st(2) by (auto simp: after_def open_state_def read_token_update)
  have q: "?q \<le> ?c" "?c - (?c - ?q) = ?q" using st(1) by (simp_all add: context_ok_def)
  have state: "(if ?c = ?q then Some TOP else Option.bind (jstr_type ts ?q) cs_of_type) = Some (jcs st)"
    using st(1) st3(5) [of ?q] q(1) by (auto simp: context_ok_def jstr_type_def ts_def read_token_update)
  have init: "token_init (jtokens st3) ?c type (token_cur st3 - ?c) = Some ts"
    using st3(2,3) st(2) by (simp add: token_init_def ts_def)
  let ?st = "st3\<lparr>jtokens := ts, token_parent := ?q, jcs := jcs st\<rparr>"
  have "pop_context st3 = Some (Goto COMMIT_TOKEN ?st)"
    unfolding pop_context_def st3(1,4) bind.bind_lunit
    by (simp only: jstr_token_t.simps diff_le_self if_True bind.bind_lunit q(2) init state)
  then have "jstr_run POP_CONTEXT st3 = jstr_run COMMIT_TOKEN ?st" by (intro jstr_run_goto) (simp add: jstr_step_def)
  moreover have "take (jpos st) (jtext st3) = take (jpos st) (jtext st)"
    using after st(3) take_shorter [of p] by (auto simp: after_def open_state_def)
  then have "after st (n + 1) ?st rest"
    using after st(2,3) st3 by (auto simp: after_def open_state_def ts_def read_token_update)
  ultimately show thesis
    using st(2) st3(3) by (intro that [of ?st]) (simp_all add: ts_def read_token_update)
qed


text \<open>The state after the first character behind a token that was committed.\<close>

lemma commit_after:
  assumes "after st n st' (b @ c # rest)" and "white b" and "\<not> WS c"
  obtains st1 where "commit_token st' = Some (commit_switch c st1)" and "after st n st1 rest"
    and "jcs st1 = jcs st'" and "take (jpos st' + 1) (jtext st1) = take (jpos st' + 1) ((jtext st')[jpos st' := 0])"
    and "jpos st' + 1 \<le> jpos st1" and "jtokens st1 = jtokens st'"
proof -
  have d: "drop (jpos st') (jtext st') = b @ c # rest" using assms(1) by (simp add: after_def)
  let ?st = "st'\<lparr>jtext := (jtext st')[jpos st' := 0], jpos := jpos st' + length b + 1\<rparr>"
  have "after st n ?st rest"
    using assms(1) commit_run(2) [OF d assms(2,3)] by (simp add: after_def)
  then show thesis using that [of ?st] commit_run(1) [OF d assms(2,3)] by simp
qed

definition goes :: "label \<Rightarrow> jstr_state \<Rightarrow> jump \<Rightarrow> bool" where
  "goes l st j \<longleftrightarrow> jstr_run l st = (case j of Goto l' st' \<Rightarrow> jstr_run l' st' | Return rc st' \<Rightarrow> Some (rc, st'))"

lemma goes_commit: "jstr_run l st = jstr_run COMMIT_TOKEN st' \<Longrightarrow> commit_token st' = Some j \<Longrightarrow> goes l st j"
  by (simp add: goes_def jstr_run.simps [of COMMIT_TOKEN] jstr_step_def)

lemma value_commit:
  assumes "value_run st v (b @ c # rest)" and "white b" and "\<not> WS c"
  obtains st1 where "goes PARSE_GENERIC st (commit_switch c st1)" and "after st (jsize v) st1 rest"
    and "jcs st1 = jcs st" and "describes (jtext st1) (jpos st1) (jtokens st1) (token_cur st) v"
proof -
  obtain st' where st': "jstr_run PARSE_GENERIC st = jstr_run COMMIT_TOKEN st'"
    "after st (jsize v) st' (b @ c # rest)" "jcs st' = jcs st"
    "describes ((jtext st')[jpos st' := 0]) (jpos st' + 1) (jtokens st') (token_cur st) v"
    using assms(1) unfolding value_run_def by blast
  obtain st1 where st1: "commit_token st' = Some (commit_switch c st1)" "after st (jsize v) st1 rest"
    "jcs st1 = jcs st'" "take (jpos st' + 1) (jtext st1) = take (jpos st' + 1) ((jtext st')[jpos st' := 0])"
    "jpos st' + 1 \<le> jpos st1" "jtokens st1 = jtokens st'"
    by (rule commit_after [OF st'(2) assms(2,3)])
  have "describes (jtext st1) (jpos st1) (jtokens st1) (token_cur st) v"
    using describes_mono(1) [OF st'(4) st1(4,5)] st1(6) by simp
  then show thesis using that goes_commit [OF st'(1) st1(1)] st1(2,3) st'(3) by simp
qed

lemma key_run:
  assumes d: "drop (jpos st) (jtext st) = a @ quoted s @ b @ 0x3a # rest" and "white a" and "string_text k s"
    and "white b" and "room 1 st" and "0 \<in> set rest" and "jcs st = OBJECT_KEY"
  obtains st1 where "jstr_run PARSE_OBJECT_KEY st = jstr_run PARSE_GENERIC st1" and "after st 1 st1 rest"
    and "jcs st1 = OBJECT_VALUE" and "leaf (jtext st1) (jpos st1) (jtokens st1) (token_cur st) JSTR_STRING (utf8s k)"
proof -
  let ?st = "st\<lparr>jpos := jpos st + length a\<rparr>"
  have q: "\<not> WS 0x22" "\<not> WS 0x3a" by (simp_all add: WS_iff)
  have d': "drop (jpos ?st) (jtext ?st) = quoted s @ b @ 0x3a # rest" using drop_past [OF d] by simp
  have "skip_while WS (jtext st) (jpos st) = Some (jpos st + length a)"
    using d q(1) assms(2) by (intro skip_while_run) (simp_all add: quoted_def white_iff)
  then have key: "jstr_run PARSE_OBJECT_KEY st = jstr_run PARSE_STRING ?st"
    using d' drop_read [of "jpos ?st" "jtext ?st"] by (intro jstr_run_goto) (simp add: jstr_step_def parse_object_key_def quoted_def)
  obtain st' where st': "jstr_run PARSE_STRING ?st = jstr_run COMMIT_TOKEN st'" "after ?st 1 st' (b @ 0x3a # rest)"
    "jcs st' = jcs ?st"
    "leaf ((jtext st')[jpos st' := 0]) (jpos st' + 1) (jtokens st') (token_cur ?st) JSTR_STRING (utf8s k)"
    using string_run [OF d' assms(3)] assms(5,6) by auto
  obtain st1 where st1: "commit_token st' = Some (commit_switch 0x3a st1)" "after ?st 1 st1 rest"
    "jcs st1 = jcs st'" "take (jpos st' + 1) (jtext st1) = take (jpos st' + 1) ((jtext st')[jpos st' := 0])"
    "jpos st' + 1 \<le> jpos st1" "jtokens st1 = jtokens st'"
    by (rule commit_after [OF st'(2) assms(4) q(2)])
  let ?st1 = "st1\<lparr>jcs := OBJECT_VALUE\<rparr>"
  have "jstr_run PARSE_OBJECT_KEY st = jstr_run PARSE_GENERIC ?st1"
    using goes_commit [OF _ st1(1)] key st'(1,3) st1(3) assms(7) by (simp add: goes_def commit_switch_def)
  moreover have "after st 1 ?st1 rest" using after_start [OF st1(2)] by (simp add: after_def)
  moreover have "leaf (jtext ?st1) (jpos ?st1) (jtokens ?st1) (token_cur st) JSTR_STRING (utf8s k)"
    using leaf_mono [OF st'(4) st1(4,5)] st1(6) by simp
  ultimately show thesis using that [of ?st1] by simp
qed


definition in_context :: "jstr_type_t \<Rightarrow> jstr_state \<Rightarrow> bool" where
  "in_context type st \<longleftrightarrow> token_parent st < token_cur st \<and> jstr_type (jtokens st) (token_parent st) = Some type"

lemma in_context_after: "in_context type st \<Longrightarrow> after st n st' rest \<Longrightarrow> in_context type st'"
  by (auto simp: in_context_def after_def jstr_type_def)

lemma in_context_ok:
  "in_context JSTR_ARRAY st \<Longrightarrow> jcs st = ARRAY_ITEM \<Longrightarrow> context_ok st"
  "in_context JSTR_OBJECT st \<Longrightarrow> jcs st = OBJECT_VALUE \<Longrightarrow> context_ok st"
  by (auto simp: in_context_def context_ok_def cs_of_type_def)

definition items_run :: "jstr_state \<Rightarrow> json list \<Rightarrow> u8 list \<Rightarrow> bool" where
  "items_run st vs rest \<longleftrightarrow> (\<exists>st'. jstr_run PARSE_GENERIC st = jstr_run POP_CONTEXT st' \<and>
     after st (isize vs) st' rest \<and> describes_items (jtext st') (jpos st') (jtokens st') (token_cur st) vs)"

definition members_run :: "jstr_state \<Rightarrow> (nat list \<times> json) list \<Rightarrow> u8 list \<Rightarrow> bool" where
  "members_run st ms rest \<longleftrightarrow> (\<exists>st'. jstr_run PARSE_OBJECT_KEY st = jstr_run POP_CONTEXT st' \<and>
     after st (msize ms) st' rest \<and> describes_members (jtext st') (jpos st') (jtokens st') (token_cur st) ms)"

lemma after_describes:
  assumes "after st' m st'' rest"
  shows "describes (jtext st') (jpos st') (jtokens st') i v \<Longrightarrow> i + jsize v \<le> token_cur st' \<Longrightarrow>
      describes (jtext st'') (jpos st'') (jtokens st'') i v"
    and "leaf (jtext st') (jpos st') (jtokens st') i type t \<Longrightarrow> i < token_cur st' \<Longrightarrow>
      leaf (jtext st'') (jpos st'') (jtokens st'') i type t"
  using assms describes_mono(1) leaf_mono by (fastforce simp: after_def)+

lemma items_last:
  assumes "value_run st v (b @ 0x5d # rest)" and "white b" and "jcs st = ARRAY_ITEM"
  shows "items_run st [v] rest"
proof -
  have "\<not> WS 0x5d" by (simp add: WS_iff)
  from value_commit [OF assms(1,2) this] obtain st1 where
    "goes PARSE_GENERIC st (commit_switch 0x5d st1)" "after st (jsize v) st1 rest" "jcs st1 = jcs st"
    "describes (jtext st1) (jpos st1) (jtokens st1) (token_cur st) v" .
  then show ?thesis unfolding items_run_def using assms(3)
    by (intro exI [of _ st1]) (simp add: goes_def commit_switch_def)
qed

lemma items_next:
  assumes "value_run st v (b @ 0x2c # r)" and "white b" and "jcs st = ARRAY_ITEM"
    and items: "\<And>st1. after st (jsize v) st1 r \<Longrightarrow> jcs st1 = ARRAY_ITEM \<Longrightarrow> items_run st1 vs rest"
  shows "items_run st (v # vs) rest"
proof -
  have "\<not> WS 0x2c" by (simp add: WS_iff)
  from value_commit [OF assms(1,2) this] obtain st1 where
    st1: "goes PARSE_GENERIC st (commit_switch 0x2c st1)" "after st (jsize v) st1 r" "jcs st1 = jcs st"
    "describes (jtext st1) (jpos st1) (jtokens st1) (token_cur st) v" .
  obtain st2 where st2: "jstr_run PARSE_GENERIC st1 = jstr_run POP_CONTEXT st2" "after st1 (isize vs) st2 rest"
    "describes_items (jtext st2) (jpos st2) (jtokens st2) (token_cur st1) vs"
    using items [OF st1(2)] st1(3) assms(3) unfolding items_run_def by auto
  have "token_cur st1 = token_cur st + jsize v" using st1(2) by (simp add: after_def)
  then have "describes_items (jtext st2) (jpos st2) (jtokens st2) (token_cur st) (v # vs)"
    using after_describes(1) [OF st2(2) st1(4)] st2(3) by simp
  then show ?thesis unfolding items_run_def using st1(1,3) st2(1) after_trans [OF st1(2) st2(2)] assms(3)
    by (intro exI [of _ st2]) (simp add: goes_def commit_switch_def)
qed

lemma member_run:
  assumes d: "drop (jpos st) (jtext st) = a @ quoted s @ b @ 0x3a # r" and "white a" and "string_text k s"
    and "white b" and "room 1 st" and "0 \<in> set r" and "jcs st = OBJECT_KEY"
    and value_at: "\<And>st1. after st 1 st1 r \<Longrightarrow> jcs st1 = OBJECT_VALUE \<Longrightarrow> value_run st1 v (e @ c # rest)"
    and "white e" and "\<not> WS c"
  obtains st2 where "goes PARSE_OBJECT_KEY st (commit_switch c st2)" and "after st (1 + jsize v) st2 rest"
    and "jcs st2 = OBJECT_VALUE" and "leaf (jtext st2) (jpos st2) (jtokens st2) (token_cur st) JSTR_STRING (utf8s k)"
    and "describes (jtext st2) (jpos st2) (jtokens st2) (token_cur st + 1) v"
proof -
  obtain st1 where st1: "jstr_run PARSE_OBJECT_KEY st = jstr_run PARSE_GENERIC st1" "after st 1 st1 r"
    "jcs st1 = OBJECT_VALUE" "leaf (jtext st1) (jpos st1) (jtokens st1) (token_cur st) JSTR_STRING (utf8s k)"
    by (rule key_run [OF assms(1-7)])
  obtain st2 where st2: "goes PARSE_GENERIC st1 (commit_switch c st2)" "after st1 (jsize v) st2 rest"
    "jcs st2 = jcs st1" "describes (jtext st2) (jpos st2) (jtokens st2) (token_cur st1) v"
    by (rule value_commit [OF value_at [OF st1(2,3)] assms(9,10)])
  have "token_cur st1 = token_cur st + 1" using st1(2) by (simp add: after_def)
  then show thesis
    using that [of st2] st1(1,3) st2 after_trans [OF st1(2) st2(2)] after_describes(2) [OF st2(2) st1(4)]
    by (simp add: goes_def)
qed


lemma members_last:
  assumes d: "drop (jpos st) (jtext st) = a @ quoted s @ b @ 0x3a # r" and "white a" and "string_text k s"
    and "white b" and "room 1 st" and "0 \<in> set r" and "jcs st = OBJECT_KEY"
    and "\<And>st1. after st 1 st1 r \<Longrightarrow> jcs st1 = OBJECT_VALUE \<Longrightarrow> value_run st1 v (e @ 0x7d # rest)"
    and "white e"
  shows "members_run st [(k, v)] rest"
proof -
  have "\<not> WS 0x7d" by (simp add: WS_iff)
  from member_run [OF assms(1-9) this] obtain st2 where
    "goes PARSE_OBJECT_KEY st (commit_switch 0x7d st2)" "after st (1 + jsize v) st2 rest" "jcs st2 = OBJECT_VALUE"
    "leaf (jtext st2) (jpos st2) (jtokens st2) (token_cur st) JSTR_STRING (utf8s k)"
    "describes (jtext st2) (jpos st2) (jtokens st2) (token_cur st + 1) v" .
  then show ?thesis unfolding members_run_def
    by (intro exI [of _ st2]) (simp add: goes_def commit_switch_def)
qed

lemma members_next:
  assumes d: "drop (jpos st) (jtext st) = a @ quoted s @ b @ 0x3a # r" and "white a" and "string_text k s"
    and "white b" and "room 1 st" and "0 \<in> set r" and "jcs st = OBJECT_KEY"
    and "\<And>st1. after st 1 st1 r \<Longrightarrow> jcs st1 = OBJECT_VALUE \<Longrightarrow> value_run st1 v (e @ 0x2c # r')"
    and "white e"
    and members: "\<And>st1. after st (1 + jsize v) st1 r' \<Longrightarrow> jcs st1 = OBJECT_KEY \<Longrightarrow> members_run st1 ms rest"
  shows "members_run st ((k, v) # ms) rest"
proof -
  have "\<not> WS 0x2c" by (simp add: WS_iff)
  from member_run [OF assms(1-9) this] obtain st2 where
    st2: "goes PARSE_OBJECT_KEY st (commit_switch 0x2c st2)" "after st (1 + jsize v) st2 r'" "jcs st2 = OBJECT_VALUE"
    "leaf (jtext st2) (jpos st2) (jtokens st2) (token_cur st) JSTR_STRING (utf8s k)"
    "describes (jtext st2) (jpos st2) (jtokens st2) (token_cur st + 1) v" .
  let ?st = "st2\<lparr>jcs := OBJECT_KEY\<rparr>"
  have after: "after st (1 + jsize v) ?st r'" using st2(2) by (simp add: after_def)
  obtain st3 where st3: "jstr_run PARSE_OBJECT_KEY ?st = jstr_run POP_CONTEXT st3" "after ?st (msize ms) st3 rest"
    "describes_members (jtext st3) (jpos st3) (jtokens st3) (token_cur ?st) ms"
    using members [OF after] unfolding members_run_def by auto
  have "token_cur ?st = token_cur st + 1 + jsize v" using after by (simp add: after_def)
  then have "describes_members (jtext st3) (jpos st3) (jtokens st3) (token_cur st) ((k, v) # ms)"
    using after_describes(1) [OF st3(2), of "token_cur st + 1" v]
      after_describes(2) [OF st3(2), of "token_cur st" JSTR_STRING "utf8s k"] st3(3) st2(4,5) by simp
  then show ?thesis unfolding members_run_def using st2(1,3) st3(1) after_trans [OF after st3(2)]
    by (intro exI [of _ st3]) (simp add: goes_def commit_switch_def)
qed

section \<open>Values\<close>

lemma json_head: "json_text v t \<Longrightarrow> \<exists>x r. t = x # r \<and> \<not> WS x \<and> x \<noteq> 0x5d"
  by (cases rule: json_text.cases) (auto simp: WS_iff quoted_def digit_iff dest!: number_head)

lemma elements_head: "elements_text vs t \<Longrightarrow> \<exists>a x r. t = a @ x # r \<and> white a \<and> \<not> WS x \<and> x \<noteq> 0x5d"
  by (cases rule: elements_text.cases) (auto 4 4 dest!: json_head)

lemma members_head: "members_text ms t \<Longrightarrow> \<exists>a r. t = a @ 0x22 # r \<and> white a"
  by (cases rule: members_text.cases) (auto simp: quoted_def)

lemma generic_skip:
  assumes "drop (jpos st) (jtext st) = a @ x # r" and "white a" and "\<not> WS x" and "room 2 st"
  shows "jstr_run PARSE_GENERIC (st\<lparr>jpos := jpos st + length a\<rparr>) = jstr_run PARSE_GENERIC st"
proof -
  have "drop (jpos st + length a) (jtext st) = [] @ x # r" using drop_past [OF assms(1)] by simp
  then have "parse_generic (st\<lparr>jpos := jpos st + length a\<rparr>) = parse_generic st"
    using generic_start(1) [OF assms] generic_start(1) [of "st\<lparr>jpos := jpos st + length a\<rparr>" "[]" x r] assms(3,4)
    by simp
  then show ?thesis by (simp add: jstr_run.simps [of PARSE_GENERIC] jstr_step_def)
qed

lemma key_skip:
  assumes "drop (jpos st) (jtext st) = a @ 0x22 # r" and "white a"
  shows "jstr_run PARSE_OBJECT_KEY (st\<lparr>jpos := jpos st + length a\<rparr>) = jstr_run PARSE_OBJECT_KEY st"
proof -
  have q: "\<not> WS 0x22" by (simp add: WS_iff)
  have d: "drop (jpos st + length a) (jtext st) = [] @ 0x22 # r" using drop_past [OF assms(1)] by simp
  have "skip_while WS (jtext st) (jpos st) = Some (jpos st + length a)"
    "skip_while WS (jtext st) (jpos st + length a) = Some (jpos st + length a)"
    using skip_while_run [where f = WS, OF assms(1) _ q] skip_while_run [where f = WS, OF d _ q] assms(2) by (simp_all add: white_iff)
  then have "parse_object_key (st\<lparr>jpos := jpos st + length a\<rparr>) = parse_object_key st"
    using drop_read [of "jpos st + length a" "jtext st"] d by (simp add: parse_object_key_def)
  then show ?thesis by (simp add: jstr_run.simps [of PARSE_OBJECT_KEY] jstr_step_def)
qed


lemma after_refl: "drop (jpos st) (jtext st) = rest \<Longrightarrow> after st 0 st rest"
  by (simp add: after_def)

text \<open>An array or object, once its closing character was read in the state \<open>st3\<close>.\<close>

lemma container_run:
  assumes st: "context_ok st" "room 2 st" "jpos st \<le> p"
    and "after (open_state type state p st) n st3 rest"
    and "jstr_run PARSE_GENERIC st = jstr_run POP_CONTEXT st3" and "jsize v = n + 1"
    and v: "\<And>ts. read_token ts (token_cur st) = Some \<lparr>token_type = type, token_value = n + 1\<rparr> \<Longrightarrow>
      \<forall>j > token_cur st. read_token ts j = read_token (jtokens st3) j \<Longrightarrow>
      describes ((jtext st3)[jpos st3 := 0]) (jpos st3 + 1) ts (token_cur st) v"
  shows "value_run st v rest"
proof -
  obtain st4 where st4: "jstr_run POP_CONTEXT st3 = jstr_run COMMIT_TOKEN st4" "after st (n + 1) st4 rest"
    "jcs st4 = jcs st" "jtext st4 = jtext st3" "jpos st4 = jpos st3"
    "read_token (jtokens st4) (token_cur st) = Some \<lparr>token_type = type, token_value = n + 1\<rparr>"
    "\<forall>j > token_cur st. read_token (jtokens st4) j = read_token (jtokens st3) j"
    by (rule close_run [OF assms(1-4)])
  then show ?thesis unfolding value_run_def using v [OF st4(6,7)] assms(5,6)
    by (intro exI [of _ st4]) simp
qed

lemma open_state_simps [simp]:
  "open_state type state p (st\<lparr>jpos := q\<rparr>) = open_state type state p st"
  "jtext (open_state type state p st) = jtext st" "jpos (open_state type state p st) = p"
  "(open_state type state p st)\<lparr>jpos := q\<rparr> = open_state type state q st"
  "jcs (open_state type state p st) = state" "token_cur (open_state type state p st) = token_cur st + 1"
  "length (jtokens (open_state type state p st)) = length (jtokens st)"
  by (simp_all add: open_state_def)

lemma open_in_context: "room 1 st \<Longrightarrow> in_context type (open_state type state p st)"
  by (simp add: in_context_def open_state_def jstr_type_def read_token_update)

lemma generic_open:
  assumes d: "drop (jpos st) (jtext st) = w @ c # a @ x # r" and "white w" and "\<not> WS c" and "white a" and "\<not> WS x"
    and "room 2 st"
    and "\<And>st'. parse_value c st' = open_context type state close l st'"
  shows "parse_generic st = Some (if x = close
      then Goto POP_CONTEXT (open_state type state (jpos st + length w + 1 + length a + 1) st)
      else Goto l (open_state type state (jpos st + length w + 1 + length a) st))"
  using generic_start [OF d assms(2,3,6)] open_run [of "st\<lparr>jpos := jpos st + length w\<rparr>" c a x r] assms(4-7)
  by simp

lemma empty_run:
  assumes d: "drop (jpos st) (jtext st) = w @ c # a @ close # rest" and "white w" and "\<not> WS c" and "white a"
    and "\<not> WS close" and "room 2 st" and "context_ok st"
    and "\<And>st'. parse_value c st' = open_context type state close l st'"
    and "jsize v = 1"
    and v: "\<And>s n ts i. read_token ts i = Some \<lparr>token_type = type, token_value = 1\<rparr> \<Longrightarrow> describes s n ts i v"
  shows "value_run st v rest"
proof (rule container_run [OF assms(7,6)])
  let ?p = "jpos st + length w + 1 + length a + 1"
  have "drop ?p (jtext st) = rest"
    using drop_past [of "jpos st" "jtext st" "w @ c # a @ [close]" rest] d by (simp add: add.assoc)
  then show "after (open_state type state ?p st) 0 (open_state type state ?p st) rest"
    by (intro after_refl) simp
  show "jstr_run PARSE_GENERIC st = jstr_run POP_CONTEXT (open_state type state ?p st)"
    using generic_open [OF d assms(2-5) assms(6) assms(8)] by (intro jstr_run_goto) (simp add: jstr_step_def)
qed (use v assms(9) in simp_all)


lemma array_run:
  assumes d: "drop (jpos st) (jtext st) = w @ 0x5b # e @ 0x5d # rest" and "white w" and "elements_text vs e"
    and "room 2 st" and "context_ok st"
    and items: "items_run (open_state JSTR_ARRAY ARRAY_ITEM (jpos st + length w + 1) st) vs rest" and "room 3 st"
  shows "value_run st (JArray vs) rest"
proof -
  let ?open = "\<lambda>p. open_state JSTR_ARRAY ARRAY_ITEM p st" and ?p = "jpos st + length w + 1"
  obtain a x r where e: "e = a @ x # r" "white a" "\<not> WS x" "x \<noteq> 0x5d" using elements_head [OF assms(3)] by blast
  have "\<not> WS 0x5b" by (simp add: WS_iff)
  have "jstr_run PARSE_GENERIC st = jstr_run PARSE_GENERIC (?open (?p + length a))"
    using generic_open [of st w "0x5b" a x "r @ 0x5d # rest" JSTR_ARRAY ARRAY_ITEM "0x5d" PARSE_GENERIC]
      d e assms(2,4) \<open>\<not> WS 0x5b\<close>
    by (intro jstr_run_goto) (simp add: jstr_step_def parse_value_def)
  also have "\<dots> = jstr_run PARSE_GENERIC (?open ?p)"
    using generic_skip [of "?open ?p" a x "r @ 0x5d # rest"] drop_past [of "jpos st" "jtext st" "w @ [0x5b]"]
      d e assms(7) by simp
  finally have run: "jstr_run PARSE_GENERIC st = jstr_run PARSE_GENERIC (?open ?p)" .
  obtain st3 where st3: "jstr_run PARSE_GENERIC (?open ?p) = jstr_run POP_CONTEXT st3"
    "after (?open ?p) (isize vs) st3 rest"
    "describes_items (jtext st3) (jpos st3) (jtokens st3) (token_cur st + 1) vs"
    using items unfolding items_run_def by auto
  show ?thesis
  proof (rule container_run [OF assms(5,4) _ st3(2)])
    fix ts assume ts: "read_token ts (token_cur st) = Some \<lparr>token_type = JSTR_ARRAY, token_value = isize vs + 1\<rparr>"
      "\<forall>j > token_cur st. read_token ts j = read_token (jtokens st3) j"
    have "describes_items ((jtext st3)[jpos st3 := 0]) (jpos st3 + 1) ts (token_cur st + 1) vs"
      using ts(2) by (intro describes_mono(2) [OF st3(3)]) simp_all
    then show "describes ((jtext st3)[jpos st3 := 0]) (jpos st3 + 1) ts (token_cur st) (JArray vs)"
      using ts(1) by simp
  qed (use run st3(1) in simp_all)
qed

lemma object_run:
  assumes d: "drop (jpos st) (jtext st) = w @ 0x7b # e @ 0x7d # rest" and "white w" and "members_text ms e"
    and "room 2 st" and "context_ok st"
    and members: "members_run (open_state JSTR_OBJECT OBJECT_KEY (jpos st + length w + 1) st) ms rest"
  shows "value_run st (JObject ms) rest"
proof -
  let ?open = "\<lambda>p. open_state JSTR_OBJECT OBJECT_KEY p st" and ?p = "jpos st + length w + 1"
  obtain a r where e: "e = a @ 0x22 # r" "white a" using members_head [OF assms(3)] by blast
  have "\<not> WS 0x7b" "\<not> WS 0x22" by (simp_all add: WS_iff)
  have "jstr_run PARSE_GENERIC st = jstr_run PARSE_OBJECT_KEY (?open (?p + length a))"
    using generic_open [of st w "0x7b" a "0x22" "r @ 0x7d # rest" JSTR_OBJECT OBJECT_KEY "0x7d" PARSE_OBJECT_KEY]
      d e assms(2,4) \<open>\<not> WS 0x7b\<close> \<open>\<not> WS 0x22\<close>
    by (intro jstr_run_goto) (simp add: jstr_step_def parse_value_def)
  also have "\<dots> = jstr_run PARSE_OBJECT_KEY (?open ?p)"
    using key_skip [of "?open ?p" a "r @ 0x7d # rest"] drop_past [of "jpos st" "jtext st" "w @ [0x7b]"] d e by simp
  finally have run: "jstr_run PARSE_GENERIC st = jstr_run PARSE_OBJECT_KEY (?open ?p)" .
  obtain st3 where st3: "jstr_run PARSE_OBJECT_KEY (?open ?p) = jstr_run POP_CONTEXT st3"
    "after (?open ?p) (msize ms) st3 rest"
    "describes_members (jtext st3) (jpos st3) (jtokens st3) (token_cur st + 1) ms"
    using members unfolding members_run_def by auto
  show ?thesis
  proof (rule container_run [OF assms(5,4) _ st3(2)])
    fix ts assume ts: "read_token ts (token_cur st) = Some \<lparr>token_type = JSTR_OBJECT, token_value = msize ms + 1\<rparr>"
      "\<forall>j > token_cur st. read_token ts j = read_token (jtokens st3) j"
    have "describes_members ((jtext st3)[jpos st3 := 0]) (jpos st3 + 1) ts (token_cur st + 1) ms"
      using ts(2) by (intro describes_mono(3) [OF st3(3)]) simp_all
    then show "describes ((jtext st3)[jpos st3 := 0]) (jpos st3 + 1) ts (token_cur st) (JObject ms)"
      using ts(1) by simp
  qed (use run st3(1) in simp_all)
qed


definition value_ok :: "json \<Rightarrow> u8 list \<Rightarrow> bool" where
  "value_ok v t \<longleftrightarrow> (\<forall>st w d rest. drop (jpos st) (jtext st) = w @ t @ d # rest \<longrightarrow> white w \<longrightarrow> ends d \<longrightarrow>
     0 \<in> set (d # rest) \<longrightarrow> room (jsize v + 1) st \<longrightarrow> context_ok st \<longrightarrow> value_run st v (d # rest))"

definition items_ok :: "json list \<Rightarrow> u8 list \<Rightarrow> bool" where
  "items_ok vs t \<longleftrightarrow> (\<forall>st rest. drop (jpos st) (jtext st) = t @ 0x5d # rest \<longrightarrow> 0 \<in> set rest \<longrightarrow>
     room (isize vs + 1) st \<longrightarrow> in_context JSTR_ARRAY st \<longrightarrow> jcs st = ARRAY_ITEM \<longrightarrow> items_run st vs rest)"

definition members_ok :: "(nat list \<times> json) list \<Rightarrow> u8 list \<Rightarrow> bool" where
  "members_ok ms t \<longleftrightarrow> (\<forall>st rest. drop (jpos st) (jtext st) = t @ 0x7d # rest \<longrightarrow> 0 \<in> set rest \<longrightarrow>
     room (msize ms + 1) st \<longrightarrow> in_context JSTR_OBJECT st \<longrightarrow> jcs st = OBJECT_KEY \<longrightarrow> members_run st ms rest)"

lemma value_okD:
  assumes "value_ok v t" and "drop (jpos st) (jtext st) = w @ t @ b @ c # rest" and "white w" and "white b"
    and "c \<in> {0, 0x2c, 0x5d, 0x7d}" and "0 \<in> set (c # rest)" and "room (jsize v + 1) st" and "context_ok st"
  shows "value_run st v (b @ c # rest)"
proof -
  obtain d r where d: "b @ c # rest = d # r" "ends d" using ends_list [OF assms(4,5)] by blast
  moreover have "0 \<in> set (d # r)" using assms(6) d(1) by (metis UnI2 set_append)
  ultimately show ?thesis using assms(1,2,3,7,8) unfolding value_ok_def by metis
qed

lemma items_ok_one:
  assumes "white a" and "value_ok v t" and "white b"
  shows "items_ok [v] (a @ t @ b)"
  unfolding items_ok_def
proof (intro allI impI)
  fix st rest
  assume st: "drop (jpos st) (jtext st) = (a @ t @ b) @ 0x5d # rest" "0 \<in> set rest" "room (isize [v] + 1) st"
    "in_context JSTR_ARRAY st" "jcs st = ARRAY_ITEM"
  have "value_run st v (b @ 0x5d # rest)"
    using value_okD [OF assms(2) _ assms(1,3)] st in_context_ok(1) by simp
  then show "items_run st [v] rest" using assms(3) st(5) by (rule items_last)
qed

lemma items_ok_more:
  assumes "white a" and "value_ok v t" and "white b" and "items_ok vs u" and "elements_text vs u"
  shows "items_ok (v # vs) (a @ t @ b @ 0x2c # u)"
  unfolding items_ok_def
proof (intro allI impI)
  fix st rest
  assume st: "drop (jpos st) (jtext st) = (a @ t @ b @ 0x2c # u) @ 0x5d # rest" "0 \<in> set rest"
    "room (isize (v # vs) + 1) st" "in_context JSTR_ARRAY st" "jcs st = ARRAY_ITEM"
  have "value_run st v (b @ 0x2c # u @ 0x5d # rest)"
    using value_okD [OF assms(2) _ assms(1,3)] st in_context_ok(1) by simp
  then show "items_run st (v # vs) rest" using assms(3) st(5)
  proof (rule items_next)
    fix st1 assume after: "after st (jsize v) st1 (u @ 0x5d # rest)" and "jcs st1 = ARRAY_ITEM"
    then show "items_run st1 vs rest"
      using assms(4) st(2,3) in_context_after [OF st(4) after] unfolding items_ok_def after_def by simp
  qed
qed

lemma members_ok_one:
  assumes "white a" and "string_text k s" and "white b" and "white c" and "value_ok v t" and "white e"
  shows "members_ok [(k, v)] (a @ quoted s @ b @ 0x3a # c @ t @ e)"
  unfolding members_ok_def
proof (intro allI impI)
  fix st rest
  assume st: "drop (jpos st) (jtext st) = (a @ quoted s @ b @ 0x3a # c @ t @ e) @ 0x7d # rest" "0 \<in> set rest"
    "room (msize [(k, v)] + 1) st" "in_context JSTR_OBJECT st" "jcs st = OBJECT_KEY"
  show "members_run st [(k, v)] rest"
  proof (rule members_last [OF _ assms(1,2,3) _ _ st(5) _ assms(6)])
    show "drop (jpos st) (jtext st) = a @ quoted s @ b @ 0x3a # c @ t @ e @ 0x7d # rest" using st(1) by simp
    fix st1 assume after: "after st 1 st1 (c @ t @ e @ 0x7d # rest)" and "jcs st1 = OBJECT_VALUE"
    then show "value_run st1 v (e @ 0x7d # rest)"
      using value_okD [OF assms(5) _ assms(4,6)] st(2,3) in_context_ok(2) [OF in_context_after [OF st(4) after]]
      unfolding after_def by simp
  qed (use st(2,3) in simp_all)
qed

lemma members_ok_more:
  assumes "white a" and "string_text k s" and "white b" and "white c" and "value_ok v t" and "white e"
    and "members_ok ms u"
  shows "members_ok ((k, v) # ms) (a @ quoted s @ b @ 0x3a # c @ t @ e @ 0x2c # u)"
  unfolding members_ok_def
proof (intro allI impI)
  fix st rest
  assume st: "drop (jpos st) (jtext st) = (a @ quoted s @ b @ 0x3a # c @ t @ e @ 0x2c # u) @ 0x7d # rest"
    "0 \<in> set rest" "room (msize ((k, v) # ms) + 1) st" "in_context JSTR_OBJECT st" "jcs st = OBJECT_KEY"
  show "members_run st ((k, v) # ms) rest"
  proof (rule members_next [OF _ assms(1,2,3) _ _ st(5) _ assms(6)])
    show "drop (jpos st) (jtext st) = a @ quoted s @ b @ 0x3a # c @ t @ e @ 0x2c # u @ 0x7d # rest"
      using st(1) by simp
    show "value_run st1 v (e @ 0x2c # u @ 0x7d # rest)"
      if after: "after st 1 st1 (c @ t @ e @ 0x2c # u @ 0x7d # rest)" and "jcs st1 = OBJECT_VALUE" for st1
      using value_okD [OF assms(5) _ assms(4,6)] st(2,3) in_context_ok(2) [OF in_context_after [OF st(4) after]] that
      unfolding after_def by simp
    show "members_run st1 ms rest"
      if after: "after st (1 + jsize v) st1 (u @ 0x7d # rest)" and "jcs st1 = OBJECT_KEY" for st1
      using assms(7) st(2,3) in_context_after [OF st(4) after] that unfolding members_ok_def after_def by simp
  qed (use st(2,3) in simp_all)
qed


lemma array_ok:
  assumes "elements_text vs e" and "items_ok vs e"
  shows "value_ok (JArray vs) (0x5b # e @ [0x5d])"
  unfolding value_ok_def
proof (intro allI impI)
  fix st w d rest
  assume st: "drop (jpos st) (jtext st) = w @ (0x5b # e @ [0x5d]) @ d # rest" "white w" "ends d"
    "0 \<in> set (d # rest)" "room (jsize (JArray vs) + 1) st" "context_ok st"
  have "0 < isize vs" using assms(1) by (cases rule: elements_text.cases) (simp_all add: jsize_pos)
  then have room: "room 3 st" "room 2 st" "room 1 st" using st(5) by simp_all
  let ?st = "open_state JSTR_ARRAY ARRAY_ITEM (jpos st + length w + 1) st"
  have "drop (jpos ?st) (jtext ?st) = e @ 0x5d # d # rest"
    using drop_past [of "jpos st" "jtext st" "w @ [0x5b]"] st(1) by simp
  then have "items_run ?st vs (d # rest)"
    using assms(2) st(4,5) open_in_context [OF room(3)] unfolding items_ok_def by simp
  then show "value_run st (JArray vs) (d # rest)"
    using st(1) by (intro array_run [OF _ st(2) assms(1) room(2) st(6) _ room(1)]) simp_all
qed

lemma object_ok:
  assumes "members_text ms e" and "members_ok ms e"
  shows "value_ok (JObject ms) (0x7b # e @ [0x7d])"
  unfolding value_ok_def
proof (intro allI impI)
  fix st w d rest
  assume st: "drop (jpos st) (jtext st) = w @ (0x7b # e @ [0x7d]) @ d # rest" "white w" "ends d"
    "0 \<in> set (d # rest)" "room (jsize (JObject ms) + 1) st" "context_ok st"
  have room: "room 2 st" "room 1 st" using st(5) by simp_all
  let ?st = "open_state JSTR_OBJECT OBJECT_KEY (jpos st + length w + 1) st"
  have "drop (jpos ?st) (jtext ?st) = e @ 0x7d # d # rest"
    using drop_past [of "jpos st" "jtext st" "w @ [0x7b]"] st(1) by simp
  then have "members_run ?st ms (d # rest)"
    using assms(2) st(4,5) open_in_context [OF room(2)] unfolding members_ok_def by simp
  then show "value_run st (JObject ms) (d # rest)"
    using st(1) by (intro object_run [OF _ st(2) assms(1) room(1) st(6)]) simp_all
qed

lemma empty_ok:
  assumes "white a"
  shows "value_ok (JArray []) (0x5b # a @ [0x5d])" and "value_ok (JObject []) (0x7b # a @ [0x7d])"
proof -
  have w: "\<not> WS 0x5b" "\<not> WS 0x5d" "\<not> WS 0x7b" "\<not> WS 0x7d" by (simp_all add: WS_iff)
  show "value_ok (JArray []) (0x5b # a @ [0x5d])" unfolding value_ok_def
  proof (intro allI impI)
    fix st w d rest
    assume "drop (jpos st) (jtext st) = w @ (0x5b # a @ [0x5d]) @ d # rest" "white w"
      "room (jsize (JArray []) + 1) st" "context_ok st"
    then show "value_run st (JArray []) (d # rest)"
      by (intro empty_run [where c = "0x5b" and close = "0x5d" and type = JSTR_ARRAY and state = ARRAY_ITEM
          and l = PARSE_GENERIC, OF _ _ w(1) assms w(2)]) (simp_all add: parse_value_def)
  qed
  show "value_ok (JObject []) (0x7b # a @ [0x7d])" unfolding value_ok_def
  proof (intro allI impI)
    fix st w d rest
    assume "drop (jpos st) (jtext st) = w @ (0x7b # a @ [0x7d]) @ d # rest" "white w"
      "room (jsize (JObject []) + 1) st" "context_ok st"
    then show "value_run st (JObject []) (d # rest)"
      by (intro empty_run [where c = "0x7b" and close = "0x7d" and type = JSTR_OBJECT and state = OBJECT_KEY
          and l = PARSE_OBJECT_KEY, OF _ _ w(3) assms w(4)]) (simp_all add: parse_value_def)
  qed
qed

lemma keyword_ok:
  "value_ok JTrue (keyword JSTR_TRUE)" "value_ok JFalse (keyword JSTR_FALSE)" "value_ok JNull (keyword JSTR_NULL)"
  unfolding value_ok_def by (auto intro!: keyword_run)

lemma json_ok:
  "json_text v t \<Longrightarrow> value_ok v t"
  "elements_text vs t \<Longrightarrow> items_ok vs t"
  "members_text ms t \<Longrightarrow> members_ok ms t"
proof (induction v t and vs t and ms t rule: json_text_elements_text_members_text.inducts)
  case (json_number t)
  then show ?case unfolding value_ok_def by (auto intro!: number_run)
next
  case (json_string cps t)
  then show ?case unfolding value_ok_def by (auto intro!: string_value_run)
qed (use keyword_ok in \<open>auto simp: keyword_def intro: array_ok object_ok empty_ok items_ok_one items_ok_more
    members_ok_one members_ok_more\<close>)

end
