(* ===== verification/Jstr_Parser.thy ===== *)
theory Jstr_Parser
  imports Jstr_Complete
begin

text \<open>
  What \<open>jstr_parse\<close> promises to its callers: it accepts the JSON texts and builds their tokens, it
  stays within its two arrays on every input, and parsing that ran out of tokens is resumed with
  a larger array as if the array had been large from the start.
\<close>

section \<open>Texts without null bytes\<close>

lemma string_no_nul: "string_text cps t \<Longrightarrow> 0 \<notin> set t"
  by (induction rule: string_text.induct) (auto dest: item_no_nul)

text \<open>The characters of a JSON string.\<close>

definition text_of :: "nat list \<Rightarrow> bool" where
  "text_of cps \<longleftrightarrow> (\<forall>cp \<in> set cps. scalar cp \<and> cp \<noteq> 0)"

lemma hex_value_bound: "hex_value c = Some w \<Longrightarrow> w < 16"
  by (auto simp: hex_value_def word_le_nat_alt split: if_splits)

lemma unit_text_bound:
  assumes "unit_text h t"
  shows "h < 0x10000"
proof -
  obtain w x y z where h: "h = ((w * 16 + x) * 16 + y) * 16 + z" "w < 16" "x < 16" "y < 16" "z < 16"
    using assms hex_value_bound by (fastforce simp: unit_text_def)
  then have "w \<le> 15" "x \<le> 15" "y \<le> 15" "z \<le> 15" by simp_all
  then show ?thesis unfolding h(1) by (simp add: algebra_simps)
qed

lemma string_item_scalar: "string_item cp u t \<Longrightarrow> scalar cp \<and> cp \<noteq> 0"
proof (induction rule: string_item.induct)
  case (item_unit h u rest)
  then show ?case using unit_text_bound [of h u] by (simp add: scalar_def)
next
  case (item_pair h u l u' rest)
  then have "(h - 0xd800) * 0x400 \<le> 0x3ff * 0x400" by (intro mult_right_mono) auto
  then show ?case using item_pair by (auto simp: scalar_def surrogate_def)
qed (auto simp: short_escapes_def scalar_def surrogate_def)

lemma string_text_scalar: "string_text cps t \<Longrightarrow> text_of cps"
  by (induction rule: string_text.induct) (auto simp: text_of_def dest: string_item_scalar)

lemma digits_no_nul: "digits t \<Longrightarrow> 0 \<notin> set t"
  by (auto simp: digits_def)

lemma number_no_nul: "number_text t \<Longrightarrow> 0 \<notin> set t"
proof -
  have "frac_text t \<Longrightarrow> 0 \<notin> set t" for t by (cases t) (auto simp: frac_text_def dest: digits_no_nul)
  moreover have "exp_text t \<Longrightarrow> 0 \<notin> set t" for t by (auto simp: exp_text_def dest: digits_no_nul)
  moreover assume "number_text t"
  ultimately show ?thesis by (auto simp: number_text_parts int_text_def dest: digits_no_nul)
qed

lemma white_no_nul: "white w \<Longrightarrow> 0 \<notin> set w"
  by (auto simp: white_def)

lemma json_no_nul:
  "json_text v t \<Longrightarrow> 0 \<notin> set t" "elements_text vs t \<Longrightarrow> 0 \<notin> set t" "members_text ms t \<Longrightarrow> 0 \<notin> set t"
  by (induction v t and vs t and ms t rule: json_text_elements_text_members_text.inducts)
     (auto simp: quoted_def dest: string_no_nul number_no_nul white_no_nul)

lemma document_no_nul: "json_document v s \<Longrightarrow> 0 \<notin> set s"
  by (auto simp: json_document_def dest: json_no_nul white_no_nul)

text \<open>A value has no more tokens than characters.\<close>

lemma json_size:
  "json_text v t \<Longrightarrow> jsize v \<le> length t" "elements_text vs t \<Longrightarrow> isize vs \<le> length t"
  "members_text ms t \<Longrightarrow> msize ms \<le> length t"
  by (induction v t and vs t and ms t rule: json_text_elements_text_members_text.inducts)
     (auto simp: quoted_def dest!: number_head)

section \<open>The parser object\<close>

definition parser_state :: "jstr_parser_t \<Rightarrow> u8 list \<Rightarrow> tokens \<Rightarrow> parse_state \<Rightarrow> jstr_state" where
  "parser_state parser str token c = \<lparr>jtext = str, jtokens = token, jpos = parse_pos parser,
     token_cur = cur_offset parser, token_parent = parent_offset parser, jcs = c\<rparr>"

definition state_parser :: "jstr_state \<Rightarrow> jstr_parser_t" where
  "state_parser st = \<lparr>parse_pos = jpos st, cur_offset = token_cur st, parent_offset = token_parent st\<rparr>"

text \<open>The parser can go on with the text \<open>s\<close>, of which a part has been read.\<close>

definition parser_inv :: "u8 list \<Rightarrow> jstr_parser_t \<Rightarrow> u8 list \<Rightarrow> tokens \<Rightarrow> bool" where
  "parser_inv s parser str token \<longleftrightarrow>
     (\<exists>c. invariant s PARSE_GENERIC (parser_state parser str token c))"

lemma invariant_state:
  assumes "invariant s PARSE_GENERIC st"
  shows "(if token_parent st = token_cur st then Some TOP
    else Option.bind (jstr_type (jtokens st) (token_parent st)) cs_of_type) = Some (jcs st)"
proof -
  obtain stk where stk: "base stk st" "jcs st = value_state stk" "stk = [] \<longrightarrow> token_cur st = 0"
    using assms by (auto simp: invariant_def at_label_def at_value_def)
  show ?thesis
  proof (cases "stk = []")
    case True
    then show ?thesis using stk by (simp add: base_def top_of_def value_state_def)
  next
    case False
    then have "token_parent st < token_cur st" using stk(1) by (cases stk) (auto simp: base_def top_of_def)
    then show ?thesis using stk False links_type by (auto simp: base_def)
  qed
qed

lemma jstr_parse_run:
  assumes "invariant s PARSE_GENERIC (parser_state parser str token c)"
  shows "jstr_parse parser str token =
    do { (rc, st) \<leftarrow> jstr_run PARSE_GENERIC (parser_state parser str token c);
         Some (rc, if rc = JSTR_NOMEM then state_parser st else parser, jtext st, jtokens st) }"
proof -
  have "(if parent_offset parser = cur_offset parser then Some TOP
      else Option.bind (jstr_type token (parent_offset parser)) cs_of_type) = Some c"
    using invariant_state [OF assms] unfolding parser_state_def jstr_state.simps .
  then show ?thesis unfolding jstr_parse_def parser_state_def state_parser_def by (simp only: bind.bind_lunit)
qed

lemma parser_inv_init: "0 \<in> set s \<Longrightarrow> parser_inv s jstr_init s ts"
proof -
  assume "0 \<in> set s"
  then have "invariant s PARSE_GENERIC (parser_state jstr_init s ts TOP)"
    unfolding invariant_def at_label_def at_value_def reads_def base_def parser_state_def jstr_init_def
    by (intro exI [of _ "[]"]) (simp add: top_of_def value_state_def)
  then show ?thesis unfolding parser_inv_def by blast
qed

section \<open>A larger token array\<close>

definition grow :: "tokens \<Rightarrow> jstr_state \<Rightarrow> jstr_state" where
  "grow ex st = st\<lparr>jtokens := jtokens st @ ex\<rparr>"

lemma grow_simps [simp]:
  "jtext (grow ex st) = jtext st" "jpos (grow ex st) = jpos st" "token_cur (grow ex st) = token_cur st"
  "token_parent (grow ex st) = token_parent st" "jcs (grow ex st) = jcs st" "jtokens (grow ex st) = jtokens st @ ex"
  "grow ex (st\<lparr>jtext := t\<rparr>) = (grow ex st)\<lparr>jtext := t\<rparr>" "grow ex (st\<lparr>jpos := p\<rparr>) = (grow ex st)\<lparr>jpos := p\<rparr>"
  "grow ex (st\<lparr>jcs := c\<rparr>) = (grow ex st)\<lparr>jcs := c\<rparr>"
  "grow ex (st\<lparr>token_parent := p\<rparr>) = (grow ex st)\<lparr>token_parent := p\<rparr>"
  by (simp_all add: grow_def)

fun grow_jump :: "tokens \<Rightarrow> jump \<Rightarrow> jump" where
  "grow_jump ex (Goto l st) = Goto l (grow ex st)"
| "grow_jump ex (Return rc st) = Return rc (grow ex st)"

lemma read_token_grow: "read_token ts i = Some t \<Longrightarrow> read_token (ts @ ex) i = Some t"
  by (auto simp: read_token_def nth_append elim!: bind_SomeE)

lemma token_init_grow: "token_init ts i type v = Some ts' \<Longrightarrow> token_init (ts @ ex) i type v = Some (ts' @ ex)"
  by (auto simp: token_init_def list_update_append)

lemma push_token_grow:
  assumes "push_token type v st = Some st'"
  shows "push_token type v (grow ex st) = Some (grow ex st')"
proof -
  obtain ts where ts: "token_init (jtokens st) (token_cur st) type v = Some ts"
    "st' = st\<lparr>jtokens := ts, token_cur := token_cur st + 1\<rparr>"
    using assms by (auto simp: push_token_def elim!: bind_SomeE)
  then show ?thesis using token_init_grow [OF ts(1)] by (simp add: push_token_def grow_def)
qed

lemma jstr_type_grow: "jstr_type ts i = Some t \<Longrightarrow> jstr_type (ts @ ex) i = Some t"
  by (auto simp: jstr_type_def intro: read_token_grow)

lemma open_context_grow:
  assumes "open_context type state close l st = Some j"
  shows "open_context type state close l (grow ex st) = Some (grow_jump ex j)"
proof -
  obtain st' p c where st': "push_token type (token_cur st - token_parent st) st = Some st'"
    and p: "skip_while WS (jtext st) (jpos st + 1) = Some p" "read_at (jtext st) p = Some c"
    using assms by (auto simp only: open_context_def elim!: bind_SomeE)
  then show ?thesis
    using assms push_token_grow [OF st', of ex] by (auto simp: open_context_def Let_def)
qed

lemma push_goto_grow:
  assumes "map_option (Goto l) (push_token type v st) = Some j"
  shows "map_option (Goto l) (push_token type v (grow ex st)) = Some (grow_jump ex j)"
proof -
  obtain st' where "push_token type v st = Some st'" "j = Goto l st'" using assms by auto
  then show ?thesis using push_token_grow [of type v st st' ex] by simp
qed

lemma number_grow:
  assumes "do { st' \<leftarrow> push_token JSTR_NUMBER p st; r \<leftarrow> x;
      Some (case r of None \<Rightarrow> Return JSTR_INVAL st' | Some p' \<Rightarrow> Goto COMMIT_TOKEN (st'\<lparr>jpos := p'\<rparr>)) } = Some j"
  shows "do { st' \<leftarrow> push_token JSTR_NUMBER p (grow ex st); r \<leftarrow> x;
      Some (case r of None \<Rightarrow> Return JSTR_INVAL st' | Some p' \<Rightarrow> Goto COMMIT_TOKEN (st'\<lparr>jpos := p'\<rparr>)) } =
    Some (grow_jump ex j)"
proof -
  obtain st' r where "push_token JSTR_NUMBER p st = Some st'" "x = Some r"
    using assms by (auto elim!: bind_SomeE)
  then show ?thesis using assms push_token_grow [of JSTR_NUMBER p st st' ex] by (auto split: option.splits)
qed

lemma parse_value_grow:
  assumes "parse_value c st = Some j"
  shows "parse_value c (grow ex st) = Some (grow_jump ex j)"
proof -
  have "Some (Goto l st) = Some j \<Longrightarrow> Some (Goto l (grow ex st)) = Some (grow_jump ex j)"
    "Some (Return rc st) = Some j \<Longrightarrow> Some (Return rc (grow ex st)) = Some (grow_jump ex j)" for l rc by auto
  then show ?thesis
    using assms open_context_grow [of _ _ _ _ st j ex] push_goto_grow [of _ _ _ st j ex] number_grow [of _ st _ j ex]
    unfolding parse_value_def grow_simps by presburger
qed

lemma commit_switch_grow: "commit_switch c (grow ex st) = grow_jump ex (commit_switch c st)"
  by (cases "jcs st") (simp_all add: commit_switch_def)

lemma pop_context_grow:
  assumes "pop_context st = Some j"
  shows "pop_context (grow ex st) = Some (grow_jump ex j)"
proof -
  obtain t ts state where t: "read_token (jtokens st) (token_parent st) = Some t" "token_value t \<le> token_parent st"
    and ts: "token_init (jtokens st) (token_parent st) (token_type t) (token_cur st - token_parent st) = Some ts"
    and state: "(if token_parent st = token_parent st - token_value t then Some TOP
      else Option.bind (jstr_type ts (token_parent st - token_value t)) cs_of_type) = Some state"
    and j: "j = Goto COMMIT_TOKEN (st\<lparr>jtokens := ts, token_parent := token_parent st - token_value t, jcs := state\<rparr>)"
    using assms unfolding pop_context_def
    by (elim bind_SomeE) (simp_all only: option.inject option.distinct split: if_splits)
  have "(if token_parent st = token_parent st - token_value t then Some TOP
      else Option.bind (jstr_type (ts @ ex) (token_parent st - token_value t)) cs_of_type) = Some state"
    using state jstr_type_grow [of ts _ _ ex] by (auto split: if_splits elim!: bind_SomeE)
  then show ?thesis
    unfolding pop_context_def grow_simps read_token_grow [OF t(1)] bind.bind_lunit if_P [OF t(2)]
      token_init_grow [OF ts] j by (simp add: grow_def)
qed

lemma jstr_step_nomem: "jstr_step l st = Some (Return JSTR_NOMEM st') \<Longrightarrow> l = PARSE_GENERIC \<and> st' = st"
  by (cases l) (auto simp: jstr_step_def parse_generic_def parse_value_def open_context_def Let_def parse_string_def
      parse_true_false_or_null_def parse_object_key_def commit_token_def commit_switch_def pop_context_def
      split: if_splits option.splits parse_state.splits elim!: bind_SomeE)

lemma parse_generic_grow:
  assumes "parse_generic st = Some j" and "j \<noteq> Return JSTR_NOMEM st"
  shows "parse_generic (grow ex st) = Some (grow_jump ex j)"
proof -
  have room: "\<not> int (length (jtokens st)) - int (token_cur st) < 2"
    using assms by (auto simp: parse_generic_def)
  obtain p c where p: "skip_while WS (jtext st) (jpos st) = Some p" "read_at (jtext st) p = Some c"
    using assms(1) room by (auto simp only: parse_generic_def if_False elim!: bind_SomeE)
  then have "parse_value c (st\<lparr>jpos := p\<rparr>) = Some j"
    using assms(1) room by (simp add: parse_generic_def)
  from parse_value_grow [OF this, of ex] show ?thesis using p room by (simp add: parse_generic_def)
qed

lemma parse_string_grow:
  assumes "parse_string st = Some j"
  shows "parse_string (grow ex st) = Some (grow_jump ex j)"
proof -
  obtain st' r where "push_token JSTR_STRING (jpos st + 1) st = Some st'"
    "string_loop (jtext st) (jpos st + 1) (jpos st + 1) = Some r"
    using assms by (auto simp: parse_string_def elim!: bind_SomeE)
  then show ?thesis
    using assms push_token_grow [of JSTR_STRING "jpos st + 1" st st' ex]
    by (auto simp: parse_string_def split: option.splits)
qed

lemma parse_keyword_grow:
  assumes "parse_true_false_or_null st = Some j"
  shows "parse_true_false_or_null (grow ex st) = Some (grow_jump ex j)"
proof -
  obtain p v t k where "keyword_loop (jtext st) (jpos st) 31 = Some (p, v)"
    "jstr_type (jtokens st) (token_cur st - 1) = Some t" "read_at kw (type_code t div 2 ^ 5) = Some k"
    using assms by (auto simp only: parse_true_false_or_null_def elim!: bind_SomeE split: prod.splits)
  then show ?thesis
    using assms jstr_type_grow [of "jtokens st" "token_cur st - 1" t ex] by (auto simp: parse_true_false_or_null_def)
qed

lemma jstr_step_grow:
  assumes "jstr_step l st = Some j" and "j \<noteq> Return JSTR_NOMEM st"
  shows "jstr_step l (grow ex st) = Some (grow_jump ex j)"
proof (cases l)
  case PARSE_OBJECT_KEY
  then show ?thesis using assms by (auto simp: jstr_step_def parse_object_key_def elim!: bind_SomeE)
next
  case COMMIT_TOKEN
  then show ?thesis
    using assms by (auto simp: jstr_step_def commit_token_def commit_switch_grow [symmetric] elim!: bind_SomeE)
qed (use assms parse_generic_grow parse_string_grow parse_keyword_grow pop_context_grow in \<open>simp_all add: jstr_step_def\<close>)

lemma jstr_run_grow:
  assumes "jstr_run l st = Some (rc, st')"
  shows "jstr_run l (grow ex st) =
    (if rc = JSTR_NOMEM then jstr_run PARSE_GENERIC (grow ex st') else Some (rc, grow ex st'))"
  using assms
proof (induction l st rule: jstr_run.induct)
  case (1 l st)
  obtain j where j: "jstr_step l st = Some j" using 1(2) by (subst (asm) jstr_run.simps) (auto elim!: bind_SomeE)
  show ?case
  proof (cases j)
    case (Goto l1 st1)
    then have "jstr_run l1 st1 = Some (rc, st')" using 1(2) j by (subst (asm) jstr_run.simps) simp
    then show ?thesis using 1(1) [OF j Goto] jstr_step_grow [OF j, of ex] Goto by (subst jstr_run.simps) simp
  next
    case (Return rc1 st1)
    then have r: "rc1 = rc" "st1 = st'" using 1(2) j by (subst (asm) jstr_run.simps; simp)+
    show ?thesis
    proof (cases "rc = JSTR_NOMEM")
      case True
      then show ?thesis using jstr_step_nomem [of l st st1] j Return r by simp
    next
      case False
      then show ?thesis using jstr_step_grow [OF j, of ex] Return r by (subst jstr_run.simps) simp
    qed
  qed
qed

lemma links_grow: "links ts n stk \<Longrightarrow> links (ts @ ex) n stk"
  by (induction ts n stk rule: links.induct) (auto intro: read_token_grow)

lemma invariant_grow: "invariant s PARSE_GENERIC st \<Longrightarrow> invariant s PARSE_GENERIC (grow ex st)"
  unfolding invariant_def at_label_def at_value_def reads_def base_def by (auto intro: links_grow)

lemma state_parser_state: "parser_state (state_parser st) (jtext st) (jtokens st) (jcs st) = st"
  by (simp add: parser_state_def state_parser_def)

lemma parser_state_grow: "grow ex (parser_state p str ts c) = parser_state p str (ts @ ex) c"
  by (simp add: grow_def parser_state_def)

lemma invariant_bound:
  "invariant (s @ [0]) PARSE_GENERIC st \<Longrightarrow> token_cur st \<le> length s"
  by (auto simp: invariant_def at_label_def reads_def dest!: length_pos_if_in_set)

lemma nul_at: "0 \<notin> set s \<Longrightarrow> read_at (s @ [0]) n = Some 0 \<longleftrightarrow> n = length s" for s :: "u8 list"
  by (auto simp: nth_append less_Suc_eq) (metis nth_mem)

lemma document_run:
  assumes "json_document v s" and "jsize v + 1 \<le> length ts"
  obtains st1 where "jstr_run PARSE_GENERIC (parser_state jstr_init (s @ [0]) ts TOP) = Some (int (jpos st1) - 1, st1)"
    and "describes (jtext st1) (jpos st1) (jtokens st1) 0 v" and "0 < jpos st1"
proof -
  let ?st = "parser_state jstr_init (s @ [0]) ts TOP"
  obtain a t b where s: "s = a @ t @ b" "white a" "json_text v t" "white b"
    using assms(1) by (auto simp: json_document_def)
  have "context_ok ?st" by (simp add: context_ok_def parser_state_def jstr_init_def)
  then have "value_run ?st v (b @ 0 # [])"
    using s assms(2)
    by (intro value_okD [OF json_ok(1) [OF s(3)]]) (simp_all add: parser_state_def jstr_init_def)
  then obtain st1 where st1: "goes PARSE_GENERIC ?st (commit_switch 0 st1)" "after ?st (jsize v) st1 []"
    "jcs st1 = jcs ?st" "describes (jtext st1) (jpos st1) (jtokens st1) (token_cur ?st) v"
    by (rule value_commit [OF _ s(4) not_WS_0])
  have "length (jtext st1) = length s + 1" "drop (jpos st1) (jtext st1) = []"
    using st1(2) by (simp_all add: after_def parser_state_def)
  then have "0 < jpos st1" by (cases "jpos st1") auto
  then show thesis
    using that st1 by (simp add: goes_def commit_switch_def parser_state_def jstr_init_def)
qed

fun jump_state :: "jump \<Rightarrow> jstr_state" where
  "jump_state (Goto l st) = st"
| "jump_state (Return rc st) = st"

lemma jstr_step_length:
  "jstr_step l st = Some j \<Longrightarrow> length (jtokens (jump_state j)) = length (jtokens st)"
  by (cases l) (auto simp: jstr_step_def parse_generic_def parse_value_def open_context_def Let_def parse_string_def
      parse_true_false_or_null_def parse_object_key_def commit_token_def commit_switch_def pop_context_def
      token_init_def split: if_splits option.splits parse_state.splits elim!: bind_SomeE dest!: push_token_simps)

lemma jstr_run_length: "jstr_run l st = Some (rc, st') \<Longrightarrow> length (jtokens st') = length (jtokens st)"
proof (induction l st rule: jstr_run.induct)
  case (1 l st)
  obtain j where j: "jstr_step l st = Some j" using 1(2) by (subst (asm) jstr_run.simps) (auto elim!: bind_SomeE)
  then show ?case
    using 1 jstr_step_length [OF j] by (subst (asm) (2) jstr_run.simps) (cases j; auto)
qed

lemma document_parse:
  assumes "json_document v s" and "jsize v + 1 \<le> length ts"
  shows "\<exists>str ts'. jstr_parse jstr_init (s @ [0]) ts = Some (int (length s), jstr_init, str, ts') \<and>
    describes str (length s + 1) ts' 0 v"
proof -
  let ?st = "parser_state jstr_init (s @ [0]) ts TOP"
  have inv: "invariant (s @ [0]) PARSE_GENERIC ?st"
    using invariant_state parser_inv_init [of "s @ [0]" ts] unfolding parser_inv_def
    by (fastforce simp: parser_state_def jstr_init_def)
  obtain rc st' where run: "jstr_run PARSE_GENERIC ?st = Some (rc, st')" and verdict: "verdict (s @ [0]) rc st'"
    using jstr_run_verdict [OF inv] by blast
  from document_run [OF assms] obtain st1 where st1: "rc = int (jpos st1) - 1" "st' = st1" "0 < jpos st1"
    "describes (jtext st1) (jpos st1) (jtokens st1) 0 v"
    using run by (metis option.inject prod.inject)
  then have rc: "rc = int (length s)"
    using verdict nul_at [OF document_no_nul [OF assms(1)]] by (auto simp: verdict_def)
  moreover from this have "jpos st1 = length s + 1" using st1(1,3) by linarith
  ultimately show ?thesis using st1 jstr_parse_run [OF inv] run by auto
qed

lemma jstr_parse_outcome:
  assumes "0 \<notin> set s" and "length s + 2 \<le> length ts"
  shows "\<exists>rc str ts'. jstr_parse jstr_init (s @ [0]) ts = Some (rc, jstr_init, str, ts') \<and>
    (if \<exists>v. json_document v s
     then rc = int (length s) \<and> (\<forall>v. json_document v s \<longrightarrow> describes str (length s + 1) ts' 0 v)
     else rc = JSTR_INVAL)"
proof -
  let ?st = "parser_state jstr_init (s @ [0]) ts TOP"
  have inv: "invariant (s @ [0]) PARSE_GENERIC ?st"
    using invariant_state parser_inv_init [of "s @ [0]" ts] unfolding parser_inv_def
    by (fastforce simp: parser_state_def jstr_init_def)
  obtain rc st' where run: "jstr_run PARSE_GENERIC ?st = Some (rc, st')" and verdict: "verdict (s @ [0]) rc st'"
    using jstr_run_verdict [OF inv] by blast
  have parse: "jstr_parse jstr_init (s @ [0]) ts =
      Some (rc, if rc = JSTR_NOMEM then state_parser st' else jstr_init, jtext st', jtokens st')"
    using jstr_parse_run [OF inv] run by simp
  have nomem: "rc \<noteq> JSTR_NOMEM"
    using verdict invariant_bound jstr_run_length [OF run] assms(2) by (fastforce simp: verdict_def parser_state_def)
  show ?thesis
  proof (cases "\<exists>v. json_document v s")
    case False
    then have "rc = JSTR_INVAL"
      using verdict nomem nul_at [OF assms(1)] by (auto simp: verdict_def)
    then show ?thesis using parse False by simp
  next
    case True
    have "rc = int (length s) \<and> describes (jtext st') (length s + 1) (jtokens st') 0 v" if "json_document v s" for v
    proof -
      have "jsize v + 1 \<le> length ts" using that json_size(1) assms(2) by (fastforce simp: json_document_def)
      from document_parse [OF that this] show ?thesis using parse by auto
    qed
    then show ?thesis using parse True nomem by auto
  qed
qed

lemma jstr_parse_total:
  assumes "parser_inv s parser str ts"
  shows "\<exists>rc parser' str' ts'. jstr_parse parser str ts = Some (rc, parser', str', ts') \<and> length ts' = length ts \<and>
       (rc = JSTR_INVAL
      \<or> rc = JSTR_NOMEM \<and> length ts < cur_offset parser' + 2 \<and> (\<forall>ex. parser_inv s parser' str' (ts' @ ex))
      \<or> (\<exists>n v. rc = int n \<and> json_document v (take n s) \<and> 0 \<notin> set (take n s) \<and> read_at s n = Some 0))"
proof -
  obtain c where inv: "invariant s PARSE_GENERIC (parser_state parser str ts c)"
    using assms unfolding parser_inv_def by blast
  obtain rc st where run: "jstr_run PARSE_GENERIC (parser_state parser str ts c) = Some (rc, st)"
    and verdict: "verdict s rc st" using jstr_run_verdict [OF inv] by blast
  have len: "length (jtokens st) = length ts" using jstr_run_length [OF run] by (simp add: parser_state_def)
  have parse: "jstr_parse parser str ts =
      Some (rc, if rc = JSTR_NOMEM then state_parser st else parser, jtext st, jtokens st)"
    using jstr_parse_run [OF inv] run by simp
  have more: "parser_inv s (state_parser st) (jtext st) (jtokens st @ ex)" if "invariant s PARSE_GENERIC st" for ex
    using invariant_grow [OF that, of ex] unfolding parser_inv_def
    by (intro exI [of _ "jcs st"]) (simp add: state_parser_state flip: parser_state_grow)
  show "\<exists>rc parser' str' ts'. jstr_parse parser str ts = Some (rc, parser', str', ts') \<and> length ts' = length ts \<and>
       (rc = JSTR_INVAL
      \<or> rc = JSTR_NOMEM \<and> length ts < cur_offset parser' + 2 \<and> (\<forall>ex. parser_inv s parser' str' (ts' @ ex))
      \<or> (\<exists>n v. rc = int n \<and> json_document v (take n s) \<and> 0 \<notin> set (take n s) \<and> read_at s n = Some 0))"
    using verdict parse len more document_no_nul unfolding verdict_def
    by (elim disjE exE conjE) (auto simp: state_parser_def)
qed

lemma jstr_parse_resumed:
  assumes "parser_inv s parser str ts" and "jstr_parse parser str ts = Some (JSTR_NOMEM, parser', str', ts')"
  shows "map_option (\<lambda>(rc, p, x). (rc, if rc = JSTR_NOMEM then Some p else None, x)) (jstr_parse parser' str' (ts' @ ex)) =
    map_option (\<lambda>(rc, p, x). (rc, if rc = JSTR_NOMEM then Some p else None, x)) (jstr_parse parser str (ts @ ex))"
proof -
  obtain c where inv: "invariant s PARSE_GENERIC (parser_state parser str ts c)"
    using assms(1) unfolding parser_inv_def by blast
  obtain rc st where run: "jstr_run PARSE_GENERIC (parser_state parser str ts c) = Some (rc, st)"
    and verdict: "verdict s rc st" using jstr_run_verdict [OF inv] by blast
  have st: "rc = JSTR_NOMEM" "parser' = state_parser st" "str' = jtext st" "ts' = jtokens st"
    using assms(2) jstr_parse_run [OF inv] run by (auto split: if_splits)
  then have "invariant s PARSE_GENERIC st" using verdict by (auto simp: verdict_def)
  from invariant_grow [OF this, of ex] have inv': "invariant s PARSE_GENERIC (parser_state parser' str' (ts' @ ex) (jcs st))"
    by (simp add: st state_parser_state flip: parser_state_grow)
  have "jstr_run PARSE_GENERIC (parser_state parser str (ts @ ex) c) =
      jstr_run PARSE_GENERIC (parser_state parser' str' (ts' @ ex) (jcs st))"
    using jstr_run_grow [OF run, of ex] st by (simp add: state_parser_state flip: parser_state_grow)
  then show ?thesis
    using jstr_parse_run [OF inv'] jstr_parse_run [of s parser str "ts @ ex" c] invariant_grow [OF inv, of ex]
    by (cases "jstr_run PARSE_GENERIC (parser_state parser' str' (ts' @ ex) (jcs st))")
       (auto simp: parser_state_grow)
qed

section \<open>Claims\<close>

text \<open>C5: Given two tokens more than the text has characters, the parser accepts exactly the JSON texts.
  It returns the length of the text, and the token array is the description of the value: for each
  array and object the number of its tokens, for each key, string and number a pointer to its
  characters, decoded and with a null byte at their end. Other texts give \<open>JSTR_INVAL\<close>.
\<close>

theorem jstr_parse_json:
  assumes "0 \<notin> set s" and "length s + 2 \<le> length ts"
  shows "\<exists>rc str ts'. jstr_parse jstr_init (s @ [0]) ts = Some (rc, jstr_init, str, ts') \<and>
    (if \<exists>v. json_document v s
     then rc = int (length s) \<and> (\<forall>v. json_document v s \<longrightarrow> describes str (length s + 1) ts' 0 v)
     else rc = JSTR_INVAL)"
  using assms by (rule jstr_parse_outcome)

theorem jstr_parse_json_witness:
  "\<exists>rc str ts'. jstr_parse jstr_init ([0x5b, 0x31, 0x5d] @ [0]) (replicate 5 None) = Some (rc, jstr_init, str, ts') \<and>
    (if \<exists>v. json_document v [0x5b, 0x31, 0x5d]
     then rc = int (length [0x5b, 0x31, 0x5d :: u8]) \<and>
       (\<forall>v. json_document v [0x5b, 0x31, 0x5d] \<longrightarrow> describes str (length [0x5b, 0x31, 0x5d :: u8] + 1) ts' 0 v)
     else rc = JSTR_INVAL)"
  by (rule jstr_parse_json) simp_all

text \<open>C6: On a text with a null byte the parser is safe and returns, whatever the text and however many
  tokens it is given: it reads and writes neither outside of the text nor of the token array, and
  reads no token it has not written. If it runs out of tokens, it can be called again with the same
  or a larger array. If it succeeds, it has stopped at the first null byte and the text before it is
  a JSON text.
\<close>

theorem jstr_parse_safe:
  "(\<forall>s ts. 0 \<in> set s \<longrightarrow> parser_inv s jstr_init s ts) \<and>
   (\<forall>s parser str ts. parser_inv s parser str ts \<longrightarrow>
     (\<exists>rc parser' str' ts'. jstr_parse parser str ts = Some (rc, parser', str', ts') \<and> length ts' = length ts \<and>
       (rc = JSTR_INVAL
      \<or> rc = JSTR_NOMEM \<and> length ts < cur_offset parser' + 2 \<and> (\<forall>ex. parser_inv s parser' str' (ts' @ ex))
      \<or> (\<exists>n v. rc = int n \<and> json_document v (take n s) \<and> 0 \<notin> set (take n s) \<and> read_at s n = Some 0))))"
  by (intro conjI allI impI) (rule parser_inv_init, assumption, rule jstr_parse_total, assumption)

theorem jstr_parse_safe_witness:
  "\<exists>rc parser' str' ts'. jstr_parse jstr_init [0x5b, 0x31, 0, 0x20] [None, None] = Some (rc, parser', str', ts') \<and>
     length ts' = 2"
proof -
  have "parser_inv [0x5b, 0x31, 0, 0x20] jstr_init [0x5b, 0x31, 0, 0x20] [None, None]"
    using jstr_parse_safe by simp
  then obtain rc parser' str' ts' where "jstr_parse jstr_init [0x5b, 0x31, 0, 0x20] [None, None] =
      Some (rc, parser', str', ts')" "length ts' = length [None, None :: jstr_token_t option]"
    using jstr_parse_safe by blast
  then show ?thesis by simp
qed

text \<open>C7: When the parser runs out of tokens, calling it again with the array enlarged gives the result of
  a call that had the larger array from the start: the same code, text and tokens, and the same
  parser object if the tokens run out again.
\<close>

theorem jstr_parse_resume:
  assumes "parser_inv s parser str ts" and "jstr_parse parser str ts = Some (JSTR_NOMEM, parser', str', ts')"
  shows "map_option (\<lambda>(rc, p, x). (rc, if rc = JSTR_NOMEM then Some p else None, x)) (jstr_parse parser' str' (ts' @ ex)) =
    map_option (\<lambda>(rc, p, x). (rc, if rc = JSTR_NOMEM then Some p else None, x)) (jstr_parse parser str (ts @ ex))"
  using assms by (rule jstr_parse_resumed)

theorem jstr_parse_resume_witness:
  "\<exists>parser' str' ts'. jstr_parse jstr_init [0x5b, 0x31, 0x5d, 0] [None, None] = Some (JSTR_NOMEM, parser', str', ts') \<and>
    map_option (\<lambda>(rc, p, x). (rc, if rc = JSTR_NOMEM then Some p else None, x)) (jstr_parse parser' str' (ts' @ [None])) =
    map_option (\<lambda>(rc, p, x). (rc, if rc = JSTR_NOMEM then Some p else None, x))
      (jstr_parse jstr_init [0x5b, 0x31, 0x5d, 0] [None, None, None])"
proof -
  have "jstr_parse jstr_init [0x5b, 0x31, 0x5d, 0] [None, None] =
      Some (JSTR_NOMEM, \<lparr>parse_pos = 1, cur_offset = 1, parent_offset = 0\<rparr>, [0x5b, 0x31, 0x5d, 0],
        [Some \<lparr>token_type = JSTR_ARRAY, token_value = 0\<rparr>, None])"
    by code_simp
  moreover note jstr_parse_resume [OF parser_inv_init [of "[0x5b, 0x31, 0x5d, 0]"] this, of "[None]"]
  ultimately show ?thesis by simp
qed

text \<open>A number is told from the other values by its token, and its text by the null behind it.\<close>

lemma cstring_text: "cstring s n a t \<Longrightarrow> 0 \<notin> set t \<Longrightarrow> takeWhile (\<lambda>c. c \<noteq> 0) (drop a s) = t"
proof -
  assume c: "cstring s n a t" and no: "0 \<notin> set t"
  have "drop a s = (t @ [0]) @ drop (length t + 1) (drop a s)"
    using c append_take_drop_id [of "length t + 1" "drop a s"] by (simp add: cstring_def)
  moreover have "takeWhile (\<lambda>c. c \<noteq> 0) ((t @ [0]) @ r) = t" for r
    using no by (induction t) auto
  ultimately show ?thesis by simp
qed

lemma describes_number:
  assumes "describes s n ts i (JNumber t)" and "describes s n ts i v" and "json_text v u" and "0 \<notin> set t"
  shows "number_text t"
proof (cases v)
  case (JNumber t')
  then have "number_text t'" using assms(3) by (auto elim: json_text.cases)
  moreover have "t' = t"
    using assms(1,2,4) JNumber number_no_nul [OF \<open>number_text t'\<close>] by (auto simp: leaf_def dest!: cstring_text)
  ultimately show ?thesis by simp
qed (use assms(1,2) in \<open>auto simp: leaf_def\<close>)

lemma bare_minus_not_rfc: "frac_text f \<Longrightarrow> exp_text e \<Longrightarrow> \<not> rfc_number (0x2d # f @ e)"
proof
  assume t: "frac_text f" "exp_text e" and "rfc_number (0x2d # f @ e)"
  then obtain sgn i r where i: "0x2d # f @ e = sgn @ i @ r" "sgn \<in> {[], [0x2d]}" "i \<noteq> []" "digits i"
    by (auto simp: rfc_number_def int_text_def)
  then have "f @ e \<noteq> [] \<and> digit (hd (f @ e))" by (cases i) (auto simp: digits_iff digit_iff)
  moreover have "\<not> digit (hd e)" if "e \<noteq> []" using t(2) that by (auto simp: exp_text_def digit_iff)
  moreover have "\<not> digit (hd f)" if "f \<noteq> []" using t(1) that by (simp add: frac_text_def digit_iff)
  ultimately show False by (cases f) auto
qed

text \<open>C17: The number syntax of the tokenizer: a text is read as one number, itself, exactly if it is a
  number of RFC 8259 or a minus sign followed by an optional fraction and an optional exponent
  (\<open>-\<close>, \<open>-.5\<close>, \<open>-e5\<close>), and no text of the latter kind is a number of RFC 8259.
\<close>

theorem jstr_parse_numbers:
  assumes "0 \<notin> set t" and "length t + 2 \<le> length ts"
  shows "((\<exists>str ts'. jstr_parse jstr_init (t @ [0]) ts = Some (int (length t), jstr_init, str, ts') \<and>
        describes str (length t + 1) ts' 0 (JNumber t)) \<longleftrightarrow>
      rfc_number t \<or> (\<exists>f e. t = 0x2d # f @ e \<and> frac_text f \<and> exp_text e)) \<and>
    \<not> (rfc_number t \<and> (\<exists>f e. t = 0x2d # f @ e \<and> frac_text f \<and> exp_text e))"
proof (intro conjI iffI)
  obtain rc str ts' where r: "jstr_parse jstr_init (t @ [0]) ts = Some (rc, jstr_init, str, ts')"
    "if \<exists>v. json_document v t
     then rc = int (length t) \<and> (\<forall>v. json_document v t \<longrightarrow> describes str (length t + 1) ts' 0 v) else rc = JSTR_INVAL"
    using jstr_parse_outcome [OF assms] by blast
  assume "\<exists>str ts'. jstr_parse jstr_init (t @ [0]) ts = Some (int (length t), jstr_init, str, ts') \<and>
        describes str (length t + 1) ts' 0 (JNumber t)"
  then have n: "rc = int (length t)" "describes str (length t + 1) ts' 0 (JNumber t)" using r(1) by auto
  then obtain v where v: "json_document v t" using r(2) by fastforce
  then have "describes str (length t + 1) ts' 0 v" using r(2) by metis
  then have "number_text t" using describes_number [OF n(2)] v assms(1) by (auto simp: json_document_def)
  then show "rfc_number t \<or> (\<exists>f e. t = 0x2d # f @ e \<and> frac_text f \<and> exp_text e)" by (simp add: number_text_def)
next
  assume "rfc_number t \<or> (\<exists>f e. t = 0x2d # f @ e \<and> frac_text f \<and> exp_text e)"
  then have "json_document (JNumber t) t"
    unfolding json_document_def number_text_def [symmetric]
    by (intro exI [of _ "[]"] exI [of _ t]) (simp add: json_number white_def)
  then show "\<exists>str ts'. jstr_parse jstr_init (t @ [0]) ts = Some (int (length t), jstr_init, str, ts') \<and>
        describes str (length t + 1) ts' 0 (JNumber t)"
    by (rule document_parse) (use assms(2) in simp)
qed (use bare_minus_not_rfc in blast)

theorem jstr_parse_numbers_witness:
  "(\<exists>str ts'. jstr_parse jstr_init [0x2d, 0x2e, 0x35, 0] (replicate 5 None) = Some (3, jstr_init, str, ts') \<and>
      describes str (Suc (Suc (Suc (Suc 0)))) ts' 0 (JNumber [0x2d, 0x2e, 0x35])) \<and> \<not> rfc_number [0x2d, 0x2e, 0x35]"
proof -
  have "\<exists>f e. [0x2d, 0x2e, 0x35] = 0x2d # f @ e \<and> frac_text f \<and> exp_text e"
    by (intro exI [of _ "[0x2e, 0x35]"] exI [of _ "[]"]) (simp add: frac_text_def exp_text_def digits_iff digit_iff)
  with jstr_parse_numbers [of "[0x2d, 0x2e, 0x35]" "replicate 5 None"] show ?thesis
    by (simp only: append.simps list.size set_simps) simp
qed

end
