(* ===== verification/Response.thy ===== *)
theory Response
  imports Sandals_Io Jstr_Parser
begin

text \<open>
  Responses (\<open>response.c\<close>) and their use on an error (\<open>fail\<close> of \<open>fail.c\<close>). The structure is its
  bytes: the \<open>PIPE_BUF\<close> bytes of \<open>buf\<close> and then the eight of \<open>overflow\<close>, which an escape that
  starts at the last byte of \<open>buf\<close> may reach. A write outside of it is \<open>None\<close>.
\<close>

record sandals_response =
  rsize :: nat
  rbuf :: bytes

definition response_append_raw :: "sandals_response \<Rightarrow> bytes \<Rightarrow> sandals_response option" where
  "response_append_raw r str =
     (let size = rsize r + length str in
      if size \<le> PIPE_BUF
      then do { b \<leftarrow> put (rbuf r) (size - length str) str; Some (r\<lparr>rsize := size, rbuf := b\<rparr>) }
      else Some (r\<lparr>rsize := size\<rparr>))"

definition hex :: bytes where
  "hex = bytes_of ''0123456789abcdef''"

text \<open>What is written for one character.\<close>

definition esc_char :: "u8 \<Rightarrow> bytes" where
  "esc_char c =
     (if c \<ge> 0x20 \<and> c \<noteq> 0x5c \<and> c \<noteq> 0x22 then [c]
      else if c = 0x22 \<or> c = 0x5c then [0x5c, c]
      else if c = 0x08 then [0x5c, 0x62]
      else if c = 0x0c then [0x5c, 0x66]
      else if c = 0x0a then [0x5c, 0x6e]
      else if c = 0x0d then [0x5c, 0x72]
      else if c = 0x09 then [0x5c, 0x74]
      else [0x5c, 0x75, 0x30, 0x30, hex ! unat (drop_bit 4 c), hex ! unat (c AND 15)])"

fun esc_loop :: "bytes \<Rightarrow> nat \<Rightarrow> bytes \<Rightarrow> (bytes \<times> nat) option" where
  "esc_loop buf p [] = Some (buf, p)"
| "esc_loop buf p (c # str) =
     (if p < PIPE_BUF
      then do { buf' \<leftarrow> put buf p (esc_char c); esc_loop buf' (p + length (esc_char c)) str }
      else Some (buf, p))"

definition response_append_esc :: "sandals_response \<Rightarrow> bytes \<Rightarrow> sandals_response option" where
  "response_append_esc r str =
     do { (b, p) \<leftarrow> esc_loop (rbuf r) (rsize r) str; Some (r\<lparr>rsize := p, rbuf := b\<rparr>) }"

definition response_append_int :: "sandals_response \<Rightarrow> int \<Rightarrow> sandals_response option" where
  "response_append_int r value =
     do { buf \<leftarrow> put (replicate 16 0) 0 (format_d value @ [0]);
          str \<leftarrow> c_str buf 0;
          response_append_raw r str }"

definition response_text :: "sandals_response \<Rightarrow> bytes" where
  "response_text r = take (rsize r) (rbuf r)"

text \<open>The text that \<open>response_send\<close> writes, and its loop.\<close>

definition response_data :: "sandals_response \<Rightarrow> bytes result" where
  "response_data r = (if PIPE_BUF < rsize r then failed kStatusResponseTooBig None else ok (response_text r))"

definition send_loop :: "nat \<Rightarrow> fd \<Rightarrow> bytes \<Rightarrow> unit io" where
  "send_loop n response_fd data = write_loop n response_fd data
     (\<lambda>e. call_any (Proc (Log (bytes_of ''Sending response: '' @ strerror e))) (Exits 1)) (Returns ())"

definition response_send :: "nat \<Rightarrow> fd \<Rightarrow> sandals_response \<Rightarrow> unit io" where
  "response_send n response_fd r = bind_io (lift_io (response_data r)) (send_loop n response_fd)"

section \<open>Failure\<close>

text \<open>
  \<open>fail\<close> up to the text it sends; \<open>junk\<close> is what the structure on the stack holds before. The
  message is the text that \<open>vsnprintf\<close> makes of the format and its arguments.
\<close>

definition fail_build :: "bytes \<Rightarrow> status \<Rightarrow> bytes option \<Rightarrow> sandals_response option" where
  "fail_build junk status msg =
     do { r \<leftarrow> response_append_raw \<lparr>rsize = 0, rbuf = junk\<rparr> (bytes_of ''{\"status\":\"'');
          r \<leftarrow> response_append_esc r (status_text status);
          r \<leftarrow> (case msg of None \<Rightarrow> Some r
             | Some m \<Rightarrow> if m = [] then Some r
                 else do { r \<leftarrow> response_append_raw r (bytes_of ''\",\"description\":\"'');
                           response_append_esc r m });
          response_append_raw r (bytes_of ''\"}\<newline>'') }"

text \<open>What \<open>fail\<close> logs, as \<open>vsnprintf\<close> left it in the buffer.\<close>

definition fail_log :: "status \<Rightarrow> bytes option \<Rightarrow> bytes option" where
  "fail_log status msg =
     (case msg of None \<Rightarrow> None
      | Some m \<Rightarrow> if m \<noteq> [] \<and> status = kStatusInternalError then Some (take (PIPE_BUF - 1) m) else None)"

definition log_error :: "bytes \<Rightarrow> nat \<Rightarrow> bytes \<Rightarrow> bytes" where
  "log_error program_invocation_short_name pid msg =
     program_invocation_short_name @ [0x5b] @ decimal pid @ [0x5d, 0x3a, 0x20] @ msg @ [0x0a]"

section \<open>Appending\<close>

text \<open>
  The buffer holds the text so far, or the text is longer than the buffer. All writes stay within
  the structure. An escape may fill the buffer exactly and leave out the rest of its string, which
  only shows in the size when something is appended after it.
\<close>

definition holds :: "sandals_response \<Rightarrow> bytes \<Rightarrow> bool" where
  "holds r t \<longleftrightarrow> length (rbuf r) = PIPE_BUF + 8 \<and>
     (if length t \<le> PIPE_BUF then rsize r = length t \<and> response_text r = t else PIPE_BUF \<le> rsize r)"

lemma holds_empty: "length junk = PIPE_BUF + 8 \<Longrightarrow> holds \<lparr>rsize = 0, rbuf = junk\<rparr> []"
  by (simp add: holds_def response_text_def)

lemma append_raw_holds:
  assumes "holds r t"
  shows "\<exists>r'. response_append_raw r str = Some r' \<and> holds r' (t @ str) \<and> rsize r' = rsize r + length str"
proof (cases "rsize r + length str \<le> PIPE_BUF")
  case True
  define size where "size = rsize r + length str"
  have put: "put (rbuf r) (rsize r) str = Some (take (rsize r) (rbuf r) @ str @ drop size (rbuf r))"
    using put_run [of "rsize r" str "rbuf r"] True assms by (simp add: holds_def size_def)
  have r': "response_append_raw r str = Some (r\<lparr>rsize := size, rbuf := take (rsize r) (rbuf r) @ str @ drop size (rbuf r)\<rparr>)"
    using True put by (simp add: response_append_raw_def Let_def size_def)
  have "length (rbuf r) = PIPE_BUF + 8" using assms by (simp add: holds_def)
  moreover have "PIPE_BUF \<le> rsize r" if "\<not> length t \<le> PIPE_BUF" using assms that by (simp add: holds_def)
  then have "length t \<le> PIPE_BUF \<or> length str = 0 \<and> rsize r = PIPE_BUF" using True by linarith
  ultimately show ?thesis
    using True assms r' by (auto simp: holds_def response_text_def size_def)
next
  case False
  then show ?thesis using assms by (auto simp: response_append_raw_def holds_def Let_def split: if_splits)
qed

definition escaped :: "bytes \<Rightarrow> bytes" where
  "escaped str = concat (map esc_char str)"

lemma escaped_simps [simp]: "escaped [] = []" "escaped (c # str) = esc_char c @ escaped str"
  "escaped (s @ t) = escaped s @ escaped t"
  by (simp_all add: escaped_def)

lemma esc_char_length: "0 < length (esc_char c)" "length (esc_char c) \<le> 6"
  by (simp_all add: esc_char_def)

lemma esc_loop_full: "PIPE_BUF \<le> p \<Longrightarrow> esc_loop buf p str = Some (buf, p)"
  by (cases str) simp_all

lemma esc_loop_holds:
  "length buf = PIPE_BUF + 8 \<Longrightarrow> p = length t \<Longrightarrow> take p buf = t \<Longrightarrow> length t \<le> PIPE_BUF \<Longrightarrow>
     \<exists>buf' p'. esc_loop buf p str = Some (buf', p') \<and> holds \<lparr>rsize = p', rbuf = buf'\<rparr> (t @ escaped str)"
proof (induction str arbitrary: buf p t)
  case (Cons c str)
  show ?case
  proof (cases "p < PIPE_BUF")
    case False
    then have "escaped (c # str) \<noteq> []" "p = PIPE_BUF" using Cons.prems esc_char_length(1) [of c] by auto
    then show ?thesis using Cons.prems False by (cases "escaped (c # str)") (auto simp: holds_def)
  next
    case True
    let ?p = "p + length (esc_char c)"
    let ?b = "t @ esc_char c @ drop ?p buf"
    have "put buf p (esc_char c) = Some ?b"
      using put_run [of p "esc_char c" buf] Cons.prems True esc_char_length(2) [of c] by simp
    then have step: "esc_loop buf p (c # str) = esc_loop ?b ?p str" using True by simp
    have len: "length ?b = PIPE_BUF + 8" using Cons.prems True esc_char_length(2) [of c] by simp
    show ?thesis
    proof (cases "?p \<le> PIPE_BUF")
      case True
      then show ?thesis using step Cons.IH [of ?b ?p "t @ esc_char c"] len Cons.prems by simp
    next
      case False
      then show ?thesis using step len esc_loop_full [of ?p ?b str] Cons.prems by (auto simp: holds_def)
    qed
  qed
qed (simp add: holds_def response_text_def)

lemma append_esc_holds:
  assumes "holds r t"
  shows "\<exists>r'. response_append_esc r str = Some r' \<and> holds r' (t @ escaped str)"
proof (cases "length t \<le> PIPE_BUF")
  case True
  then have "rsize r = length t" "take (rsize r) (rbuf r) = t" "length (rbuf r) = PIPE_BUF + 8"
    using assms by (auto simp: holds_def response_text_def)
  from esc_loop_holds [OF this(3,1,2) True, of str] show ?thesis
    by (auto simp: response_append_esc_def holds_def response_text_def)
next
  case False
  then show ?thesis using assms esc_loop_full [of "rsize r" "rbuf r" str]
    by (auto simp: response_append_esc_def holds_def)
qed

section \<open>The text that is sent\<close>

lemma append_raw_size: "response_append_raw r str = Some r' \<Longrightarrow> rsize r' = rsize r + length str"
  by (auto simp: response_append_raw_def Let_def split: if_splits elim!: bind_SomeE)

lemma esc_loop_size: "esc_loop buf p str = Some (buf', p') \<Longrightarrow> p' \<le> p + length (escaped str)"
  by (induction buf p str rule: esc_loop.induct) (fastforce split: if_splits elim!: bind_SomeE)+

lemma append_esc_size: "response_append_esc r str = Some r' \<Longrightarrow> rsize r' \<le> rsize r + length (escaped str)"
  by (auto simp: response_append_esc_def dest: esc_loop_size elim!: bind_SomeE)

lemma too_big_fits: "fail_build junk kStatusResponseTooBig None = Some r \<Longrightarrow> rsize r \<le> PIPE_BUF"
proof -
  assume "fail_build junk kStatusResponseTooBig None = Some r"
  then obtain r1 r2 where "response_append_raw \<lparr>rsize = 0, rbuf = junk\<rparr> (bytes_of ''{\"status\":\"'') = Some r1"
    "response_append_esc r1 (status_text kStatusResponseTooBig) = Some r2"
    "response_append_raw r2 (bytes_of ''\"}\<newline>'') = Some r"
    by (auto simp: fail_build_def elim!: bind_SomeE)
  moreover have "length (escaped (status_text kStatusResponseTooBig)) = 14" by code_simp
  ultimately show ?thesis using append_raw_size append_esc_size by fastforce
qed

text \<open>
  The message does not fit its buffer, and the response does not fit: either way \<open>fail\<close> calls
  itself with a status that does.
\<close>

definition too_long :: "bytes option \<Rightarrow> bool" where
  "too_long msg = (case msg of None \<Rightarrow> False | Some m \<Rightarrow> PIPE_BUF \<le> length m)"

function fail_text :: "bytes \<Rightarrow> status \<Rightarrow> bytes option \<Rightarrow> bytes option" where
  "fail_text junk status msg =
     (if too_long msg then fail_text junk kStatusResponseTooBig None
      else do { r \<leftarrow> fail_build junk status msg;
                sent \<leftarrow> response_data r;
                case sent of Inl (Fail status' msg') \<Rightarrow> fail_text junk status' msg' | Inr t \<Rightarrow> Some t })"
  by auto
termination
  by (relation "measure (\<lambda>(junk, status, msg). if status = kStatusResponseTooBig \<and> msg = None then 0 else 1)")
     (auto simp: too_long_def response_data_def failed_def ok_def dest: too_big_fits split: option.splits if_splits)

declare fail_text.simps [simp del]

definition fail :: "nat \<Rightarrow> fd \<Rightarrow> bytes \<Rightarrow> failure \<Rightarrow> 'a io" where
  "fail n response_fd junk f =
     (case f of Fail status msg \<Rightarrow>
        bind_io (case fail_log status msg of None \<Rightarrow> Returns () | Some m \<Rightarrow> call_any (Proc (Log m)) (Returns ()))
          (\<lambda>_. case fail_text junk status msg of None \<Rightarrow> Undefined
            | Some t \<Rightarrow> bind_io (send_loop n response_fd t) (\<lambda>_. Exits 1)))"

definition body_of :: "status \<Rightarrow> bytes option \<Rightarrow> bytes" where
  "body_of status msg = bytes_of ''{\"status\":\"'' @ escaped (status_text status) @
     (case msg of None \<Rightarrow> [] | Some m \<Rightarrow> if m = [] then [] else bytes_of ''\",\"description\":\"'' @ escaped m) @
     bytes_of ''\"}\<newline>''"

lemma fail_build_holds:
  assumes "length junk = PIPE_BUF + 8"
  shows "\<exists>r. fail_build junk status msg = Some r \<and> holds r (body_of status msg) \<and>
    (PIPE_BUF < length (body_of status msg) \<longrightarrow> PIPE_BUF < rsize r)"
proof -
  obtain r1 where r1: "response_append_raw \<lparr>rsize = 0, rbuf = junk\<rparr> (bytes_of ''{\"status\":\"'') = Some r1"
    "holds r1 (bytes_of ''{\"status\":\"'')"
    using append_raw_holds [OF holds_empty [OF assms]] by fastforce
  obtain r2 where r2: "response_append_esc r1 (status_text status) = Some r2"
    "holds r2 (bytes_of ''{\"status\":\"'' @ escaped (status_text status))"
    using append_esc_holds [OF r1(2)] by blast
  define t3 where "t3 = bytes_of ''{\"status\":\"'' @ escaped (status_text status) @
    (case msg of None \<Rightarrow> [] | Some m \<Rightarrow> if m = [] then [] else bytes_of ''\",\"description\":\"'' @ escaped m)"
  have "\<exists>r3. (case msg of None \<Rightarrow> Some r2
             | Some m \<Rightarrow> if m = [] then Some r2
                 else do { r \<leftarrow> response_append_raw r2 (bytes_of ''\",\"description\":\"'');
                           response_append_esc r m }) = Some r3 \<and> holds r3 t3"
  proof (cases "msg = None \<or> msg = Some []")
    case True
    then show ?thesis using r2(2) by (auto simp: t3_def)
  next
    case False
    then obtain m where m: "msg = Some m" "m \<noteq> []" by auto
    obtain r where r: "response_append_raw r2 (bytes_of ''\",\"description\":\"'') = Some r"
      "holds r ((bytes_of ''{\"status\":\"'' @ escaped (status_text status)) @ bytes_of ''\",\"description\":\"'')"
      using append_raw_holds [OF r2(2)] by blast
    then show ?thesis using append_esc_holds [OF r(2), of m] m by (simp add: t3_def del: bytes_of_simps)
  qed
  then obtain r3 where r3: "(case msg of None \<Rightarrow> Some r2
             | Some m \<Rightarrow> if m = [] then Some r2
                 else do { r \<leftarrow> response_append_raw r2 (bytes_of ''\",\"description\":\"'');
                           response_append_esc r m }) = Some r3" "holds r3 t3" by blast
  obtain r4 where r4: "response_append_raw r3 (bytes_of ''\"}\<newline>'') = Some r4"
    "holds r4 (t3 @ bytes_of ''\"}\<newline>'')" "rsize r4 = rsize r3 + 3"
    using append_raw_holds [OF r3(2), of "bytes_of ''\"}\<newline>''"] by auto
  have "fail_build junk status msg = Some r4" using r1(1) r2(1) r3(1) r4(1) by (simp add: fail_build_def del: bytes_of_simps)
  moreover have "body_of status msg = t3 @ bytes_of ''\"}\<newline>''" by (simp add: body_of_def t3_def del: bytes_of_simps)
  moreover have "PIPE_BUF < rsize r4" if "PIPE_BUF < length (t3 @ bytes_of ''\"}\<newline>'')"
    using that r3(2) r4(3) by (auto simp: holds_def split: if_splits)
  ultimately show ?thesis using r4(2) by metis
qed

section \<open>Responses are JSON texts\<close>

lemma control_escape:
  "\<forall>n \<in> set [1..<32]. n \<in> {8, 9, 10, 12, 13} \<or>
     (case esc_char (of_nat n) of [a, b, c, d, e, f] \<Rightarrow> a = 0x5c \<and> b = 0x75 \<and> hex4 [c, d, e, f] = Some n | _ \<Rightarrow> False)"
  by code_simp

lemma escaped_high:
  assumes "\<forall>c \<in> set t. 0x80 \<le> unat c"
  shows "escaped t = t"
proof -
  have "esc_char c = [c]" if "0x80 \<le> unat c" for c
  proof -
    have "0x20 \<le> c" "c \<noteq> 0x5c" "c \<noteq> 0x22" using that by (auto simp: word_le_nat_alt)
    then show ?thesis by (simp add: esc_char_def)
  qed
  then show ?thesis using assms by (induction t) auto
qed

lemma escaped_item:
  assumes "scalar cp" and "cp \<noteq> 0"
  shows "string_item cp (escaped (utf8 cp)) rest"
proof (cases "cp < 0x80")
  case True
  define c :: u8 where "c = of_nat cp"
  have u: "unat c = cp" using True by (simp add: c_def)
  have utf8: "utf8 cp = [c]" using True by (simp add: utf8_def c_def)
  consider "0x20 \<le> cp" "cp \<noteq> 0x5c" "cp \<noteq> 0x22" | "cp \<in> {0x22, 0x5c, 8, 9, 10, 12, 13}"
    | "cp \<in> set [1..<32]" "cp \<notin> {8, 9, 10, 12, 13}"
    using assms(2) by force
  then show ?thesis
  proof cases
    case 1
    then have "0x20 \<le> c" "c \<noteq> 0x5c" "c \<noteq> 0x22" using u by (auto simp: word_le_nat_alt)
    then have "escaped (utf8 cp) = utf8 cp" by (simp add: utf8 esc_char_def)
    then show ?thesis using 1 assms(1) by (simp add: item_char)
  next
    case 2
    then have "\<exists>e. escaped (utf8 cp) = [0x5c, e] \<and> (e, cp) \<in> set short_escapes"
      by (auto simp: utf8 c_def esc_char_def short_escapes_def)
    then show ?thesis by (auto intro: item_short)
  next
    case 3
    then obtain a b d e where "esc_char c = [0x5c, 0x75, a, b, d, e]" "hex4 [a, b, d, e] = Some cp"
      using control_escape unfolding c_def by (fastforce split: list.splits)
    then have "unit_text cp (escaped (utf8 cp))" by (simp add: utf8 unit_text_hex4)
    then show ?thesis using 3 by (intro item_unit) (auto simp: surrogate_def)
  qed
next
  case False
  then obtain c bs where "utf8 cp = c # bs" "lead c" "\<forall>c \<in> set bs. cont c"
    using utf8_lead [OF assms(1)] by (metis not_le)
  then have "escaped (utf8 cp) = utf8 cp" by (intro escaped_high) (auto simp: cont_def)
  then show ?thesis using False assms(1) by (simp add: item_char)
qed

lemma escaped_text: "text_of cps \<Longrightarrow> string_text cps (escaped (utf8s cps))"
  by (induction cps) (auto simp: text_of_def intro: string_Nil string_Cons escaped_item)

text \<open>The code points of an ASCII text.\<close>

definition points :: "bytes \<Rightarrow> nat list" where
  "points t = map unat t"

lemma ascii_points:
  assumes "\<forall>c \<in> set t. 0 < unat c \<and> unat c < 0x80"
  shows "utf8s (points t) = t" and "text_of (points t)"
proof -
  have "utf8 (unat c) = [c]" if "unat c < 0x80" for c using that by (simp add: utf8_def)
  then show "utf8s (points t) = t" using assms by (induction t) (auto simp: points_def)
  show "text_of (points t)" using assms by (auto simp: text_of_def points_def scalar_def surrogate_def)
qed

lemma status_ascii: "\<forall>c \<in> set (status_text status). 0 < unat c \<and> unat c < 0x80"
  by (cases status) simp_all


definition key :: "string \<Rightarrow> nat list" where
  "key s = map of_char s"

definition report :: "status \<Rightarrow> nat list \<Rightarrow> json" where
  "report status cps = JObject ((key ''status'', JString (points (status_text status))) #
     (if cps = [] then [] else [(key ''description'', JString cps)]))"

lemma key_text:
  assumes "\<forall>c \<in> set (bytes_of s). 0x20 \<le> c \<and> c < 0x80 \<and> c \<noteq> 0x22 \<and> c \<noteq> 0x5c"
  shows "string_text (key s) (bytes_of s)"
  using assms
proof (induction s)
  case (Cons a s)
  have "of_char a < (256 :: nat)" by simp
  then have u: "unat (of_nat (of_char a) :: u8) = of_char a" by simp
  have "0x20 \<le> (of_nat (of_char a) :: u8)" "of_nat (of_char a) < (0x80 :: u8)" "of_nat (of_char a) \<noteq> (0x22 :: u8)"
    "of_nat (of_char a) \<noteq> (0x5c :: u8)"
    using Cons.prems by simp_all
  then have c: "(0x20 :: nat) \<le> of_char a" "of_char a < (0x80 :: nat)" "of_char a \<noteq> (0x22 :: nat)" "of_char a \<noteq> (0x5c :: nat)"
    using u by (auto simp: word_le_nat_alt word_less_nat_alt)
  then have "string_item (of_char a) (utf8 (of_char a)) (bytes_of s)"
    by (intro item_char) (simp_all add: scalar_def surrogate_def)
  moreover have "utf8 (of_char a) = [of_nat (of_char a)]" using c by (simp add: utf8_def)
  ultimately show ?case using Cons string_Cons by (fastforce simp: key_def)
qed (simp add: key_def string_Nil)

lemma white_simps [simp]: "white []" "white [0x0a]"
  by (simp_all add: white_def)

lemma document_line: "json_text v t \<Longrightarrow> json_document v (t @ [0x0a])"
  unfolding json_document_def by (intro exI [of _ "[]"] exI [of _ t] exI [of _ "[0x0a]"]) simp

lemma body_document:
  assumes "text_of cps" and null: "null \<Longrightarrow> cps = []"
  shows "json_document (report status cps) (body_of status (if null then None else Some (utf8s cps)))"
proof -
  define d where "d = quoted (bytes_of ''description'') @ 0x3a # quoted (escaped (utf8s cps))"
  have s: "members_text [(key ''status'', JString (points (status_text status)))]
      ([] @ quoted (bytes_of ''status'') @ [] @ 0x3a # [] @ quoted (escaped (status_text status)) @ [])"
    using escaped_text [OF ascii_points(2) [OF status_ascii]] ascii_points(1) [OF status_ascii]
    by (intro members_one key_text json_string) simp_all
  have d: "members_text [(key ''description'', JString cps)] ([] @ quoted (bytes_of ''description'') @ [] @ 0x3a # [] @
      quoted (escaped (utf8s cps)) @ [])"
    using escaped_text [OF assms(1)] by (intro members_one key_text json_string) simp_all
  have sd: "members_text [(key ''status'', JString (points (status_text status))), (key ''description'', JString cps)]
      ([] @ quoted (bytes_of ''status'') @ [] @ 0x3a # [] @ quoted (escaped (status_text status)) @ [] @ 0x2c # d)"
    using escaped_text [OF ascii_points(2) [OF status_ascii]] ascii_points(1) [OF status_ascii] d
    unfolding d_def by (intro members_more key_text json_string) simp_all
  show ?thesis
  proof (cases "cps = []")
    case True
    then have "body_of status (if null then None else Some (utf8s cps)) =
        (0x7b # ([] @ quoted (bytes_of ''status'') @ [] @ 0x3a # [] @ quoted (escaped (status_text status)) @ []) @ [0x7d]) @ [0x0a]"
      by (simp add: body_of_def quoted_def)
    then show ?thesis using document_line [OF json_object [OF s]] True by (simp add: report_def del: append.simps)
  next
    case False
    then have "utf8s cps \<noteq> []" by (cases cps) (auto simp: utf8_def)
    then have "body_of status (if null then None else Some (utf8s cps)) =
        (0x7b # ([] @ quoted (bytes_of ''status'') @ [] @ 0x3a # [] @ quoted (escaped (status_text status)) @ [] @ 0x2c # d) @ [0x7d]) @ [0x0a]"
      using False null by (auto simp: body_of_def quoted_def d_def)
    then show ?thesis using document_line [OF json_object [OF sd]] False by (simp add: report_def del: append.simps)
  qed
qed


section \<open>Sending\<close>

text \<open>
  A part of the text from its start has been written; all of it, unless the loop is at its bound
  or a call other than an interrupted one has failed.
\<close>

definition sent :: "fd \<Rightarrow> bytes \<Rightarrow> 'a io \<Rightarrow> trace \<Rightarrow> bool" where
  "sent fd t m tr \<longleftrightarrow> prefix (written fd tr) t \<and>
     (written fd tr = t \<or> m = Waiting \<or> (\<exists>d e. (File (Write fd d), Err e) \<in> set tr \<and> e \<noteq> EINTR))"

lemma sent_Exits: "sent fd t (Returns x) tr \<Longrightarrow> sent fd t (Exits n) tr"
  by (auto simp: sent_def)

lemma accepted_log [simp]: "accepted fd (Proc c, a) = []"
  by (simp add: accepted_def)

lemma send_loop_wp:
  assumes "written fd h = []" and "\<And>h'. sent fd t (Returns ()) h' \<Longrightarrow> wp (f ()) (\<lambda>_ _. True) (sent fd t) h'"
  shows "wp (bind_io (send_loop n fd t) f) (\<lambda>_ _. True) (sent fd t) h"
proof -
  have "wp (send_loop n fd t) (\<lambda>_ _. True) (\<lambda>m tr. sent fd t m tr \<and> (\<forall>x. m = Returns x \<longrightarrow> written fd tr = t)) h"
    unfolding send_loop_def
  proof (rule write_loop_wp, goal_cases)
    case (1 tr p e)
    then have "sent fd t (Exits 1 :: unit io) (h @ tr @ [(Proc c, a)])" for c a
      using assms(1) unfolding sent_def writes_def by (simp, metis)
    then show ?case by (simp add: call_any_def)
  qed (use assms(1) in \<open>simp_all add: sent_def writes_def\<close>)
  then show ?thesis
  proof (rule wp_bindI)
    fix r :: "unit io" and h'
    assume "halted r" "\<nexists>x. r = Returns x" "sent fd t r h' \<and> (\<forall>x. r = Returns x \<longrightarrow> written fd h' = t)"
    then show "sent fd t (recast r) h'" by (cases r) (auto simp: sent_def)
  qed (use assms(2) in auto)
qed

lemma too_big_body: "length (body_of kStatusResponseTooBig None) \<le> PIPE_BUF"
  by (simp add: body_of_def esc_char_def)

lemma fail_text_body:
  assumes "length junk = PIPE_BUF + 8"
  shows "fail_text junk status msg =
    Some (if too_long msg \<or> PIPE_BUF < length (body_of status msg) then body_of kStatusResponseTooBig None
          else body_of status msg)"
proof -
  have send: "\<exists>r. fail_build junk status msg = Some r \<and>
      response_data r = (if PIPE_BUF < length (body_of status msg) then failed kStatusResponseTooBig None
        else ok (body_of status msg))" for status msg
  proof -
    obtain r where "fail_build junk status msg = Some r" "holds r (body_of status msg)"
      "PIPE_BUF < length (body_of status msg) \<longrightarrow> PIPE_BUF < rsize r"
      using fail_build_holds [OF assms] by blast
    then show ?thesis by (intro exI [of _ r]) (auto simp: response_data_def holds_def)
  qed
  have "fail_text junk kStatusResponseTooBig None = Some (body_of kStatusResponseTooBig None)"
    using send [of kStatusResponseTooBig None] too_big_body
    by (subst fail_text.simps) (auto simp: too_long_def ok_def)
  then show ?thesis
    using send [of status msg] by (subst fail_text.simps) (auto simp: ok_def failed_def)
qed

lemma fail_sent:
  assumes "fail_text junk status msg = Some t" and "exec (fail n fd junk (Fail status msg)) tr m" and "halted m"
  shows "sent fd t m tr"
proof -
  have "wp (fail n fd junk (Fail status msg)) (\<lambda>_ _. True) (sent fd t) []"
    using assms(1) by (auto simp: fail_def call_any_def intro!: send_loop_wp intro: sent_Exits split: option.splits)
  from wp_exec [OF this assms(2)] assms(3) show ?thesis by simp
qed

text \<open>C9: A response to an error whose message is valid UTF-8 without null characters is a JSON text
  that fits \<open>PIPE_BUF\<close> bytes: the object of the status and, if it is not empty, the description,
  which reads back as the message character by character. If the message or the response is too
  long, it is the object of the status \<open>responseTooBig\<close>. In every execution of \<open>fail\<close> only a part of
  this text from its start reaches the file, and the whole text if no call of \<open>write\<close> fails but
  those interrupted. Bytes from 0x80 on are copied as they are, so the response to a message that is
  not valid UTF-8 need not be a JSON text.
\<close>

theorem fail_report:
  assumes "length junk = PIPE_BUF + 8" and "text_of cps" and "6 \<le> length ts"
  shows "\<exists>t str ts'. fail_text junk status (Some (utf8s cps)) = Some t \<and> length t \<le> PIPE_BUF \<and>
    jstr_parse jstr_init (t @ [0]) ts = Some (int (length t), jstr_init, str, ts') \<and>
    describes str (length t + 1) ts' 0
      (if length (utf8s cps) < PIPE_BUF \<and> length (body_of status (Some (utf8s cps))) \<le> PIPE_BUF
       then report status cps else report kStatusResponseTooBig []) \<and>
    (\<forall>n fd tr m. exec (fail n fd junk (Fail status (Some (utf8s cps))) :: unit io) tr m \<longrightarrow> halted m \<longrightarrow>
       sent fd t m tr)"
proof -
  define fits where "fits \<longleftrightarrow> length (utf8s cps) < PIPE_BUF \<and> length (body_of status (Some (utf8s cps))) \<le> PIPE_BUF"
  define t where "t = (if fits then body_of status (Some (utf8s cps)) else body_of kStatusResponseTooBig None)"
  define v where "v = (if fits then report status cps else report kStatusResponseTooBig [])"
  have "fail_text junk status (Some (utf8s cps)) = Some t"
    using fail_text_body [OF assms(1)] by (auto simp: t_def fits_def too_long_def)
  moreover have "length t \<le> PIPE_BUF" by (simp add: t_def fits_def too_big_body)
  moreover have "json_document v t"
    using body_document [OF assms(2), of False status] body_document [of "[]" True kStatusResponseTooBig]
    by (auto simp: t_def v_def text_of_def)
  moreover have "jsize v + 1 \<le> length ts" using assms(3) by (simp add: v_def report_def)
  ultimately show ?thesis
    using document_parse [of v t ts] fail_sent [of junk status "Some (utf8s cps)" t] by (fold fits_def v_def) blast
qed

theorem fail_report_witness:
  "\<exists>t str ts'. fail_text (replicate 4104 0) kStatusRequestInvalid (Some (utf8s [0x61, 0x22, 0x3b1, 1])) = Some t \<and>
     jstr_parse jstr_init (t @ [0]) (replicate 8 None) = Some (int (length t), jstr_init, str, ts') \<and>
     describes str (length t + 1) ts' 0 (report kStatusRequestInvalid [0x61, 0x22, 0x3b1, 1])"
proof -
  have report: "text_of [0x61, 0x22, 0x3b1, 1]" "length (replicate 4104 (0::u8)) = PIPE_BUF + 8"
    "6 \<le> length (replicate 8 (None :: jstr_token_t option))"
    unfolding length_replicate by (simp_all add: text_of_def scalar_def surrogate_def)
  have "utf8s [0x61, 0x22, 0x3b1, 1] = [0x61, 0x22, 0xce, 0xb1, 1]" by (simp add: utf8_def)
  then have fits: "length (utf8s [0x61, 0x22, 0x3b1, 1]) < PIPE_BUF \<and>
      length (body_of kStatusRequestInvalid (Some (utf8s [0x61, 0x22, 0x3b1, 1]))) \<le> PIPE_BUF"
    by (simp add: body_of_def esc_char_def)
  from fail_report [OF report(2,1,3), of kStatusRequestInvalid, unfolded if_P [OF fits]]
  show ?thesis by (elim exE conjE, intro exI conjI) assumption+
qed

end
