(* ===== verification/Jshelper.thy ===== *)
theory Jshelper
  imports Sandals_Io Jstr_Parser
begin

text \<open>
  Access to a parsed JSON text (\<open>jshelper.h\<close>, \<open>jshelper.c\<close>). A pointer to a token is its index in
  the token array, a string is the bytes before its null byte. The loops are those of the macros
  \<open>JSARRAY_FOREACH\<close> and \<open>JSOBJECT_FOREACH\<close> with their body as an argument; \<open>None\<close> is undefined
  behaviour or a loop without end, which the tokens that the parser writes exclude.
\<close>

section \<open>The parsed text\<close>

record dom =
  dtext :: bytes
  dtokens :: tokens

definition dtype :: "dom \<Rightarrow> nat \<Rightarrow> jstr_type_t option" where
  "dtype d i = jstr_type (dtokens d) i"

definition dnext :: "dom \<Rightarrow> nat \<Rightarrow> nat option" where
  "dnext d i = jstr_next (dtokens d) i"

definition dstr :: "dom \<Rightarrow> nat \<Rightarrow> bytes option" where
  "dstr d i = do { p \<leftarrow> jstr_value (dtokens d) i; c_str (dtext d) p }"

section \<open>Loops\<close>

partial_function (option) array_foreach ::
  "(nat \<Rightarrow> nat option) \<Rightarrow> nat \<Rightarrow> (nat \<Rightarrow> 's \<Rightarrow> 's result) \<Rightarrow> nat \<Rightarrow> 's \<Rightarrow> 's result" where
  "array_foreach next array body item s =
     do { e \<leftarrow> next array;
          if item = e then ok s
          else do { r \<leftarrow> body item s;
                    case r of Inl f \<Rightarrow> Some (Inl f)
                    | Inr s' \<Rightarrow> do { item' \<leftarrow> next item; array_foreach next array body item' s' } } }"

partial_function (option) object_foreach ::
  "(nat \<Rightarrow> nat option) \<Rightarrow> (nat \<Rightarrow> bytes option) \<Rightarrow> nat \<Rightarrow> (bytes \<Rightarrow> nat \<Rightarrow> 's \<Rightarrow> 's result) \<Rightarrow> nat \<Rightarrow> 's \<Rightarrow> 's result" where
  "object_foreach next str obj body value s =
     do { e \<leftarrow> next obj;
          if \<not> value < e then ok s
          else do { key \<leftarrow> str (value - 1);
                    r \<leftarrow> body key value s;
                    case r of Inl f \<Rightarrow> Some (Inl f)
                    | Inr s' \<Rightarrow> do { value' \<leftarrow> next value; object_foreach next str obj body (value' + 1) s' } } }"

declare array_foreach.simps [code] object_foreach.simps [code]

definition JSARRAY_FOREACH :: "dom \<Rightarrow> nat \<Rightarrow> (nat \<Rightarrow> 's \<Rightarrow> 's result) \<Rightarrow> 's \<Rightarrow> 's result" where
  "JSARRAY_FOREACH d array body s = array_foreach (dnext d) array body (array + 1) s"

definition JSOBJECT_FOREACH :: "dom \<Rightarrow> nat \<Rightarrow> (bytes \<Rightarrow> nat \<Rightarrow> 's \<Rightarrow> 's result) \<Rightarrow> 's \<Rightarrow> 's result" where
  "JSOBJECT_FOREACH d obj body s = object_foreach (dnext d) (dstr d) obj body (obj + 2) s"

section \<open>Errors\<close>

text \<open>The child of an array or object whose tokens enclose \<open>value\<close>; \<open>Inl\<close> leaves the loop.\<close>

definition inside :: "dom \<Rightarrow> nat \<Rightarrow> nat \<Rightarrow> bool option" where
  "inside d child value =
     (if child \<le> value then do { e \<leftarrow> dnext d child; Some (value < e) } else Some False)"

partial_function (option) find_member :: "dom \<Rightarrow> nat \<Rightarrow> nat \<Rightarrow> nat \<Rightarrow> (bytes \<times> nat) option option" where
  "find_member d root child value =
     do { e \<leftarrow> dnext d root;
          if \<not> child < e then Some None
          else do { key \<leftarrow> dstr d (child - 1);
                    found \<leftarrow> inside d child value;
                    if found then Some (Some (key, child))
                    else do { child' \<leftarrow> dnext d child; find_member d root (child' + 1) value } } }"

partial_function (option) find_item :: "dom \<Rightarrow> nat \<Rightarrow> nat \<Rightarrow> nat \<Rightarrow> nat \<Rightarrow> (nat \<times> nat) option option" where
  "find_item d root child index value =
     do { e \<leftarrow> dnext d root;
          if child = e then Some None
          else do { found \<leftarrow> inside d child value;
                    if found then Some (Some (index, child))
                    else do { child' \<leftarrow> dnext d child; find_item d root child' (index + 1) value } } }"

declare find_member.simps [code] find_item.simps [code]

text \<open>
  The path from the root to the value. The message grows by the whole length of what is formatted,
  as \<open>msglen\<close> does; what does not fit the buffer is never sent.
\<close>

partial_function (option) error_path :: "dom \<Rightarrow> nat \<Rightarrow> nat \<Rightarrow> bytes \<Rightarrow> bytes option" where
  "error_path d root value msg =
     (if root = value \<or> \<not> length msg < PIPE_BUF then Some msg
      else do { t \<leftarrow> dtype d root;
        if t = JSTR_OBJECT then do {
          r \<leftarrow> find_member d root (root + 2) value;
          case r of None \<Rightarrow> Some []
          | Some (key, child) \<Rightarrow> error_path d child value (msg @ (if msg = [] then [] else [0x2e]) @ key) }
        else if t = JSTR_ARRAY then do {
          r \<leftarrow> find_item d root (root + 1) 0 value;
          case r of None \<Rightarrow> Some []
          | Some (index, child) \<Rightarrow> error_path d child value (msg @ [0x5b] @ decimal index @ [0x5d]) }
        else Some [] })"

declare error_path.simps [code]

definition jserror :: "dom \<Rightarrow> nat option \<Rightarrow> nat \<Rightarrow> bytes \<Rightarrow> 'a result" where
  "jserror d root value text =
     do { msg \<leftarrow> error_path d (case root of None \<Rightarrow> value | Some r \<Rightarrow> r) value [];
          let msg = (if msg \<noteq> [] \<and> length msg + 2 < PIPE_BUF then msg @ [0x3a, 0x20] else msg) in
          if length msg \<ge> PIPE_BUF \<or> length msg + length text \<ge> PIPE_BUF
          then failed kStatusResponseTooBig None
          else failed kStatusRequestInvalid (Some (msg @ text)) }"

definition jsunknown :: "dom \<Rightarrow> nat option \<Rightarrow> nat \<Rightarrow> 'a result" where
  "jsunknown d root value = jserror d root value (bytes_of ''Unknown key'')"

section \<open>Values\<close>

definition jsget_object :: "dom \<Rightarrow> nat option \<Rightarrow> nat \<Rightarrow> nat result" where
  "jsget_object d root value =
     do { t \<leftarrow> dtype d value;
          if t \<noteq> JSTR_OBJECT then jserror d root value (bytes_of ''Expecting an object'') else ok value }"

definition jsget_array :: "dom \<Rightarrow> nat option \<Rightarrow> nat \<Rightarrow> nat result" where
  "jsget_array d root value =
     do { t \<leftarrow> dtype d value;
          if t \<noteq> JSTR_ARRAY then jserror d root value (bytes_of ''Expecting an array'') else ok value }"

definition jsget_str :: "dom \<Rightarrow> nat option \<Rightarrow> nat \<Rightarrow> bytes result" where
  "jsget_str d root value =
     do { t \<leftarrow> dtype d value;
          if t \<noteq> JSTR_STRING then jserror d root value (bytes_of ''Expecting a string'')
          else do { s \<leftarrow> dstr d value; ok s } }"

text \<open>
  A \<open>double\<close> that is not a NaN: an integer times a power of two, or an infinity. What \<open>strtod\<close>
  makes of a text is left to the C library, as is whether memory is available.
\<close>

datatype double = Finite int int | Infinity | Minus_infinity

record libc =
  strtod :: "bytes \<Rightarrow> double"
  malloc :: "nat \<Rightarrow> bool"

fun negative :: "double \<Rightarrow> bool" where
  "negative (Finite m e) = (m < 0)"
| "negative Infinity = False"
| "negative Minus_infinity = True"

definition jsget_udouble :: "libc \<Rightarrow> dom \<Rightarrow> nat option \<Rightarrow> nat \<Rightarrow> double result" where
  "jsget_udouble L d root value =
     do { t \<leftarrow> dtype d value;
          if t \<noteq> JSTR_NUMBER then jserror d root value (bytes_of ''Expecting non-negative number'')
          else do { s \<leftarrow> dstr d value;
                    let v = strtod L s in
                    if negative v then jserror d root value (bytes_of ''Expecting non-negative number'') else ok v } }"

definition jsget_bool :: "dom \<Rightarrow> nat option \<Rightarrow> nat \<Rightarrow> bool result" where
  "jsget_bool d root value =
     do { t \<leftarrow> dtype d value;
          if t \<notin> {JSTR_TRUE, JSTR_FALSE} then jserror d root value (bytes_of ''Expecting a boolean'')
          else ok (t = JSTR_TRUE) }"

end
