(* ===== verification/Request.thy ===== *)
theory Request
  imports Jshelper
begin

text \<open>
  Requests (\<open>request.c\<close>, the structures of \<open>sandals.h\<close>): the text is read from standard input,
  parsed with a token array that grows as needed, and the members of its object are checked and
  stored. Parts that other components read later stay tokens.
\<close>

section \<open>Arithmetic of doubles\<close>

abbreviation "LONG_MAX \<equiv> (2 ^ 63 - 1 :: int)"
abbreviation "INT32_MAX \<equiv> (2 ^ 31 - 1 :: int)"

text \<open>Conversion of a non-negative number to an integer, and comparison with an integer.\<close>

definition whole :: "int \<Rightarrow> int \<Rightarrow> int" where
  "whole m e = (if 0 \<le> e then m * 2 ^ nat e else m div 2 ^ nat (- e))"

fun exceeds :: "double \<Rightarrow> int \<Rightarrow> bool" where
  "exceeds (Finite m e) n = (if 0 \<le> e then n < m * 2 ^ nat e else n * 2 ^ nat (- e) < m)"
| "exceeds Infinity n = True"
| "exceeds Minus_infinity n = False"

fun below :: "double \<Rightarrow> int \<Rightarrow> bool" where
  "below (Finite m e) n = (if 0 \<le> e then m * 2 ^ nat e < n else m < n * 2 ^ nat (- e))"
| "below Infinity n = False"
| "below Minus_infinity n = True"

text \<open>A conversion whose value is out of range is undefined.\<close>

definition to_integer :: "int \<Rightarrow> double \<Rightarrow> int option" where
  "to_integer hi v = (case v of Finite m e \<Rightarrow> if whole m e \<le> hi then Some (whole m e) else None | _ \<Rightarrow> None)"

text \<open>Rounding of a natural number to 53 bits, to the nearest and half to even.\<close>

fun excess :: "nat \<Rightarrow> nat" where
  "excess n = (if n < 2 ^ 53 then 0 else Suc (excess (n div 2)))"

declare excess.simps [simp del]

definition round_half_even :: "nat \<Rightarrow> nat \<Rightarrow> nat" where
  "round_half_even n k =
     (let q = n div 2 ^ k; r = n mod 2 ^ k in
      if 2 ^ k < 2 * r \<or> (2 * r = 2 ^ k \<and> odd q) then q + 1 else q)"

definition fraction :: "int \<Rightarrow> int \<Rightarrow> int" where
  "fraction m e = (if 0 \<le> e then 0 else m mod 2 ^ nat (- e))"

text \<open>
  \<open>(long)(modf(v, &v)*1e9)\<close>: the product of the fraction and \<open>1e9\<close> is rounded, then truncated.
\<close>

definition nanoseconds :: "int \<Rightarrow> int \<Rightarrow> int" where
  "nanoseconds m e =
     (let n = nat (fraction m e) * 10 ^ 9; k = excess n in
      whole (int (round_half_even n k)) (e + int k))"

text \<open>
  The time limit as \<open>timespec\<close>. \<open>LONG_MAX\<close> is compared as the double \<open>2 ^ 63\<close>, so that this value
  itself is converted, which is undefined.
\<close>

definition timespec_of :: "double \<Rightarrow> (int \<times> int) option" where
  "timespec_of v =
     (let nsec = (case v of Finite m e \<Rightarrow> nanoseconds m e | _ \<Rightarrow> 0);
          int_part = (case v of Finite m e \<Rightarrow> Finite (whole m e) 0 | _ \<Rightarrow> v) in
      do { sec \<leftarrow> (if exceeds int_part (2 ^ 63) then Some LONG_MAX else to_integer LONG_MAX int_part);
           Some (sec, nsec) })"

definition limit_of :: "double \<Rightarrow> int option" where
  "limit_of v = (if below v (2 ^ 63) then to_integer LONG_MAX v else Some LONG_MAX)"

section \<open>The request\<close>

record sandals_request =
  host_name :: bytes
  domain_name :: bytes
  uid :: int
  gid :: int
  chroot :: bytes
  mounts :: "nat option"
  cgroup :: "bytes option"
  cgroup_root :: "bytes option"
  cgroup_config :: "nat option"
  seccomp_policy :: "bytes option"
  va_randomize :: bool
  cmd :: "bytes list option"
  env :: "bytes list"
  work_dir :: bytes
  time_limit :: "int \<times> int"
  stdstreams_dest :: "bytes option"
  stdstreams_limit :: int
  pipes :: "nat option"
  copy_files :: "nat option"
  json_root :: "nat option"

text \<open>The vector of strings holds one pointer for each token of the array at most, and a null.\<close>

definition copy_str_array :: "libc \<Rightarrow> dom \<Rightarrow> nat option \<Rightarrow> nat \<Rightarrow> bytes list result" where
  "copy_str_array L d root array =
     do { e \<leftarrow> dnext d array;
          if \<not> malloc L (8 * (1 + (e - array))) then failed kStatusInternalError (Some (bytes_of ''malloc''))
          else andthen (jsget_array d root array) (\<lambda>_.
            JSARRAY_FOREACH d array
              (\<lambda>value vec. andthen (jsget_str d root value) (\<lambda>s.
                 if length vec < e - array then ok (vec @ [s]) else None)) []) }"

definition convert :: "'a option \<Rightarrow> 'a result" where
  "convert x = map_option Inr x"

definition request_member :: "libc \<Rightarrow> dom \<Rightarrow> nat option \<Rightarrow> bytes \<Rightarrow> nat \<Rightarrow>
    sandals_request \<times> nat option \<Rightarrow> (sandals_request \<times> nat option) result" where
  "request_member L d root key value = (\<lambda>(r, stdstreams).
     if key = bytes_of ''hostName'' then
       andthen (jsget_str d root value) (\<lambda>s. ok (r\<lparr>host_name := s\<rparr>, stdstreams))
     else if key = bytes_of ''domainName'' then
       andthen (jsget_str d root value) (\<lambda>s. ok (r\<lparr>domain_name := s\<rparr>, stdstreams))
     else if key = bytes_of ''uid'' then
       andthen (jsget_udouble L d root value) (\<lambda>v.
         if exceeds v INT32_MAX then jserror d root value (bytes_of ''Value too big'')
         else andthen (convert (to_integer INT32_MAX v)) (\<lambda>n. ok (r\<lparr>uid := n\<rparr>, stdstreams)))
     else if key = bytes_of ''gid'' then
       andthen (jsget_udouble L d root value) (\<lambda>v.
         if exceeds v INT32_MAX then jserror d root value (bytes_of ''Value too big'')
         else andthen (convert (to_integer INT32_MAX v)) (\<lambda>n. ok (r\<lparr>gid := n\<rparr>, stdstreams)))
     else if key = bytes_of ''chroot'' then
       andthen (jsget_str d root value) (\<lambda>s. ok (r\<lparr>chroot := s\<rparr>, stdstreams))
     else if key = bytes_of ''mounts'' then
       andthen (jsget_array d root value) (\<lambda>t. ok (r\<lparr>mounts := Some t\<rparr>, stdstreams))
     else if key = bytes_of ''cgroup'' then
       andthen (jsget_str d root value) (\<lambda>s. ok (r\<lparr>cgroup := Some s\<rparr>, stdstreams))
     else if key = bytes_of ''cgroupRoot'' then
       andthen (jsget_str d root value) (\<lambda>s. ok (r\<lparr>cgroup_root := Some s\<rparr>, stdstreams))
     else if key = bytes_of ''cgroupConfig'' then
       andthen (jsget_object d root value) (\<lambda>t. ok (r\<lparr>cgroup_config := Some t\<rparr>, stdstreams))
     else if key = bytes_of ''seccompPolicy'' then
       andthen (jsget_str d root value) (\<lambda>s. ok (r\<lparr>seccomp_policy := Some s\<rparr>, stdstreams))
     else if key = bytes_of ''vaRandomize'' then
       andthen (jsget_bool d root value) (\<lambda>b. ok (r\<lparr>va_randomize := b\<rparr>, stdstreams))
     else if key = bytes_of ''cmd'' then
       andthen (copy_str_array L d root value) (\<lambda>v. ok (r\<lparr>cmd := Some v\<rparr>, stdstreams))
     else if key = bytes_of ''env'' then
       andthen (copy_str_array L d root value) (\<lambda>v. ok (r\<lparr>env := v\<rparr>, stdstreams))
     else if key = bytes_of ''workDir'' then
       andthen (jsget_str d root value) (\<lambda>s. ok (r\<lparr>work_dir := s\<rparr>, stdstreams))
     else if key = bytes_of ''timeLimit'' then
       andthen (jsget_udouble L d root value) (\<lambda>v.
         andthen (convert (timespec_of v)) (\<lambda>t. ok (r\<lparr>time_limit := t\<rparr>, stdstreams)))
     else if key = bytes_of ''stdStreams'' then
       andthen (jsget_object d root value) (\<lambda>t. ok (r, Some t))
     else if key = bytes_of ''pipes'' then
       andthen (jsget_array d root value) (\<lambda>t. ok (r\<lparr>pipes := Some t\<rparr>, stdstreams))
     else if key = bytes_of ''copyFiles'' then
       andthen (jsget_array d root value) (\<lambda>t. ok (r\<lparr>copy_files := Some t\<rparr>, stdstreams))
     else jsunknown d root value)"

definition stdstreams_member :: "libc \<Rightarrow> dom \<Rightarrow> nat option \<Rightarrow> bytes \<Rightarrow> nat \<Rightarrow>
    sandals_request \<Rightarrow> sandals_request result" where
  "stdstreams_member L d root key value r =
     (if key = bytes_of ''dest'' then
        andthen (jsget_str d root value) (\<lambda>s. ok (r\<lparr>stdstreams_dest := Some s\<rparr>))
      else if key = bytes_of ''limit'' then
        andthen (jsget_udouble L d root value) (\<lambda>v.
          andthen (convert (limit_of v)) (\<lambda>n. ok (r\<lparr>stdstreams_limit := n\<rparr>)))
      else jsunknown d root value)"

definition parse_stdstreams :: "libc \<Rightarrow> dom \<Rightarrow> nat option \<Rightarrow> nat option \<Rightarrow> sandals_request \<Rightarrow> sandals_request result" where
  "parse_stdstreams L d root stdstreams r =
     (case stdstreams of None \<Rightarrow> ok r
      | Some t \<Rightarrow> andthen (JSOBJECT_FOREACH d t (stdstreams_member L d root) r) (\<lambda>r.
          if stdstreams_dest r = None then jserror d root t (bytes_of '''dest' missing'') else ok r))"

definition request_parse :: "libc \<Rightarrow> dom \<Rightarrow> nat \<Rightarrow> sandals_request \<Rightarrow> sandals_request result" where
  "request_parse L d root r =
     andthen (jsget_object d None root) (\<lambda>t.
     andthen (JSOBJECT_FOREACH d root (request_member L d (Some root)) (r\<lparr>json_root := Some t\<rparr>, None)) (\<lambda>(r, stdstreams).
     andthen (parse_stdstreams L d (Some root) stdstreams r) (\<lambda>r.
       if cmd r = None \<or> cmd r = Some []
       then failed kStatusRequestInvalid (Some (bytes_of '''cmd' missing or empty'')) else ok r)))"


section \<open>Receiving\<close>

text \<open>The buffer is doubled when less than half a \<open>PIPE_BUF\<close> is left of it.\<close>

primrec read_loop :: "nat \<Rightarrow> libc \<Rightarrow> nat \<Rightarrow> bytes \<Rightarrow> bytes io" where
  "read_loop 0 L cap data = Waiting"
| "read_loop (Suc n) L cap data =
     (let full = (cap - length data \<le> PIPE_BUF div 2);
          cap' = (if full then (if cap \<noteq> 0 then 2 * cap else PIPE_BUF) else cap) in
      if full \<and> \<not> malloc L cap' then fails kStatusInternalError (bytes_of ''malloc'')
      else Sys (File (Read STDIN_FILENO (cap' - length data - 1))) (\<lambda>a. case a of
          Err e \<Rightarrow> if e = EINTR then read_loop n L cap' data
                   else fails kStatusInternalError (bytes_of ''Reading request: '' @ strerror e)
        | Data d \<Rightarrow> if d = [] then Returns data else read_loop n L cap' (data @ d)
        | _ \<Rightarrow> Undefined))"

text \<open>Parsing; new tokens of an enlarged array are not initialized.\<close>

abbreviation "TOKEN_MIN \<equiv> (64 :: nat)"

partial_function (option) parse_loop :: "libc \<Rightarrow> jstr_parser_t \<Rightarrow> bytes \<Rightarrow> tokens \<Rightarrow> (int \<times> bytes \<times> tokens) result" where
  "parse_loop L parser str ts =
     do { (rc, parser', str', ts') \<leftarrow> jstr_parse parser str ts;
          if rc \<noteq> JSTR_NOMEM then ok (rc, str', ts')
          else let count = (if ts' \<noteq> [] then 2 * length ts' else TOKEN_MIN) in
            if \<not> malloc L (16 * count) then failed kStatusInternalError (Some (bytes_of ''malloc''))
            else parse_loop L parser' str' (ts' @ replicate (count - length ts') None) }"

declare parse_loop.simps [code]

definition request_text :: "libc \<Rightarrow> bytes \<Rightarrow> sandals_request \<Rightarrow> (sandals_request \<times> dom) result" where
  "request_text L data r =
     andthen (parse_loop L jstr_init (data @ [0]) []) (\<lambda>(rc, str, ts).
       if rc < 0 \<or> int (length data) \<noteq> rc then failed kStatusRequestInvalid None
       else let d = \<lparr>dtext = str, dtokens = ts\<rparr> in
         andthen (request_parse L d 0 r) (\<lambda>r. ok (r, d)))"

definition request_recv :: "nat \<Rightarrow> libc \<Rightarrow> sandals_request \<Rightarrow> (sandals_request \<times> dom) io" where
  "request_recv n L r = bind_io (read_loop n L 0 []) (\<lambda>data. lift_io (request_text L data r))"


text \<open>The request that \<open>main\<close> starts from.\<close>

definition default_request :: sandals_request where
  "default_request =
     \<lparr>host_name = bytes_of ''sandals'', domain_name = bytes_of ''sandals'', uid = 0, gid = 0, chroot = bytes_of ''/'',
      mounts = None, cgroup = None, cgroup_root = None, cgroup_config = None, seccomp_policy = None, va_randomize = True,
      cmd = None, env = [], work_dir = bytes_of ''/'', time_limit = (LONG_MAX, 0), stdstreams_dest = None,
      stdstreams_limit = LONG_MAX, pipes = None, copy_files = None, json_root = None\<rparr>"

end
