(* ===== verification/Json_Dom.thy ===== *)
theory Json_Dom
  imports Jshelper
begin

text \<open>
  What the access functions promise of a token array that describes a JSON value: the loops run
  over the elements and members of the value, the getters return its contents or the error with
  the path to it.
\<close>

section \<open>Positions\<close>

fun json_type :: "json \<Rightarrow> jstr_type_t" where
  "json_type (JObject _) = JSTR_OBJECT"
| "json_type (JArray _) = JSTR_ARRAY"
| "json_type (JString _) = JSTR_STRING"
| "json_type (JNumber _) = JSTR_NUMBER"
| "json_type JTrue = JSTR_TRUE"
| "json_type JFalse = JSTR_FALSE"
| "json_type JNull = JSTR_NULL"

text \<open>The elements and the members of a value whose tokens start at \<open>i\<close>, with their positions.\<close>

fun items_from :: "nat \<Rightarrow> json list \<Rightarrow> (nat \<times> json) list" where
  "items_from i [] = []"
| "items_from i (v # vs) = (i, v) # items_from (i + jsize v) vs"

fun members_from :: "nat \<Rightarrow> (nat list \<times> json) list \<Rightarrow> (bytes \<times> nat \<times> json) list" where
  "members_from i [] = []"
| "members_from i ((k, v) # ms) = (utf8s k, i + 1, v) # members_from (i + 1 + jsize v) ms"

definition items :: "nat \<Rightarrow> json list \<Rightarrow> (nat \<times> json) list" where
  "items i vs = items_from (i + 1) vs"

definition members :: "nat \<Rightarrow> (nat list \<times> json) list \<Rightarrow> (bytes \<times> nat \<times> json) list" where
  "members i ms = members_from (i + 1) ms"

primrec fold_result :: "('x \<Rightarrow> 's \<Rightarrow> 's result) \<Rightarrow> 'x list \<Rightarrow> 's \<Rightarrow> 's result" where
  "fold_result f [] s = ok s"
| "fold_result f (x # xs) s = andthen (f x s) (fold_result f xs)"

lemma fold_result_append: "fold_result f (xs @ ys) s = andthen (fold_result f xs s) (fold_result f ys)"
  by (induction xs arbitrary: s) (simp, auto simp: andthen_def split: option.splits sum.splits)

lemma fold_result_cong:
  "(\<And>x s. x \<in> set xs \<Longrightarrow> f x s = g x s) \<Longrightarrow> fold_result f xs s = fold_result g xs s"
  by (induction xs arbitrary: s) (simp, auto simp: andthen_def split: option.splits sum.splits)

section \<open>The interface of a parsed text\<close>

locale json_tokens =
  fixes kind :: "nat \<Rightarrow> jstr_type_t option" and after :: "nat \<Rightarrow> nat option"
    and str :: "nat \<Rightarrow> bytes option" and rep :: "nat \<Rightarrow> json \<Rightarrow> bool"
  assumes rep_kind: "rep i v \<Longrightarrow> kind i = Some (json_type v)"
    and rep_after: "rep i v \<Longrightarrow> after i = Some (i + jsize v)"
    and rep_string: "rep i (JString cps) \<Longrightarrow> str i = Some (utf8s cps)"
    and rep_number: "rep i (JNumber t) \<Longrightarrow> str i = Some t"
    and rep_array: "rep i (JArray vs) \<Longrightarrow> (j, v) \<in> set (items i vs) \<Longrightarrow> rep j v"
    and rep_object: "rep i (JObject ms) \<Longrightarrow> (k, j, v) \<in> set (members i ms) \<Longrightarrow> rep j v \<and> str (j - 1) = Some k"
begin

lemma array_loop:
  "(\<And>j v. (j, v) \<in> set (items_from i vs) \<Longrightarrow> rep j v) \<Longrightarrow> after a = Some (i + isize vs) \<Longrightarrow>
     array_foreach after a body i s = fold_result (\<lambda>(j, v). body j) (items_from i vs) s"
proof (induction vs arbitrary: i s)
  case Nil
  then show ?case by (simp add: array_foreach.simps)
next
  case (Cons v vs)
  have "rep i v" using Cons.prems(1) by simp
  then have v: "after i = Some (i + jsize v)" by (rule rep_after)
  have IH: "array_foreach after a body (i + jsize v) s = fold_result (\<lambda>(j, v). body j) (items_from (i + jsize v) vs) s" for s
    using Cons.IH [of "i + jsize v" s] Cons.prems by (simp add: add.assoc)
  have "0 < jsize v" by (rule jsize_pos)
  then show ?case using Cons.prems(2) v IH
    by (subst array_foreach.simps) (auto simp: andthen_def split: option.splits sum.splits)
qed

theorem array_foreach_items:
  assumes "rep a (JArray vs)"
  shows "array_foreach after a body (a + 1) s = fold_result (\<lambda>(j, v). body j) (items a vs) s"
  unfolding items_def using rep_array [OF assms] rep_after [OF assms] by (intro array_loop) (auto simp: items_def)

lemma object_loop:
  "(\<And>k j v. (k, j, v) \<in> set (members_from i ms) \<Longrightarrow> rep j v \<and> str (j - 1) = Some k) \<Longrightarrow>
     after a = Some (i + msize ms) \<Longrightarrow>
     object_foreach after str a body (i + 1) s = fold_result (\<lambda>(k, j, v). body k j) (members_from i ms) s"
proof (induction ms arbitrary: i s)
  case Nil
  then show ?case by (simp add: object_foreach.simps)
next
  case (Cons m ms)
  obtain k v where m: "m = (k, v)" by (cases m)
  have "rep (i + 1) v" and k: "str i = Some (utf8s k)" using Cons.prems(1) [of "utf8s k" "i + 1" v] m by auto
  then have v: "after (i + 1) = Some (i + 1 + jsize v)" by (intro rep_after)
  have IH: "object_foreach after str a body (i + 1 + jsize v + 1) s =
      fold_result (\<lambda>(k, j, v). body k j) (members_from (i + 1 + jsize v) ms) s" for s
  proof (rule Cons.IH)
    fix k' j v'
    assume "(k', j, v') \<in> set (members_from (i + 1 + jsize v) ms)"
    then show "rep j v' \<and> str (j - 1) = Some k'" using Cons.prems(1) [of k' j v'] m by simp
  next
    show "after a = Some (i + 1 + jsize v + msize ms)" using Cons.prems(2) m by simp
  qed
  have "0 < jsize v" by (rule jsize_pos)
  then show ?case using Cons.prems(2) v k IH m
    by (subst object_foreach.simps) (auto simp: andthen_def split: option.splits sum.splits)
qed

theorem object_foreach_members:
  assumes "rep a (JObject ms)"
  shows "object_foreach after str a body (a + 2) s = fold_result (\<lambda>(k, j, v). body k j) (members a ms) s"
  using object_loop [of "a + 1" ms a body s] rep_object [OF assms] rep_after [OF assms] by (simp add: members_def)

end


section \<open>The tokens of a value\<close>

text \<open>A value as it comes from a text: no string of it has a null character.\<close>

fun proper :: "json \<Rightarrow> bool" where
  "proper (JObject ms) \<longleftrightarrow> (\<forall>(k, v) \<in> set ms. text_of k \<and> proper v)"
| "proper (JArray vs) \<longleftrightarrow> (\<forall>v \<in> set vs. proper v)"
| "proper (JString cps) \<longleftrightarrow> text_of cps"
| "proper (JNumber t) \<longleftrightarrow> 0 \<notin> set t"
| "proper _ \<longleftrightarrow> True"

lemma json_proper:
  "json_text v t \<Longrightarrow> proper v"
  "elements_text vs t \<Longrightarrow> \<forall>v \<in> set vs. proper v"
  "members_text ms t \<Longrightarrow> \<forall>(k, v) \<in> set ms. text_of k \<and> proper v"
  by (induction rule: json_text_elements_text_members_text.inducts)
     (auto simp: string_text_scalar number_no_nul)

definition rep :: "dom \<Rightarrow> nat \<Rightarrow> json \<Rightarrow> bool" where
  "rep d i v \<longleftrightarrow> proper v \<and> (\<exists>n. describes (dtext d) n (dtokens d) i v)"

lemma cstring_c_str:
  assumes "cstring s n a t" and "0 \<notin> set t"
  shows "c_str s a = Some t"
proof -
  have "drop a s = t @ 0 # drop (length t + 1) (drop a s)"
    using append_take_drop_id [of "length t + 1" "drop a s"] assms(1) by (simp add: cstring_def)
  then obtain u where u: "drop a s = t @ 0 # u" by blast
  have "takeWhile (\<lambda>c. c \<noteq> 0) (t @ 0 # u) = t"
    using assms(2) by (induction t) auto
  then show ?thesis using u by (simp add: c_str_def)
qed

lemma utf8_no_nul:
  assumes "scalar cp" and "cp \<noteq> 0"
  shows "0 \<notin> set (utf8 cp)"
proof (cases "cp < 0x80")
  case True
  then have "unat (of_nat cp :: u8) = cp" by simp
  then have "of_nat cp \<noteq> (0 :: u8)" using assms(2) by fastforce
  then show ?thesis using True by (simp add: utf8_def)
next
  case False
  then obtain c bs where "utf8 cp = c # bs" "lead c" "\<forall>c \<in> set bs. cont c"
    using utf8_lead [OF assms(1)] by (metis not_le)
  then show ?thesis by (auto simp: cont_def)
qed

lemma text_no_nul: "text_of cps \<Longrightarrow> 0 \<notin> set (utf8s cps)"
  by (induction cps) (auto simp: text_of_def utf8_no_nul)

lemma leaf_access:
  assumes "leaf (dtext d) n (dtokens d) i type t"
  shows "dtype d i = Some type" and "type \<notin> {JSTR_OBJECT, JSTR_ARRAY} \<Longrightarrow> dnext d i = Some (i + 1)"
    and "0 \<notin> set t \<Longrightarrow> dstr d i = Some t"
  using assms cstring_c_str by (auto simp: leaf_def dtype_def dnext_def dstr_def jstr_type_def jstr_next_def jstr_value_def)

lemma describes_items_from:
  "describes_items s n ts i vs \<Longrightarrow> (j, v) \<in> set (items_from i vs) \<Longrightarrow> describes s n ts j v \<and> v \<in> set vs"
  by (induction vs arbitrary: i) auto

lemma describes_members_from:
  "describes_members s n ts i ms \<Longrightarrow> (k, j, v) \<in> set (members_from i ms) \<Longrightarrow>
     describes s n ts j v \<and> leaf s n ts (j - 1) JSTR_STRING k \<and> (\<exists>k'. (k', v) \<in> set ms \<and> k = utf8s k')"
  by (induction ms arbitrary: i) (auto, blast+)

interpretation dom_tokens: json_tokens "dtype d" "dnext d" "dstr d" "rep d" for d
proof
  fix i j k v cps t vs ms
  show "rep d i v \<Longrightarrow> dtype d i = Some (json_type v)"
    by (cases v) (auto simp: rep_def leaf_access dtype_def jstr_type_def dest: leaf_access(1))
  show "rep d i v \<Longrightarrow> dnext d i = Some (i + jsize v)"
    by (cases v) (auto simp: rep_def dnext_def jstr_next_def dest!: leaf_access(2))
  show "rep d i (JString cps) \<Longrightarrow> dstr d i = Some (utf8s cps)"
    using leaf_access(3) [OF _ text_no_nul] by (auto simp: rep_def)
  show "rep d i (JNumber t) \<Longrightarrow> dstr d i = Some t"
    using leaf_access(3) by (auto simp: rep_def)
  show "rep d i (JArray vs) \<Longrightarrow> (j, v) \<in> set (items i vs) \<Longrightarrow> rep d j v"
    by (auto simp: rep_def items_def dest!: describes_items_from)
  show "rep d i (JObject ms) \<Longrightarrow> (k, j, v) \<in> set (members i ms) \<Longrightarrow> rep d j v \<and> dstr d (j - 1) = Some k"
  proof -
    assume o: "rep d i (JObject ms)" and m: "(k, j, v) \<in> set (members i ms)"
    from o obtain n where n: "describes_members (dtext d) n (dtokens d) (i + 1) ms" by (auto simp: rep_def)
    from describes_members_from [OF n m [unfolded members_def]] obtain k' where k': "(k', v) \<in> set ms" "k = utf8s k'"
      "describes (dtext d) n (dtokens d) j v" "leaf (dtext d) n (dtokens d) (j - 1) JSTR_STRING k" by blast
    have "text_of k' \<and> proper v" using o k'(1) by (auto simp: rep_def)
    then show ?thesis using k' leaf_access(3) [OF k'(4)] text_no_nul by (auto simp: rep_def)
  qed
qed


section \<open>The path in an error\<close>

text \<open>
  The value \<open>w\<close> at \<open>j\<close> is part of the value \<open>v\<close> at \<open>i\<close>; the path to it extends \<open>msg\<close> to \<open>path\<close>.
\<close>

inductive located :: "nat \<Rightarrow> json \<Rightarrow> nat \<Rightarrow> json \<Rightarrow> bytes \<Rightarrow> bytes \<Rightarrow> bool" where
  located_here: "located i v i v msg msg"
| located_member: "(k, c, u) \<in> set (members i ms) \<Longrightarrow>
    located c u j w (msg @ (if msg = [] then [] else [0x2e]) @ k) path \<Longrightarrow> located i (JObject ms) j w msg path"
| located_item: "n < length vs \<Longrightarrow> items i vs ! n = (c, u) \<Longrightarrow>
    located c u j w (msg @ [0x5b] @ decimal n @ [0x5d]) path \<Longrightarrow> located i (JArray vs) j w msg path"

lemma items_from_bounds:
  "(c, u) \<in> set (items_from i vs) \<Longrightarrow> i \<le> c \<and> c + jsize u \<le> i + isize vs"
  by (induction vs arbitrary: i) (auto, force+)

lemma members_from_bounds:
  "(k, c, u) \<in> set (members_from i ms) \<Longrightarrow> i < c \<and> c + jsize u \<le> i + msize ms"
  by (induction ms arbitrary: i) (auto, force+)

lemma length_items_from [simp]: "length (items_from i vs) = length vs"
  by (induction vs arbitrary: i) auto

lemma located_bounds:
  "located i v j w msg path \<Longrightarrow> i \<le> j \<and> j + jsize w \<le> i + jsize v"
proof (induction rule: located.induct)
  case (located_member k c u i ms j w msg path)
  then show ?case using members_from_bounds [of k c u "i + 1" ms] by (simp add: members_def)
next
  case (located_item n vs i c u j w msg path)
  then have "(c, u) \<in> set (items_from (i + 1) vs)" by (metis items_def length_items_from nth_mem)
  then show ?case using items_from_bounds [of c u "i + 1" vs] located_item by simp
qed simp

lemma located_extends: "located i v j w msg path \<Longrightarrow> prefix msg path"
  by (induction rule: located.induct) (auto simp: append_prefixD)

lemma find_member_at:
  "(k, c, u) \<in> set (members_from i ms) \<Longrightarrow> (\<And>k j v. (k, j, v) \<in> set (members_from i ms) \<Longrightarrow> rep d j v \<and> dstr d (j - 1) = Some k) \<Longrightarrow>
     dnext d root = Some (i + msize ms) \<Longrightarrow> c \<le> value \<Longrightarrow> value < c + jsize u \<Longrightarrow>
     find_member d root (i + 1) value = Some (Some (k, c))"
proof (induction ms arbitrary: i)
  case (Cons m ms)
  obtain k' v where m: "m = (k', v)" by (cases m)
  have r: "rep d (i + 1) v" "dstr d i = Some (utf8s k')" using Cons.prems(2) [of "utf8s k'" "i + 1" v] m by auto
  have n: "dnext d (i + 1) = Some (i + 1 + jsize v)" using r(1) by (rule dom_tokens.rep_after)
  show ?case
  proof (cases "(k, c, u) = (utf8s k', i + 1, v)")
    case True
    then show ?thesis using Cons.prems(3,4,5) r n m by (subst find_member.simps) (simp add: inside_def)
  next
    case False
    then have c: "(k, c, u) \<in> set (members_from (i + 1 + jsize v) ms)" using Cons.prems(1) m by auto
    then have "i + 1 + jsize v < c" using members_from_bounds by blast
    then have "inside d (i + 1) value = Some False" using n Cons.prems(4) by (simp add: inside_def)
    moreover have "find_member d root (i + 1 + jsize v + 1) value = Some (Some (k, c))"
    proof (rule Cons.IH [OF c])
      fix k'' j' v''
      assume "(k'', j', v'') \<in> set (members_from (i + 1 + jsize v) ms)"
      then show "rep d j' v'' \<and> dstr d (j' - 1) = Some k''" using Cons.prems(2) [of k'' j' v''] m by simp
    qed (use Cons.prems m in auto)
    ultimately show ?thesis using Cons.prems(3) r n m jsize_pos [of v] by (subst find_member.simps) simp
  qed
qed simp

lemma find_item_at:
  "n < length vs \<Longrightarrow> items_from i vs ! n = (c, u) \<Longrightarrow> (\<And>j v. (j, v) \<in> set (items_from i vs) \<Longrightarrow> rep d j v) \<Longrightarrow>
     dnext d root = Some (i + isize vs) \<Longrightarrow> c \<le> value \<Longrightarrow> value < c + jsize u \<Longrightarrow>
     find_item d root i idx value = Some (Some (idx + n, c))"
proof (induction vs arbitrary: i idx n)
  case (Cons v vs)
  have r: "rep d i v" using Cons.prems(3) by simp
  have nx: "dnext d i = Some (i + jsize v)" using r by (rule dom_tokens.rep_after)
  have pos: "0 < jsize v" by (rule jsize_pos)
  show ?case
  proof (cases n)
    case 0
    then show ?thesis using Cons.prems(2,4,5,6) nx pos by (subst find_item.simps) (simp add: inside_def)
  next
    case (Suc n')
    then have c: "n' < length vs" "items_from (i + jsize v) vs ! n' = (c, u)" using Cons.prems(1,2) by auto
    then have "(c, u) \<in> set (items_from (i + jsize v) vs)" by (metis length_items_from nth_mem)
    then have "i + jsize v \<le> c" using items_from_bounds by blast
    then have "inside d i value = Some False" using nx Cons.prems(5) by (simp add: inside_def)
    moreover have "find_item d root (i + jsize v) (idx + 1) value = Some (Some (idx + 1 + n', c))"
      using Cons.prems by (intro Cons.IH [OF c]) auto
    ultimately show ?thesis using Cons.prems(4) nx pos Suc by (subst find_item.simps) simp
  qed
qed simp


lemma error_path_located:
  "located i v j w msg path \<Longrightarrow> rep d i v \<Longrightarrow>
     \<exists>msg'. error_path d i j msg = Some msg' \<and> (if length path < PIPE_BUF then msg' = path else PIPE_BUF \<le> length msg')"
proof (induction rule: located.induct)
  case (located_here i v msg)
  then show ?case by (simp add: error_path.simps)
next
  case (located_member k c u i ms j w msg path)
  show ?case
  proof (cases "length msg < PIPE_BUF")
    case True
    have b: "c \<le> j" "j < c + jsize u" "i < c"
      using located_bounds [OF located_member(2)] jsize_pos [of w] members_from_bounds [of k c u "i + 1" ms] located_member(1)
      by (auto simp: members_def)
    have "find_member d i (i + 1 + 1) j = Some (Some (k, c))"
      using located_member(1) dom_tokens.rep_object [OF located_member(4)] dom_tokens.rep_after [OF located_member(4)] b
      by (intro find_member_at [where u = u]) (auto simp: members_def)
    moreover have "rep d c u" using dom_tokens.rep_object [OF located_member(4,1)] ..
    ultimately show ?thesis
      using located_member(3) dom_tokens.rep_kind [OF located_member(4)] True b
      by (subst error_path.simps) simp
  next
    case False
    then show ?thesis
      using located_extends [OF located_member(2)] prefix_length_le [of _ path] by (subst error_path.simps) fastforce
  qed
next
  case (located_item n vs i c u j w msg path)
  show ?case
  proof (cases "length msg < PIPE_BUF")
    case True
    have c: "(c, u) \<in> set (items i vs)" using located_item(1,2) by (metis items_def length_items_from nth_mem)
    have b: "c \<le> j" "j < c + jsize u" "i < c"
      using located_bounds [OF located_item(3)] jsize_pos [of w] items_from_bounds [of c u "i + 1" vs] c
      by (auto simp: items_def)
    have "find_item d i (i + 1) 0 j = Some (Some (0 + n, c))"
      using located_item(1,2) dom_tokens.rep_array [OF located_item(5)] dom_tokens.rep_after [OF located_item(5)] b
      by (intro find_item_at [where u = u]) (auto simp: items_def)
    moreover have "rep d c u" using dom_tokens.rep_array [OF located_item(5) c] .
    ultimately show ?thesis
      using located_item(4) dom_tokens.rep_kind [OF located_item(5)] True b
      by (subst error_path.simps) simp
  next
    case False
    then show ?thesis
      using located_extends [OF located_item(3)] prefix_length_le [of _ path] by (subst error_path.simps) fastforce
  qed
qed

text \<open>The error with a path: too long a text gives the status \<open>responseTooBig\<close>.\<close>

definition error_text :: "bytes \<Rightarrow> bytes \<Rightarrow> bytes" where
  "error_text path text = (if path = [] then text else path @ [0x3a, 0x20] @ text)"

definition invalid :: "bytes \<Rightarrow> bytes \<Rightarrow> 'a result" where
  "invalid path text =
     (if length (error_text path text) < PIPE_BUF then failed kStatusRequestInvalid (Some (error_text path text))
      else failed kStatusResponseTooBig None)"

lemma jserror_located:
  assumes "rep d i v" and "located i v j w [] path" and "2 \<le> length text"
  shows "jserror d (Some i) j text = invalid path text"
proof -
  obtain msg where "error_path d i j [] = Some msg"
    "if length path < PIPE_BUF then msg = path else PIPE_BUF \<le> length msg"
    using error_path_located [OF assms(2,1)] by blast
  then show ?thesis using assms(3) by (auto simp: jserror_def invalid_def error_text_def Let_def split: if_splits)
qed


section \<open>Contents of values\<close>

text \<open>What the getters return for a value with its position and its path.\<close>

definition get_object :: "bytes \<Rightarrow> nat \<Rightarrow> json \<Rightarrow> nat result" where
  "get_object path j w = (case w of JObject _ \<Rightarrow> ok j | _ \<Rightarrow> invalid path (bytes_of ''Expecting an object''))"

definition get_array :: "bytes \<Rightarrow> nat \<Rightarrow> json \<Rightarrow> nat result" where
  "get_array path j w = (case w of JArray _ \<Rightarrow> ok j | _ \<Rightarrow> invalid path (bytes_of ''Expecting an array''))"

definition get_str :: "bytes \<Rightarrow> json \<Rightarrow> bytes result" where
  "get_str path w = (case w of JString cps \<Rightarrow> ok (utf8s cps) | _ \<Rightarrow> invalid path (bytes_of ''Expecting a string''))"

definition get_udouble :: "libc \<Rightarrow> bytes \<Rightarrow> json \<Rightarrow> double result" where
  "get_udouble L path w =
     (case w of JNumber t \<Rightarrow> if negative (strtod L t) then invalid path (bytes_of ''Expecting non-negative number'')
                            else ok (strtod L t)
      | _ \<Rightarrow> invalid path (bytes_of ''Expecting non-negative number''))"

definition get_bool :: "bytes \<Rightarrow> json \<Rightarrow> bool result" where
  "get_bool path w =
     (case w of JTrue \<Rightarrow> ok True | JFalse \<Rightarrow> ok False | _ \<Rightarrow> invalid path (bytes_of ''Expecting a boolean''))"

lemma located_rep: "located i v j w msg path \<Longrightarrow> rep d i v \<Longrightarrow> rep d j w"
proof (induction rule: located.induct)
  case (located_member k c u i ms j w msg path)
  then show ?case using dom_tokens.rep_object [of d i ms k c u] by blast
next
  case (located_item n vs i c u j w msg path)
  then have "(c, u) \<in> set (items i vs)" by (metis items_def length_items_from nth_mem)
  then show ?case using located_item dom_tokens.rep_array [of d i vs c u] by blast
qed simp

lemma getters:
  assumes "rep d i v" and "located i v j w [] path"
  shows "jsget_object d (Some i) j = get_object path j w"
    and "jsget_array d (Some i) j = get_array path j w"
    and "jsget_str d (Some i) j = get_str path w"
    and "jsget_udouble L d (Some i) j = get_udouble L path w"
    and "jsget_bool d (Some i) j = get_bool path w"
    and "jsunknown d (Some i) j = invalid path (bytes_of ''Unknown key'')"
proof -
  note [simp] = jserror_located [OF assms] dom_tokens.rep_kind [OF located_rep [OF assms(2,1)]] Let_def
  have r: "rep d j w" using located_rep [OF assms(2,1)] .
  show "jsget_object d (Some i) j = get_object path j w" by (cases w) (simp_all add: jsget_object_def get_object_def)
  show "jsget_array d (Some i) j = get_array path j w" by (cases w) (simp_all add: jsget_array_def get_array_def)
  show "jsget_str d (Some i) j = get_str path w"
    using r dom_tokens.rep_string by (cases w) (simp_all add: jsget_str_def get_str_def)
  show "jsget_udouble L d (Some i) j = get_udouble L path w"
    using r dom_tokens.rep_number by (cases w) (simp_all add: jsget_udouble_def get_udouble_def)
  show "jsget_bool d (Some i) j = get_bool path w" by (cases w) (simp_all add: jsget_bool_def get_bool_def)
  show "jsunknown d (Some i) j = invalid path (bytes_of ''Unknown key'')" by (simp add: jsunknown_def)
qed

end
