(* ===== verification/Request_Spec.thy ===== *)
theory Request_Spec
  imports Request Json_Dom
begin

text \<open>
  Which requests are accepted and what they mean: a request is the object's last value for each
  key, all members being of a known key and of the right type; otherwise the first error in the
  order of the text is reported with its path.
\<close>

declare bytes_of_simps(1,2) [simp del]

lemma bytes_of_eq [simp]: "bytes_of s = bytes_of t \<longleftrightarrow> s = t"
proof -
  have "inj (\<lambda>c. of_nat (of_char c) :: u8)"
  proof (rule injI)
    fix a b :: char
    assume "(of_nat (of_char a) :: u8) = of_nat (of_char b)"
    then have "unat (of_nat (of_char a) :: u8) = unat (of_nat (of_char b) :: u8)" by simp
    then have "(of_char a :: nat) = of_char b" by simp
    then show "a = b" by simp
  qed
  then show ?thesis by (simp add: bytes_of_def inj_map_eq_map)
qed

section \<open>Errors of members\<close>

abbreviation "str_keys \<equiv> map bytes_of [''hostName'', ''domainName'', ''chroot'', ''cgroup'', ''cgroupRoot'',
  ''seccompPolicy'', ''workDir'']"
abbreviation "id_keys \<equiv> map bytes_of [''uid'', ''gid'']"
abbreviation "array_keys \<equiv> map bytes_of [''mounts'', ''pipes'', ''copyFiles'']"
abbreviation "object_keys \<equiv> map bytes_of [''cgroupConfig'', ''stdStreams'']"
abbreviation "vector_keys \<equiv> map bytes_of [''cmd'', ''env'']"

type_synonym problem = "(bytes \<times> bytes) option"

definition no_string :: "bytes \<Rightarrow> json \<Rightarrow> problem" where
  "no_string path v = (case v of JString _ \<Rightarrow> None | _ \<Rightarrow> Some (path, bytes_of ''Expecting a string''))"

definition no_array :: "bytes \<Rightarrow> json \<Rightarrow> problem" where
  "no_array path v = (case v of JArray _ \<Rightarrow> None | _ \<Rightarrow> Some (path, bytes_of ''Expecting an array''))"

definition no_object :: "bytes \<Rightarrow> json \<Rightarrow> problem" where
  "no_object path v = (case v of JObject _ \<Rightarrow> None | _ \<Rightarrow> Some (path, bytes_of ''Expecting an object''))"

definition no_bool :: "bytes \<Rightarrow> json \<Rightarrow> problem" where
  "no_bool path v = (if v \<in> {JTrue, JFalse} then None else Some (path, bytes_of ''Expecting a boolean''))"

definition no_udouble :: "libc \<Rightarrow> bytes \<Rightarrow> json \<Rightarrow> problem" where
  "no_udouble L path v =
     (case v of JNumber t \<Rightarrow> if negative (strtod L t) then Some (path, bytes_of ''Expecting non-negative number'') else None
      | _ \<Rightarrow> Some (path, bytes_of ''Expecting non-negative number''))"

definition no_id :: "libc \<Rightarrow> bytes \<Rightarrow> json \<Rightarrow> problem" where
  "no_id L path v =
     (case no_udouble L path v of Some e \<Rightarrow> Some e
      | None \<Rightarrow> (case v of JNumber t \<Rightarrow> if exceeds (strtod L t) INT32_MAX then Some (path, bytes_of ''Value too big'') else None
                | _ \<Rightarrow> None))"

primrec first_problem :: "('x \<Rightarrow> problem) \<Rightarrow> 'x list \<Rightarrow> problem" where
  "first_problem f [] = None"
| "first_problem f (x # xs) = (case f x of None \<Rightarrow> first_problem f xs | Some e \<Rightarrow> Some e)"

definition no_vector :: "bytes \<Rightarrow> json \<Rightarrow> problem" where
  "no_vector path v =
     (case v of JArray vs \<Rightarrow> first_problem (\<lambda>(n, w). no_string (path @ [0x5b] @ decimal n @ [0x5d]) w) (enumerate 0 vs)
      | _ \<Rightarrow> Some (path, bytes_of ''Expecting an array''))"

definition member_problem :: "libc \<Rightarrow> bytes \<Rightarrow> json \<Rightarrow> problem" where
  "member_problem L k v =
     (if k \<in> set str_keys then no_string k v
      else if k \<in> set id_keys then no_id L k v
      else if k \<in> set array_keys then no_array k v
      else if k \<in> set object_keys then no_object k v
      else if k \<in> set vector_keys then no_vector k v
      else if k = bytes_of ''vaRandomize'' then no_bool k v
      else if k = bytes_of ''timeLimit'' then no_udouble L k v
      else Some (k, bytes_of ''Unknown key''))"

definition stream_problem :: "libc \<Rightarrow> bytes \<Rightarrow> json \<Rightarrow> problem" where
  "stream_problem L k v =
     (let path = bytes_of ''stdStreams.'' @ k in
      if k = bytes_of ''dest'' then no_string path v
      else if k = bytes_of ''limit'' then no_udouble L path v
      else Some (path, bytes_of ''Unknown key''))"

section \<open>The meaning of a request\<close>

text \<open>The last value and its position for each key.\<close>

type_synonym vals = "bytes \<Rightarrow> (nat \<times> json) option"

definition last_values :: "(bytes \<times> nat \<times> json) list \<Rightarrow> vals" where
  "last_values M = map_of (rev M)"

definition str_at :: "vals \<Rightarrow> string \<Rightarrow> bytes option" where
  "str_at m key = (case m (bytes_of key) of Some (_, JString cps) \<Rightarrow> Some (utf8s cps) | _ \<Rightarrow> None)"

definition num_at :: "libc \<Rightarrow> vals \<Rightarrow> string \<Rightarrow> double option" where
  "num_at L m key = (case m (bytes_of key) of Some (_, JNumber t) \<Rightarrow> Some (strtod L t) | _ \<Rightarrow> None)"

definition token_at :: "vals \<Rightarrow> string \<Rightarrow> nat option" where
  "token_at m key = map_option fst (m (bytes_of key))"

fun strings :: "json \<Rightarrow> bytes list" where
  "strings (JArray vs) = map (\<lambda>v. case v of JString cps \<Rightarrow> utf8s cps | _ \<Rightarrow> []) vs"
| "strings _ = []"

definition strings_at :: "vals \<Rightarrow> string \<Rightarrow> bytes list option" where
  "strings_at m key = map_option (\<lambda>(j, v). strings v) (m (bytes_of key))"

definition bool_at :: "vals \<Rightarrow> string \<Rightarrow> bool option" where
  "bool_at m key = map_option (\<lambda>(j, v). v = JTrue) (m (bytes_of key))"

definition or_else :: "'a option \<Rightarrow> 'a \<Rightarrow> 'a" where
  "or_else x y = (case x of None \<Rightarrow> y | Some z \<Rightarrow> z)"

definition or_old :: "'a option \<Rightarrow> 'a option \<Rightarrow> 'a option" where
  "or_old x y = (case x of None \<Rightarrow> y | Some z \<Rightarrow> Some z)"

definition request_of :: "libc \<Rightarrow> nat \<Rightarrow> sandals_request \<Rightarrow> vals \<Rightarrow> sandals_request" where
  "request_of L root r m =
     \<lparr>host_name = or_else (str_at m ''hostName'') (host_name r),
      domain_name = or_else (str_at m ''domainName'') (domain_name r),
      uid = or_else (Option.bind (num_at L m ''uid'') (to_integer INT32_MAX)) (uid r),
      gid = or_else (Option.bind (num_at L m ''gid'') (to_integer INT32_MAX)) (gid r),
      chroot = or_else (str_at m ''chroot'') (chroot r),
      mounts = or_old (token_at m ''mounts'') (mounts r),
      cgroup = or_old (str_at m ''cgroup'') (cgroup r),
      cgroup_root = or_old (str_at m ''cgroupRoot'') (cgroup_root r),
      cgroup_config = or_old (token_at m ''cgroupConfig'') (cgroup_config r),
      seccomp_policy = or_old (str_at m ''seccompPolicy'') (seccomp_policy r),
      va_randomize = or_else (bool_at m ''vaRandomize'') (va_randomize r),
      cmd = or_old (strings_at m ''cmd'') (cmd r),
      env = or_else (strings_at m ''env'') (env r),
      work_dir = or_else (str_at m ''workDir'') (work_dir r),
      time_limit = or_else (Option.bind (num_at L m ''timeLimit'') timespec_of) (time_limit r),
      stdstreams_dest = stdstreams_dest r,
      stdstreams_limit = stdstreams_limit r,
      pipes = or_old (token_at m ''pipes'') (pipes r),
      copy_files = or_old (token_at m ''copyFiles'') (copy_files r),
      json_root = Some root\<rparr>"

definition with_streams :: "libc \<Rightarrow> vals \<Rightarrow> sandals_request \<Rightarrow> sandals_request" where
  "with_streams L m r = r\<lparr>stdstreams_dest := or_old (str_at m ''dest'') (stdstreams_dest r),
     stdstreams_limit := or_else (Option.bind (num_at L m ''limit'') limit_of) (stdstreams_limit r)\<rparr>"


definition request_spec :: "libc \<Rightarrow> nat \<Rightarrow> sandals_request \<Rightarrow> (nat list \<times> json) list \<Rightarrow> sandals_request result" where
  "request_spec L root r ms =
     (let m = last_values (members root ms); r1 = request_of L root r m in
      case first_problem (\<lambda>(k, j, v). member_problem L k v) (members root ms) of Some (path, text) \<Rightarrow> invalid path text
      | None \<Rightarrow>
        andthen
          (case m (bytes_of ''stdStreams'') of Some (j, JObject ss) \<Rightarrow>
             (let r2 = with_streams L (last_values (members j ss)) r1 in
              case first_problem (\<lambda>(k, j, v). stream_problem L k v) (members j ss) of Some (path, text) \<Rightarrow> invalid path text
              | None \<Rightarrow> if stdstreams_dest r2 = None then invalid (bytes_of ''stdStreams'') (bytes_of '''dest' missing'')
                       else ok r2)
           | _ \<Rightarrow> ok r1)
          (\<lambda>r. if cmd r = None \<or> cmd r = Some []
                then failed kStatusRequestInvalid (Some (bytes_of '''cmd' missing or empty'')) else ok r))"

section \<open>The parser of requests\<close>

lemma member_located: "(k, j, v) \<in> set (members i ms) \<Longrightarrow> located i (JObject ms) j v [] k"
  using located_member [of k j v i ms j v "[]" k] located_here by simp

lemma vector_loop:
  assumes "rep d root V" and "\<And>n c u. n < length vs \<Longrightarrow> items_from i vs ! n = (c, u) \<Longrightarrow>
      located root V c u [] (path @ [0x5b] @ decimal (idx + n) @ [0x5d])"
    and "length vec + length vs \<le> avail"
  shows "fold_result (\<lambda>(c, u) vec. andthen (jsget_str d (Some root) c) (\<lambda>s. if length vec < avail then ok (vec @ [s]) else None))
      (items_from i vs) vec =
    (case first_problem (\<lambda>(n, w). no_string (path @ [0x5b] @ decimal n @ [0x5d]) w) (enumerate idx vs) of
       Some (p, t) \<Rightarrow> invalid p t | None \<Rightarrow> ok (vec @ strings (JArray vs)))"
  using assms(2,3)
proof (induction vs arbitrary: i idx vec)
  case (Cons w vs)
  have "located root V i w [] (path @ [0x5b] @ decimal idx @ [0x5d])" using Cons.prems(1) [of 0 i w] by simp
  from getters(3) [OF assms(1) this]
  have g: "jsget_str d (Some root) i = get_str (path @ [0x5b] @ decimal idx @ [0x5d]) w" .
  have "fold_result (\<lambda>(c, u) vec. andthen (jsget_str d (Some root) c) (\<lambda>s. if length vec < avail then ok (vec @ [s]) else None))
      (items_from (i + jsize w) vs) (vec @ [s]) =
    (case first_problem (\<lambda>(n, w). no_string (path @ [0x5b] @ decimal n @ [0x5d]) w) (enumerate (Suc idx) vs) of
       Some (p, t) \<Rightarrow> invalid p t | None \<Rightarrow> ok ((vec @ [s]) @ strings (JArray vs)))" for s
  proof (rule Cons.IH)
    fix n c u
    assume "n < length vs" "items_from (i + jsize w) vs ! n = (c, u)"
    then show "located root V c u [] (path @ [0x5b] @ decimal (Suc idx + n) @ [0x5d])"
      using Cons.prems(1) [of "Suc n" c u] by simp
  qed (use Cons.prems(2) in simp)
  then show ?case using g Cons.prems(2)
    by (cases w) (simp_all add: get_str_def no_string_def invalid_def split: option.split)
qed simp

lemma andthen_invalid [simp]: "andthen (invalid p t) f = invalid p t"
  by (simp add: invalid_def)

lemma isize_length: "length vs \<le> isize vs"
proof (induction vs)
  case (Cons v vs)
  then show ?case using jsize_pos [of v] by simp
qed simp

lemma copy_str_array_spec:
  assumes "rep d root (JObject ms)" and "(k, j, v) \<in> set (members root ms)" and "\<forall>n. malloc L n"
  shows "copy_str_array L d (Some root) j =
    (case no_vector k v of Some (p, t) \<Rightarrow> invalid p t | None \<Rightarrow> ok (strings v))"
proof -
  note loc = member_located [OF assms(2)]
  have r: "rep d j v" using located_rep [OF loc assms(1)] .
  show ?thesis
  proof (cases v)
    case (JArray vs)
    have "JSARRAY_FOREACH d j (\<lambda>value vec. andthen (jsget_str d (Some root) value)
        (\<lambda>s. if length vec < jsize v then ok (vec @ [s]) else None)) [] =
      (case first_problem (\<lambda>(n, w). no_string (k @ [0x5b] @ decimal n @ [0x5d]) w) (enumerate 0 vs) of
         Some (p, t) \<Rightarrow> invalid p t | None \<Rightarrow> ok ([] @ strings (JArray vs)))"
      unfolding JSARRAY_FOREACH_def dom_tokens.array_foreach_items [OF r [unfolded JArray]] items_def
    proof (rule vector_loop [OF assms(1)])
      fix n c u
      assume n: "n < length vs" "items_from (j + 1) vs ! n = (c, u)"
      then have "located j v c u k (k @ [0x5b] @ decimal (0 + n) @ [0x5d])"
        unfolding JArray using located_item [of n vs j c u c u k, OF _ _ located_here] by (simp add: items_def)
      then show "located root (JObject ms) c u [] (k @ [0x5b] @ decimal (0 + n) @ [0x5d])"
        using located_member [OF assms(2), of c u "[]"] by simp
    qed (use isize_length [of vs] JArray in simp)
    then show ?thesis
      using getters(2) [OF assms(1) loc] dom_tokens.rep_after [OF r] assms(3) JArray
      by (simp add: copy_str_array_def get_array_def no_vector_def split: option.split)
  qed (use getters(2) [OF assms(1) loc] dom_tokens.rep_after [OF r] assms(3) in
      \<open>simp_all add: copy_str_array_def get_array_def no_vector_def invalid_def\<close>)
qed


text \<open>A number for which the conversion of the time limit is undefined.\<close>

definition time_defined :: "libc \<Rightarrow> bytes \<Rightarrow> json \<Rightarrow> bool" where
  "time_defined L k v \<longleftrightarrow>
     (k = bytes_of ''timeLimit'' \<longrightarrow> (case v of JNumber t \<Rightarrow> timespec_of (strtod L t) \<noteq> None | _ \<Rightarrow> True))"

lemma whole_le:
  assumes "\<not> exceeds (Finite m e) n"
  shows "whole m e \<le> n"
proof (cases "0 \<le> e")
  case False
  then have "m \<le> n * 2 ^ nat (- e)" using assms by simp
  then have "m div 2 ^ nat (- e) \<le> n * 2 ^ nat (- e) div 2 ^ nat (- e)" by (intro zdiv_mono1) simp_all
  then show ?thesis using False by (simp add: whole_def)
qed (use assms in \<open>simp add: whole_def\<close>)

lemma to_integer_id:
  assumes "\<not> negative v" and "\<not> exceeds v INT32_MAX"
  shows "\<exists>n. to_integer INT32_MAX v = Some n"
  using assms whole_le by (cases v) (auto simp: to_integer_def)

lemma lookup_upd [simp]:
  "str_at (m(bytes_of k \<mapsto> (j, v))) key = (if key = k then (case v of JString cps \<Rightarrow> Some (utf8s cps) | _ \<Rightarrow> None) else str_at m key)"
  "num_at L (m(bytes_of k \<mapsto> (j, v))) key = (if key = k then (case v of JNumber t \<Rightarrow> Some (strtod L t) | _ \<Rightarrow> None) else num_at L m key)"
  "token_at (m(bytes_of k \<mapsto> (j, v))) key = (if key = k then Some j else token_at m key)"
  "strings_at (m(bytes_of k \<mapsto> (j, v))) key = (if key = k then Some (strings v) else strings_at m key)"
  "bool_at (m(bytes_of k \<mapsto> (j, v))) key = (if key = k then Some (v = JTrue) else bool_at m key)"
  by (simp_all add: str_at_def num_at_def token_at_def strings_at_def bool_at_def)

lemma or_simps [simp]: "or_else (Some x) y = x" "or_else None y = y" "or_old (Some x) z = Some x" "or_old None z = z"
  by (simp_all add: or_else_def or_old_def)

lemmas problem_defs = no_string_def no_array_def no_object_def no_bool_def no_udouble_def no_id_def

abbreviation "all_keys \<equiv> [''hostName'', ''domainName'', ''uid'', ''gid'', ''chroot'', ''mounts'', ''cgroup'', ''cgroupRoot'',
  ''cgroupConfig'', ''seccompPolicy'', ''vaRandomize'', ''cmd'', ''env'', ''workDir'', ''timeLimit'', ''stdStreams'', ''pipes'',
  ''copyFiles'']"

lemma member_step:
  assumes "rep d root (JObject ms)" and "(k, j, v) \<in> set (members root ms)" and "\<forall>n. malloc L n" and "time_defined L k v"
  shows "request_member L d (Some root) k j (request_of L root r m, token_at m ''stdStreams'') =
    (case member_problem L k v of Some (p, t) \<Rightarrow> invalid p t
     | None \<Rightarrow> ok (request_of L root r (m(k \<mapsto> (j, v))), token_at (m(k \<mapsto> (j, v))) ''stdStreams''))"
proof -
  note get = getters [OF assms(1) member_located [OF assms(2)]] copy_str_array_spec [OF assms(1-3)]
    jserror_located [OF assms(1) member_located [OF assms(2)]]
  note gets = get get_str_def get_array_def get_object_def get_bool_def get_udouble_def
    request_member_def member_problem_def problem_defs request_of_def
  have hostName: ?thesis if "k = bytes_of ''hostName''"
    using assms(4) that by (cases v) (simp_all add: gets)
  have domainName: ?thesis if "k = bytes_of ''domainName''"
    using assms(4) that by (cases v) (simp_all add: gets)
  have uid: ?thesis if "k = bytes_of ''uid''"
    using assms(4) that by (cases v) (auto simp: gets convert_def time_defined_def dest: to_integer_id split: option.splits)
  have gid: ?thesis if "k = bytes_of ''gid''"
    using assms(4) that by (cases v) (auto simp: gets convert_def time_defined_def dest: to_integer_id split: option.splits)
  have chroot: ?thesis if "k = bytes_of ''chroot''"
    using assms(4) that by (cases v) (simp_all add: gets)
  have mounts: ?thesis if "k = bytes_of ''mounts''"
    using assms(4) that by (cases v) (simp_all add: gets)
  have cgroup: ?thesis if "k = bytes_of ''cgroup''"
    using assms(4) that by (cases v) (simp_all add: gets)
  have cgroupRoot: ?thesis if "k = bytes_of ''cgroupRoot''"
    using assms(4) that by (cases v) (simp_all add: gets)
  have cgroupConfig: ?thesis if "k = bytes_of ''cgroupConfig''"
    using assms(4) that by (cases v) (simp_all add: gets)
  have seccompPolicy: ?thesis if "k = bytes_of ''seccompPolicy''"
    using assms(4) that by (cases v) (simp_all add: gets)
  have vaRandomize: ?thesis if "k = bytes_of ''vaRandomize''"
    using assms(4) that by (cases v) (simp_all add: gets)
  have cmd: ?thesis if "k = bytes_of ''cmd''"
    using assms(4) that by (cases v) (auto simp: gets convert_def time_defined_def dest: to_integer_id split: option.splits)
  have env: ?thesis if "k = bytes_of ''env''"
    using assms(4) that by (cases v) (auto simp: gets convert_def time_defined_def dest: to_integer_id split: option.splits)
  have workDir: ?thesis if "k = bytes_of ''workDir''"
    using assms(4) that by (cases v) (simp_all add: gets)
  have timeLimit: ?thesis if "k = bytes_of ''timeLimit''"
    using assms(4) that by (cases v) (auto simp: gets convert_def time_defined_def dest: to_integer_id split: option.splits)
  have stdStreams: ?thesis if "k = bytes_of ''stdStreams''"
    using assms(4) that by (cases v) (simp_all add: gets)
  have pipes: ?thesis if "k = bytes_of ''pipes''"
    using assms(4) that by (cases v) (simp_all add: gets)
  have copyFiles: ?thesis if "k = bytes_of ''copyFiles''"
    using assms(4) that by (cases v) (simp_all add: gets)
  show ?thesis
  proof (cases "\<exists>key \<in> set all_keys. k = bytes_of key")
    case True
    then show ?thesis
      unfolding list.set bex_simps
      by (elim disjE) (assumption | erule hostName domainName uid gid chroot mounts cgroup cgroupRoot cgroupConfig
        seccompPolicy vaRandomize cmd env workDir timeLimit stdStreams pipes copyFiles | erule FalseE)+
  next
    case False
    then show ?thesis by (simp add: gets)
  qed
qed


lemma last_values_simps [simp]: "last_values [] = Map.empty" "last_values (M @ [(k, x)]) = (last_values M)(k \<mapsto> x)"
  by (simp_all add: last_values_def)

lemma first_problem_append:
  "first_problem f (xs @ ys) = (case first_problem f xs of None \<Rightarrow> first_problem f ys | Some e \<Rightarrow> Some e)"
  by (induction xs) (auto split: option.split)

lemma first_problem_None: "first_problem f xs = None \<longleftrightarrow> (\<forall>x \<in> set xs. f x = None)"
  by (induction xs) (auto split: option.split)

text \<open>A loop over members that reports the first problem and otherwise follows the last values.\<close>

lemma fold_members:
  assumes "\<And>k j v m. (k, j, v) \<in> set M \<Longrightarrow> f (k, j, v) (g m) =
      (case prob (k, j, v) of Some (p, t) \<Rightarrow> invalid p t | None \<Rightarrow> ok (g (m(k \<mapsto> (j, v)))))"
  shows "fold_result f M (g Map.empty) =
    (case first_problem prob M of Some (p, t) \<Rightarrow> invalid p t | None \<Rightarrow> ok (g (last_values M)))"
  using assms
proof (induction M rule: rev_induct)
  case (snoc x M)
  obtain k j v where x: "x = (k, j, v)" by (cases x)
  have "fold_result f M (g Map.empty) =
      (case first_problem prob M of Some (p, t) \<Rightarrow> invalid p t | None \<Rightarrow> ok (g (last_values M)))"
    using snoc by simp
  moreover have "f x (g (last_values M)) = (case prob x of Some (p, t) \<Rightarrow> invalid p t | None \<Rightarrow> ok (g (last_values (M @ [x]))))"
    unfolding x last_values_simps(2) using snoc.prems [of k j v "last_values M"] x by simp
  ultimately show ?case
    by (cases "first_problem prob M"; cases "prob x") (simp_all add: fold_result_append first_problem_append split: prod.splits)
qed simp

lemma request_of_empty: "request_of L root r Map.empty = r\<lparr>json_root := Some root\<rparr>"
  by (cases r) (simp add: request_of_def str_at_def num_at_def token_at_def strings_at_def bool_at_def)

lemma members_loop:
  assumes "rep d root (JObject ms)" and "\<forall>n. malloc L n" and "\<forall>(k, j, v) \<in> set (members root ms). time_defined L k v"
  shows "JSOBJECT_FOREACH d root (request_member L d (Some root)) (r\<lparr>json_root := Some root\<rparr>, None) =
    (case first_problem (\<lambda>(k, j, v). member_problem L k v) (members root ms) of Some (p, t) \<Rightarrow> invalid p t
     | None \<Rightarrow> ok (request_of L root r (last_values (members root ms)), token_at (last_values (members root ms)) ''stdStreams''))"
proof -
  have "fold_result (\<lambda>(k, j, v). request_member L d (Some root) k j) (members root ms)
      (request_of L root r Map.empty, token_at Map.empty ''stdStreams'') =
    (case first_problem (\<lambda>(k, j, v). member_problem L k v) (members root ms) of Some (p, t) \<Rightarrow> invalid p t
     | None \<Rightarrow> ok (request_of L root r (last_values (members root ms)), token_at (last_values (members root ms)) ''stdStreams''))"
    by (rule fold_members [where g = "\<lambda>m. (request_of L root r m, token_at m ''stdStreams'')"])
       (use member_step [OF assms(1) _ assms(2)] assms(3) in auto)
  then show ?thesis
    unfolding JSOBJECT_FOREACH_def dom_tokens.object_foreach_members [OF assms(1)] request_of_empty
    by (simp add: token_at_def)
qed


lemma limit_of_defined: "\<not> negative v \<Longrightarrow> \<exists>n. limit_of v = Some n"
proof (cases v)
  case (Finite m e)
  have "whole m e \<le> LONG_MAX" if "below v (2 ^ 63)"
  proof (cases "0 \<le> e")
    case False
    then have "m < 2 ^ 63 * 2 ^ nat (- e)" using that Finite by simp
    moreover have "m div 2 ^ nat (- e) * 2 ^ nat (- e) \<le> m"
      using div_mult_mod_eq [of m "2 ^ nat (- e)"] pos_mod_sign [of "2 ^ nat (- e)" m] by (smt (verit) zero_less_numeral zero_less_power)
    ultimately have "m div 2 ^ nat (- e) * 2 ^ nat (- e) < 2 ^ 63 * 2 ^ nat (- e)" by linarith
    then have "m div 2 ^ nat (- e) < 2 ^ 63" by (simp only: mult_less_cancel_right) auto
    then show ?thesis using False by (simp add: whole_def)
  qed (use that Finite in \<open>simp add: whole_def\<close>)
  then show ?thesis using Finite by (auto simp: limit_of_def to_integer_def)
qed (auto simp: limit_of_def)

lemma stream_step:
  assumes "rep d root V" and "located root V j v [] (bytes_of ''stdStreams.'' @ k)"
  shows "stdstreams_member L d (Some root) k j (with_streams L m r) =
    (case stream_problem L k v of Some (p, t) \<Rightarrow> invalid p t | None \<Rightarrow> ok (with_streams L (m(k \<mapsto> (j, v))) r))"
proof -
  note get = getters [OF assms]
  note gets = get get_str_def get_udouble_def stdstreams_member_def stream_problem_def problem_defs with_streams_def Let_def
  consider "k = bytes_of ''dest''" | "k = bytes_of ''limit''" | "k \<notin> {bytes_of ''dest'', bytes_of ''limit''}" by blast
  then show ?thesis
  proof cases
    case 1
    then show ?thesis by (cases v) (simp_all add: gets)
  next
    case 2
    then show ?thesis using limit_of_defined by (cases v) (fastforce simp: gets convert_def)+
  next
    case 3
    then show ?thesis by (simp add: gets)
  qed
qed

lemma with_streams_empty: "with_streams L Map.empty r = r"
  by (cases r) (simp add: with_streams_def str_at_def num_at_def)

lemma streams_loop:
  assumes "rep d root (JObject ms)" and "(bytes_of ''stdStreams'', i, JObject ss) \<in> set (members root ms)"
  shows "JSOBJECT_FOREACH d i (stdstreams_member L d (Some root)) r =
    (case first_problem (\<lambda>(k, j, v). stream_problem L k v) (members i ss) of Some (p, t) \<Rightarrow> invalid p t
     | None \<Rightarrow> ok (with_streams L (last_values (members i ss)) r))"
proof -
  note here = member_located [OF assms(2)]
  have i: "rep d i (JObject ss)" using located_rep [OF here assms(1)] .
  have loc: "located root (JObject ms) j v [] (bytes_of ''stdStreams.'' @ k)" if m: "(k, j, v) \<in> set (members i ss)" for k j v
  proof -
    have "located i (JObject ss) j v (bytes_of ''stdStreams'') (bytes_of ''stdStreams.'' @ k)"
      using located_member [OF m located_here, of "bytes_of ''stdStreams''"] by (simp add: bytes_of_def)
    then show ?thesis using located_member [OF assms(2), of j v "[]"] by simp
  qed
  have "fold_result (\<lambda>(k, j, v). stdstreams_member L d (Some root) k j) (members i ss) (with_streams L Map.empty r) =
    (case first_problem (\<lambda>(k, j, v). stream_problem L k v) (members i ss) of Some (p, t) \<Rightarrow> invalid p t
     | None \<Rightarrow> ok (with_streams L (last_values (members i ss)) r))"
    by (rule fold_members [where g = "\<lambda>m. with_streams L m r"]) (use stream_step [OF assms(1) loc] in auto)
  then show ?thesis
    unfolding JSOBJECT_FOREACH_def dom_tokens.object_foreach_members [OF i] with_streams_empty .
qed

lemma last_values_member: "last_values M k = Some x \<Longrightarrow> (k, x) \<in> set M"
  by (auto simp: last_values_def dest: map_of_SomeD)

theorem request_parse_spec:
  assumes "rep d root (JObject ms)" and "\<forall>n. malloc L n" and "\<forall>(k, j, v) \<in> set (members root ms). time_defined L k v"
  shows "request_parse L d root r = request_spec L root r ms"
proof -
  define m where "m = last_values (members root ms)"
  define r1 where "r1 = request_of L root r m"
  have object: "jsget_object d None root = ok root"
    using dom_tokens.rep_kind [OF assms(1)] by (simp add: jsget_object_def)
  show ?thesis
  proof (cases "first_problem (\<lambda>(k, j, v). member_problem L k v) (members root ms)")
    case (Some e)
    then show ?thesis
      using members_loop [OF assms, of r] object by (cases e) (simp add: request_parse_def request_spec_def Let_def)
  next
    case None
    have streams: "parse_stdstreams L d (Some root) (token_at m ''stdStreams'') r1 =
      (case m (bytes_of ''stdStreams'') of Some (j, JObject ss) \<Rightarrow>
             (let r2 = with_streams L (last_values (members j ss)) r1 in
              case first_problem (\<lambda>(k, j, v). stream_problem L k v) (members j ss) of Some (path, text) \<Rightarrow> invalid path text
              | None \<Rightarrow> if stdstreams_dest r2 = None then invalid (bytes_of ''stdStreams'') (bytes_of '''dest' missing'')
                       else ok r2)
           | _ \<Rightarrow> ok r1)"
    proof (cases "m (bytes_of ''stdStreams'')")
      case None
      then show ?thesis by (simp add: parse_stdstreams_def token_at_def)
    next
      case (Some x)
      obtain j v where x: "x = (j, v)" by (cases x)
      then have mem: "(bytes_of ''stdStreams'', j, v) \<in> set (members root ms)"
        using Some last_values_member by (auto simp: m_def)
      then have "member_problem L (bytes_of ''stdStreams'') v = None"
        using None unfolding first_problem_None by fastforce
      then obtain ss where v: "v = JObject ss" by (cases v) (auto simp: member_problem_def no_object_def)
      have "jserror d (Some root) j (bytes_of '''dest' missing'') =
          (invalid (bytes_of ''stdStreams'') (bytes_of '''dest' missing'') :: sandals_request result)"
        by (rule jserror_located [OF assms(1) member_located [OF mem]]) simp
      then show ?thesis
        using streams_loop [OF assms(1) mem [unfolded v]] Some x v
        by (simp add: parse_stdstreams_def token_at_def Let_def split: option.splits)
    qed
    have "request_parse L d root r = andthen (parse_stdstreams L d (Some root) (token_at m ''stdStreams'') r1) (\<lambda>r.
        if cmd r = None \<or> cmd r = Some []
        then failed kStatusRequestInvalid (Some (bytes_of '''cmd' missing or empty'')) else ok r)"
      using members_loop [OF assms, of r] object None by (simp add: request_parse_def m_def r1_def)
    also have "\<dots> = request_spec L root r ms"
      unfolding streams unfolding request_spec_def None Let_def option.case m_def r1_def ..
    finally show ?thesis .
  qed
qed

end
