(* ===== verification/Request_Recv.thy ===== *)
theory Request_Recv
  imports Request_Spec
begin

text \<open>
  The whole way of a request from the bytes on standard input: the loop that parses with growing
  arrays ends and gives what one call with a large array gives; the loop that reads collects the
  bytes up to the end of the input.
\<close>

section \<open>Parsing with growing arrays\<close>

lemma jstr_parse_grow:
  assumes "parser_inv s parser str ts" and "jstr_parse parser str ts = Some (rc, parser', str', ts')" and "rc \<noteq> JSTR_NOMEM"
  shows "\<exists>p. jstr_parse parser str (ts @ ex) = Some (rc, p, str', ts' @ ex)"
proof -
  obtain c where inv: "invariant s PARSE_GENERIC (parser_state parser str ts c)"
    using assms(1) unfolding parser_inv_def by blast
  then have inv': "invariant s PARSE_GENERIC (parser_state parser str (ts @ ex) c)"
    using invariant_grow [OF inv, of ex] by (simp add: parser_state_grow)
  obtain st where run: "jstr_run PARSE_GENERIC (parser_state parser str ts c) = Some (rc, st)"
    "str' = jtext st" "ts' = jtokens st"
    using assms(2) jstr_parse_run [OF inv] by (auto split: if_splits)
  show ?thesis
    using jstr_parse_run [OF inv'] jstr_run_grow [OF run(1), of ex] assms(3) run(2,3)
    by (simp add: parser_state_grow)
qed

lemma parser_inv_bound: "parser_inv (s @ [0]) parser str ts \<Longrightarrow> cur_offset parser \<le> length s"
  using invariant_bound by (fastforce simp: parser_inv_def parser_state_def)

text \<open>The loop ends, with what a single call with enough tokens returns.\<close>

lemma parse_loop_returns:
  assumes "\<forall>n. malloc L n"
  shows "parser_inv (s @ [0]) parser str ts \<Longrightarrow>
    \<exists>rc str' ts' ex p. parse_loop L parser str ts = ok (rc, str', ts') \<and> rc \<noteq> JSTR_NOMEM \<and>
      jstr_parse parser str (ts @ ex) = Some (rc, p, str', ts')"
proof (induction "length s + 2 - length ts" arbitrary: parser str ts rule: less_induct)
  case less
  obtain rc parser' str' ts' where p: "jstr_parse parser str ts = Some (rc, parser', str', ts')" "length ts' = length ts"
    and nomem: "rc = JSTR_NOMEM \<Longrightarrow> length ts < cur_offset parser' + 2 \<and> (\<forall>ex. parser_inv (s @ [0]) parser' str' (ts' @ ex))"
    using jstr_parse_total [OF less.prems] by fastforce
  show ?case
  proof (cases "rc = JSTR_NOMEM")
    case False
    then show ?thesis using p by (intro exI [of _ rc] exI [of _ str'] exI [of _ ts'] exI [of _ "[]"] exI [of _ parser'])
      (simp add: parse_loop.simps)
  next
    case True
    define ex where "ex = replicate ((if ts' \<noteq> [] then 2 * length ts' else TOKEN_MIN) - length ts') (None :: jstr_token_t option)"
    have "parser_inv (s @ [0]) parser' str' (ts' @ [])" using nomem [OF True] by blast
    then have "length ts < length s + 2" using nomem [OF True] parser_inv_bound by fastforce
    moreover have "0 < length ex" by (auto simp: ex_def)
    ultimately have "length s + 2 - length (ts' @ ex) < length s + 2 - length ts"
      unfolding length_append using p(2) by linarith
    moreover have inv: "parser_inv (s @ [0]) parser' str' (ts' @ ex)" using nomem [OF True] by blast
    ultimately obtain rc2 str2 ts2 ex2 p2 where
      r: "parse_loop L parser' str' (ts' @ ex) = ok (rc2, str2, ts2)" "rc2 \<noteq> JSTR_NOMEM"
        "jstr_parse parser' str' ((ts' @ ex) @ ex2) = Some (rc2, p2, str2, ts2)"
      using less.hyps [of "ts' @ ex" parser' str'] by blast
    have "parse_loop L parser str ts = ok (rc2, str2, ts2)"
      using p(1) True r(1) assms by (subst parse_loop.simps) (simp add: ex_def Let_def)
    moreover have "\<exists>p. jstr_parse parser str (ts @ ex @ ex2) = Some (rc2, p, str2, ts2)"
      using jstr_parse_resumed [OF less.prems, of parser' str' ts' "ex @ ex2"] p(1) True r(2,3)
      by (cases "jstr_parse parser str (ts @ ex @ ex2)") (auto split: if_splits)
    ultimately show ?thesis using r(2) by blast
  qed
qed

text \<open>A description does not use tokens that are not initialized.\<close>

lemma describes_initialized:
  "describes s n ts i v \<Longrightarrow> (\<And>j t. read_token ts j = Some t \<Longrightarrow> read_token ts' j = Some t) \<Longrightarrow> describes s n ts' i v"
  "describes_items s n ts i vs \<Longrightarrow> (\<And>j t. read_token ts j = Some t \<Longrightarrow> read_token ts' j = Some t) \<Longrightarrow> describes_items s n ts' i vs"
  "describes_members s n ts i ms \<Longrightarrow> (\<And>j t. read_token ts j = Some t \<Longrightarrow> read_token ts' j = Some t) \<Longrightarrow> describes_members s n ts' i ms"
  by (induction s n ts i v and s n ts i vs and s n ts i ms rule: describes_describes_items_describes_members.induct)
     (auto simp: leaf_def)

lemma read_token_None: "read_token (ts @ replicate n None) j = Some t \<Longrightarrow> read_token ts j = Some t"
  by (auto simp: read_token_def read_at_def nth_append split: if_splits elim!: bind_SomeE)

lemma parse_loop_outcome:
  assumes "\<forall>n. malloc L n"
  shows "\<exists>rc str ts. parse_loop L jstr_init (data @ [0]) [] = ok (rc, str, ts) \<and>
    (if \<exists>v. json_document v data
     then rc = int (length data) \<and> (\<forall>v. json_document v data \<longrightarrow> rep \<lparr>dtext = str, dtokens = ts\<rparr> 0 v)
     else rc \<noteq> int (length data))"
proof -
  have inv: "parser_inv (data @ [0]) jstr_init (data @ [0]) ts" for ts by (rule parser_inv_init) simp
  obtain rc str ts ex p where r: "parse_loop L jstr_init (data @ [0]) [] = ok (rc, str, ts)" "rc \<noteq> JSTR_NOMEM"
    "jstr_parse jstr_init (data @ [0]) ([] @ ex) = Some (rc, p, str, ts)"
    using parse_loop_returns [OF assms inv] by blast
  show ?thesis
  proof (cases "\<exists>v. json_document v data")
    case True
    have "rc = int (length data) \<and> rep \<lparr>dtext = str, dtokens = ts\<rparr> 0 v" if v: "json_document v data" for v
    proof -
      obtain p' where "jstr_parse jstr_init (data @ [0]) (ex @ replicate (jsize v + 1) None) =
          Some (rc, p', str, ts @ replicate (jsize v + 1) None)"
        using jstr_parse_grow [OF inv r(3) r(2)] by auto
      moreover obtain str1 ts1 where "jstr_parse jstr_init (data @ [0]) (ex @ replicate (jsize v + 1) None) =
          Some (int (length data), jstr_init, str1, ts1)" "describes str1 (length data + 1) ts1 0 v"
        using document_parse [OF v, of "ex @ replicate (jsize v + 1) None"] by auto
      ultimately have "rc = int (length data)" "describes str (length data + 1) (ts @ replicate (jsize v + 1) None) 0 v"
        by auto
      moreover from this(2) have "describes str (length data + 1) ts 0 v"
        by (rule describes_initialized(1)) (rule read_token_None)
      moreover have "proper v" using v json_proper(1) by (auto simp: json_document_def)
      ultimately show ?thesis by (auto simp: rep_def)
    qed
    then show ?thesis using r(1) True by auto
  next
    case False
    have "rc \<noteq> int (length data)"
      using jstr_parse_total [OF inv, of "[] @ ex"] r(3) False by fastforce
    then show ?thesis using r(1) False by auto
  qed
qed


section \<open>The text of a request\<close>

text \<open>The result for the bytes of a request, by the JSON value that they are the text of, if any.\<close>

definition text_spec :: "libc \<Rightarrow> bytes \<Rightarrow> sandals_request \<Rightarrow> sandals_request result \<Rightarrow> bool" where
  "text_spec L data r res \<longleftrightarrow>
     (\<forall>v. json_document v data \<longrightarrow>
        res = (case v of JObject ms \<Rightarrow> request_spec L 0 r ms
               | _ \<Rightarrow> failed kStatusRequestInvalid (Some (bytes_of ''Expecting an object'')))) \<and>
     ((\<nexists>v. json_document v data) \<longrightarrow> res = failed kStatusRequestInvalid None)"

text \<open>No time limit of the request is the one that cannot be converted.\<close>

definition times_defined :: "libc \<Rightarrow> bytes \<Rightarrow> bool" where
  "times_defined L data \<longleftrightarrow>
     (\<forall>ms. json_document (JObject ms) data \<longrightarrow> (\<forall>(k, v) \<in> set ms. time_defined L (utf8s k) v))"

lemma members_values: "(k, j, v) \<in> set (members i ms) \<Longrightarrow> \<exists>k'. k = utf8s k' \<and> (k', v) \<in> set ms"
proof -
  have "(k, j, v) \<in> set (members_from i ms) \<Longrightarrow> \<exists>k'. k = utf8s k' \<and> (k', v) \<in> set ms" for i
    by (induction ms arbitrary: i) (auto, blast+)
  then show "(k, j, v) \<in> set (members i ms) \<Longrightarrow> ?thesis" by (simp add: members_def)
qed

lemma request_text_spec:
  assumes "\<forall>n. malloc L n" and "times_defined L data"
  shows "text_spec L data r (andthen (request_text L data r) (\<lambda>(r, d). ok r)) \<and>
    (\<forall>r' d v. request_text L data r = ok (r', d) \<longrightarrow> json_document v data \<longrightarrow> rep d 0 v)"
proof -
  obtain rc str ts where loop: "parse_loop L jstr_init (data @ [0]) [] = ok (rc, str, ts)"
    and out: "if \<exists>v. json_document v data
     then rc = int (length data) \<and> (\<forall>v. json_document v data \<longrightarrow> rep \<lparr>dtext = str, dtokens = ts\<rparr> 0 v)
     else rc \<noteq> int (length data)"
    using parse_loop_outcome [OF assms(1)] by blast
  let ?d = "\<lparr>dtext = str, dtokens = ts\<rparr>"
  show ?thesis
  proof (cases "\<exists>v. json_document v data")
    case False
    then show ?thesis using loop out by (simp add: text_spec_def request_text_def)
  next
    case True
    then have doc: "rc = int (length data)" "\<And>v. json_document v data \<Longrightarrow> rep ?d 0 v" using out by simp_all
    then have eq: "request_text L data r = andthen (request_parse L ?d 0 r) (\<lambda>r. ok (r, ?d))"
      using loop by (simp add: request_text_def Let_def)
    have unpair: "andthen (andthen m (\<lambda>r. ok (r, ?d))) (\<lambda>(r, d). ok r) = m" for m :: "sandals_request result"
      by (auto simp: andthen_def ok_def split: option.splits sum.splits)
    have "request_parse L ?d 0 r = (case v of JObject ms \<Rightarrow> request_spec L 0 r ms
               | _ \<Rightarrow> failed kStatusRequestInvalid (Some (bytes_of ''Expecting an object'')))"
      if v: "json_document v data" for v
    proof -
      have rep: "rep ?d 0 v" using doc(2) [OF v] .
      show ?thesis
      proof (cases v)
        case (JObject ms)
        have "\<forall>(k, j, w) \<in> set (members 0 ms). time_defined L k w"
          using members_values assms(2) v JObject unfolding times_defined_def by fastforce
        then show ?thesis using request_parse_spec [OF rep [unfolded JObject] assms(1)] JObject by simp
      qed (use dom_tokens.rep_kind [OF rep] in
          \<open>simp_all add: request_parse_def jsget_object_def jserror_def error_path.simps\<close>)
    qed
    then show ?thesis
      using True unpair doc(2) unfolding text_spec_def eq
      by (auto elim!: andthen_okE)
  qed
qed


section \<open>Reading\<close>

definition received :: "fd \<Rightarrow> trace \<Rightarrow> bytes" where
  "received fd tr = concat (map (\<lambda>e. case e of (File (Read f n), Data d) \<Rightarrow> if f = fd then d else [] | _ \<Rightarrow> []) tr)"

lemma received_simps [simp]:
  "received fd [] = []" "received fd (tr @ tr') = received fd tr @ received fd tr'"
  "received fd [(File (Read fd n), Data d)] = d" "received fd [(c, Err e)] = []"
  by (simp_all add: received_def split: call.splits file_call.splits)

lemma fits_read [simp]: "fits (File (Read fd n)) a \<longleftrightarrow> (\<exists>e. a = Err e) \<or> (\<exists>d. a = Data d \<and> length d \<le> n)"
  by (simp add: fits_def)

text \<open>
  Every call is a \<open>read\<close> from standard input that asks for something, so that an empty answer is
  the end of the input, and leaves a byte for the null at the end.
\<close>

definition asks :: "trace \<Rightarrow> call \<Rightarrow> bool" where
  "asks h c \<longleftrightarrow> (\<exists>k. c = File (Read STDIN_FILENO k) \<and> 0 < k)"

text \<open>Answers after which reading goes on: an interruption, or bytes.\<close>

definition keeps_reading :: "trace \<Rightarrow> bool" where
  "keeps_reading tr \<longleftrightarrow> (\<forall>(c, a) \<in> set tr. a = Err EINTR \<or> (\<exists>d. d \<noteq> [] \<and> a = Data d))"

lemma keeps_reading_simps [simp]:
  "keeps_reading []" "keeps_reading (tr @ tr') \<longleftrightarrow> keeps_reading tr \<and> keeps_reading tr'"
  "keeps_reading [(c, Err e)] \<longleftrightarrow> e = EINTR" "keeps_reading [(c, Data d)] \<longleftrightarrow> d \<noteq> []"
  by (auto simp: keeps_reading_def)

text \<open>The end of the input, and an error that ends reading.\<close>

definition reads_all :: "trace \<Rightarrow> bool" where
  "reads_all tr \<longleftrightarrow> (\<exists>tr' c. tr = tr' @ [(c, Data [])] \<and> keeps_reading tr')"

definition read_error :: "trace \<Rightarrow> errno \<Rightarrow> bool" where
  "read_error tr e \<longleftrightarrow> (\<exists>tr' c. tr = tr' @ [(c, Err e)] \<and> keeps_reading tr' \<and> e \<noteq> EINTR)"

definition read_ends :: "nat \<Rightarrow> bytes io \<Rightarrow> trace \<Rightarrow> bool" where
  "read_ends n m tr \<longleftrightarrow>
     m = Waiting \<and> keeps_reading tr \<and> length tr = n \<or>
     m = Returns (received STDIN_FILENO tr) \<and> reads_all tr \<or>
     (\<exists>e. m = fails kStatusInternalError (bytes_of ''Reading request: '' @ strerror e) \<and> read_error tr e)"

lemma read_loop_Suc:
  assumes "\<forall>n. malloc L n"
  shows "read_loop (Suc n) L cap data =
    (let cap' = (if cap - length data \<le> PIPE_BUF div 2 then (if cap \<noteq> 0 then 2 * cap else PIPE_BUF) else cap) in
     Sys (File (Read STDIN_FILENO (cap' - length data - 1))) (\<lambda>a. case a of
          Err e \<Rightarrow> if e = EINTR then read_loop n L cap' data
                   else fails kStatusInternalError (bytes_of ''Reading request: '' @ strerror e)
        | Data d \<Rightarrow> if d = [] then Returns data else read_loop n L cap' (data @ d)
        | _ \<Rightarrow> Undefined))"
  using assms by (simp add: Let_def)

lemma read_loop_wp:
  assumes "\<forall>n. malloc L n"
  shows "length data < cap \<or> cap = 0 \<and> data = [] \<Longrightarrow> received STDIN_FILENO h = data \<Longrightarrow>
    keeps_reading h \<Longrightarrow> wp (read_loop n L cap data) asks (read_ends (length h + n)) h"
proof (induction n arbitrary: cap data h)
  case 0
  then show ?case by (simp add: read_ends_def)
next
  case (Suc n)
  let ?Q = "read_ends (length h + Suc n)"
  define cap' where "cap' = (if cap - length data \<le> PIPE_BUF div 2 then (if cap \<noteq> 0 then 2 * cap else PIPE_BUF) else cap)"
  have more: "length data + 1 < cap'" using Suc.prems(1) by (auto simp: cap'_def)
  have again: "wp (read_loop n L cap' (data @ d)) asks ?Q (h @ [e])"
    if "length d \<le> cap' - length data - 1" "received STDIN_FILENO [e] = d" "keeps_reading [e]" for d e
    using that more Suc.IH [of "data @ d" cap' "h @ [e]"] Suc.prems by simp
  have "wp (fails kStatusInternalError (bytes_of ''Reading request: '' @ strerror e)) asks ?Q (h @ [(c, Err e)])"
    if "e \<noteq> EINTR" for c e
    using that Suc.prems(3) by (auto simp: fails_def read_ends_def read_error_def)
  moreover have "wp (read_loop n L cap' data) asks ?Q (h @ [(c, Err EINTR)])" for c
    using again [of "[]"] by simp
  moreover have "wp (read_loop n L cap' (data @ d)) asks ?Q (h @ [(File (Read STDIN_FILENO k), Data d)])"
    if "length d \<le> cap' - length data - 1" "d \<noteq> []" for d k
    using again [OF that(1)] that(2) by simp
  moreover have "?Q (Returns data) (h @ [(File (Read STDIN_FILENO k), Data [])])" for k
    using Suc.prems by (auto simp: read_ends_def reads_all_def)
  ultimately show ?case
    unfolding read_loop_Suc [OF assms] Let_def wp.simps fits_read cap'_def [symmetric]
    using more by (auto simp: asks_def)
qed


definition recv_ends :: "nat \<Rightarrow> libc \<Rightarrow> sandals_request \<Rightarrow> (sandals_request \<times> dom) io \<Rightarrow> trace \<Rightarrow> bool" where
  "recv_ends n L r m tr \<longleftrightarrow>
     m = Waiting \<and> keeps_reading tr \<and> length tr = n \<or>
     (\<exists>e. m = fails kStatusInternalError (bytes_of ''Reading request: '' @ strerror e) \<and> read_error tr e) \<or>
     reads_all tr \<and>
     (\<exists>res. text_spec L (received STDIN_FILENO tr) r res \<and> bind_io m (\<lambda>(r, d). Returns r) = lift_io res \<and>
        (\<forall>r' d v. m = Returns (r', d) \<longrightarrow> json_document v (received STDIN_FILENO tr) \<longrightarrow> rep d 0 v))"

lemma lift_io_bind: "bind_io (lift_io m) (\<lambda>x. lift_io (f x)) = lift_io (andthen m f)"
  by (auto simp: lift_io_def andthen_def split: option.splits sum.splits)

lemma recv_ends_text:
  assumes "\<forall>n. malloc L n" and "times_defined L (received STDIN_FILENO tr)" and "reads_all tr"
  shows "recv_ends n L r (lift_io (request_text L (received STDIN_FILENO tr) r)) tr"
proof -
  have "bind_io (lift_io (request_text L (received STDIN_FILENO tr) r)) (\<lambda>(r, d). Returns r) =
      lift_io (andthen (request_text L (received STDIN_FILENO tr) r) (\<lambda>(r, d). ok r))"
    unfolding lift_io_bind [symmetric] by (auto intro!: arg_cong2 [where f = bind_io])
  moreover have "request_text L (received STDIN_FILENO tr) r = ok x"
    if "lift_io (request_text L (received STDIN_FILENO tr) r) = Returns x" for x
    using that by (auto simp: lift_io_def ok_def split: option.splits sum.splits)
  ultimately show ?thesis
    using request_text_spec [OF assms(1,2), of r] assms(3) unfolding recv_ends_def by blast
qed

lemma request_recv_wp:
  assumes "\<forall>n. malloc L n"
  shows "wp (request_recv n L r) asks (\<lambda>m tr. times_defined L (received STDIN_FILENO tr) \<longrightarrow> recv_ends n L r m tr) []"
  unfolding request_recv_def
proof (rule wp_bindI)
  show "wp (read_loop n L 0 []) asks (read_ends n) []"
    using read_loop_wp [OF assms, of "[]" 0 "[]" n] by simp
next
  fix data h
  assume "read_ends n (Returns data) h"
  then have data: "data = received STDIN_FILENO h" "reads_all h" by (auto simp: read_ends_def fails_def)
  have "wp (lift_io x) asks Q h \<longleftrightarrow> Q (lift_io x) h" for x :: "(sandals_request \<times> dom) result" and Q
    by (cases x rule: option.exhaust; cases "the x") (auto simp: lift_io_def)
  then show "wp (lift_io (request_text L data r)) asks (\<lambda>m tr. times_defined L (received STDIN_FILENO tr) \<longrightarrow> recv_ends n L r m tr) h"
    using recv_ends_text [OF assms _ data(2)] data(1) by simp
next
  fix m :: "bytes io" and h
  assume "halted m" "\<nexists>x. m = Returns x" "read_ends n m h"
  then show "times_defined L (received STDIN_FILENO h) \<longrightarrow> recv_ends n L r (recast m) h"
    by (auto simp: read_ends_def recv_ends_def fails_def)
qed

text \<open>C8: With memory available and every time limit of the request convertible, \<open>request_recv\<close>
  reads standard input to its end: past interruptions, until an empty answer. The request is then
  accepted if and only if the bytes are a JSON text of an object whose members all have a known key
  and a value of the right type, with a non-empty command and a destination for the standard streams
  if they are asked for. It holds for each key the last value of the object, and the default
  otherwise. Else the first problem in the order of the text is reported with the path to it; bytes
  that are no JSON text are reported without one. A failure of \<open>read\<close> is reported exactly when the
  last answer was an error other than EINTR, with the text of that error. No call asks for zero
  bytes, so that an empty answer is the end of the input. \<open>n\<close> bounds the number of calls; \<open>Waiting\<close>
  is only left when all of them were interrupted or delivered bytes.
\<close>

theorem request_recv_spec:
  assumes "\<forall>n. malloc L n" and "times_defined L (received STDIN_FILENO tr)"
    and "exec (request_recv n L r) tr m" and "halted m"
  shows "recv_ends n L r m tr \<and> (\<forall>(c, a) \<in> set tr. \<exists>k. c = File (Read STDIN_FILENO k) \<and> 0 < k)"
proof -
  note all = wp_exec [OF request_recv_wp [OF assms(1)] assms(3)]
  have "asks (map id h) c" if "(c, a) \<in> set tr" for h c a
    using all that by (fastforce simp: asks_def in_set_conv_decomp)
  then show ?thesis using all assms(2,4) by (auto simp: asks_def)
qed


text \<open>A library for examples.\<close>

definition sample_libc :: libc where
  "sample_libc = \<lparr>strtod = (\<lambda>_. Finite 5 (- 1)), malloc = (\<lambda>_. True)\<rparr>"

lemma sample_times: "times_defined sample_libc data"
proof -
  have "timespec_of (Finite 5 (- 1)) = Some (2, 500000000)"
    by (simp add: timespec_of_def nanoseconds_def fraction_def whole_def round_half_even_def excess.simps to_integer_def)
  then show ?thesis by (auto simp: times_defined_def time_defined_def sample_libc_def split: json.split)
qed

lemma sample_request:
  "map_option (map_sum id (\<lambda>(r, d). (cmd r, uid r)))
     (request_text sample_libc (bytes_of ''{\"cmd\":[\"a\"],\"uid\":2}'') default_request) =
   Some (Inr (Some [bytes_of ''a''], 2))"
  by code_simp

lemma halted_lift_io [simp]: "halted (lift_io x)"
  by (cases x rule: option.exhaust; cases "the x") (auto simp: lift_io_def)

theorem request_recv_spec_witness:
  "recv_ends (Suc (Suc (Suc (Suc 0)))) sample_libc default_request
     (lift_io (request_text sample_libc (bytes_of ''{\"cmd\":[\"a\"],\"uid\":2}'') default_request))
     [(File (Read 0 4095), Data (bytes_of ''{\"cmd\":[\"a\"]'')), (File (Read 0 4083), Err EINTR),
      (File (Read 0 4083), Data (bytes_of '',\"uid\":2}'')), (File (Read 0 4074), Data [])]"
proof -
  let ?tr = "[(File (Read 0 4095), Data (bytes_of ''{\"cmd\":[\"a\"]'')), (File (Read 0 4083), Err EINTR),
      (File (Read 0 4083), Data (bytes_of '',\"uid\":2}'')), (File (Read 0 4074), Data [])]"
  have "exec (request_recv (Suc (Suc (Suc (Suc 0)))) sample_libc default_request) ?tr
      (lift_io (request_text sample_libc (bytes_of ''{\"cmd\":[\"a\"],\"uid\":2}'') default_request))"
    by (simp add: request_recv_def sample_libc_def bytes_of_def)
  moreover have "\<forall>n. malloc sample_libc n" by (simp add: sample_libc_def)
  ultimately show ?thesis
    using request_recv_spec [OF _ sample_times] halted_lift_io by blast
qed

text \<open>The data of the answers to \<open>read\<close> before the end of the input.\<close>

fun chunk :: "answer \<Rightarrow> bytes" where
  "chunk (Data d) = d"
| "chunk _ = []"

lemma read_loop_run:
  assumes "\<forall>n. malloc L n"
  shows "\<forall>a \<in> set as. a = Err EINTR \<or> (\<exists>d. d \<noteq> [] \<and> a = Data d) \<Longrightarrow>
    snd (run (as @ [Data []]) (bind_io (read_loop (Suc (length as)) L cap data) f)) = f (data @ concat (map chunk as))"
proof (induction "as" arbitrary: cap data)
  case Nil
  then show ?case unfolding read_loop_Suc [OF assms] list.size Let_def by simp
next
  case (Cons a "as")
  then consider "a = Err EINTR" | d where "d \<noteq> []" "a = Data d" by auto
  then show ?case
  proof cases
    case 1
    then show ?thesis unfolding length_Cons read_loop_Suc [OF assms, of "Suc _"] Let_def
      using Cons.IH Cons.prems by (simp add: split_def del: read_loop.simps)
  next
    case (2 d)
    then show ?thesis unfolding length_Cons read_loop_Suc [OF assms, of "Suc _"] Let_def
      using Cons.IH [of _ "data @ d"] Cons.prems by (simp add: split_def del: read_loop.simps)
  qed
qed


lemma request_spec_defined: "request_spec L root r ms \<noteq> None"
proof -
  have [simp]: "invalid p t \<noteq> None" for p t by (simp add: invalid_def del: not_None_eq)
  have "andthen m f \<noteq> None" if "m \<noteq> None" "\<And>x. f x \<noteq> None" for m :: "sandals_request result" and f :: "sandals_request \<Rightarrow> sandals_request result"
    using that by (auto simp: andthen_def split: sum.splits)
  then show ?thesis
    unfolding request_spec_def Let_def by (simp split: option.split json.split prod.split del: not_None_eq)
qed

text \<open>C10: Receiving a request ends with an answer: however the input is cut into pieces and however
  often \<open>read\<close> is interrupted, one more round of the loop than there are pieces and interruptions
  is enough, and the bytes of all pieces are then parsed, which ends too.
\<close>

theorem request_recv_live:
  assumes "\<forall>n. malloc L n" and "\<forall>a \<in> set as. a = Err EINTR \<or> (\<exists>d. d \<noteq> [] \<and> a = Data d)"
    and "times_defined L (concat (map chunk as))"
  shows "\<exists>res. text_spec L (concat (map chunk as)) r (Some res) \<and>
    bind_io (snd (run (as @ [Data []]) (request_recv (Suc (length as)) L r))) (\<lambda>(r, d). Returns r) = lift_io (Some res)"
proof -
  let ?data = "concat (map chunk as)"
  define res where "res = andthen (request_text L ?data r) (\<lambda>(r, d). ok r)"
  have spec: "text_spec L ?data r res" using request_text_spec [OF assms(1,3)] by (simp add: res_def)
  have "snd (run (as @ [Data []]) (request_recv (Suc (length as)) L r)) = lift_io (request_text L ?data r)"
    unfolding request_recv_def read_loop_run [OF assms(1,2)] append.simps ..
  moreover have "bind_io (lift_io (request_text L ?data r)) (\<lambda>(r, d). Returns r) = lift_io res"
    unfolding res_def lift_io_bind [symmetric] by (auto intro!: arg_cong2 [where f = bind_io])
  moreover have "res \<noteq> None"
  proof (cases "\<exists>v. json_document v ?data")
    case True
    then obtain v where "json_document v ?data" by blast
    then show ?thesis using spec request_spec_defined unfolding text_spec_def by (cases v) fastforce+
  next
    case False
    then show ?thesis using spec unfolding text_spec_def by simp
  qed
  ultimately show ?thesis using spec by auto
qed

theorem request_recv_live_witness:
  "\<exists>res. text_spec sample_libc (bytes_of ''{}'') default_request (Some res) \<and>
    bind_io (snd (run [Data (bytes_of ''{''), Err EINTR, Data (bytes_of ''}''), Data []]
      (request_recv (Suc (Suc (Suc (Suc 0)))) sample_libc default_request))) (\<lambda>(r, d). Returns r) = lift_io (Some res)"
proof -
  let ?as = "[Data (bytes_of ''{''), Err EINTR, Data (bytes_of ''}'')]"
  have "\<forall>n. malloc sample_libc n" "\<forall>a \<in> set ?as. a = Err EINTR \<or> (\<exists>d. d \<noteq> [] \<and> a = Data d)"
    by (simp_all add: sample_libc_def bytes_of_def)
  moreover have "concat (map chunk ?as) = bytes_of ''{}''" by (simp add: bytes_of_def)
  ultimately show ?thesis
    using request_recv_live [of sample_libc ?as default_request, OF _ _ sample_times]
    by (simp only: length_Cons list.size(3) append.simps simp_thms)
qed

section \<open>Time limits\<close>

lemma excess_le: "n < 2 ^ (53 + j) \<Longrightarrow> excess n \<le> j"
proof (induction j arbitrary: n)
  case 0
  then show ?case by (simp add: excess.simps)
next
  case (Suc j)
  then have "n div 2 < 2 ^ (53 + j)" by (simp add: power_add less_mult_imp_div_less)
  then show ?case using Suc.IH [of "n div 2"] by (subst excess.simps) simp
qed

lemma fraction_bounds:
  assumes "0 \<le> m" and "e < 0"
  shows "0 \<le> fraction m e" and "fraction m e < 2 ^ nat (- e)" and "fraction m e \<le> m"
  using assms by (auto simp: fraction_def intro: zmod_le_nonneg_dividend)

text \<open>
  The fraction differs from one by more than half of the distance of the products near \<open>1e9\<close>, so
  that rounding never reaches \<open>1e9\<close>.
\<close>

lemma round_fraction:
  assumes "f < 2 ^ K" and "f < 2 ^ 53" and "k = excess (f * 10 ^ 9)"
  shows "k < K \<or> k = 0" and "k \<le> K \<Longrightarrow> round_half_even (f * 10 ^ 9) k < 10 ^ 9 * 2 ^ (K - k)"
proof -
  let ?n = "f * 10 ^ 9"
  have "?n < 2 ^ 53 * 2 ^ 30" using assms(2) by simp
  then have k30: "k \<le> 30" unfolding assms(3) by (intro excess_le) (simp add: power_add)
  have "?n < 2 ^ K * 2 ^ 30" using assms(1) by simp
  then have kK: "?n < 2 ^ (K + 30)" by (simp add: power_add)
  show "k < K \<or> k = 0"
  proof (cases "23 \<le> K")
    case True
    then have "53 + (K - 23) = K + 30" by simp
    then have "k \<le> K - 23" using kK unfolding assms(3) by (intro excess_le) (simp only:)
    then show ?thesis using True by linarith
  next
    case False
    then have "(2::nat) ^ (K + 30) \<le> 2 ^ (53 + 0)" by (intro power_increasing) simp_all
    then have "k \<le> 0" using kK unfolding assms(3) by (intro excess_le) linarith
    then show ?thesis by simp
  qed
  assume "k \<le> K"
  define Q :: nat where "Q = 10 ^ 9 * 2 ^ (K - k)"
  have Qk: "Q * 2 ^ k = 10 ^ 9 * 2 ^ K"
    using \<open>k \<le> K\<close> by (simp add: Q_def mult.assoc flip: power_add)
  have n: "?n + 10 ^ 9 \<le> Q * 2 ^ k" unfolding Qk using assms(1) by (simp add: Suc_le_eq)
  have k2: "(2::nat) ^ k \<le> 2 ^ 30" using k30 by (intro power_increasing) simp_all
  have dm: "?n = ?n div 2 ^ k * 2 ^ k + ?n mod 2 ^ k" by (simp only: div_mult_mod_eq)
  have less: "?n div 2 ^ k < Q" using n by (intro less_mult_imp_div_less) simp
  have "round_half_even ?n k < Q"
  proof (cases "?n div 2 ^ k + 1 < Q")
    case True
    then show ?thesis by (simp add: round_half_even_def Let_def)
  next
    case False
    then have "Q = ?n div 2 ^ k + 1" using less by linarith
    then have "Q * 2 ^ k = ?n div 2 ^ k * 2 ^ k + 2 ^ k" by (simp only: distrib_right mult_1)
    then have "?n mod 2 ^ k + 10 ^ 9 \<le> 2 ^ k" using n dm by linarith
    then have "2 * (?n mod 2 ^ k) < 2 ^ k" using k2 by (simp add: numeral_2_eq_2 [symmetric])
    then show ?thesis using less by (simp add: round_half_even_def Let_def)
  qed
  then show "round_half_even ?n k < 10 ^ 9 * 2 ^ (K - k)" unfolding Q_def .
qed


lemma nanoseconds_bounds:
  assumes "0 \<le> m" and "m < 2 ^ 53"
  shows "0 \<le> nanoseconds m e" and "nanoseconds m e < 10 ^ 9"
proof -
  have "0 \<le> nanoseconds m e \<and> nanoseconds m e < 10 ^ 9"
  proof (cases "0 \<le> e")
    case True
    then show ?thesis by (simp add: nanoseconds_def fraction_def round_half_even_def whole_def)
  next
    case False
    define f K k where "f = nat (fraction m e)" and "K = nat (- e)" and "k = excess (f * 10 ^ 9)"
    note b = fraction_bounds [OF assms(1), of e]
    have f: "f < 2 ^ K" "f < 2 ^ 53"
      using b False assms(2) unfolding f_def K_def by (auto simp: nat_less_iff)
    from round_fraction [OF f k_def] have k: "k < K \<or> k = 0" "k \<le> K \<Longrightarrow> round_half_even (f * 10 ^ 9) k < 10 ^ 9 * 2 ^ (K - k)"
      by blast+
    have "0 < K" using False by (simp add: K_def)
    then have kK: "k < K" using k(1) by auto
    then have e: "e + int k = - int (K - k)" using False by (simp add: K_def)
    have n: "nanoseconds m e = int (round_half_even (f * 10 ^ 9) k) div 2 ^ (K - k)"
      unfolding nanoseconds_def Let_def f_def [symmetric] k_def [symmetric] e whole_def using kK by (simp add: nat_diff_distrib)
    have "round_half_even (f * 10 ^ 9) k < 10 ^ 9 * 2 ^ (K - k)" using k(2) kK by simp
    then have "round_half_even (f * 10 ^ 9) k div 2 ^ (K - k) < 10 ^ 9" by (rule less_mult_imp_div_less)
    moreover have "int (round_half_even (f * 10 ^ 9) k) div 2 ^ (K - k) = int (round_half_even (f * 10 ^ 9) k div 2 ^ (K - k))"
      by (simp add: zdiv_int)
    ultimately show ?thesis unfolding n by simp
  qed
  then show "0 \<le> nanoseconds m e" "nanoseconds m e < 10 ^ 9" by auto
qed

text \<open>C11: A time limit becomes whole seconds and nanoseconds below \<open>1e9\<close>, as \<open>timerfd_settime\<close> needs
  them: the product with \<open>1e9\<close> is never rounded up to it. The seconds are the whole part of the
  number, or the greatest \<open>long\<close> if they exceed \<open>2 ^ 63\<close>. For the whole part \<open>2 ^ 63\<close> itself, which the
  comparison with \<open>LONG_MAX\<close> as a double lets through, the conversion is undefined.
\<close>

theorem time_limit_bounds:
  assumes "0 \<le> m" and "m < 2 ^ 53"
  shows "(timespec_of (Finite m e) = None \<longleftrightarrow> whole m e = 2 ^ 63) \<and>
    (\<forall>s n. timespec_of (Finite m e) = Some (s, n) \<longrightarrow>
       0 \<le> n \<and> n < 10 ^ 9 \<and> 0 \<le> s \<and> s = (if 2 ^ 63 < whole m e then LONG_MAX else whole m e))"
proof -
  have "0 \<le> whole m e" using assms by (simp add: whole_def pos_imp_zdiv_nonneg_iff)
  then show ?thesis
    using nanoseconds_bounds [OF assms, of e]
    by (auto simp: timespec_of_def to_integer_def whole_def [of _ 0])
qed

theorem time_limit_bounds_witness:
  "timespec_of (Finite 1 63) = None \<and>
   (\<exists>n. timespec_of (Finite (2 ^ 53 - 1) (- 53)) = Some (0, n) \<and> 0 \<le> n \<and> n < 10 ^ 9)"
proof -
  have "timespec_of (Finite 1 63) = None" using time_limit_bounds [of 1 63] by (simp add: whole_def)
  moreover have "timespec_of (Finite (2 ^ 53 - 1) (- 53)) \<noteq> None"
    using time_limit_bounds [of "2 ^ 53 - 1" "- 53"] by (simp add: whole_def)
  then obtain s n where "timespec_of (Finite (2 ^ 53 - 1) (- 53)) = Some (s, n)" by auto
  ultimately show ?thesis using time_limit_bounds [of "2 ^ 53 - 1" "- 53"] by (simp add: whole_def)
qed

end
