(* ===== verification/Spec2Isabelle.thy ===== *)
theory Spec2Isabelle
  imports Kafel_Findings Syscalldb_Shipped Response Request_Recv
begin

text \<open>
  A verification development for sandals, a tool that runs a program inside a Linux container,
  and for the two libraries it carries: kafel, a compiler from seccomp policies to BPF programs
  with a database of system calls, and jstr, a JSON tokenizer. sandals reads a request in JSON
  from standard input (jstr), compiles the seccomp policy in it (kafel), runs the program and
  writes a response in JSON.

  \<^bold>\<open>Shared.\<close> \<open>Prelude\<close> has machine words, \<open>qsort\<close> and lemmas on lists and options. A failed assertion,
  an access outside an array and other undefined behaviour is \<open>None\<close>.

  \<^bold>\<open>kafel\<close> (\<open>src/kafel/src\<close>). A filter's expression is simplified (\<open>Kafel_Expr\<close> for \<open>expression.c\<close>); filters
  make policies (\<open>Kafel_Policy\<close>, \<open>policy.c\<close>) in a context (\<open>Kafel_Context\<close>, \<open>context.c\<close>); the policy
  becomes a table of rules over ranges of system call numbers (\<open>Kafel_Ranges\<close>, \<open>range_rules.c\<close>), and
  the table a BPF program (\<open>Kafel_Codegen\<close>, \<open>codegen.c\<close>). \<open>Kafel_Bpf\<close> has the instruction set with
  the meaning the kernel gives it: the laws of the machine as the locale \<open>bpf_machine\<close> and a machine
  that satisfies them. \<open>Kafel_Normal\<close> and \<open>Kafel_Fill\<close> show that normalisation keeps the decisions,
  \<open>Kafel_Emit\<close> what emitted jumps do, \<open>Kafel_Cmp\<close> and \<open>Kafel_Sound\<close> the code for comparisons and
  expressions, \<open>Kafel_Table\<close> the binary search over the table, and \<open>Kafel_Compile\<close> puts them together,
  over the locales \<open>rule_tables\<close> and \<open>policy_compiler\<close>. The results have conditions, each of which the
  code needs: at most 256 instructions, a rule with a condition that comes first for its number alone
  for it, no mask by a second argument compared with a non-constant, comparisons between constants
  within 32 bits, clean upper halves of short arguments. \<open>Kafel_Findings\<close> shows for most of them what
  the code does without: \<open>false_offset_goes_stale\<close>, \<open>second_condition_dropped\<close>,
  \<open>mask_overwrites_operand\<close>, \<open>constants_folded_in_32_bits\<close>, and \<open>dead_code_becomes_program\<close> for policies
  that decide every call by default.

  \<^bold>\<open>System calls\<close> (\<open>src/kafel/src/syscall.c\<close>, \<open>syscalldb.inl\<close>, \<open>syscalls/\<close>). \<open>Kafel_Syscall\<close> has descriptions and
  the lookups in the packed database, \<open>Syscalldb_Generator\<close> the program that makes it, and one theory
  \<open>Syscalls_\<close> for each of the six shipped tables. \<open>Syscalldb_Args\<close>, \<open>Syscalldb_Blocks\<close>, \<open>Syscalldb_Merge\<close> and
  \<open>Syscalldb_Lookup\<close> show that lookups return the rows of the tables, \<open>Syscalldb_Total\<close> that the generator
  ends, \<open>Syscalldb_Tables\<close> that the shipped tables meet what this needs, and \<open>Syscalldb_Shipped\<close> has the
  results. The hash function that gperf makes is a parameter with the hypothesis \<open>gperf_ok\<close>.

  \<^bold>\<open>jstr\<close> (\<open>src/jstr\<close>). \<open>Jstr\<close> has one function per label of \<open>jstr_parse\<close>, over a text and a token array as
  lists; \<open>Json\<close> has the grammar of RFC 8259 with the tokenizer's number syntax. \<open>Jstr_Chars\<close>, \<open>Jstr_Number\<close>,
  \<open>Jstr_Utf8\<close> and \<open>Jstr_String\<close> treat the lexical parts, \<open>Jstr_Grammar\<close> prefixes of JSON texts. \<open>Jstr_Sound\<close>
  has the invariant, \<open>Jstr_Complete\<close> that JSON texts are accepted, \<open>Jstr_Parser\<close> the results: acceptance
  and tokens, safety, resumption with more tokens, and which numbers are read.

  \<^bold>\<open>sandals\<close> (\<open>src/src\<close>). \<open>Sandals_Base\<close> has bytes, statuses and failures; \<open>Sandals_Io\<close> programs as trees of
  calls to the kernel, their executions under all answers that fit a call, and weakest preconditions.
  \<open>Response\<close> is for \<open>response.c\<close> and \<open>fail.c\<close>: what \<open>fail\<close> sends is a JSON text that reads back, for messages
  in UTF-8. \<open>Jshelper\<close> is for \<open>jshelper.c\<close>, \<open>Request\<close> for \<open>request.c\<close>. \<open>Json_Dom\<close> shows what the loops and
  getters do on an array of tokens that describes a value (the locale \<open>json_tokens\<close>); \<open>Request_Spec\<close> that
  \<open>request_parse\<close> is a function of the JSON value, and \<open>Request_Recv\<close> that receiving a request is this
  function of standard input, that it ends, and how time limits are converted. \<open>malloc\<close> and \<open>strtod\<close> are
  parameters (\<open>libc\<close>).

  \<^bold>\<open>Bounds.\<close> The loops that read and write take the number of calls they may make as an argument, and
  an execution that has used them up is \<open>Waiting\<close>. \<open>request_recv_live\<close> shows that one call more than
  there are pieces of input and interruptions is enough. \<open>parse_loop\<close> is a partial function, and is
  shown to return. All other recursions are structural or have a termination proof.

  \<^bold>\<open>Not modelled.\<close> The generated parser of policies (\<open>parser.y\<close>, \<open>lexer.l\<close>), include files (\<open>includes.c\<close>) and the
  entry points (\<open>kafel.c\<close>); of sandals the supervisor, the spawner, mounts, control groups, pipes, ids,
  the network and \<open>main\<close>, which mostly call the kernel; the tools and tests. Memory is never released.
\<close>

end
